(* ===== verification/Prelude.thy ===== *)
theory Prelude
  imports Main "HOL-Library.Word" "HOL-Library.Char_ord" "HOL-Library.List_Lexorder" "HOL-Library.Multiset"
begin

text \<open>
  Shared vocabulary of the development: the machine integers the library uses, the
  characters of \<open>std::string\<close> read as bytes, and the two-byte big-endian fields of the
  MQTT wire format.
\<close>

unbundle bit_operations_syntax

type_synonym u8 = "8 word"
type_synonym u16 = "16 word"
type_synonym u32 = "32 word"

named_theorems step_simps \<open>unfolding of the one-byte steps of the incremental parsers\<close>
named_theorems enc_simps \<open>facts about the encoders and the bytes they write\<close>


section \<open>Characters and bytes\<close>

text \<open>
  \<open>static_cast<uint8_t>(c)\<close> and \<open>static_cast<char>(byte)\<close>: a \<open>std::string\<close> is a list
  of bytes, and HOL's \<open>char\<close> is a byte too.
\<close>

definition byte_of_char :: "char \<Rightarrow> u8" where
  "byte_of_char c = of_char c"

definition char_of_byte :: "u8 \<Rightarrow> char" where
  "char_of_byte b = char_of (unat b)"

lemma of_char_less_256 [simp]: "(of_char c :: nat) < 256"
  by (metis mod_less_divisor of_char_mod_256 zero_less_numeral)

lemma unat_byte_of_char [simp]: "unat (byte_of_char c) = of_char c"
proof -
  have "byte_of_char c = of_nat (of_char c)"
    by (simp add: byte_of_char_def of_nat_of_char)
  then show ?thesis by (simp add: unat_of_nat)
qed

lemma char_of_byte_of_char [simp]: "char_of_byte (byte_of_char c) = c"
  by (simp add: char_of_byte_def)

lemma byte_of_char_of_byte [simp]: "byte_of_char (char_of_byte b) = b"
proof -
  have "unat b < 2 ^ LENGTH(8)" by (rule unsigned_less)
  then have "unat (byte_of_char (char_of_byte b)) = unat b"
    by (simp add: char_of_byte_def)
  then show ?thesis by (simp only: word_unat_eq_iff)
qed

definition bytes_of :: "string \<Rightarrow> u8 list" where
  "bytes_of s = List.map byte_of_char s"

lemma bytes_of_simps [simp]:
  "bytes_of [] = []"
  "bytes_of (c # s) = byte_of_char c # bytes_of s"
  "bytes_of (s @ t) = bytes_of s @ bytes_of t"
  "length (bytes_of s) = length s"
  by (simp_all add: bytes_of_def)


section \<open>Two-byte big-endian fields\<close>

text \<open>
  The encoders write \<open>(x & 0xFF00) >> 8\<close> and \<open>x & 0x00FF\<close>; the parsers read the
  field back as \<open>byte << 8\<close> and then \<open>|= byte\<close>.
\<close>

definition hi_byte :: "u16 \<Rightarrow> u8" where
  "hi_byte x = ucast (drop_bit 8 (x AND 0xFF00))"

definition lo_byte :: "u16 \<Rightarrow> u8" where
  "lo_byte x = ucast (x AND 0x00FF)"

lemma bit_0x00FF: "bit (0x00FF :: u16) n \<longleftrightarrow> n < 8"
proof -
  have eq: "(0x00FF :: u16) = mask 8" by (simp add: mask_eq_exp_minus_1)
  show ?thesis unfolding eq by (simp only: bit_mask_iff) auto
qed

lemma bit_0xFF00: "bit (0xFF00 :: u16) n \<longleftrightarrow> 8 \<le> n \<and> n < 16"
proof -
  have eq: "(0xFF00 :: u16) = push_bit 8 (mask 8)"
    by (simp add: mask_eq_exp_minus_1 push_bit_eq_mult)
  show ?thesis unfolding eq by (simp only: bit_push_bit_iff bit_mask_iff) auto
qed

lemma bit_hi_byte: "bit (hi_byte x) n \<longleftrightarrow> n < 8 \<and> bit x (n + 8)"
  by (simp only: hi_byte_def bit_unsigned_iff bit_and_iff bit_drop_bit_eq comp_def bit_0xFF00)
    (auto simp: add.commute)

lemma bit_lo_byte: "bit (lo_byte x) n \<longleftrightarrow> n < 8 \<and> bit x n"
  by (simp only: lo_byte_def bit_unsigned_iff bit_and_iff bit_0x00FF) auto

lemma hi_lo_join16:
  "push_bit 8 (ucast (hi_byte x) :: u16) OR (ucast (lo_byte x) :: u16) = x"
proof (rule bit_word_eqI)
  fix n assume "n < LENGTH(16)"
  then show "bit (push_bit 8 (ucast (hi_byte x)) OR ucast (lo_byte x) :: u16) n = bit x n"
    by (cases "n < 8") (auto simp: bit_simps bit_hi_byte bit_lo_byte)
qed

lemma hi_lo_join32:
  "push_bit 8 (ucast (hi_byte x) :: u32) OR (ucast (lo_byte x) :: u32) = ucast x"
proof (rule bit_word_eqI)
  fix n assume "n < LENGTH(32)"
  have "bit x n \<Longrightarrow> n < 16" using bit_imp_le_length [of x n] by simp
  then show "bit (push_bit 8 (ucast (hi_byte x)) OR ucast (lo_byte x) :: u32) n = bit (ucast x :: u32) n"
    using \<open>n < LENGTH(32)\<close>
    by (cases "n < 8") (auto simp: bit_simps bit_hi_byte bit_lo_byte)
qed

lemma unat_ucast_u16_u32: "unat (ucast (x :: u16) :: u32) = unat x"
proof -
  have "unat x < 2 ^ LENGTH(16)" by (rule unsigned_less)
  then have "unat x < 2 ^ 32" by simp
  then show ?thesis by (simp add: unsigned_ucast_eq take_bit_nat_eq_self)
qed


section \<open>Length fields held in 32 bits\<close>

lemma unat_dec [simp]: "(x :: u32) \<noteq> 0 \<Longrightarrow> unat (x - 1) = unat x - 1"
  by (rule unat_minus_one)

lemma unat_0_iff_u32: "unat (x :: u32) = 0 \<longleftrightarrow> x = 0"
  by (rule unat_eq_0)

lemma u32_of_nat_unat: "n < 2 ^ 32 \<Longrightarrow> unat (of_nat n :: u32) = n"
  by (simp add: unat_of_nat)

lemma u16_of_nat_unat: "n < 2 ^ 16 \<Longrightarrow> unat (of_nat n :: u16) = n"
  by (simp add: unat_of_nat)

lemma u32_sub_of_nat:
  assumes "n \<le> unat (x :: u32)"
  shows "unat (x - of_nat n) = unat x - n"
proof -
  have "unat x < 2 ^ LENGTH(32)" by (rule unsigned_less)
  with assms have n: "unat (of_nat n :: u32) = n" by (simp add: unat_of_nat)
  with assms have "(of_nat n :: u32) \<le> x" by (simp add: word_le_nat_alt)
  then show ?thesis using n by (simp add: unat_sub)
qed

lemma u32_sub_Suc: "(x :: u32) - of_nat n - 1 = x - of_nat (Suc n)"
  by simp

end
