(* ===== verification/Mqtt_Types.thy ===== *)
theory Mqtt_Types
  imports Prelude
begin

text \<open>
  The data model of acatl_mqtt: the enumerations of mqtt_types.h, the error codes of
  mqtt_error.h and the fixed header of mqtt_control_packets.h. A \<open>std::error_code&\<close>
  argument is modelled as a value of type \<open>ec\<close> that the operation takes and returns
  (\<open>None\<close> is a cleared code).
\<close>

section \<open>Error codes (mqtt_error.h)\<close>

datatype mqtt_error =
    invalid_control_packet_type
  | malformed_remaining_length
  | string_length_violation
  | duplicate_connect_protocol_violation
  | connect_protocol_violation
  | protocol_name_violation
  | unacceptable_protocol_level
  | connect_flag_protocol_violation
  | will_message_protocol_violation
  | authorization_protocol_violation
  | control_packet_length
  | malformed_control_packet
  | packet_identifier_length_violation
  | subscribe_protocol_violation
  | invalid_topic_filter
  | connect_acknowledge_flag_violation
  | invalid_connect_return_code
  | feature_not_implemented
  | control_packet_not_allowed
  | dup_flag_violation
  | invalid_qos_level
  | publish_protocol_violation
  | not_connected
  | session_in_use
  | session_not_found
  | no_packet_sender
  | invalid_wildcard_in_topic
  | clean_session_not_set_for_empty_client_id

type_synonym ec = "mqtt_error option"

definition mqtt_error_table :: "(mqtt_error \<times> int \<times> string) list" where
  "mqtt_error_table =
    [(invalid_control_packet_type, 1, ''Invalid control packet type''),
     (malformed_remaining_length, 2, ''Malformed Remaining Length''),
     (string_length_violation, 3, ''String length violation''),
     (duplicate_connect_protocol_violation, 4, ''Duplicate connect protocol violation''),
     (connect_protocol_violation, 5, ''Connect protocol violation''),
     (protocol_name_violation, 6, ''Protocol name violation''),
     (unacceptable_protocol_level, 7, ''Unacceptable protocol level''),
     (connect_flag_protocol_violation, 8, ''Connect flag not set to zero''),
     (will_message_protocol_violation, 9, ''Will message protocol violation''),
     (authorization_protocol_violation, 10, ''Authorization protocol violation''),
     (control_packet_length, 11, ''Control packet length error''),
     (malformed_control_packet, 12, ''Malformed control packet''),
     (packet_identifier_length_violation, 13, ''Packet identifier length violation''),
     (subscribe_protocol_violation, 14, ''Subscribe protocol violation''),
     (invalid_topic_filter, 15, ''Invalid topic filter''),
     (connect_acknowledge_flag_violation, 16, ''Connect acknowledge flag violation''),
     (invalid_connect_return_code, 17, ''Invalid connect return code''),
     (feature_not_implemented, 18, ''Feature not implemented''),
     (control_packet_not_allowed, 19, ''Control packet not allowed''),
     (dup_flag_violation, 20, ''Dup flag violation''),
     (invalid_qos_level, 21, ''Invalid QoS level''),
     (publish_protocol_violation, 22, ''Publish protocol violation''),
     (not_connected, 23, ''Not connected''),
     (session_in_use, 24, ''Session is in use for client id''),
     (session_not_found, 25, ''Cannot find session for client id''),
     (no_packet_sender, 26, ''No packet sender''),
     (invalid_wildcard_in_topic, 27, ''Invalid wildcard in topic name''),
     (clean_session_not_set_for_empty_client_id, 28, ''Clean session not set for empty client id'')]"

text \<open>\<open>static_cast<int>(e)\<close> of \<open>make_error_code\<close>.\<close>

definition mqtt_error_value :: "mqtt_error \<Rightarrow> int" where
  "mqtt_error_value e = fst (the (map_of mqtt_error_table e))"

text \<open>
  \<open>mqtt_error_category_t::message\<close>: the default branch throws
  \<open>std::runtime_error\<close>, modelled as \<open>None\<close>.
\<close>

definition mqtt_error_message :: "int \<Rightarrow> string option" where
  "mqtt_error_message ev = map_of (List.map snd mqtt_error_table) ev"

lemma mqtt_error_value_range: "1 \<le> mqtt_error_value e \<and> mqtt_error_value e \<le> 28"
  by (cases e) (simp_all add: mqtt_error_value_def mqtt_error_table_def)

lemma mqtt_error_message_defined: "\<exists>m. mqtt_error_message (mqtt_error_value e) = Some m \<and> m \<noteq> []"
  by (cases e) (simp_all add: mqtt_error_value_def mqtt_error_message_def mqtt_error_table_def)

lemma mqtt_error_message_throws_iff: "mqtt_error_message ev = None \<longleftrightarrow> ev < 1 \<or> 28 < ev"
proof -
  have dom: "fst ` set (List.map snd mqtt_error_table) = {1..28}"
    by (auto simp: mqtt_error_table_def) presburger
  show ?thesis
    unfolding mqtt_error_message_def map_of_eq_None_iff dom by auto
qed


section \<open>Enumerations (mqtt_types.h)\<close>

datatype ConnectionState = Keep | Close

datatype ControlPacketType =
    NoType | Connect | Connack | Publish | Puback | Pubrec | Pubrel | Pubcomp
  | Subscribe | Suback | Unsubscribe | Unsuback | Pingreq | Pingresp | Disconnect | Reserved

text \<open>The underlying \<open>uint8_t\<close> values; the type sits in the upper four bits.\<close>

fun ControlPacketType_byte :: "ControlPacketType \<Rightarrow> u8" where
  "ControlPacketType_byte NoType = 0"
| "ControlPacketType_byte Connect = 0x10"
| "ControlPacketType_byte Connack = 0x20"
| "ControlPacketType_byte Publish = 0x30"
| "ControlPacketType_byte Puback = 0x40"
| "ControlPacketType_byte Pubrec = 0x50"
| "ControlPacketType_byte Pubrel = 0x60"
| "ControlPacketType_byte Pubcomp = 0x70"
| "ControlPacketType_byte Subscribe = 0x80"
| "ControlPacketType_byte Suback = 0x90"
| "ControlPacketType_byte Unsubscribe = 0xA0"
| "ControlPacketType_byte Unsuback = 0xB0"
| "ControlPacketType_byte Pingreq = 0xC0"
| "ControlPacketType_byte Pingresp = 0xD0"
| "ControlPacketType_byte Disconnect = 0xE0"
| "ControlPacketType_byte Reserved = 0xF0"

text \<open>
  \<open>ControlPacketType(byte & 0xF0)\<close>: the sixteen values of a byte masked with
  \<open>0xF0\<close> are all enumerators, so the cast is total on them.
\<close>

definition ControlPacketType_of :: "u8 \<Rightarrow> ControlPacketType" where
  "ControlPacketType_of b =
     (if b = 0 then NoType else if b = 0x10 then Connect else if b = 0x20 then Connack
      else if b = 0x30 then Publish else if b = 0x40 then Puback else if b = 0x50 then Pubrec
      else if b = 0x60 then Pubrel else if b = 0x70 then Pubcomp else if b = 0x80 then Subscribe
      else if b = 0x90 then Suback else if b = 0xA0 then Unsubscribe else if b = 0xB0 then Unsuback
      else if b = 0xC0 then Pingreq else if b = 0xD0 then Pingresp else if b = 0xE0 then Disconnect
      else Reserved)"

lemma ControlPacketType_of_byte [simp]: "ControlPacketType_of (ControlPacketType_byte t) = t"
  by (cases t) (simp_all add: ControlPacketType_of_def)

lemma ControlPacketType_byte_masks [simp]:
  "ControlPacketType_byte t AND 0xF0 = ControlPacketType_byte t"
  "ControlPacketType_byte t AND 0x0F = 0"
  by (cases t; simp)+

text \<open>\<open>operator<<\<close> for control packet types, used by the log lines and by tests.\<close>

fun ControlPacketType_name :: "ControlPacketType \<Rightarrow> string" where
  "ControlPacketType_name NoType = ''uninitialized''"
| "ControlPacketType_name Connect = ''connect''"
| "ControlPacketType_name Connack = ''connack''"
| "ControlPacketType_name Publish = ''publish''"
| "ControlPacketType_name Puback = ''puback''"
| "ControlPacketType_name Pubrec = ''pubrec''"
| "ControlPacketType_name Pubrel = ''pubrel''"
| "ControlPacketType_name Pubcomp = ''pubcomp''"
| "ControlPacketType_name Subscribe = ''subscribe''"
| "ControlPacketType_name Suback = ''suback''"
| "ControlPacketType_name Unsubscribe = ''unsubscribe''"
| "ControlPacketType_name Unsuback = ''unsuback''"
| "ControlPacketType_name Pingreq = ''pingreq''"
| "ControlPacketType_name Pingresp = ''pingresp''"
| "ControlPacketType_name Disconnect = ''disconnect''"
| "ControlPacketType_name Reserved = ''reserved''"

lemma ControlPacketType_name_inj: "ControlPacketType_name s = ControlPacketType_name t \<Longrightarrow> s = t"
  by (cases s; cases t; simp)

datatype ConnectAcknowledgeFlags = NoFlags | SessionPresent

definition ConnectAcknowledgeFlags_of :: "u8 \<Rightarrow> ConnectAcknowledgeFlags" where
  "ConnectAcknowledgeFlags_of b = (if b = 0 then NoFlags else SessionPresent)"

fun ConnectAcknowledgeFlags_byte :: "ConnectAcknowledgeFlags \<Rightarrow> u8" where
  "ConnectAcknowledgeFlags_byte NoFlags = 0x00"
| "ConnectAcknowledgeFlags_byte SessionPresent = 0x01"

text \<open>
  A \<open>ConnectReturnCode\<close> is an \<open>int\<close> underneath: the parser casts any byte up to 5 to it,
  so a value without an enumerator can occur and is kept as \<open>OtherReturnCode\<close>.
\<close>

datatype ConnectReturnCode =
    ConnectionAccepted | UnacceptableProtocolVersion | IdentifierRejected
  | ServerUnavailable | BadUserNameOrPassword | OtherReturnCode u8

definition ConnectReturnCode_of :: "u8 \<Rightarrow> ConnectReturnCode" where
  "ConnectReturnCode_of b =
     (if b = 0 then ConnectionAccepted else if b = 1 then UnacceptableProtocolVersion
      else if b = 2 then IdentifierRejected else if b = 3 then ServerUnavailable
      else if b = 4 then BadUserNameOrPassword else OtherReturnCode b)"

fun ConnectReturnCode_byte :: "ConnectReturnCode \<Rightarrow> u8" where
  "ConnectReturnCode_byte ConnectionAccepted = 0x00"
| "ConnectReturnCode_byte UnacceptableProtocolVersion = 0x01"
| "ConnectReturnCode_byte IdentifierRejected = 0x02"
| "ConnectReturnCode_byte ServerUnavailable = 0x03"
| "ConnectReturnCode_byte BadUserNameOrPassword = 0x04"
| "ConnectReturnCode_byte (OtherReturnCode b) = b"

lemma ConnectReturnCode_byte_of [simp]: "ConnectReturnCode_byte (ConnectReturnCode_of b) = b"
  by (simp add: ConnectReturnCode_of_def)

datatype QoSLevel = AtMostOnce | AtLeastOnce | ExactlyOnce | QoSError

fun QoSLevel_value :: "QoSLevel \<Rightarrow> u8" where
  "QoSLevel_value AtMostOnce = 0x00"
| "QoSLevel_value AtLeastOnce = 0x01"
| "QoSLevel_value ExactlyOnce = 0x02"
| "QoSLevel_value QoSError = 0x80"

text \<open>
  \<open>QoSLevel(v)\<close>: every cast in the library is guarded so that \<open>v\<close> is at most 2.
\<close>

definition QoSLevel_of :: "u8 \<Rightarrow> QoSLevel" where
  "QoSLevel_of v = (if v = 0 then AtMostOnce else if v = 1 then AtLeastOnce
                    else if v = 2 then ExactlyOnce else QoSError)"

lemma QoSLevel_of_value [simp]: "QoSLevel_of (QoSLevel_value q) = q"
  by (cases q) (simp_all add: QoSLevel_of_def)

fun QoSLevel_name :: "QoSLevel \<Rightarrow> string" where
  "QoSLevel_name AtMostOnce = ''at most once''"
| "QoSLevel_name AtLeastOnce = ''at least once''"
| "QoSLevel_name ExactlyOnce = ''exactly once''"
| "QoSLevel_name QoSError = ''error''"

text \<open>Scoped enumerations are compared by their underlying values.\<close>

instantiation QoSLevel :: linorder
begin

definition less_eq_QoSLevel :: "QoSLevel \<Rightarrow> QoSLevel \<Rightarrow> bool" where
  "less_eq_QoSLevel a b = (QoSLevel_value a \<le> QoSLevel_value b)"

definition less_QoSLevel :: "QoSLevel \<Rightarrow> QoSLevel \<Rightarrow> bool" where
  "less_QoSLevel a b = (QoSLevel_value a < QoSLevel_value b)"

instance
proof
  fix a b c :: QoSLevel
  show "a < b \<longleftrightarrow> a \<le> b \<and> \<not> b \<le> a"
    by (auto simp: less_eq_QoSLevel_def less_QoSLevel_def)
  show "a \<le> a" by (simp add: less_eq_QoSLevel_def)
  show "a \<le> b \<Longrightarrow> b \<le> c \<Longrightarrow> a \<le> c" by (simp add: less_eq_QoSLevel_def)
  show "a \<le> b \<Longrightarrow> b \<le> a \<Longrightarrow> a = b"
    by (cases a; cases b) (simp_all add: less_eq_QoSLevel_def word_le_nat_alt)
  show "a \<le> b \<or> b \<le> a" by (auto simp: less_eq_QoSLevel_def)
qed

end

lemma QoSLevel_order_simps [simp]:
  "AtMostOnce < AtLeastOnce" "AtMostOnce < ExactlyOnce" "AtLeastOnce < ExactlyOnce"
  "\<not> q < AtMostOnce" "(AtMostOnce < q) = (q \<noteq> AtMostOnce)"
  by (cases q; simp add: less_QoSLevel_def)+

type_synonym PacketIdentifier = u16
type_synonym HeaderFlags = u8


section \<open>The fixed header (mqtt_control_packets.h)\<close>

record FixedHeader =
  fh_controlPacketType :: ControlPacketType
  fh_flags :: HeaderFlags
  fh_length :: u32

definition FixedHeader_of :: "ControlPacketType \<Rightarrow> FixedHeader" where
  "FixedHeader_of t = \<lparr>fh_controlPacketType = t, fh_flags = 0, fh_length = 0\<rparr>"

definition FixedHeader_new :: FixedHeader where
  "FixedHeader_new = \<lparr>fh_controlPacketType = NoType, fh_flags = 0, fh_length = 0\<rparr>"

text \<open>\<open>FixedHeader::validate\<close>: the packet types fall in three groups, by the flags they allow.\<close>

definition FixedHeader_validate :: "FixedHeader \<Rightarrow> ec \<Rightarrow> bool \<times> ec" where
  "FixedHeader_validate h err =
     (case fh_controlPacketType h of
        Publish \<Rightarrow>
          (if fh_flags h AND 0x06 = 0 \<and> fh_flags h AND 0x08 \<noteq> 0
           then (False, Some dup_flag_violation)
           else if fh_flags h AND 0x06 = 0x06 then (False, Some invalid_qos_level)
           else (True, err))
      | Pubrel \<Rightarrow>
          (if fh_flags h \<noteq> 0x02 then (False, Some connect_flag_protocol_violation) else (True, err))
      | Subscribe \<Rightarrow>
          (if fh_flags h \<noteq> 0x02 then (False, Some connect_flag_protocol_violation) else (True, err))
      | Unsubscribe \<Rightarrow>
          (if fh_flags h \<noteq> 0x02 then (False, Some connect_flag_protocol_violation) else (True, err))
      | NoType \<Rightarrow> (False, Some invalid_control_packet_type)
      | Reserved \<Rightarrow> (False, Some invalid_control_packet_type)
      | _ \<Rightarrow>
          (if fh_flags h \<noteq> 0 then (False, Some connect_flag_protocol_violation) else (True, err)))"

text \<open>What the flags of an accepted header can be, per type.\<close>

definition flags_allowed :: "ControlPacketType \<Rightarrow> HeaderFlags \<Rightarrow> bool" where
  "flags_allowed t f \<longleftrightarrow>
     (if t = Publish then f AND 0x06 \<noteq> 0x06 \<and> (f AND 0x06 = 0 \<longrightarrow> f AND 0x08 = 0)
      else if t \<in> {Pubrel, Subscribe, Unsubscribe} then f = 0x02
      else t \<notin> {NoType, Reserved} \<and> f = 0)"

lemma FixedHeader_validate_iff:
  "fst (FixedHeader_validate h err) \<longleftrightarrow> flags_allowed (fh_controlPacketType h) (fh_flags h)"
  by (cases "fh_controlPacketType h") (auto simp: FixedHeader_validate_def flags_allowed_def)

lemma FixedHeader_validate_ec:
  "snd (FixedHeader_validate h err) = err \<or>
   \<not> fst (FixedHeader_validate h err) \<and> snd (FixedHeader_validate h err) \<noteq> None"
  by (cases "fh_controlPacketType h") (auto simp: FixedHeader_validate_def)

end
