(* ===== verification/Tribool.thy ===== *)
theory Tribool
  imports Prelude
begin

text \<open>
  The three-state boolean of acatl/tribool.h, the result type of every incremental parser:
  true (finished), false (failed) or indeterminate (more input needed). The class keeps two
  flags; \<open>_state\<close> is set even while the value is indeterminate, so the model keeps both.
\<close>

record Tribool =
  tb_state :: bool
  tb_isIndeterminate :: bool

definition Tribool_new :: Tribool where
  "Tribool_new = \<lparr>tb_state = False, tb_isIndeterminate = True\<rparr>"

definition Tribool_of :: "bool \<Rightarrow> Tribool" where
  "Tribool_of state = \<lparr>tb_state = state, tb_isIndeterminate = False\<rparr>"

definition tribool_eq :: "Tribool \<Rightarrow> Tribool \<Rightarrow> bool" where
  "tribool_eq lhs rhs =
     (if tb_isIndeterminate lhs \<noteq> tb_isIndeterminate rhs \<or> tb_isIndeterminate lhs then False
      else tb_state lhs = tb_state rhs)"

definition isTrue :: "Tribool \<Rightarrow> bool" where
  "isTrue t = (if tb_isIndeterminate t then False else tb_state t)"

definition isFalse :: "Tribool \<Rightarrow> bool" where
  "isFalse t = (if tb_isIndeterminate t then False else \<not> tb_state t)"

definition isIndeterminate :: "Tribool \<Rightarrow> bool" where
  "isIndeterminate t = tb_isIndeterminate t"

definition tribool_set :: "bool \<Rightarrow> Tribool \<Rightarrow> Tribool" where
  "tribool_set state t = t\<lparr>tb_isIndeterminate := False, tb_state := state\<rparr>"

text \<open>\<open>explicit operator bool\<close> and \<open>operator!\<close>.\<close>

definition tribool_bool :: "Tribool \<Rightarrow> bool" where
  "tribool_bool t = isTrue t"

definition tribool_not :: "Tribool \<Rightarrow> bool" where
  "tribool_not t = isFalse t"

lemmas tribool_defs =
  Tribool_new_def Tribool_of_def isTrue_def isFalse_def isIndeterminate_def
  tribool_set_def tribool_bool_def tribool_not_def tribool_eq_def

lemma tribool_simps [simp]:
  "isIndeterminate Tribool_new" "\<not> isTrue Tribool_new" "\<not> isFalse Tribool_new"
  "isTrue (Tribool_of b) = b" "isFalse (Tribool_of b) = (\<not> b)"
  "\<not> isIndeterminate (Tribool_of b)"
  "isTrue (tribool_set b t) = b" "isFalse (tribool_set b t) = (\<not> b)"
  "\<not> isIndeterminate (tribool_set b t)"
  "tribool_bool t = isTrue t"
  "tribool_not t = isFalse t"
  by (simp_all add: tribool_defs)

lemma tribool_set_eq [simp]: "tribool_set b t = Tribool_of b"
  by (cases t) (simp add: tribool_defs)

lemma Tribool_distinct [simp]:
  "Tribool_of b \<noteq> Tribool_new" "Tribool_new \<noteq> Tribool_of b"
  "Tribool_of b = Tribool_of c \<longleftrightarrow> b = c"
  by (auto simp: tribool_defs)

lemma isTrue_eq: "isTrue t \<longleftrightarrow> t = Tribool_of True"
  by (cases t) (auto simp: tribool_defs)

lemma isFalse_eq: "isFalse t \<longleftrightarrow> t = Tribool_of False"
  by (cases t) (auto simp: tribool_defs)

text \<open>Exactly one of the three tests answers yes.\<close>

lemma tribool_cases:
  obtains (indet) "isIndeterminate t" "\<not> isTrue t" "\<not> isFalse t"
  | (true) "\<not> isIndeterminate t" "isTrue t" "\<not> isFalse t"
  | (false) "\<not> isIndeterminate t" "\<not> isTrue t" "isFalse t"
  by (cases "tb_isIndeterminate t"; cases "tb_state t") (simp_all add: tribool_defs)

lemma isTrue_not_isFalse: "isTrue t \<Longrightarrow> \<not> isFalse t"
  by (simp add: tribool_defs split: if_splits)

text \<open>
  The comparison is not reflexive: an indeterminate value is not equal to itself, and the two
  tests are complementary only on determinate values.
\<close>

lemma tribool_eq_refl_iff: "tribool_eq t t \<longleftrightarrow> \<not> isIndeterminate t"
  by (simp add: tribool_defs)

end
