(* ===== verification/Byte_Parser.thy ===== *)
theory Byte_Parser
  imports Mqtt_Types Tribool
begin

text \<open>
  What the incremental parsers of acatl_mqtt have in common. Each has a method
  \<open>Tribool parse(uint8_t byte, std::error_code& ec)\<close>; the model of such a method takes the
  parser's state, the byte and the error code, and returns the answer, the new error code and
  the new state. A caller feeds it bytes until the answer is determinate; \<open>feed\<close> is that
  loop, as \<open>Connection::handle_read\<close> of the MQTT broker example runs it over one read buffer.
\<close>

type_synonym 'p byte_step = "'p \<Rightarrow> u8 \<Rightarrow> ec \<Rightarrow> Tribool \<times> ec \<times> 'p"

text \<open>The answer, the error code and the parser after the loop, and the bytes not consumed.\<close>

fun feed :: "'p byte_step \<Rightarrow> 'p \<Rightarrow> u8 list \<Rightarrow> ec \<Rightarrow> Tribool \<times> ec \<times> 'p \<times> u8 list" where
  "feed parse p [] err = (Tribool_new, err, p, [])"
| "feed parse p (b # bs) err =
     (case parse p b err of
        (r, err', p') \<Rightarrow>
          (if isIndeterminate r then feed parse p' bs err' else (r, err', p', bs)))"

declare feed.simps(2) [simp del]

lemma feed_indet:
  "parse p b err = (r, err', p') \<Longrightarrow> isIndeterminate r \<Longrightarrow> feed parse p (b # bs) err = feed parse p' bs err'"
  by (simp add: feed.simps(2))

lemma feed_stop:
  "parse p b err = (r, err', p') \<Longrightarrow> \<not> isIndeterminate r \<Longrightarrow>
   feed parse p (b # bs) err = (r, err', p', bs)"
  by (simp add: feed.simps(2))

text \<open>The loop behind the answer to one byte.\<close>

definition settle :: "'p byte_step \<Rightarrow> Tribool \<times> ec \<times> 'p \<Rightarrow> u8 list \<Rightarrow> Tribool \<times> ec \<times> 'p \<times> u8 list" where
  "settle parse a rest =
     (case a of (r, err, p) \<Rightarrow> if isIndeterminate r then feed parse p rest err else (r, err, p, rest))"

lemma feed_settle: "feed parse p (b # bs) err = settle parse (parse p b err) bs"
  by (simp add: feed.simps(2) settle_def)

text \<open>The loop stops with an indeterminate answer only when the buffer is exhausted.\<close>

lemma feed_rest:
  "feed parse p bs err = (r, err', p', rest) \<Longrightarrow> isIndeterminate r \<Longrightarrow> rest = []"
  by (induction parse p bs err rule: feed.induct) (auto simp: feed.simps(2) split: prod.splits if_splits)

lemma feed_used:
  "feed parse p bs err = (r, err', p', rest) \<Longrightarrow>
   \<exists>used. bs = used @ rest \<and> feed parse p used err = (r, err', p', [])"
proof (induction parse p bs err rule: feed.induct)
  case (2 parse p b bs err)
  obtain r1 e1 p1 where s: "parse p b err = (r1, e1, p1)" by (cases "parse p b err") auto
  show ?case
  proof (cases "isIndeterminate r1")
    case True
    then have "feed parse p1 bs e1 = (r, err', p', rest)" using "2.prems" s by (simp add: feed_indet)
    then obtain used where "bs = used @ rest" "feed parse p1 used e1 = (r, err', p', [])"
      using "2.IH" [OF s [symmetric] refl True] by blast
    then show ?thesis using s True by (intro exI [of _ "b # used"]) (simp add: feed_indet)
  next
    case False
    then have "bs = rest" "r1 = r" "e1 = err'" "p1 = p'" using "2.prems" s by (simp_all add: feed_stop)
    then show ?thesis using s False by (intro exI [of _ "[b]"]) (simp add: feed_stop)
  qed
qed simp

text \<open>
  Segmentation does not matter: feeding two buffers one after the other is feeding their
  concatenation.
\<close>

lemma feed_append_indet:
  "feed parse p xs err = (r, err', p', rest) \<Longrightarrow> isIndeterminate r \<Longrightarrow>
   feed parse p (xs @ ys) err = feed parse p' ys err'"
proof (induction parse p xs err rule: feed.induct)
  case (2 parse p b bs err)
  obtain r1 e1 p1 where s: "parse p b err = (r1, e1, p1)" by (cases "parse p b err") auto
  show ?case
  proof (cases "isIndeterminate r1")
    case True
    with 2 s show ?thesis by (simp add: feed_indet)
  next
    case False
    with 2 s show ?thesis by (simp add: feed_stop)
  qed
qed simp

lemma feed_append_stop:
  "feed parse p xs err = (r, err', p', rest) \<Longrightarrow> \<not> isIndeterminate r \<Longrightarrow>
   feed parse p (xs @ ys) err = (r, err', p', rest @ ys)"
proof (induction parse p xs err rule: feed.induct)
  case (2 parse p b bs err)
  obtain r1 e1 p1 where s: "parse p b err = (r1, e1, p1)" by (cases "parse p b err") auto
  show ?case
  proof (cases "isIndeterminate r1")
    case True
    with 2 s show ?thesis by (simp add: feed_indet)
  next
    case False
    with 2 s show ?thesis by (auto simp: feed_stop)
  qed
qed auto

lemma feed_append_one:
  "feed parse p xs err = (Tribool_new, err', p', []) \<Longrightarrow> parse p' b err' = (r, err'', p'') \<Longrightarrow>
   \<not> isIndeterminate r \<Longrightarrow> feed parse p (xs @ b # ys) err = (r, err'', p'', ys)"
  by (simp add: feed_append_indet feed_stop)


section \<open>Parsers with a declared length\<close>

text \<open>
  The parsers of packet bodies are reset with the remaining length of the fixed header and
  count it down. Their contract: out of bytes, they fail; a byte costs one; and they report
  success only when nothing is left.
\<close>

locale length_bounded =
  fixes parse :: "'p byte_step" and remaining :: "'p \<Rightarrow> nat"
  assumes out_of_bytes:
      "remaining p = 0 \<Longrightarrow> \<exists>p'. parse p b err = (Tribool_of False, Some control_packet_length, p')"
    and costs_one:
      "remaining p > 0 \<Longrightarrow> parse p b err = (r, err', p') \<Longrightarrow> Suc (remaining p') = remaining p"
    and true_at_end:
      "remaining p > 0 \<Longrightarrow> parse p b err = (r, err', p') \<Longrightarrow> isTrue r \<Longrightarrow> remaining p' = 0"
begin

lemma indeterminate_costs:
  assumes "parse p b err = (r, err', p')" "isIndeterminate r"
  shows "Suc (remaining p') = remaining p"
proof (cases "remaining p")
  case 0
  from out_of_bytes [OF this, of b err] assms show ?thesis by auto
next
  case (Suc n)
  then show ?thesis using costs_one [of p b err] assms by simp
qed

text \<open>A successful parse has consumed exactly the declared length.\<close>

lemma true_consumes_all:
  "feed parse p bs err = (r, err', p', rest) \<Longrightarrow> isTrue r \<Longrightarrow>
   length bs = remaining p + length rest \<and> remaining p' = 0"
proof (induction bs arbitrary: p err)
  case Nil
  then show ?case by (auto simp: tribool_defs)
next
  case (Cons b bs)
  obtain r1 e1 p1 where s: "parse p b err = (r1, e1, p1)" by (cases "parse p b err") auto
  show ?case
  proof (cases "isIndeterminate r1")
    case True
    then have "feed parse p1 bs e1 = (r, err', p', rest)" using Cons.prems s by (simp add: feed_indet)
    then have "length bs = remaining p1 + length rest \<and> remaining p' = 0"
      by (rule Cons.IH) (rule Cons.prems(2))
    then show ?thesis using indeterminate_costs [OF s True] by simp
  next
    case False
    then have eq: "r1 = r" "p1 = p'" "bs = rest" using Cons.prems s by (simp_all add: feed_stop)
    have "remaining p > 0"
      using out_of_bytes [of p b err] s eq Cons.prems(2) by (cases "remaining p") auto
    then show ?thesis
      using costs_one [OF _ s] true_at_end [OF _ s] eq Cons.prems(2) by simp
  qed
qed

text \<open>One byte more than the declared length always settles the answer.\<close>

lemma settles:
  "remaining p < length bs \<Longrightarrow> feed parse p bs err = (r, err', p', rest) \<Longrightarrow> \<not> isIndeterminate r"
proof (induction bs arbitrary: p err)
  case (Cons b bs)
  obtain r1 e1 p1 where s: "parse p b err = (r1, e1, p1)" by (cases "parse p b err") auto
  show ?case
  proof (cases "isIndeterminate r1")
    case True
    then have "feed parse p1 bs e1 = (r, err', p', rest)" using Cons.prems s by (simp add: feed_indet)
    moreover have "remaining p1 < length bs"
      using indeterminate_costs [OF s True] Cons.prems(1) by simp
    ultimately show ?thesis using Cons.IH by blast
  next
    case False
    then show ?thesis using Cons.prems(2) s by (simp add: feed_stop)
  qed
qed simp

lemma too_long_fails:
  assumes "feed parse p bs err = (r, err', p', rest)" "isIndeterminate r" "remaining p = length bs"
  shows "\<exists>q. feed parse p (bs @ [b]) err = (Tribool_of False, Some control_packet_length, q, [])"
proof -
  have "remaining p' = 0"
    using assms
  proof (induction bs arbitrary: p err)
    case (Cons c bs)
    obtain r1 e1 p1 where s: "parse p c err = (r1, e1, p1)" by (cases "parse p c err") auto
    then have i: "isIndeterminate r1" using Cons.prems by (auto simp: feed.simps(2) split: if_splits)
    show ?case
      by (rule Cons.IH [of p1 e1])
        (use Cons.prems s i indeterminate_costs [OF s i] in \<open>simp_all add: feed_indet\<close>)
  qed auto
  from out_of_bytes [OF this, of b err'] obtain q where
    "parse p' b err' = (Tribool_of False, Some control_packet_length, q)" by blast
  then have "feed parse p' [b] err' = (Tribool_of False, Some control_packet_length, q, [])"
    by (rule feed_stop) simp
  then show ?thesis using feed_append_indet [OF assms(1,2), of "[b]"] by auto
qed

end

text \<open>The parsers count in a 32-bit member.\<close>

lemma length_bounded_u32:
  fixes len :: "'p \<Rightarrow> u32"
  assumes stop: "\<And>p b err. len p = 0 \<Longrightarrow>
      \<exists>p'. parse p b err = (Tribool_of False, Some control_packet_length, p')"
    and step: "\<And>p b err r err' p'. len p \<noteq> 0 \<Longrightarrow> parse p b err = (r, err', p') \<Longrightarrow>
      len p' = len p - 1 \<and> (isTrue r \<longrightarrow> len p' = 0)"
  shows "length_bounded parse (\<lambda>p. unat (len p))"
proof
  fix p b err
  assume "unat (len p) = 0"
  then show "\<exists>p'. parse p b err = (Tribool_of False, Some control_packet_length, p')"
    by (intro stop) (simp add: unat_0_iff_u32)
next
  fix p b err r err' p'
  assume pos: "0 < unat (len p)" and s: "parse p b err = (r, err', p')"
  then have ne: "len p \<noteq> 0" by auto
  from step [OF ne s] have "len p' = len p - 1" "isTrue r \<Longrightarrow> len p' = 0" by auto
  then show "Suc (unat (len p')) = unat (len p)" "isTrue r \<Longrightarrow> unat (len p') = 0"
    using ne pos by simp_all
qed


section \<open>A parser that hands its bytes to another one\<close>

locale embedded_parser =
  fixes outer :: "'p byte_step" and inner :: "'q byte_step"
    and get :: "'p \<Rightarrow> 'q" and upd :: "'q \<Rightarrow> 'p \<Rightarrow> 'p"
    and inside :: "'p \<Rightarrow> bool" and finish :: "'p \<Rightarrow> 'p"
  assumes delegates:
      "inside p \<Longrightarrow> inner (get p) b err = (r, err', q) \<Longrightarrow>
       outer p b err =
         (if isFalse r then (Tribool_of False, err', upd q p)
          else if isTrue r then (Tribool_of True, err', finish (upd q p))
          else (Tribool_new, err', upd q p))"
    and get_upd: "get (upd q p) = q"
    and upd_upd: "upd q' (upd q p) = upd q' p"
    and upd_get: "upd (get p) p = p"
    and inside_upd: "inside p \<Longrightarrow> inside (upd q p)"
begin

lemma feed_inner:
  "feed inner (get p) bs err = (r, err', q, rest) \<Longrightarrow> inside p \<Longrightarrow>
   feed outer p bs err =
     (if isFalse r then (Tribool_of False, err', upd q p, rest)
      else if isTrue r then (Tribool_of True, err', finish (upd q p), rest)
      else (Tribool_new, err', upd q p, rest))"
proof (induction bs arbitrary: p err)
  case Nil
  then show ?case using upd_get [of p] by auto
next
  case (Cons b bs)
  obtain r1 e1 q1 where s: "inner (get p) b err = (r1, e1, q1)" by (cases "inner (get p) b err") auto
  note o = delegates [OF Cons.prems(2) s]
  show ?case
  proof (cases r1 rule: tribool_cases)
    case indet
    then have f: "feed inner (get (upd q1 p)) bs e1 = (r, err', q, rest)"
      using Cons.prems(1) s by (simp add: feed_indet get_upd)
    have "outer p b err = (Tribool_new, e1, upd q1 p)" using o indet by simp
    with Cons.IH [OF f inside_upd [OF Cons.prems(2)]] show ?thesis
      by (simp add: feed_indet upd_upd)
  next
    case true
    then have "r1 = r" "e1 = err'" "q1 = q" "bs = rest" using Cons.prems(1) s by (simp_all add: feed_stop)
    with o true show ?thesis by (simp add: feed_stop)
  next
    case false
    then have "r1 = r" "e1 = err'" "q1 = q" "bs = rest" using Cons.prems(1) s by (simp_all add: feed_stop)
    with o false show ?thesis by (simp add: feed_stop)
  qed
qed

lemma outer_true:
  assumes "feed outer p bs err = (r, err', p', rest)" "isTrue r" "inside p"
  obtains q where "feed inner (get p) bs err = (Tribool_of True, err', q, rest)" "p' = finish (upd q p)"
proof -
  obtain r1 e1 q1 rest1 where f: "feed inner (get p) bs err = (r1, e1, q1, rest1)"
    by (cases "feed inner (get p) bs err") auto
  with feed_inner [OF f assms(3)] assms(1,2) have "isTrue r1" "e1 = err'" "rest1 = rest"
    "p' = finish (upd q1 p)" by (auto split: if_splits)
  with f show thesis by (intro that) (simp_all add: isTrue_eq)
qed

end

end
