(* ===== verification/Mqtt_Codec.thy ===== *)
theory Mqtt_Codec
  imports Byte_Parser "HOL-Library.Monad_Syntax"
begin

text \<open>
  The elementary fields of the MQTT wire format: the variable-length remaining length
  (\<open>RunlengthEncoder\<close>, \<open>RunlengthDecoder\<close>), length-prefixed strings
  (\<open>StringEncoder\<close>, \<open>StringParser\<close>), packet identifiers and the fixed header
  (mqtt_utils.h, mqtt_string_parser.h, mqtt_packet_identifier_parser.h,
  mqtt_fixed_header_parser.h).
\<close>

section \<open>Output buffers\<close>

text \<open>
  The encoders take a \<open>std::vector<uint8_t>\<close> and an index and write with
  \<open>buffer[index++] = b\<close>. \<open>operator[]\<close> does not check its argument: a write past the
  end is undefined behaviour, which is \<open>None\<close> here and in everything built on it.
\<close>

type_synonym out_buffer = "u8 list \<times> nat"

definition put :: "u8 \<Rightarrow> out_buffer \<Rightarrow> out_buffer option" where
  "put b ob = (case ob of (buf, i) \<Rightarrow> if i < length buf then Some (buf[i := b], Suc i) else None)"

fun put_all :: "u8 list \<Rightarrow> out_buffer \<Rightarrow> out_buffer option" where
  "put_all [] ob = Some ob"
| "put_all (b # bs) ob = put b ob \<bind> put_all bs"

text \<open>\<open>if(buffer.size() < n) buffer.resize(n);\<close>\<close>

definition grow_to :: "nat \<Rightarrow> u8 list \<Rightarrow> u8 list" where
  "grow_to n buf = (if length buf < n then buf @ replicate (n - length buf) 0 else buf)"

lemma grow_to_length [simp]: "length (grow_to n buf) = max n (length buf)"
  by (simp add: grow_to_def)

lemma put_all_Nil: "put_all [] = Some"
  by (rule ext) simp

lemma put_all_Cons_fun: "put_all (b # bs) = (\<lambda>ob. put b ob \<bind> put_all bs)"
  by (rule ext) simp

lemma put_all_append: "put_all (xs @ ys) ob = put_all xs ob \<bind> put_all ys"
  by (induction xs arbitrary: ob) (auto simp: bind_eq_None_conv split: bind_splits)

lemma put_all_eq:
  "put_all bs (buf, i) =
     (if bs = [] then Some (buf, i)
      else if i + length bs \<le> length buf
      then Some (take i buf @ bs @ drop (i + length bs) buf, i + length bs) else None)"
proof (induction bs arbitrary: buf i)
  case (Cons b bs)
  show ?case
  proof (cases "i < length buf")
    case True
    have t: "take (Suc i) (buf[i := b]) = take i buf @ [b]"
      using True by (simp add: take_Suc_conv_app_nth)
    have d: "drop (Suc (i + length bs)) (buf[i := b]) = drop (Suc (i + length bs)) buf"
      by (rule drop_update_cancel) simp
    show ?thesis
    proof (cases "bs = []")
      case True
      with \<open>i < length buf\<close> show ?thesis by (simp add: put_def upd_conv_take_nth_drop)
    next
      case False
      with True show ?thesis by (simp add: put_def Cons.IH t d)
    qed
  next
    case False
    then show ?thesis by (simp add: put_def)
  qed
qed simp

lemma put_all_Some_iff: "(\<exists>ob'. put_all bs (buf, i) = Some ob') \<longleftrightarrow> bs = [] \<or> i + length bs \<le> length buf"
  by (simp add: put_all_eq)

text \<open>Writing from the start of a buffer leaves the bytes in front.\<close>

lemma put_all_front:
  assumes "length bs \<le> length buf"
  obtains buf' where "put_all bs (buf, 0) = Some (buf', length bs)" "take (length bs) buf' = bs"
    "length buf' = length buf"
proof -
  have "put_all bs (buf, 0) = Some (bs @ drop (length bs) buf, length bs)"
    using assms by (simp add: put_all_eq)
  then show thesis using assms by (intro that [of "bs @ drop (length bs) buf"]) simp_all
qed


section \<open>Remaining length\<close>

lemma u32_div_128: "unat (v div 128 :: u32) = unat v div 128"
  by (simp add: unat_div)

lemma u32_div_128_pos: "0 < (v div 128 :: u32) \<longleftrightarrow> 128 \<le> unat v"
  by (auto simp: word_less_nat_alt u32_div_128 div_greater_zero_iff)

text \<open>\<open>RunlengthEncoder::encode\<close>, a do-while loop that writes seven bits per byte.\<close>

function RunlengthEncoder_encode :: "u32 \<Rightarrow> out_buffer \<Rightarrow> out_buffer option" where
  "RunlengthEncoder_encode v ob =
     (let encodedByte = ucast (v mod 128) :: u8;
          v' = v div 128;
          encodedByte = (if v' > 0 then encodedByte OR 128 else encodedByte)
      in put encodedByte ob \<bind>
         (\<lambda>ob. if v' > 0 then RunlengthEncoder_encode v' ob else Some ob))"
  by pat_completeness auto
termination
  by (relation "measure (\<lambda>(v, ob). unat v)") (auto simp: u32_div_128_pos u32_div_128)

declare RunlengthEncoder_encode.simps [simp del]

text \<open>The bytes of a remaining length, as a function of the number.\<close>

fun varint :: "nat \<Rightarrow> u8 list" where
  "varint n = (if n < 128 then [of_nat n]
               else (of_nat (n mod 128) OR 128) # varint (n div 128))"

declare varint.simps [simp del]

lemma varint_nonempty [simp]: "varint n \<noteq> []"
  by (subst varint.simps) simp

lemma RunlengthEncoder_encode_eq [enc_simps]:
  "RunlengthEncoder_encode v ob = put_all (varint (unat v)) ob"
proof (induction v ob rule: RunlengthEncoder_encode.induct)
  case (1 v ob)
  have byte: "(ucast (v mod 128) :: u8) = of_nat (unat v mod 128)"
  proof -
    have "(of_nat (unat (v mod 128)) :: u8) = ucast (v mod 128)" by simp
    then show ?thesis by (simp add: unat_mod)
  qed
  show ?case
  proof (cases "128 \<le> unat v")
    case True
    then have pos: "0 < v div 128" by (simp add: u32_div_128_pos)
    have "RunlengthEncoder_encode v ob =
        put (of_nat (unat v mod 128) OR 128) ob \<bind> RunlengthEncoder_encode (v div 128)"
      using pos byte by (subst RunlengthEncoder_encode.simps) (simp add: Let_def)
    also have "\<dots> = put (of_nat (unat v mod 128) OR 128) ob \<bind> put_all (varint (unat v div 128))"
      using "1.IH" pos byte by (cases "put (of_nat (unat v mod 128) OR 128) ob") (simp_all add: u32_div_128)
    finally show ?thesis using True by (simp add: varint.simps [of "unat v"])
  next
    case False
    then have "\<not> 0 < v div 128" by (simp add: u32_div_128_pos)
    with False byte show ?thesis
      by (subst RunlengthEncoder_encode.simps)
        (simp add: varint.simps [of "unat v"] Let_def put_all_Nil)
  qed
qed

lemma varint_length:
  "length (varint n) = (if n < 128 then 1 else Suc (length (varint (n div 128))))"
  by (subst varint.simps) simp

lemma varint_length_bounds:
  "n < 2 ^ 7 \<Longrightarrow> length (varint n) = 1"
  "2 ^ 7 \<le> n \<Longrightarrow> n < 2 ^ 14 \<Longrightarrow> length (varint n) = 2"
  "2 ^ 14 \<le> n \<Longrightarrow> n < 2 ^ 21 \<Longrightarrow> length (varint n) = 3"
proof -
  note unfold = varint_length [of n] varint_length [of "n div 128"]
    varint_length [of "n div 16384"] varint_length [of "n div 2097152"] div_mult2_eq [symmetric]
  show "n < 2 ^ 7 \<Longrightarrow> length (varint n) = 1" by (simp add: unfold)
  show "2 ^ 7 \<le> n \<Longrightarrow> n < 2 ^ 14 \<Longrightarrow> length (varint n) = 2" by (simp add: unfold)
  assume n: "2 ^ 14 \<le> n"
  then have "\<not> n div 128 < 128" "\<not> n < 128" by simp_all
  then show "n < 2 ^ 21 \<Longrightarrow> length (varint n) = 3" by (simp add: unfold)
qed

lemma varint_length_4:
  assumes "2 ^ 21 \<le> n" "n < 2 ^ 28"
  shows "length (varint n) = 4"
proof -
  have "\<not> n div 16384 < 128" "\<not> n div 128 < 128" "\<not> n < 128" "n div 2097152 < 128"
    using assms by simp_all
  then show ?thesis
    by (simp add: varint_length [of n] varint_length [of "n div 128"]
      varint_length [of "n div 16384"] varint_length [of "n div 2097152"] div_mult2_eq [symmetric])
qed

text \<open>\<open>RunlengthDecoder\<close>.\<close>

record RunlengthDecoder =
  rd_multiplier :: u32
  rd_value :: u32

definition RunlengthDecoder_new :: RunlengthDecoder where
  "RunlengthDecoder_new = \<lparr>rd_multiplier = 1, rd_value = 0\<rparr>"

definition RunlengthDecoder_reset :: "RunlengthDecoder \<Rightarrow> RunlengthDecoder" where
  "RunlengthDecoder_reset d = d\<lparr>rd_multiplier := 1, rd_value := 0\<rparr>"

definition RunlengthDecoder_decode ::
    "RunlengthDecoder \<Rightarrow> u8 \<Rightarrow> ec \<Rightarrow> (int \<times> u32) \<times> ec \<times> RunlengthDecoder" where
  "RunlengthDecoder_decode d encodedByte err =
     (let d = d\<lparr>rd_value := rd_value d + ucast (encodedByte AND 127) * rd_multiplier d\<rparr>
      in if rd_multiplier d > 128 * 128 * 128
         then ((-1, 0), Some malformed_remaining_length, d)
         else
           (let d = d\<lparr>rd_multiplier := rd_multiplier d * 128\<rparr>
            in if encodedByte AND 128 \<noteq> 0 then ((0, rd_value d), err, d)
               else ((1, rd_value d), err, d)))"

lemma RunlengthDecoder_reset_eq [simp]: "RunlengthDecoder_reset d = RunlengthDecoder_new"
  by (simp add: RunlengthDecoder_reset_def RunlengthDecoder_new_def)

text \<open>The seven payload bits and the continuation bit of the bytes the encoder writes.\<close>

lemma mask7_u8: "(127 :: u8) = mask 7"
  by (simp add: mask_eq_exp_minus_1)

lemma bit_128_u8: "bit (128 :: u8) n \<longleftrightarrow> n = 7"
proof -
  have eq: "(128 :: u8) = 2 ^ 7" by simp
  show ?thesis unfolding eq by (simp only: bit_exp_iff) auto
qed

lemma unat_of_nat_u8: "n < 256 \<Longrightarrow> unat (of_nat n :: u8) = n"
  by (simp add: unat_of_nat)

lemma low7_bit: "n < 128 \<Longrightarrow> \<not> bit (of_nat n :: u8) 7"
proof -
  assume n: "n < 128"
  have "bit (of_nat n :: u8) 7 \<longleftrightarrow> bit n 7"
    by (simp only: bit_of_nat_iff) simp
  then show ?thesis using n by (simp add: bit_iff_odd)
qed


lemma bit_127_u8: "bit (127 :: u8) n \<longleftrightarrow> n < 7"
  unfolding mask7_u8 by (simp only: bit_mask_iff) auto

lemma digit_bit: "n < 128 \<Longrightarrow> bit (of_nat n :: u8) i \<Longrightarrow> i < 7"
  using bit_imp_le_length [of "of_nat n :: u8" i] low7_bit [of n]
  by (cases "i = 7") auto

lemma final_byte_bits:
  assumes "n < 128"
  shows "(of_nat n :: u8) AND 127 = of_nat n" "(of_nat n :: u8) AND 128 = 0"
proof -
  show "(of_nat n :: u8) AND 127 = of_nat n"
    by (rule bit_word_eqI) (use digit_bit [OF assms] in \<open>simp only: bit_and_iff bit_127_u8, blast\<close>)
  show "(of_nat n :: u8) AND 128 = 0"
    by (rule bit_word_eqI)
      (use digit_bit [OF assms] in \<open>simp only: bit_and_iff bit_128_u8 bit_0_eq, auto\<close>)
qed

lemma more_byte_bits:
  assumes "n < 128"
  shows "((of_nat n :: u8) OR 128) AND 127 = of_nat n" "((of_nat n :: u8) OR 128) AND 128 \<noteq> 0"
proof -
  show "((of_nat n :: u8) OR 128) AND 127 = of_nat n"
    by (rule bit_word_eqI)
      (use digit_bit [OF assms] in \<open>simp only: bit_and_iff bit_or_iff bit_127_u8 bit_128_u8, auto\<close>)
  have "bit (((of_nat n :: u8) OR 128) AND 128) 7"
    by (simp only: bit_and_iff bit_or_iff bit_128_u8) simp
  then show "((of_nat n :: u8) OR 128) AND 128 \<noteq> 0" by (metis bit_0_eq bot_apply bot_bool_def)
qed

text \<open>A decoder that has read \<open>k\<close> digits of value \<open>v\<close>.\<close>

definition decoder_at :: "nat \<Rightarrow> nat \<Rightarrow> RunlengthDecoder" where
  "decoder_at k v = \<lparr>rd_multiplier = of_nat (128 ^ k), rd_value = of_nat v\<rparr>"

lemma decoder_at_0: "RunlengthDecoder_new = decoder_at 0 0"
  by (simp add: RunlengthDecoder_new_def decoder_at_def)

lemma ucast_of_nat_u8: "n < 256 \<Longrightarrow> (ucast (of_nat n :: u8) :: u32) = of_nat n"
  by (simp add: unsigned_of_nat take_bit_nat_eq_self)

lemma multiplier_ok: "k \<le> 3 \<Longrightarrow> \<not> (of_nat (128 ^ k) :: u32) > 128 * 128 * 128"
proof -
  assume "k \<le> 3"
  then have "k = 0 \<or> k = 1 \<or> k = 2 \<or> k = 3" by arith
  then show ?thesis by (elim disjE) (simp_all add: word_less_nat_alt)
qed

lemma decode_final:
  "k \<le> 3 \<Longrightarrow> n < 128 \<Longrightarrow>
   RunlengthDecoder_decode (decoder_at k v) (of_nat n) err =
     ((1, of_nat (v + n * 128 ^ k)), err, decoder_at (Suc k) (v + n * 128 ^ k))"
  using multiplier_ok [of k]
  by (simp add: RunlengthDecoder_decode_def decoder_at_def Let_def final_byte_bits ucast_of_nat_u8
      mult.commute)

lemma decode_more:
  "k \<le> 3 \<Longrightarrow> n < 128 \<Longrightarrow>
   RunlengthDecoder_decode (decoder_at k v) (of_nat n OR 128) err =
     ((0, of_nat (v + n * 128 ^ k)), err, decoder_at (Suc k) (v + n * 128 ^ k))"
  using multiplier_ok [of k]
  by (simp add: RunlengthDecoder_decode_def decoder_at_def Let_def more_byte_bits ucast_of_nat_u8
      mult.commute)

text \<open>The fifth byte is rejected, whatever it is.\<close>

lemma decode_fifth:
  "RunlengthDecoder_decode (decoder_at 4 v) b err =
     ((-1, 0), Some malformed_remaining_length,
      decoder_at 4 v\<lparr>rd_value := of_nat v + ucast (b AND 127) * of_nat (128 ^ 4)\<rparr>)"
  by (simp add: RunlengthDecoder_decode_def decoder_at_def Let_def word_less_nat_alt)


section \<open>Length-prefixed strings\<close>

text \<open>
  \<open>StringEncoder::encode\<close>: the length is cast to 16 bits, the characters follow.
\<close>

definition StringEncoder_encode :: "string \<Rightarrow> out_buffer \<Rightarrow> out_buffer option" where
  "StringEncoder_encode s ob =
     (let len = of_nat (length s) :: u16
      in do {
        ob \<leftarrow> put (hi_byte len) ob;
        ob \<leftarrow> put (lo_byte len) ob;
        put_all (bytes_of s) ob
      })"

definition string_bytes :: "string \<Rightarrow> u8 list" where
  "string_bytes s =
     hi_byte (of_nat (length s)) # lo_byte (of_nat (length s)) # bytes_of s"

lemma string_bytes_length [simp]: "length (string_bytes s) = length s + 2"
  by (simp add: string_bytes_def)

lemma string_bytes_nonempty [simp]: "string_bytes s \<noteq> []"
  by (simp add: string_bytes_def)

lemma StringEncoder_encode_eq [enc_simps]: "StringEncoder_encode s ob = put_all (string_bytes s) ob"
  by (simp add: StringEncoder_encode_def string_bytes_def Let_def put_all_Cons_fun)

text \<open>\<open>StringParser\<close>. \<open>_length\<close> is not initialised by the constructor.\<close>

datatype StringStatus = SP_Start | SP_ReadLength | SP_Stringdata | SP_Ready

record StringParser =
  sp_status :: StringStatus
  sp_length :: u32
  sp_ss :: string

definition StringParser_new :: "u32 \<Rightarrow> StringParser" where
  "StringParser_new junk = \<lparr>sp_status = SP_Start, sp_length = junk, sp_ss = []\<rparr>"

definition StringParser_reset :: "StringParser \<Rightarrow> StringParser" where
  "StringParser_reset p = p\<lparr>sp_status := SP_Start, sp_length := 0, sp_ss := []\<rparr>"

definition StringParser_parse :: "StringParser byte_step" where
  "StringParser_parse p byte err =
     (case sp_status p of
        SP_Start \<Rightarrow>
          (Tribool_new, err, p\<lparr>sp_length := push_bit 8 (ucast byte), sp_status := SP_ReadLength\<rparr>)
      | SP_ReadLength \<Rightarrow>
          (let p = p\<lparr>sp_length := sp_length p OR ucast byte\<rparr>
           in if sp_length p = 0 then (Tribool_of True, err, p\<lparr>sp_status := SP_Ready\<rparr>)
              else (Tribool_new, err, p\<lparr>sp_status := SP_Stringdata\<rparr>))
      | SP_Stringdata \<Rightarrow>
          (let p = p\<lparr>sp_ss := sp_ss p @ [char_of_byte byte], sp_length := sp_length p - 1\<rparr>
           in if sp_length p = 0 then (Tribool_of True, err, p\<lparr>sp_status := SP_Ready\<rparr>)
              else (Tribool_new, err, p))
      | SP_Ready \<Rightarrow> (Tribool_of False, Some string_length_violation, p))"

definition StringParser_string :: "StringParser \<Rightarrow> string" where
  "StringParser_string p = sp_ss p"

lemma StringParser_reset_eq [simp]:
  "StringParser_reset p = \<lparr>sp_status = SP_Start, sp_length = 0, sp_ss = []\<rparr>"
  by (cases p) (simp add: StringParser_reset_def)

text \<open>A string parser that is about to read a field.\<close>

definition string_ready :: "StringParser \<Rightarrow> bool" where
  "string_ready p \<longleftrightarrow> sp_status p = SP_Start \<and> sp_ss p = []"

lemma string_ready_new [simp]: "string_ready (StringParser_new junk)"
  "string_ready (StringParser_reset p)"
  "string_ready \<lparr>sp_status = SP_Start, sp_length = 0, sp_ss = []\<rparr>"
  by (simp_all add: string_ready_def StringParser_new_def)

text \<open>
  The parser reads back what the encoder wrote. Only the last byte of the field settles the
  answer, which is what a packet parser that embeds it needs to know.
\<close>

lemma StringParser_data:
  assumes "cs \<noteq> []" "length cs < 2 ^ 32"
    "sp_status p = SP_Stringdata" "sp_length p = of_nat (length cs)"
  shows "\<exists>p1 p2. feed StringParser_parse p (bytes_of (butlast cs)) err = (Tribool_new, err, p1, []) \<and>
     StringParser_parse p1 (byte_of_char (last cs)) err = (Tribool_of True, err, p2) \<and>
     sp_ss p2 = sp_ss p @ cs \<and> sp_status p2 = SP_Ready"
  using assms
proof (induction cs arbitrary: p)
  case (Cons c cs)
  show ?case
  proof (cases "cs = []")
    case True
    with Cons.prems show ?thesis by (simp add: StringParser_parse_def Let_def)
  next
    case False
    let ?p = "p\<lparr>sp_ss := sp_ss p @ [c], sp_length := of_nat (length cs)\<rparr>"
    have "(of_nat (length cs) :: u32) \<noteq> 0"
      using False Cons.prems(2) u32_of_nat_unat [of "length cs"] by auto
    then have step: "StringParser_parse p (byte_of_char c) err = (Tribool_new, err, ?p)"
      using Cons.prems by (simp add: StringParser_parse_def Let_def)
    from Cons.IH [of ?p] False Cons.prems obtain p1 p2 where
      "feed StringParser_parse ?p (bytes_of (butlast cs)) err = (Tribool_new, err, p1, [])"
      "StringParser_parse p1 (byte_of_char (last cs)) err = (Tribool_of True, err, p2)"
      "sp_ss p2 = sp_ss ?p @ cs" "sp_status p2 = SP_Ready" by auto
    with False step show ?thesis
      by (intro exI [of _ p1] exI [of _ p2]) (simp add: feed_indet)
  qed
qed simp

lemma StringParser_field:
  assumes "string_ready p" "length s < 2 ^ 16"
  shows "\<exists>p1 p2.
     feed StringParser_parse p (butlast (string_bytes s)) err = (Tribool_new, err, p1, []) \<and>
     StringParser_parse p1 (last (string_bytes s)) err = (Tribool_of True, err, p2) \<and>
     StringParser_string p2 = s"
proof -
  let ?n = "of_nat (length s) :: u16"
  have len: "(ucast ?n :: u32) = of_nat (length s)"
    using assms(2) by (simp add: unsigned_of_nat take_bit_nat_eq_self)
  let ?p1 = "p\<lparr>sp_length := push_bit 8 (ucast (hi_byte ?n)), sp_status := SP_ReadLength\<rparr>"
  have s1: "StringParser_parse p (hi_byte ?n) err = (Tribool_new, err, ?p1)"
    using assms(1) by (simp add: StringParser_parse_def string_ready_def)
  show ?thesis
  proof (cases "s = []")
    case True
    with s1 assms(1) show ?thesis
      by (intro exI [of _ ?p1] exI [of _ "?p1\<lparr>sp_length := 0, sp_status := SP_Ready\<rparr>"])
        (simp add: string_bytes_def feed_indet StringParser_parse_def StringParser_string_def
          string_ready_def Let_def hi_lo_join32 len)
  next
    case False
    let ?p2 = "?p1\<lparr>sp_length := of_nat (length s), sp_status := SP_Stringdata\<rparr>"
    have "(of_nat (length s) :: u32) \<noteq> 0"
      using False assms(2) u32_of_nat_unat [of "length s"] by auto
    then have s2: "StringParser_parse ?p1 (lo_byte ?n) err = (Tribool_new, err, ?p2)"
      by (simp add: StringParser_parse_def Let_def hi_lo_join32 len)
    have bytes: "butlast (string_bytes s) = hi_byte ?n # lo_byte ?n # bytes_of (butlast s)"
      "last (string_bytes s) = byte_of_char (last s)"
      using False by (simp_all add: string_bytes_def bytes_of_def map_butlast last_map)
    from StringParser_data [of s ?p2 err] False assms(2) obtain q1 q2 where
      "feed StringParser_parse ?p2 (bytes_of (butlast s)) err = (Tribool_new, err, q1, [])"
      "StringParser_parse q1 (byte_of_char (last s)) err = (Tribool_of True, err, q2)"
      "sp_ss q2 = sp_ss p @ s" by auto
    then show ?thesis
      using s1 s2 assms(1) unfolding bytes
      by (intro exI [of _ q1] exI [of _ q2])
        (simp add: feed_indet StringParser_string_def string_ready_def)
  qed
qed

lemma StringParser_roundtrip:
  assumes "string_ready p" "length s < 2 ^ 16"
  shows "\<exists>p'. feed StringParser_parse p (string_bytes s @ rest) err = (Tribool_of True, err, p', rest) \<and>
     StringParser_string p' = s"
proof -
  from StringParser_field [OF assms, of err] obtain p1 p2 where
    f: "feed StringParser_parse p (butlast (string_bytes s)) err = (Tribool_new, err, p1, [])"
      "StringParser_parse p1 (last (string_bytes s)) err = (Tribool_of True, err, p2)"
    and s: "StringParser_string p2 = s" by blast
  from f have "feed StringParser_parse p (butlast (string_bytes s) @ last (string_bytes s) # rest) err =
      (Tribool_of True, err, p2, rest)"
    by (rule feed_append_one) simp
  moreover have "butlast (string_bytes s) @ last (string_bytes s) # rest = string_bytes s @ rest"
    by (metis append_Cons append_Nil append_assoc append_butlast_last_id string_bytes_nonempty)
  ultimately show ?thesis using s by auto
qed

lemma StringParser_indet_err:
  "StringParser_parse p b err = (r, err', p') \<Longrightarrow> isIndeterminate r \<Longrightarrow> err' = err \<and> r = Tribool_new"
  by (auto simp: StringParser_parse_def Let_def split: StringStatus.splits if_splits)

lemma StringParser_false_err:
  "StringParser_parse p b err = (r, err', p') \<Longrightarrow> isFalse r \<Longrightarrow> err' = Some string_length_violation"
  by (auto simp: StringParser_parse_def Let_def split: StringStatus.splits if_splits)

lemma StringParser_true_err:
  "StringParser_parse p b err = (r, err', p') \<Longrightarrow> isTrue r \<Longrightarrow> err' = err"
  by (auto simp: StringParser_parse_def Let_def split: StringStatus.splits if_splits)


section \<open>Packet parsers that embed a string parser\<close>

text \<open>
  Four packet parsers hand the bytes of their string fields to an embedded
  \<open>StringParser\<close> while it answers indeterminate: their own state then changes in the
  embedded parser and the bytes left only. \<open>adv n s p\<close> is \<open>p\<close> after \<open>n\<close> such
  bytes, with the string parser in state \<open>s\<close>.
\<close>

locale string_field =
  fixes parse :: "'p byte_step"
    and sub :: "'p \<Rightarrow> StringParser"
    and adv :: "nat \<Rightarrow> StringParser \<Rightarrow> 'p \<Rightarrow> 'p"
    and left :: "'p \<Rightarrow> nat"
    and inside :: "'p \<Rightarrow> bool"
  assumes keeps:
      "inside p \<Longrightarrow> 0 < left p \<Longrightarrow> StringParser_parse (sub p) b None = (Tribool_new, None, s') \<Longrightarrow>
       parse p b None = (Tribool_new, None, adv 1 s' p)"
    and inside_adv: "inside p \<Longrightarrow> inside (adv n s p)"
    and sub_adv: "sub (adv n s p) = s"
    and adv_adv: "adv m s' (adv n s p) = adv (m + n) s' p"
    and adv_0: "adv 0 (sub p) p = p"
    and left_adv: "n \<le> left p \<Longrightarrow> left (adv n s p) = left p - n"
begin

lemma feed_embedded:
  "feed StringParser_parse (sub p) bs None = (Tribool_new, None, q, []) \<Longrightarrow> inside p \<Longrightarrow>
   length bs \<le> left p \<Longrightarrow> feed parse p bs None = (Tribool_new, None, adv (length bs) q p, [])"
proof (induction bs arbitrary: p)
  case Nil
  then show ?case using adv_0 [of p] by auto
next
  case (Cons b bs)
  obtain r e s' where s: "StringParser_parse (sub p) b None = (r, e, s')"
    by (cases "StringParser_parse (sub p) b None") auto
  have ind: "isIndeterminate r"
    using Cons.prems(1) s by (auto simp: feed.simps(2) split: if_splits)
  with StringParser_indet_err [OF s] have r: "r = Tribool_new" "e = None" by auto
  have f: "feed StringParser_parse (sub (adv 1 s' p)) bs None = (Tribool_new, None, q, [])"
    using Cons.prems(1) s ind r by (simp add: feed_indet sub_adv)
  have "parse p b None = (Tribool_new, None, adv 1 s' p)"
    using keeps [of p b s'] Cons.prems s r by simp
  moreover have "feed parse (adv 1 s' p) bs None =
      (Tribool_new, None, adv (length bs) q (adv 1 s' p), [])"
    by (rule Cons.IH [OF f]) (use Cons.prems in \<open>simp_all add: inside_adv left_adv\<close>)
  ultimately show ?case by (simp add: feed_indet adv_adv)
qed

text \<open>A whole string field: everything but its last byte goes through unanswered.\<close>

lemma field:
  assumes "inside p" "string_ready (sub p)" "length s < 2 ^ 16" "length s + 2 \<le> left p"
  obtains s1 s2 where
    "feed parse p (butlast (string_bytes s)) None = (Tribool_new, None, adv (length s + 1) s1 p, [])"
    "StringParser_parse s1 (last (string_bytes s)) None = (Tribool_of True, None, s2)"
    "StringParser_string s2 = s"
proof -
  from StringParser_field [OF assms(2,3), of None] obtain s1 s2 where
    f: "feed StringParser_parse (sub p) (butlast (string_bytes s)) None = (Tribool_new, None, s1, [])"
      "StringParser_parse s1 (last (string_bytes s)) None = (Tribool_of True, None, s2)"
      "StringParser_string s2 = s" by blast
  show thesis
    by (rule that [OF _ f(2,3)]) (use feed_embedded [OF f(1) assms(1)] assms(4) in simp)
qed

lemma field_feed:
  assumes "inside p" "string_ready (sub p)" "length s < 2 ^ 16" "length s + 2 \<le> left p"
  obtains s1 s2 where
    "\<And>rest. feed parse p (string_bytes s @ rest) None =
       feed parse (adv (length s + 1) s1 p) (last (string_bytes s) # rest) None"
    "StringParser_parse s1 (last (string_bytes s)) None = (Tribool_of True, None, s2)"
    "StringParser_string s2 = s"
proof -
  from field [OF assms] obtain s1 s2 where
    f: "feed parse p (butlast (string_bytes s)) None = (Tribool_new, None, adv (length s + 1) s1 p, [])"
      "StringParser_parse s1 (last (string_bytes s)) None = (Tribool_of True, None, s2)"
      "StringParser_string s2 = s" by blast
  have split: "string_bytes s @ rest = butlast (string_bytes s) @ last (string_bytes s) # rest" for rest
    by (metis append_Cons append_Nil append_assoc append_butlast_last_id string_bytes_nonempty)
  show thesis
    by (rule that [OF _ f(2,3)]) (simp only: split feed_append_indet [OF f(1)] tribool_simps)
qed

end


section \<open>Packet identifiers\<close>

datatype IdentifierStatus = PI_Start | PI_ReadIdentifier | PI_Ready

record PacketIdentifierParser =
  pi_status :: IdentifierStatus
  pi_packetIdentifier :: PacketIdentifier

definition PacketIdentifierParser_new :: "u16 \<Rightarrow> PacketIdentifierParser" where
  "PacketIdentifierParser_new junk = \<lparr>pi_status = PI_Start, pi_packetIdentifier = junk\<rparr>"

definition PacketIdentifierParser_reset :: "PacketIdentifierParser \<Rightarrow> PacketIdentifierParser" where
  "PacketIdentifierParser_reset p = p\<lparr>pi_status := PI_Start\<rparr>"

definition PacketIdentifierParser_parse :: "PacketIdentifierParser byte_step" where
  "PacketIdentifierParser_parse p byte err =
     (case pi_status p of
        PI_Start \<Rightarrow>
          (Tribool_new, err,
           p\<lparr>pi_packetIdentifier := push_bit 8 (ucast byte), pi_status := PI_ReadIdentifier\<rparr>)
      | PI_ReadIdentifier \<Rightarrow>
          (Tribool_of True, err,
           p\<lparr>pi_packetIdentifier := pi_packetIdentifier p OR ucast byte, pi_status := PI_Ready\<rparr>)
      | PI_Ready \<Rightarrow> (Tribool_of False, Some packet_identifier_length_violation, p))"

lemma PacketIdentifierParser_roundtrip:
  assumes "pi_status p = PI_Start"
  shows "feed PacketIdentifierParser_parse p ([hi_byte x, lo_byte x] @ rest) err =
     (Tribool_of True, err, p\<lparr>pi_packetIdentifier := x, pi_status := PI_Ready\<rparr>, rest)"
  using assms by (simp add: feed.simps(2) PacketIdentifierParser_parse_def hi_lo_join16)


section \<open>The fixed header\<close>

datatype HeaderStatus = FH_Start | FH_ReadLength | FH_Ready

record FixedHeaderParser =
  fhp_status :: HeaderStatus
  fhp_header :: FixedHeader
  fhp_decoder :: RunlengthDecoder

definition FixedHeaderParser_new :: FixedHeaderParser where
  "FixedHeaderParser_new =
     \<lparr>fhp_status = FH_Start, fhp_header = FixedHeader_new, fhp_decoder = RunlengthDecoder_new\<rparr>"

definition FixedHeaderParser_reset :: "FixedHeaderParser \<Rightarrow> FixedHeaderParser" where
  "FixedHeaderParser_reset p =
     p\<lparr>fhp_status := FH_Start, fhp_header := FixedHeader_new,
       fhp_decoder := RunlengthDecoder_reset (fhp_decoder p)\<rparr>"

definition FixedHeaderParser_parse :: "FixedHeaderParser byte_step" where
  "FixedHeaderParser_parse p byte err =
     (case fhp_status p of
        FH_Start \<Rightarrow>
          (let h = (fhp_header p)\<lparr>fh_controlPacketType := ControlPacketType_of (byte AND 0xF0),
                                   fh_flags := byte AND 0x0F\<rparr>
           in case FixedHeader_validate h err of
                (True, err) \<Rightarrow>
                  (Tribool_new, err, p\<lparr>fhp_header := h, fhp_status := FH_ReadLength\<rparr>)
              | (False, err) \<Rightarrow>
                  (Tribool_of False, err, p\<lparr>fhp_header := FixedHeader_new, fhp_status := FH_Ready\<rparr>))
      | FH_ReadLength \<Rightarrow>
          (case RunlengthDecoder_decode (fhp_decoder p) byte err of
             ((st, len), err, d) \<Rightarrow>
               (let p = p\<lparr>fhp_decoder := d\<rparr>
                in if st = 0 then (Tribool_new, err, p)
                   else if st = -1 then (Tribool_of False, err, p\<lparr>fhp_status := FH_Ready\<rparr>)
                   else (Tribool_of True, err,
                         p\<lparr>fhp_status := FH_Ready,
                           fhp_header := (fhp_header p)\<lparr>fh_length := len\<rparr>\<rparr>)))
      | FH_Ready \<Rightarrow> (Tribool_of True, err, p))"

lemma FixedHeaderParser_reset_eq [simp]: "FixedHeaderParser_reset p = FixedHeaderParser_new"
  by (cases p) (simp add: FixedHeaderParser_reset_def FixedHeaderParser_new_def)

text \<open>The remaining length, read digit by digit behind \<open>k\<close> digits already read.\<close>

lemma FixedHeaderParser_length:
  "fhp_status p = FH_ReadLength \<Longrightarrow> fhp_decoder p = decoder_at k v \<Longrightarrow> k + length (varint n) \<le> 4 \<Longrightarrow>
   \<exists>d. feed FixedHeaderParser_parse p (varint n @ rest) err =
     (Tribool_of True, err,
      p\<lparr>fhp_status := FH_Ready, fhp_decoder := d,
        fhp_header := (fhp_header p)\<lparr>fh_length := of_nat (v + n * 128 ^ k)\<rparr>\<rparr>, rest)"
proof (induction n arbitrary: p k v rule: varint.induct)
  case (1 n)
  show ?case
  proof (cases "n < 128")
    case True
    then have "varint n = [of_nat n]" by (simp add: varint.simps [of n])
    with True 1 show ?thesis
      by (intro exI [of _ "decoder_at (Suc k) (v + n * 128 ^ k)"])
        (simp add: feed_stop FixedHeaderParser_parse_def decode_final Let_def)
  next
    case False
    then have bs: "varint n = (of_nat (n mod 128) OR 128) # varint (n div 128)"
      by (simp add: varint.simps [of n])
    let ?v = "v + n mod 128 * 128 ^ k"
    let ?p = "p\<lparr>fhp_decoder := decoder_at (Suc k) ?v\<rparr>"
    have len: "Suc k + length (varint (n div 128)) \<le> 4" using "1.prems"(3) bs by simp
    then have "k \<le> 3" by simp
    then have step: "FixedHeaderParser_parse p (of_nat (n mod 128) OR 128) err = (Tribool_new, err, ?p)"
      using "1.prems" by (simp add: FixedHeaderParser_parse_def decode_more Let_def)
    have v: "?v + n div 128 * 128 ^ Suc k = v + n * 128 ^ k"
    proof -
      have "n mod 128 * 128 ^ k + n div 128 * 128 ^ Suc k = (n mod 128 + n div 128 * 128) * 128 ^ k"
        by (simp only: power_Suc add_mult_distrib mult.assoc)
      then show ?thesis by (simp only: mod_div_mult_eq add.assoc)
    qed
    have "\<exists>d. feed FixedHeaderParser_parse ?p (varint (n div 128) @ rest) err =
      (Tribool_of True, err,
       ?p\<lparr>fhp_status := FH_Ready, fhp_decoder := d,
         fhp_header := (fhp_header ?p)\<lparr>fh_length := of_nat (?v + n div 128 * 128 ^ Suc k)\<rparr>\<rparr>, rest)"
      by (rule "1.IH" [OF False]) (use "1.prems"(1) len in simp_all)
    then show ?thesis unfolding v bs using step by (auto simp: feed_indet)
  qed
qed

text \<open>A header byte whose flags the packet type allows starts the remaining length.\<close>

lemma FixedHeaderParser_first:
  assumes "flags_allowed t f" "f AND 0x0F = f"
  shows "FixedHeaderParser_parse FixedHeaderParser_new (ControlPacketType_byte t OR f) None =
    (Tribool_new, None,
     FixedHeaderParser_new\<lparr>fhp_header := \<lparr>fh_controlPacketType = t, fh_flags = f, fh_length = 0\<rparr>,
       fhp_status := FH_ReadLength\<rparr>)"
proof -
  have f0: "f AND 0xF0 = 0"
  proof -
    have "f AND 0xF0 = f AND (0x0F AND 0xF0)" using assms(2) by (metis and.assoc)
    then show ?thesis by simp
  qed
  have 1: "(ControlPacketType_byte t OR f) AND 0xF0 = ControlPacketType_byte t"
    using f0 by (simp add: bit.conj_disj_distrib2)
  have 2: "(ControlPacketType_byte t OR f) AND 0x0F = f"
    using assms(2) by (simp add: bit.conj_disj_distrib2)
  let ?h = "\<lparr>fh_controlPacketType = t, fh_flags = f, fh_length = 0\<rparr>"
  have "FixedHeader_validate ?h None = (True, None)"
    using FixedHeader_validate_iff [of ?h None] FixedHeader_validate_ec [of ?h None] assms(1)
    by (cases "FixedHeader_validate ?h None") auto
  then show ?thesis
    by (simp add: FixedHeaderParser_parse_def FixedHeaderParser_new_def FixedHeader_new_def Let_def 1 2)
qed

definition header_bytes :: "ControlPacketType \<Rightarrow> HeaderFlags \<Rightarrow> nat \<Rightarrow> u8 list" where
  "header_bytes t f n = (ControlPacketType_byte t OR f) # varint n"

theorem FixedHeaderParser_roundtrip:
  assumes "flags_allowed t f" "f AND 0x0F = f" "n < 2 ^ 28"
  shows "\<exists>p. feed FixedHeaderParser_parse FixedHeaderParser_new (header_bytes t f n @ rest) None =
      (Tribool_of True, None, p, rest) \<and>
      fhp_header p = \<lparr>fh_controlPacketType = t, fh_flags = f, fh_length = of_nat n\<rparr>"
proof -
  let ?p = "FixedHeaderParser_new\<lparr>fhp_header := \<lparr>fh_controlPacketType = t, fh_flags = f, fh_length = 0\<rparr>,
       fhp_status := FH_ReadLength\<rparr>"
  have len: "length (varint n) \<le> 4"
    using assms(3) varint_length_bounds [of n] varint_length_4 [of n] by linarith
  have "\<exists>d. feed FixedHeaderParser_parse ?p (varint n @ rest) None =
     (Tribool_of True, None,
      ?p\<lparr>fhp_status := FH_Ready, fhp_decoder := d,
        fhp_header := (fhp_header ?p)\<lparr>fh_length := of_nat (0 + n * 128 ^ 0)\<rparr>\<rparr>, rest)"
    by (rule FixedHeaderParser_length) (use len in \<open>simp_all add: FixedHeaderParser_new_def decoder_at_0\<close>)
  then show ?thesis
    using FixedHeaderParser_first [OF assms(1,2)] by (auto simp: header_bytes_def feed_indet)
qed

end
