(* ===== verification/Cpp_Std.thy ===== *)
theory Cpp_Std
  imports Prelude
begin

text \<open>
  The algorithms of the C++ standard library that the modelled code calls on containers with
  its own \<open>operator<\<close>. The standard fixes the result of \<open>std::sort\<close> only where the comparison is a
  strict weak order on the elements and tells any two of them apart, and that of
  \<open>std::set_difference\<close> only where it is a strict weak order by which both ranges are sorted. Elsewhere
  the model has no result either: the sorted list is \<open>undefined\<close>, of which nothing can be
  proved, and the difference is \<open>None\<close>.
\<close>

section \<open>Characters of a string\<close>

text \<open>
  A read at a position, by \<open>operator[]\<close>, through an iterator or behind \<open>c_str()\<close>: at the end there is a
  NUL character.
\<close>

definition char_at :: "string \<Rightarrow> nat \<Rightarrow> char" where
  "char_at s i = (if i < length s then s ! i else CHR 0x00)"


section \<open>Strict orders\<close>

text \<open>A strict weak order on a set: asymmetric, and incomparability (\<open>\<not> <\<close>) composes.\<close>

definition swo_on :: "('a \<Rightarrow> 'a \<Rightarrow> bool) \<Rightarrow> 'a set \<Rightarrow> bool" where
  "swo_on lt S \<longleftrightarrow>
     (\<forall>a\<in>S. \<forall>b\<in>S. lt a b \<longrightarrow> \<not> lt b a) \<and>
     (\<forall>a\<in>S. \<forall>b\<in>S. \<forall>c\<in>S. \<not> lt a b \<longrightarrow> \<not> lt b c \<longrightarrow> \<not> lt a c)"

lemma swo_asym: "swo_on lt S \<Longrightarrow> a \<in> S \<Longrightarrow> b \<in> S \<Longrightarrow> lt a b \<Longrightarrow> \<not> lt b a"
  unfolding swo_on_def by blast

lemma swo_neg_trans:
  "swo_on lt S \<Longrightarrow> a \<in> S \<Longrightarrow> b \<in> S \<Longrightarrow> c \<in> S \<Longrightarrow> \<not> lt a b \<Longrightarrow> \<not> lt b c \<Longrightarrow> \<not> lt a c"
  unfolding swo_on_def by blast

lemma swo_subset: "swo_on lt S \<Longrightarrow> T \<subseteq> S \<Longrightarrow> swo_on lt T"
  unfolding swo_on_def by blast

text \<open>A strict weak order that tells all elements apart.\<close>

definition strict_total_on :: "('a \<Rightarrow> 'a \<Rightarrow> bool) \<Rightarrow> 'a set \<Rightarrow> bool" where
  "strict_total_on lt S \<longleftrightarrow>
     swo_on lt S \<and> (\<forall>a\<in>S. \<forall>b\<in>S. \<not> lt a b \<longrightarrow> \<not> lt b a \<longrightarrow> a = b)"

lemma strict_total_trans:
  assumes "strict_total_on lt S" "a \<in> S" "b \<in> S" "c \<in> S" "lt a b" "\<not> lt c b"
  shows "lt a c"
  using assms unfolding strict_total_on_def swo_on_def by blast

lemma strict_total_subset: "strict_total_on lt S \<Longrightarrow> T \<subseteq> S \<Longrightarrow> strict_total_on lt T"
  unfolding strict_total_on_def swo_on_def by blast

lemma strict_total_irrefl: "strict_total_on lt S \<Longrightarrow> a \<in> S \<Longrightarrow> \<not> lt a a"
  unfolding strict_total_on_def swo_on_def by blast

lemma strict_total_eq:
  "strict_total_on lt S \<Longrightarrow> a \<in> S \<Longrightarrow> b \<in> S \<Longrightarrow> \<not> lt a b \<Longrightarrow> \<not> lt b a \<Longrightarrow> a = b"
  unfolding strict_total_on_def by blast


section \<open>std::sort\<close>

text \<open>
  \<open>insert_back lt x acc\<close> walks back over the sorted prefix (held last element first)
  while \<open>x\<close> is smaller; an element smaller than the very first one is moved to the front
  directly.
\<close>

fun insert_back :: "('a \<Rightarrow> 'a \<Rightarrow> bool) \<Rightarrow> 'a \<Rightarrow> 'a list \<Rightarrow> 'a list" where
  "insert_back lt x [] = [x]"
| "insert_back lt x (y # ys) = (if lt x y then y # insert_back lt x ys else x # y # ys)"

fun sort_loop :: "('a \<Rightarrow> 'a \<Rightarrow> bool) \<Rightarrow> 'a list \<Rightarrow> 'a list \<Rightarrow> 'a list" where
  "sort_loop lt acc [] = rev acc"
| "sort_loop lt acc (x # xs) =
     sort_loop lt (if lt x (last acc) then acc @ [x] else insert_back lt x acc) xs"

fun insertion_sort :: "('a \<Rightarrow> 'a \<Rightarrow> bool) \<Rightarrow> 'a list \<Rightarrow> 'a list" where
  "insertion_sort lt [] = []"
| "insertion_sort lt (x # xs) = sort_loop lt [x] xs"

lemma insert_back_mset: "mset (insert_back lt x ys) = add_mset x (mset ys)"
  by (induction ys) auto

lemma sort_loop_mset: "mset (sort_loop lt acc xs) = mset acc + mset xs"
  by (induction lt acc xs rule: sort_loop.induct) (auto simp: insert_back_mset)

lemma insertion_sort_mset: "mset (insertion_sort lt xs) = mset xs"
  by (cases xs) (auto simp: sort_loop_mset)

lemma insertion_sort_set [simp]: "set (insertion_sort lt xs) = set xs"
proof -
  have "set_mset (mset (insertion_sort lt xs)) = set_mset (mset xs)"
    by (simp only: insertion_sort_mset)
  then show ?thesis by simp
qed

lemma insertion_sort_length [simp]: "length (insertion_sort lt xs) = length xs"
proof -
  have "size (mset (insertion_sort lt xs)) = size (mset xs)"
    by (simp only: insertion_sort_mset)
  then show ?thesis by simp
qed

text \<open>The prefix, read back to front: no element is smaller than one after it.\<close>

definition desc :: "('a \<Rightarrow> 'a \<Rightarrow> bool) \<Rightarrow> 'a list \<Rightarrow> bool" where
  "desc lt = sorted_wrt (\<lambda>a b. \<not> lt a b)"

definition asc :: "('a \<Rightarrow> 'a \<Rightarrow> bool) \<Rightarrow> 'a list \<Rightarrow> bool" where
  "asc lt = sorted_wrt (\<lambda>a b. \<not> lt b a)"

lemma asc_rev: "asc lt (rev xs) \<longleftrightarrow> desc lt xs"
  by (simp add: asc_def desc_def sorted_wrt_rev)

lemma insert_back_set: "set (insert_back lt x ys) = insert x (set ys)"
  by (induction ys) auto

lemma insert_back_desc:
  "swo_on lt (insert x (set ys)) \<Longrightarrow> desc lt ys \<Longrightarrow> desc lt (insert_back lt x ys)"
proof (induction ys)
  case Nil
  then show ?case by (simp add: desc_def)
next
  case (Cons y ys)
  have IH: "desc lt (insert_back lt x ys)"
    using Cons.IH [OF swo_subset [OF Cons.prems(1)]] Cons.prems(2) by (auto simp: desc_def)
  have y: "\<forall>z\<in>set ys. \<not> lt y z" and ys: "desc lt ys"
    using Cons.prems(2) by (auto simp: desc_def)
  show ?case
  proof (cases "lt x y")
    case True
    then have "\<not> lt y x"
      using swo_asym [OF Cons.prems(1)] by simp
    with True IH y show ?thesis by (simp add: desc_def insert_back_set)
  next
    case False
    have "\<forall>z\<in>set ys. \<not> lt x z"
      using swo_neg_trans [OF Cons.prems(1), of x y] False y by auto
    with False y ys show ?thesis by (simp add: desc_def)
  qed
qed

lemma append_min_desc:
  assumes swo: "swo_on lt (insert x (set acc))" and d: "desc lt acc"
    and ne: "acc \<noteq> []" and lt: "lt x (last acc)"
  shows "desc lt (acc @ [x])"
proof -
  have l: "last acc \<in> set acc" using ne by simp
  have "\<not> lt y x" if y: "y \<in> set acc" for y
  proof -
    have "sorted_wrt (\<lambda>a b. \<not> lt a b) (butlast acc @ [last acc])"
      using d ne by (simp add: desc_def)
    moreover have "y = last acc \<or> y \<in> set (butlast acc)"
      using y ne by (metis UnE append_butlast_last_id empty_iff empty_set insertE list.simps(15) set_append)
    ultimately have "y = last acc \<or> \<not> lt y (last acc)"
      by (auto simp: sorted_wrt_append)
    then show ?thesis
      using swo_asym [OF swo, of x y] swo_asym [OF swo, of x "last acc"]
        swo_neg_trans [OF swo, of x y "last acc"] lt l y by auto
  qed
  with d show ?thesis by (simp add: desc_def sorted_wrt_append)
qed

lemma sort_loop_asc:
  "swo_on lt (set acc \<union> set xs) \<Longrightarrow> desc lt acc \<Longrightarrow> acc \<noteq> [] \<Longrightarrow> asc lt (sort_loop lt acc xs)"
proof (induction lt acc xs rule: sort_loop.induct)
  case (1 lt acc)
  then show ?case by (simp add: asc_rev)
next
  case (2 lt acc x xs)
  let ?acc = "if lt x (last acc) then acc @ [x] else insert_back lt x acc"
  have s: "swo_on lt (insert x (set acc))"
    by (rule swo_subset [OF "2.prems"(1)]) auto
  have "desc lt ?acc"
    using append_min_desc [OF s "2.prems"(2,3)] insert_back_desc [OF s "2.prems"(2)] by simp
  moreover have "?acc \<noteq> []"
    using insert_back_set [of lt x acc] by auto
  moreover have "swo_on lt (set ?acc \<union> set xs)"
    using "2.prems"(1) by (auto simp: insert_back_set elim: swo_subset)
  ultimately show ?case using "2.IH" by simp
qed

lemma insertion_sort_asc: "swo_on lt (set xs) \<Longrightarrow> asc lt (insertion_sort lt xs)"
  by (cases xs) (auto simp: asc_def desc_def intro!: sort_loop_asc [unfolded asc_def])

text \<open>
  Where all elements differ in the order, there is one sorted list of them, whatever the algorithm; insertion computes it.
\<close>

definition std_sort :: "('a \<Rightarrow> 'a \<Rightarrow> bool) \<Rightarrow> 'a list \<Rightarrow> 'a list" where
  "std_sort lt xs = (if strict_total_on lt (set xs) then insertion_sort lt xs else undefined)"

lemma strict_total_swo: "strict_total_on lt S \<Longrightarrow> swo_on lt S"
  by (simp add: strict_total_on_def)

lemma std_sort_facts:
  assumes "strict_total_on lt (set xs)"
  shows "mset (std_sort lt xs) = mset xs" "set (std_sort lt xs) = set xs" "asc lt (std_sort lt xs)"
  using assms insertion_sort_asc [OF strict_total_swo [OF assms]] by (simp_all add: std_sort_def insertion_sort_mset)

lemma asc_unique_order:
  "strict_total_on lt (set xs) \<Longrightarrow> asc lt xs \<Longrightarrow> asc lt ys \<Longrightarrow> mset xs = mset ys \<Longrightarrow> xs = ys"
proof (induction xs arbitrary: ys)
  case (Cons x xs)
  then obtain y zs where ys: "ys = y # zs" by (cases ys) auto
  have set: "set (x # xs) = set (y # zs)" using Cons.prems(4) ys by (metis set_mset_mset)
  then have "x \<in> set (y # zs)" "y \<in> set (x # xs)" by auto
  then have "x = y \<or> \<not> lt x y" "y = x \<or> \<not> lt y x" using Cons.prems(2,3) ys by (auto simp: asc_def)
  then have "x = y" using strict_total_eq [OF Cons.prems(1), of x y] \<open>y \<in> set (x # xs)\<close> by auto
  moreover have "xs = zs"
    by (rule Cons.IH) (use Cons.prems ys \<open>x = y\<close> in \<open>auto simp: asc_def intro: strict_total_subset\<close>)
  ultimately show ?case using ys by simp
qed simp

theorem std_sort_only:
  assumes "strict_total_on lt (set xs)" "mset ys = mset xs" "asc lt ys"
  shows "std_sort lt xs = ys"
  using asc_unique_order [of lt "std_sort lt xs" ys] std_sort_facts [OF assms(1)] assms by simp

theorem std_sort_only_witness: "std_sort (<) [3, 1, 2 :: nat] = [1, 2, 3]"
  by (rule std_sort_only) (auto simp: strict_total_on_def swo_on_def asc_def)


section \<open>std::unique, std::set_difference\<close>

text \<open>
  \<open>std::unique\<close> followed by \<open>erase\<close> keeps the first of every run of equal elements.
\<close>

definition std_unique :: "'a list \<Rightarrow> 'a list" where
  "std_unique xs = remdups_adj xs"

lemma std_unique_set [simp]: "set (std_unique xs) = set xs"
  by (simp add: std_unique_def)

text \<open>The merge loop: an element of the first range is dropped when it meets an equivalent one.\<close>

fun merge_difference :: "('a \<Rightarrow> 'a \<Rightarrow> bool) \<Rightarrow> 'a list \<Rightarrow> 'a list \<Rightarrow> 'a list" where
  "merge_difference lt [] ys = []"
| "merge_difference lt (x # xs) [] = x # xs"
| "merge_difference lt (x # xs) (y # ys) =
     (if lt x y then x # merge_difference lt xs (y # ys)
      else if lt y x then merge_difference lt (x # xs) ys
      else merge_difference lt xs ys)"

lemma merge_difference_subset: "set (merge_difference lt xs ys) \<subseteq> set xs"
  by (induction lt xs ys rule: merge_difference.induct) auto

lemma merge_difference_nil [simp]: "merge_difference lt xs [] = xs"
  by (cases xs) auto

lemma merge_difference_self: "(\<And>x. x \<in> set xs \<Longrightarrow> \<not> lt x x) \<Longrightarrow> merge_difference lt xs xs = []"
  by (induction xs) auto

lemma asc_less_notin:
  assumes st: "strict_total_on lt (insert x (insert y (set ys)))"
    and asc: "asc lt (y # ys)" and lt: "lt x y"
  shows "x \<notin> set (y # ys)"
proof
  assume x: "x \<in> set (y # ys)"
  have "lt x z" if "z \<in> set (y # ys)" for z
    using that asc lt strict_total_trans [OF st, of x y z] by (auto simp: asc_def)
  then have "lt x x" using x by blast
  then show False using strict_total_irrefl [OF st, of x] by simp
qed

lemma merge_difference_filter:
  "strict_total_on lt (set xs \<union> set ys) \<Longrightarrow> asc lt xs \<Longrightarrow> asc lt ys \<Longrightarrow> distinct xs \<Longrightarrow>
   merge_difference lt xs ys = filter (\<lambda>x. x \<notin> set ys) xs"
proof (induction lt xs ys rule: merge_difference.induct)
  case (3 lt x xs y ys)
  have asc: "asc lt xs" "asc lt ys" "distinct xs" "asc lt (x # xs)" "asc lt (y # ys)"
    "distinct (x # xs)"
    using "3.prems" by (auto simp: asc_def)
  consider (less) "lt x y" | (greater) "\<not> lt x y" "lt y x" | (eq) "\<not> lt x y" "\<not> lt y x"
    by blast
  then show ?case
  proof cases
    case less
    have "x \<notin> set (y # ys)"
      by (rule asc_less_notin [OF strict_total_subset [OF "3.prems"(1)] "3.prems"(3) less]) auto
    moreover have "merge_difference lt xs (y # ys) = filter (\<lambda>x. x \<notin> set (y # ys)) xs"
      by (rule "3.IH"(1) [OF less strict_total_subset [OF "3.prems"(1)] asc(1,5,3)]) auto
    ultimately show ?thesis using less by simp
  next
    case greater
    have "y \<notin> set (x # xs)"
      by (rule asc_less_notin [OF strict_total_subset [OF "3.prems"(1)] "3.prems"(2) greater(2)]) auto
    moreover have "merge_difference lt (x # xs) ys = filter (\<lambda>x. x \<notin> set ys) (x # xs)"
      by (rule "3.IH"(2) [OF greater strict_total_subset [OF "3.prems"(1)] asc(4,2,6)]) auto
    ultimately show ?thesis using greater by (auto intro: filter_cong)
  next
    case eq
    then have "x = y"
      by (intro strict_total_eq [OF "3.prems"(1)]) auto
    moreover have "merge_difference lt xs ys = filter (\<lambda>x. x \<notin> set ys) xs"
      by (rule "3.IH"(3) [OF eq strict_total_subset [OF "3.prems"(1)] asc(1,2,3)]) auto
    ultimately show ?thesis using eq "3.prems"(4) by (auto intro: filter_cong)
  qed
qed auto

text \<open>The ranges must be sorted by a strict weak order; then the result is that of the merge loop.\<close>

definition std_set_difference :: "('a \<Rightarrow> 'a \<Rightarrow> bool) \<Rightarrow> 'a list \<Rightarrow> 'a list \<Rightarrow> 'a list option" where
  "std_set_difference lt xs ys =
     (if swo_on lt (set xs \<union> set ys) \<and> asc lt xs \<and> asc lt ys then Some (merge_difference lt xs ys) else None)"

lemma std_set_difference_subset: "std_set_difference lt xs ys = Some zs \<Longrightarrow> set zs \<subseteq> set xs"
  using merge_difference_subset by (fastforce simp: std_set_difference_def split: if_splits)

lemma std_set_difference_filter:
  "strict_total_on lt (set xs \<union> set ys) \<Longrightarrow> asc lt xs \<Longrightarrow> asc lt ys \<Longrightarrow> distinct xs \<Longrightarrow>
   std_set_difference lt xs ys = Some (filter (\<lambda>x. x \<notin> set ys) xs)"
  by (simp add: std_set_difference_def strict_total_swo merge_difference_filter)

text \<open>After sorting with a strict total order, \<open>std::unique\<close> leaves no duplicates.\<close>

lemma asc_remdups_adj: "asc lt xs \<Longrightarrow> asc lt (remdups_adj xs)"
  by (induction xs rule: remdups_adj.induct) (auto simp: asc_def)

lemma asc_unique_distinct:
  "strict_total_on lt (set xs) \<Longrightarrow> asc lt xs \<Longrightarrow> distinct (std_unique xs)"
  unfolding std_unique_def
proof (induction xs rule: remdups_adj.induct)
  case (3 x y xs)
  show ?case
  proof (cases "x = y")
    case True
    with 3 show ?thesis by (auto simp: asc_def)
  next
    case False
    have st: "strict_total_on lt (insert x (insert y (set xs)))" using "3.prems" by simp
    have "\<not> lt y x" using "3.prems"(2) by (auto simp: asc_def)
    with False have "lt x y" using strict_total_eq [OF st, of x y] by auto
    then have "x \<notin> set (y # xs)"
      using asc_less_notin [OF st] "3.prems"(2) by (simp add: asc_def)
    moreover have "distinct (remdups_adj (y # xs))"
      using "3.IH"(2) [OF False strict_total_subset [OF st]] "3.prems"(2) by (auto simp: asc_def)
    ultimately show ?thesis using False by simp
  qed
qed auto


section \<open>Searches in std::string\<close>

text \<open>
  \<open>find_first_of\<close> from a position; \<open>None\<close> is \<open>npos\<close>.
\<close>

fun find_if_from :: "(char \<Rightarrow> bool) \<Rightarrow> nat \<Rightarrow> string \<Rightarrow> nat option" where
  "find_if_from P i [] = None"
| "find_if_from P i (c # s) = (if P c then Some i else find_if_from P (Suc i) s)"

definition find_first_of :: "char list \<Rightarrow> string \<Rightarrow> nat \<Rightarrow> nat option" where
  "find_first_of cs s pos = find_if_from (\<lambda>c. c \<in> set cs) pos (drop pos s)"

lemma find_if_from_None: "find_if_from P i s = None \<longleftrightarrow> (\<forall>c\<in>set s. \<not> P c)"
  by (induction P i s rule: find_if_from.induct) auto

lemma find_if_from_Some:
  "find_if_from P i s = Some j \<Longrightarrow>
   i \<le> j \<and> j < i + length s \<and> P (s ! (j - i)) \<and> (\<forall>c\<in>set (take (j - i) s). \<not> P c)"
proof (induction P i s arbitrary: j rule: find_if_from.induct)
  case (2 P i c s)
  then show ?case
    by (cases "P c") (fastforce simp: Suc_diff_le nth_Cons' take_Cons')+
qed auto

end
