(* ===== verification/Mqtt_Topic.thy ===== *)
theory Mqtt_Topic
  imports Mqtt_Types Cpp_Std
begin

text \<open>
  mqtt_topic.h: topic names, topic filters with their validation and comparison, and the
  iterator over the levels of a topic. An iterator object holds a shared pointer to its
  position; the position itself (\<open>TopicHierarchyIterator::impl\<close>) is the record
  \<open>iter_impl\<close>, threaded explicitly by the code that advances it.
\<close>

section \<open>TopicHierarchyIterator\<close>

record iter_impl =
  ii_nextTopic :: string
  ii_topic :: string
  ii_pos :: nat

text \<open>\<open>while(_pos != _end && *_pos != '/') ++_pos;\<close>\<close>

function scan_level :: "string \<Rightarrow> nat \<Rightarrow> nat" where
  "scan_level s pos = (if pos < length s \<and> s ! pos \<noteq> CHR ''/'' then scan_level s (Suc pos) else pos)"
  by pat_completeness auto
termination
  by (relation "measure (\<lambda>(s, pos). length s - pos)") auto

declare scan_level.simps [simp del]

text \<open>
  \<open>_pos == _end\<close> is written with \<open>\<ge>\<close>: the position never passes the end, which
  \<open>iter_ok\<close> below keeps, and the function is total.
\<close>

definition nextTopic :: "iter_impl \<Rightarrow> bool \<times> iter_impl" where
  "nextTopic i =
     (if ii_pos i \<ge> length (ii_topic i) then (False, i)
      else if ii_pos i = 0 \<and> char_at (ii_topic i) (ii_pos i) = CHR ''/''
      then (True, i\<lparr>ii_pos := Suc (ii_pos i), ii_nextTopic := []\<rparr>)
      else
        (let pos = scan_level (ii_topic i) (ii_pos i);
             level = take (pos - ii_pos i) (drop (ii_pos i) (ii_topic i));
             pos' = (if char_at (ii_topic i) pos = CHR ''/'' then Suc pos else pos)
         in (True, i\<lparr>ii_nextTopic := level, ii_pos := pos'\<rparr>)))"

text \<open>The constructor of \<open>impl\<close>, used by \<open>begin()\<close>; \<open>end()\<close> is the null pointer.\<close>

definition iter_impl_new :: "string \<Rightarrow> iter_impl" where
  "iter_impl_new topic = snd (nextTopic \<lparr>ii_nextTopic = [], ii_topic = topic, ii_pos = 0\<rparr>)"

text \<open>
  \<open>operator++\<close> through an iterator that is not null: the shared position moves, and the
  iterator variable itself becomes null (\<open>False\<close>) at the end of the topic.
\<close>

definition iter_incr :: "iter_impl \<Rightarrow> bool \<times> iter_impl" where
  "iter_incr i = nextTopic i"

text \<open>
  The levels the iterator is to produce: the topic split at every separator, with no level
  after a trailing separator. The empty topic has one level, the empty one.
\<close>

fun first_level :: "string \<Rightarrow> string" where
  "first_level [] = []"
| "first_level (c # s) = (if c = CHR ''/'' then [] else c # first_level s)"

fun after_level :: "string \<Rightarrow> string" where
  "after_level [] = []"
| "after_level (c # s) = (if c = CHR ''/'' then s else after_level s)"

lemma after_level_length: "s \<noteq> [] \<Longrightarrow> length (after_level s) < length s"
proof (induction s)
  case (Cons c s)
  then show ?case by (cases s) auto
qed simp

function chunks :: "string \<Rightarrow> string list" where
  "chunks s = (if s = [] then [] else first_level s # chunks (after_level s))"
  by pat_completeness auto
termination
  by (relation "measure length") (simp_all add: after_level_length)

declare chunks.simps [simp del]

definition topic_levels :: "string \<Rightarrow> string list" where
  "topic_levels s = (if s = [] then [[]] else chunks s)"

lemma chunks_Nil [simp]: "chunks [] = []"
  by (simp add: chunks.simps)

lemma chunks_Cons: "chunks (c # s) = first_level (c # s) # chunks (after_level (c # s))"
  by (subst chunks.simps) simp

lemma chunks_eq_Nil [simp]: "chunks s = [] \<longleftrightarrow> s = []"
  by (subst chunks.simps) simp

lemma topic_levels_nonempty [simp]: "topic_levels s \<noteq> []"
  by (simp add: topic_levels_def)

text \<open>The position of an iterator as the levels still to come after the current one.\<close>

definition iter_ok :: "iter_impl \<Rightarrow> bool" where
  "iter_ok i \<longleftrightarrow> ii_pos i \<le> length (ii_topic i)"

definition iter_rest :: "iter_impl \<Rightarrow> string list" where
  "iter_rest i = chunks (drop (ii_pos i) (ii_topic i))"

lemma drop_Cons_nth: "pos < length s \<Longrightarrow> drop pos s = s ! pos # drop (Suc pos) s"
  by (simp add: Cons_nth_drop_Suc)

lemma scan_level_eq:
  "pos \<le> length s \<Longrightarrow> scan_level s pos = pos + length (first_level (drop pos s))"
proof (induction s pos rule: scan_level.induct)
  case (1 s pos)
  show ?case
  proof (cases "pos < length s")
    case True
    with 1 show ?thesis by (simp add: scan_level.simps [of s pos] drop_Cons_nth)
  next
    case False
    with "1.prems" show ?thesis by (subst scan_level.simps) simp
  qed
qed

lemma first_level_take: "take (length (first_level s)) s = first_level s"
  by (induction s) auto

lemma first_level_length: "length (first_level s) \<le> length s"
  by (induction s) auto

lemma after_level_drop:
  "after_level s = drop (if char_at s (length (first_level s)) = CHR ''/''
     then Suc (length (first_level s)) else length (first_level s)) s"
  by (induction s) (auto simp: char_at_def)

lemma after_level_char_at:
  "char_at s (length (first_level s)) = CHR ''/'' \<Longrightarrow> length (first_level s) < length s"
  by (auto simp: char_at_def split: if_splits)

lemma char_at_drop: "p \<le> length s \<Longrightarrow> char_at (drop p s) n = char_at s (p + n)"
  by (auto simp: char_at_def)

lemma nextTopic_end: "iter_rest i = [] \<Longrightarrow> iter_ok i \<Longrightarrow> nextTopic i = (False, i)"
  by (simp add: iter_rest_def iter_ok_def nextTopic_def)

text \<open>
  One step of the iterator, away from the end: the special case for a leading separator
  computes what the general case computes.
\<close>

lemma nextTopic_unfold:
  assumes "ii_pos i < length (ii_topic i)"
  shows "nextTopic i =
     (let d = drop (ii_pos i) (ii_topic i); n = length (first_level d)
      in (True, i\<lparr>ii_nextTopic := first_level d,
                  ii_pos := ii_pos i + (if char_at d n = CHR ''/'' then Suc n else n)\<rparr>))"
proof (cases "ii_pos i = 0 \<and> char_at (ii_topic i) (ii_pos i) = CHR ''/''")
  case True
  with assms have "ii_topic i ! 0 = CHR ''/''" by (auto simp: char_at_def)
  then obtain s where "ii_topic i = CHR ''/'' # s" using assms by (cases "ii_topic i") auto
  with True assms show ?thesis by (simp add: nextTopic_def Let_def char_at_def)
next
  case False
  have ne: "(ii_pos i = length (ii_topic i)) = False" using assms by simp
  have general: "(ii_pos i = 0 \<and> char_at (ii_topic i) (ii_pos i) = CHR ''/'') = False"
    using False by simp
  show ?thesis
    unfolding nextTopic_def Let_def general ne if_False
    using assms by (simp add: scan_level_eq char_at_drop first_level_take)
qed

lemma nextTopic_step:
  assumes ok: "iter_ok i" and more: "iter_rest i = l # ls"
  obtains i' where "nextTopic i = (True, i')" "ii_nextTopic i' = l" "iter_rest i' = ls"
    "iter_ok i'" "ii_topic i' = ii_topic i"
proof -
  let ?d = "drop (ii_pos i) (ii_topic i)"
  let ?n = "length (first_level ?d)"
  let ?k = "if char_at ?d ?n = CHR ''/'' then Suc ?n else ?n"
  have pos: "ii_pos i < length (ii_topic i)"
    using more ok by (auto simp: iter_rest_def iter_ok_def intro: ccontr)
  then have l: "l = first_level ?d" and ls: "ls = chunks (after_level ?d)"
    using more by (auto simp: iter_rest_def chunks.simps [of ?d])
  have k: "?k \<le> length ?d"
    using first_level_length [of ?d] after_level_char_at [of ?d] by (auto simp: Suc_le_eq)
  have "after_level ?d = drop (ii_pos i + ?k) (ii_topic i)"
    by (subst after_level_drop) (simp add: add.commute)
  with pos l ls k show thesis
    by (intro that [of "i\<lparr>ii_nextTopic := first_level ?d, ii_pos := ii_pos i + ?k\<rparr>"])
      (auto simp: nextTopic_unfold Let_def iter_rest_def iter_ok_def)
qed

lemma iter_impl_new_view:
  "ii_nextTopic (iter_impl_new s) # iter_rest (iter_impl_new s) = topic_levels s \<and>
   iter_ok (iter_impl_new s)"
proof -
  let ?i = "\<lparr>ii_nextTopic = [], ii_topic = s, ii_pos = 0\<rparr> :: iter_impl"
  have ok: "iter_ok ?i" by (simp add: iter_ok_def)
  have rest: "iter_rest ?i = chunks s" by (simp add: iter_rest_def)
  show ?thesis
  proof (cases "chunks s")
    case Nil
    with rest ok have "nextTopic ?i = (False, ?i)" by (simp add: nextTopic_end)
    with Nil rest ok show ?thesis by (simp add: iter_impl_new_def topic_levels_def)
  next
    case (Cons l ls)
    then have ne: "s \<noteq> []" by auto
    from Cons rest have "iter_rest ?i = l # ls" by simp
    from nextTopic_step [OF ok this] obtain i' where
      "nextTopic ?i = (True, i')" "ii_nextTopic i' = l" "iter_rest i' = ls" "iter_ok i'" .
    with Cons ne show ?thesis by (simp add: iter_impl_new_def topic_levels_def)
  qed
qed


section \<open>Splitting at separators\<close>

text \<open>
  The levels as the MQTT specification counts them: one more than there are separators.
\<close>

fun split_slash :: "string \<Rightarrow> string list" where
  "split_slash [] = [[]]"
| "split_slash (c # s) =
     (if c = CHR ''/'' then [] # split_slash s
      else (case split_slash s of [] \<Rightarrow> [[c]] | l # ls \<Rightarrow> (c # l) # ls))"

lemma split_slash_nonempty [simp]: "split_slash s \<noteq> []"
  by (induction s) (auto split: list.splits)

lemma split_slash_rec:
  "split_slash s = first_level s # (if CHR ''/'' \<in> set s then split_slash (after_level s) else [])"
  by (induction s) auto

lemma after_level_no_sep: "CHR ''/'' \<notin> set s \<Longrightarrow> after_level s = []"
  by (induction s) auto

lemma after_level_Nil_iff:
  "CHR ''/'' \<in> set s \<Longrightarrow> after_level s = [] \<longleftrightarrow> (\<exists>t. CHR ''/'' \<notin> set t \<and> s = t @ ''/'')"
proof (induction s)
  case (Cons c s)
  show ?case
  proof (cases "c = CHR ''/''")
    case True
    then show ?thesis by (auto simp: Cons_eq_append_conv)
  next
    case False
    with Cons show ?thesis by (force simp: Cons_eq_append_conv)
  qed
qed simp

lemma last_after_level: "after_level s \<noteq> [] \<Longrightarrow> last (after_level s) = last s"
  by (induction s) (auto split: if_splits)

text \<open>
  The iterator produces exactly these levels, except that an empty level after a trailing
  separator is lost: \<open>a/\<close> has the levels of \<open>a\<close>.
\<close>

theorem topic_levels_split:
  "topic_levels s =
     (if s \<noteq> [] \<and> last s = CHR ''/'' then butlast (split_slash s) else split_slash s)"
proof (cases "s = []")
  case False
  then have "chunks s = (if last s = CHR ''/'' then butlast (split_slash s) else split_slash s)"
  proof (induction s rule: chunks.induct)
    case (1 s)
    have nosep: "CHR ''/'' \<notin> set s \<Longrightarrow> last s \<noteq> CHR ''/''"
      using "1.prems" last_in_set by metis
    show ?case
    proof (cases "after_level s = []")
      case True
      have "CHR ''/'' \<in> set s \<Longrightarrow> last s = CHR ''/''"
        using after_level_Nil_iff [of s] True by auto
      with True nosep "1.prems" show ?thesis
        by (subst chunks.simps) (auto simp: split_slash_rec [of s])
    next
      case False
      then have sep: "CHR ''/'' \<in> set s" using after_level_no_sep by blast
      have "last (after_level s) = last s" using False by (rule last_after_level)
      with "1.IH" "1.prems" False sep show ?thesis
        by (subst chunks.simps) (simp add: split_slash_rec [of s])
    qed
  qed
  with False show ?thesis by (simp add: topic_levels_def)
qed (simp add: topic_levels_def)


section \<open>TopicFilter\<close>

record TopicFilter =
  tf_filter :: string
  tf_qos :: QoSLevel

definition TopicFilter_of :: "string \<Rightarrow> QoSLevel \<Rightarrow> TopicFilter" where
  "TopicFilter_of flt qos = \<lparr>tf_filter = flt, tf_qos = qos\<rparr>"

definition topic_filter_eq :: "TopicFilter \<Rightarrow> TopicFilter \<Rightarrow> bool" where
  "topic_filter_eq lhs rhs \<longleftrightarrow> tf_filter lhs = tf_filter rhs \<and> tf_qos lhs = tf_qos rhs"

definition topic_filter_neq :: "TopicFilter \<Rightarrow> TopicFilter \<Rightarrow> bool" where
  "topic_filter_neq lhs rhs \<longleftrightarrow> tf_filter lhs \<noteq> tf_filter rhs \<or> tf_qos lhs \<noteq> tf_qos rhs"

text \<open>\<open>operator<\<close>: a disjunction, not the lexicographic order.\<close>

definition topic_filter_less :: "TopicFilter \<Rightarrow> TopicFilter \<Rightarrow> bool" where
  "topic_filter_less lhs rhs \<longleftrightarrow> tf_filter lhs < tf_filter rhs \<or> tf_qos lhs < tf_qos rhs"

lemma topic_filter_eq_iff [simp]: "topic_filter_eq f g \<longleftrightarrow> f = g"
  by (cases f; cases g) (simp add: topic_filter_eq_def)

lemma topic_filter_neq_iff [simp]: "topic_filter_neq f g \<longleftrightarrow> f \<noteq> g"
  by (cases f; cases g) (auto simp: topic_filter_neq_def)

text \<open>
  The loop of \<open>TopicFilter::validate\<close> over the rest of the filter; \<open>previous\<close> starts as
  NUL.
\<close>

fun validate_loop :: "char \<Rightarrow> string \<Rightarrow> ec \<Rightarrow> bool \<times> ec" where
  "validate_loop previous [] err = (True, err)"
| "validate_loop previous (c # rest) err =
     (if c = CHR ''+'' \<and> ((previous \<noteq> CHR 0x00 \<and> previous \<noteq> CHR ''/'')
                          \<or> (rest \<noteq> [] \<and> hd rest \<noteq> CHR ''/''))
      then (False, Some invalid_topic_filter)
      else if c = CHR ''#'' \<and> ((previous \<noteq> CHR 0x00 \<and> previous \<noteq> CHR ''/'') \<or> rest \<noteq> [])
      then (False, Some invalid_topic_filter)
      else validate_loop c rest err)"

definition TopicFilter_validate :: "TopicFilter \<Rightarrow> ec \<Rightarrow> bool \<times> ec" where
  "TopicFilter_validate f err = validate_loop (CHR 0x00) (tf_filter f) err"

text \<open>
  The rule the loop is there to check: a wildcard character fills its level, and the
  multi-level wildcard is the last level.
\<close>

fun valid_levels :: "string list \<Rightarrow> bool" where
  "valid_levels [] = True"
| "valid_levels (l # ls) =
     ((CHR ''+'' \<in> set l \<longrightarrow> l = ''+'') \<and> (CHR ''#'' \<in> set l \<longrightarrow> l = ''#'' \<and> ls = []) \<and>
      valid_levels ls)"

lemma validate_loop_ec:
  "validate_loop p s err = (b, err') \<Longrightarrow> (if b then err' = err else err' = Some invalid_topic_filter)"
  by (induction p s err rule: validate_loop.induct) (auto split: if_splits)

lemma split_slash_Cons_plain:
  "c \<noteq> CHR ''/'' \<Longrightarrow> split_slash (c # s) = (c # hd (split_slash s)) # tl (split_slash s)"
  by (cases "split_slash s") auto

lemma split_slash_hd_Nil: "hd (split_slash s) = [] \<longleftrightarrow> s = [] \<or> hd s = CHR ''/''"
  by (cases s) (auto split: list.splits)

lemma split_slash_tl_Nil: "s = [] \<Longrightarrow> tl (split_slash s) = []"
  by simp

lemma valid_levels_hd_tl:
  "ls \<noteq> [] \<Longrightarrow> valid_levels ls \<longleftrightarrow>
     (CHR ''+'' \<in> set (hd ls) \<longrightarrow> hd ls = ''+'') \<and>
     (CHR ''#'' \<in> set (hd ls) \<longrightarrow> hd ls = ''#'' \<and> tl ls = []) \<and> valid_levels (tl ls)"
  by (cases ls) simp_all

lemma split_slash_single: "tl (split_slash s) = [] \<Longrightarrow> split_slash s = [s]"
  by (induction s) (auto split: list.splits if_splits)

lemma validate_loop_levels:
  "CHR 0x00 \<notin> set s \<Longrightarrow>
   fst (validate_loop p s err) =
     (if p = CHR 0x00 \<or> p = CHR ''/'' then valid_levels (split_slash s)
      else CHR ''+'' \<notin> set (hd (split_slash s)) \<and> CHR ''#'' \<notin> set (hd (split_slash s))
           \<and> valid_levels (tl (split_slash s)))"
proof (induction p s err rule: validate_loop.induct)
  case (2 p c rest err)
  have nul: "CHR 0x00 \<notin> set rest" "c \<noteq> CHR 0x00" using "2.prems" by auto
  consider (sep) "c = CHR ''/''" | (plus) "c = CHR ''+''" | (hash) "c = CHR ''#''"
    | (other) "c \<noteq> CHR ''/''" "c \<noteq> CHR ''+''" "c \<noteq> CHR ''#''"
    by blast
  then show ?case
  proof cases
    case sep
    with 2 nul show ?thesis by simp
  next
    case plus
    have single: "hd (split_slash rest) = [] \<longleftrightarrow> rest = [] \<or> hd rest = CHR ''/''"
      by (rule split_slash_hd_Nil)
    from plus 2 nul single show ?thesis
      by (auto simp: split_slash_Cons_plain simp del: split_slash.simps(2))
  next
    case hash
    have "tl (split_slash rest) = [] \<and> hd (split_slash rest) = [] \<longleftrightarrow> rest = []"
      by (metis list.sel(1,3) split_slash.simps(1) split_slash_single)
    with hash 2 nul show ?thesis
      by (auto simp: split_slash_Cons_plain simp del: split_slash.simps(2))
  next
    case other
    then have "fst (validate_loop p (c # rest) err) = fst (validate_loop c rest err)" by simp
    moreover have "fst (validate_loop c rest err) \<longleftrightarrow>
        CHR ''+'' \<notin> set (hd (split_slash rest)) \<and> CHR ''#'' \<notin> set (hd (split_slash rest))
        \<and> valid_levels (tl (split_slash rest))"
      using "2.IH" other nul by simp
    ultimately show ?thesis
      using other by (auto simp: split_slash_Cons_plain simp del: split_slash.simps(2))
  qed
qed simp

lemma TopicFilter_validate_levels:
  "CHR 0x00 \<notin> set (tf_filter f) \<Longrightarrow>
   fst (TopicFilter_validate f err) = valid_levels (split_slash (tf_filter f))"
  unfolding TopicFilter_validate_def by (simp add: validate_loop_levels)

text \<open>
  The comparison: incomparability always composes, but the relation is asymmetric exactly
  when names and levels grow together.
\<close>

definition comonotone :: "TopicFilter set \<Rightarrow> bool" where
  "comonotone S \<longleftrightarrow> (\<forall>f\<in>S. \<forall>g\<in>S. tf_filter f < tf_filter g \<longrightarrow> tf_qos f \<le> tf_qos g)"

lemma topic_filter_neg_trans:
  "\<not> topic_filter_less f g \<Longrightarrow> \<not> topic_filter_less g h \<Longrightarrow> \<not> topic_filter_less f h"
  by (auto simp: topic_filter_less_def not_less intro: order_trans)

lemma topic_filter_incomparable_eq:
  "\<not> topic_filter_less f g \<Longrightarrow> \<not> topic_filter_less g f \<Longrightarrow> f = g"
  by (cases f; cases g) (auto simp: topic_filter_less_def)

lemma topic_filter_swo_iff: "swo_on topic_filter_less S \<longleftrightarrow> comonotone S"
proof
  assume "swo_on topic_filter_less S"
  then show "comonotone S"
    unfolding comonotone_def swo_on_def topic_filter_less_def by (meson not_le)
next
  assume c: "comonotone S"
  have "\<not> topic_filter_less g f" if "f \<in> S" "g \<in> S" "topic_filter_less f g" for f g
  proof
    assume "topic_filter_less g f"
    with that c show False
      by (auto simp: topic_filter_less_def comonotone_def not_less dest: leD)
  qed
  then show "swo_on topic_filter_less S"
    unfolding swo_on_def using topic_filter_neg_trans by blast
qed

lemma comonotone_strict_total: "comonotone S \<Longrightarrow> strict_total_on topic_filter_less S"
  unfolding strict_total_on_def
  using topic_filter_swo_iff topic_filter_incomparable_eq by blast

lemma comonotone_subset: "comonotone S \<Longrightarrow> T \<subseteq> S \<Longrightarrow> comonotone T"
  by (auto simp: comonotone_def)

lemma comonotone_same_qos: "(\<And>f. f \<in> S \<Longrightarrow> tf_qos f = q) \<Longrightarrow> comonotone S"
  by (auto simp: comonotone_def)

text \<open>
  \<open>TopicFilterHelper::findDifference\<close>; \<open>None\<close> where \<open>std::set_difference\<close> guarantees nothing.
\<close>

definition findDifference :: "TopicFilter list \<Rightarrow> TopicFilter list \<Rightarrow> TopicFilter list option" where
  "findDifference filtersToAdd currentFilters =
     std_set_difference topic_filter_less filtersToAdd currentFilters"

lemma findDifference_new:
  "comonotone (set add \<union> set cur) \<Longrightarrow> asc topic_filter_less add \<Longrightarrow> asc topic_filter_less cur \<Longrightarrow>
   distinct add \<Longrightarrow> findDifference add cur = Some (filter (\<lambda>f. f \<notin> set cur) add)"
  unfolding findDifference_def by (intro std_set_difference_filter comonotone_strict_total)

text \<open>The sort and unique that the subscribe parser applies to a finished filter list.\<close>

definition sort_unique_filters :: "TopicFilter list \<Rightarrow> TopicFilter list" where
  "sort_unique_filters fs = std_unique (std_sort topic_filter_less fs)"

lemma sort_unique_filters_correct:
  assumes "comonotone (set fs)"
  shows "set (sort_unique_filters fs) = set fs" "distinct (sort_unique_filters fs)"
    "asc topic_filter_less (sort_unique_filters fs)"
proof -
  note total = comonotone_strict_total [OF assms]
  note sorted = std_sort_facts [OF total]
  show "set (sort_unique_filters fs) = set fs" by (simp add: sort_unique_filters_def sorted(2))
  show "distinct (sort_unique_filters fs)"
    unfolding sort_unique_filters_def using total sorted(2,3) by (intro asc_unique_distinct) simp_all
  show "asc topic_filter_less (sort_unique_filters fs)"
    unfolding sort_unique_filters_def std_unique_def using sorted(3) by (rule asc_remdups_adj)
qed


section \<open>TopicName\<close>

type_synonym TopicName = string

definition TopicName_validate :: "TopicName \<Rightarrow> ec \<Rightarrow> bool \<times> ec" where
  "TopicName_validate name err =
     (if find_first_of ''+#'' name 0 \<noteq> None then (False, Some invalid_wildcard_in_topic)
      else (True, err))"

lemma TopicName_validate_iff:
  "fst (TopicName_validate name err) \<longleftrightarrow> CHR ''+'' \<notin> set name \<and> CHR ''#'' \<notin> set name"
  by (auto simp: TopicName_validate_def find_first_of_def find_if_from_None)

lemma TopicName_validate_ok:
  "CHR ''+'' \<notin> set name \<Longrightarrow> CHR ''#'' \<notin> set name \<Longrightarrow> TopicName_validate name err = (True, err)"
  by (auto simp: TopicName_validate_def find_first_of_def find_if_from_None)

end
