(* ===== verification/Mqtt_Packets.thy ===== *)
theory Mqtt_Packets
  imports Mqtt_Topic
begin

text \<open>
  The control packets of mqtt_control_packets.h: one record per class, with the fixed header
  of the common base class as its first field, and the base class pointer
  \<open>ControlPacket::Ptr\<close> as a datatype of the dynamic type. Members that a constructor
  leaves uninitialised are arguments of the constructor's model.
\<close>

record ConnectControlPacket =
  cn_header :: FixedHeader
  cn_protocolLevel :: u8
  cn_cleanSession :: bool
  cn_willFlag :: bool
  cn_willQoSLevel :: QoSLevel
  cn_willRetain :: bool
  cn_passwordFlag :: bool
  cn_userNameFlag :: bool
  cn_keepAlive :: u16
  cn_clientId :: string
  cn_willTopic :: string
  cn_willMessage :: string
  cn_userName :: string
  cn_password :: string

definition ConnectControlPacket_new :: "u16 \<Rightarrow> ConnectControlPacket" where
  "ConnectControlPacket_new junk =
     \<lparr>cn_header = FixedHeader_of Connect, cn_protocolLevel = 0, cn_cleanSession = False,
      cn_willFlag = False, cn_willQoSLevel = AtMostOnce, cn_willRetain = False,
      cn_passwordFlag = False, cn_userNameFlag = False, cn_keepAlive = junk,
      cn_clientId = [], cn_willTopic = [], cn_willMessage = [], cn_userName = [],
      cn_password = []\<rparr>"

record ConnAckControlPacket =
  ca_header :: FixedHeader
  ca_connectAcknowledgeFlag :: ConnectAcknowledgeFlags
  ca_connectReturnCode :: ConnectReturnCode

definition ConnAckControlPacket_new :: ConnAckControlPacket where
  "ConnAckControlPacket_new =
     \<lparr>ca_header = FixedHeader_of Connack, ca_connectAcknowledgeFlag = NoFlags,
      ca_connectReturnCode = ConnectionAccepted\<rparr>"

record PublishControlPacket =
  pb_header :: FixedHeader
  pb_topicName :: TopicName
  pb_packetIdentifier :: PacketIdentifier
  pb_payload :: "u8 list"

definition PublishControlPacket_new :: "u16 \<Rightarrow> PublishControlPacket" where
  "PublishControlPacket_new junk =
     \<lparr>pb_header = FixedHeader_of Publish, pb_topicName = [], pb_packetIdentifier = junk,
      pb_payload = []\<rparr>"

record SubscribeControlPacket =
  sb_header :: FixedHeader
  sb_packetIdentifier :: PacketIdentifier
  sb_topicFilters :: "TopicFilter list"

definition SubscribeControlPacket_new :: "u16 \<Rightarrow> SubscribeControlPacket" where
  "SubscribeControlPacket_new junk =
     \<lparr>sb_header = FixedHeader_of Subscribe, sb_packetIdentifier = junk, sb_topicFilters = []\<rparr>"

record SubAckControlPacket =
  sa_header :: FixedHeader
  sa_packetIdentifier :: PacketIdentifier
  sa_qosLevels :: "QoSLevel list"

definition SubAckControlPacket_new :: "u16 \<Rightarrow> SubAckControlPacket" where
  "SubAckControlPacket_new junk =
     \<lparr>sa_header = FixedHeader_of Suback, sa_packetIdentifier = junk, sa_qosLevels = []\<rparr>"

text \<open>
  \<open>PingReqControlPacket\<close>, \<open>PingRespControlPacket\<close> and \<open>DisconnectControlPacket\<close>
  have no members of their own. \<open>PBase\<close> is a plain \<open>ControlPacket\<close>.
\<close>

datatype ControlPacket =
    PConnect ConnectControlPacket
  | PConnAck ConnAckControlPacket
  | PPublish PublishControlPacket
  | PSubscribe SubscribeControlPacket
  | PSubAck SubAckControlPacket
  | PPingReq FixedHeader
  | PPingResp FixedHeader
  | PDisconnect FixedHeader
  | PBase FixedHeader

definition PingReqControlPacket_new :: ControlPacket where
  "PingReqControlPacket_new = PPingReq (FixedHeader_of Pingreq)"

definition PingRespControlPacket_new :: ControlPacket where
  "PingRespControlPacket_new = PPingResp (FixedHeader_of Pingresp)"

definition DisconnectControlPacket_new :: ControlPacket where
  "DisconnectControlPacket_new = PDisconnect (FixedHeader_of Disconnect)"

text \<open>\<open>packet->_header\<close>, read and assigned through the base class.\<close>

fun packet_header :: "ControlPacket \<Rightarrow> FixedHeader" where
  "packet_header (PConnect p) = cn_header p"
| "packet_header (PConnAck p) = ca_header p"
| "packet_header (PPublish p) = pb_header p"
| "packet_header (PSubscribe p) = sb_header p"
| "packet_header (PSubAck p) = sa_header p"
| "packet_header (PPingReq h) = h"
| "packet_header (PPingResp h) = h"
| "packet_header (PDisconnect h) = h"
| "packet_header (PBase h) = h"

fun set_packet_header :: "FixedHeader \<Rightarrow> ControlPacket \<Rightarrow> ControlPacket" where
  "set_packet_header h (PConnect p) = PConnect (p\<lparr>cn_header := h\<rparr>)"
| "set_packet_header h (PConnAck p) = PConnAck (p\<lparr>ca_header := h\<rparr>)"
| "set_packet_header h (PPublish p) = PPublish (p\<lparr>pb_header := h\<rparr>)"
| "set_packet_header h (PSubscribe p) = PSubscribe (p\<lparr>sb_header := h\<rparr>)"
| "set_packet_header h (PSubAck p) = PSubAck (p\<lparr>sa_header := h\<rparr>)"
| "set_packet_header h (PPingReq _) = PPingReq h"
| "set_packet_header h (PPingResp _) = PPingResp h"
| "set_packet_header h (PDisconnect _) = PDisconnect h"
| "set_packet_header h (PBase _) = PBase h"

abbreviation packet_type :: "ControlPacket \<Rightarrow> ControlPacketType" where
  "packet_type p \<equiv> fh_controlPacketType (packet_header p)"

text \<open>
  The header's type is the dynamic type of the object, which is what the
  \<open>dynamic_cast\<close>s of the serializer and the processor rely on.
\<close>

fun well_typed :: "ControlPacket \<Rightarrow> bool" where
  "well_typed (PConnect p) \<longleftrightarrow> fh_controlPacketType (cn_header p) = Connect"
| "well_typed (PConnAck p) \<longleftrightarrow> fh_controlPacketType (ca_header p) = Connack"
| "well_typed (PPublish p) \<longleftrightarrow> fh_controlPacketType (pb_header p) = Publish"
| "well_typed (PSubscribe p) \<longleftrightarrow> fh_controlPacketType (sb_header p) = Subscribe"
| "well_typed (PSubAck p) \<longleftrightarrow> fh_controlPacketType (sa_header p) = Suback"
| "well_typed (PPingReq h) \<longleftrightarrow> fh_controlPacketType h = Pingreq"
| "well_typed (PPingResp h) \<longleftrightarrow> fh_controlPacketType h = Pingresp"
| "well_typed (PDisconnect h) \<longleftrightarrow> fh_controlPacketType h = Disconnect"
| "well_typed (PBase h) \<longleftrightarrow>
     fh_controlPacketType h \<notin> {Connect, Connack, Publish, Subscribe, Suback, Pingreq, Pingresp, Disconnect}"

lemma packet_header_set [simp]: "packet_header (set_packet_header h p) = h"
  by (cases p) simp_all

lemma new_packets_well_typed [simp]:
  "well_typed (PConnect (ConnectControlPacket_new k))"
  "well_typed (PConnAck ConnAckControlPacket_new)"
  "well_typed (PPublish (PublishControlPacket_new k))"
  "well_typed (PSubscribe (SubscribeControlPacket_new k))"
  "well_typed (PSubAck (SubAckControlPacket_new k))"
  "well_typed PingReqControlPacket_new"
  "well_typed PingRespControlPacket_new"
  "well_typed DisconnectControlPacket_new"
  by (simp_all add: ConnectControlPacket_new_def ConnAckControlPacket_new_def
      PublishControlPacket_new_def SubscribeControlPacket_new_def SubAckControlPacket_new_def
      PingReqControlPacket_new_def PingRespControlPacket_new_def DisconnectControlPacket_new_def
      FixedHeader_of_def)

end
