(* ===== verification/Mqtt_Body_Parsers.thy ===== *)
theory Mqtt_Body_Parsers
  imports Mqtt_Codec Mqtt_Packets
begin

text \<open>
  The parsers of the variable header and payload of one packet type each:
  mqtt_connack_parser.h, mqtt_suback_parser.h, mqtt_publish_parser.h and
  mqtt_subscribe_parser.h. (mqtt_connect_parser.h is the theory \<open>Mqtt_Connect_Parser\<close>.)
\<close>

section \<open>ConnectAckParser\<close>

datatype ConnAckStatus = CA_ConnectAcknowledgeFlag | CA_ConnectReturnCode | CA_Ready

record ConnectAckParser =
  cap_status :: ConnAckStatus
  cap_packet :: ConnAckControlPacket

definition ConnectAckParser_new :: ConnectAckParser where
  "ConnectAckParser_new =
     \<lparr>cap_status = CA_ConnectAcknowledgeFlag, cap_packet = ConnAckControlPacket_new\<rparr>"

definition ConnectAckParser_reset :: "ConnectAckParser \<Rightarrow> ConnectAckParser" where
  "ConnectAckParser_reset p = p\<lparr>cap_status := CA_ConnectAcknowledgeFlag\<rparr>"

definition ConnectAckParser_parse :: "ConnectAckParser byte_step" where
  "ConnectAckParser_parse p byte err =
     (case cap_status p of
        CA_ConnectAcknowledgeFlag \<Rightarrow>
          (if byte AND 0xFE \<noteq> 0
           then (Tribool_of False, Some connect_acknowledge_flag_violation, p\<lparr>cap_status := CA_Ready\<rparr>)
           else (Tribool_new, err,
                 p\<lparr>cap_packet := (cap_packet p)
                     \<lparr>ca_connectAcknowledgeFlag := ConnectAcknowledgeFlags_of (byte AND 0x01)\<rparr>,
                   cap_status := CA_ConnectReturnCode\<rparr>))
      | CA_ConnectReturnCode \<Rightarrow>
          (if byte > 5
           then (Tribool_of False, Some invalid_connect_return_code, p\<lparr>cap_status := CA_Ready\<rparr>)
           else (Tribool_of True, err,
                 p\<lparr>cap_packet := (cap_packet p)\<lparr>ca_connectReturnCode := ConnectReturnCode_of byte\<rparr>,
                   cap_status := CA_Ready\<rparr>))
      | CA_Ready \<Rightarrow> (Tribool_of False, Some packet_identifier_length_violation, p))"


section \<open>SubAckParser\<close>

datatype SubAckStatus = SA_PacketIdentifier | SA_QoS | SA_Ready

record SubAckParser =
  sap_status :: SubAckStatus
  sap_packet :: SubAckControlPacket
  sap_ret :: Tribool
  sap_length :: u32
  sap_identifierParser :: PacketIdentifierParser

definition SubAckParser_new :: "u16 \<Rightarrow> u32 \<Rightarrow> SubAckParser" where
  "SubAckParser_new junk len =
     \<lparr>sap_status = SA_PacketIdentifier, sap_packet = SubAckControlPacket_new junk,
      sap_ret = Tribool_new, sap_length = len,
      sap_identifierParser = PacketIdentifierParser_new junk\<rparr>"

text \<open>\<open>reset\<close> does not clear the QoS levels of the packet under construction.\<close>

definition SubAckParser_reset :: "u32 \<Rightarrow> SubAckParser \<Rightarrow> SubAckParser" where
  "SubAckParser_reset len p =
     p\<lparr>sap_ret := Tribool_new, sap_status := SA_PacketIdentifier, sap_length := len,
       sap_identifierParser := PacketIdentifierParser_reset (sap_identifierParser p)\<rparr>"

text \<open>The \<open>switch\<close> of \<open>parse\<close>, after the byte has been counted.\<close>

definition SubAckParser_switch :: "SubAckParser \<Rightarrow> u8 \<Rightarrow> ec \<Rightarrow> ec \<times> SubAckParser" where
  "SubAckParser_switch p byte err =
     (case sap_status p of
        SA_PacketIdentifier \<Rightarrow>
          (case PacketIdentifierParser_parse (sap_identifierParser p) byte err of
             (ret, err, ip) \<Rightarrow>
               (let p = p\<lparr>sap_identifierParser := ip\<rparr>
                in if isFalse ret \<or> err \<noteq> None
                   then (err, p\<lparr>sap_status := SA_Ready, sap_ret := tribool_set False (sap_ret p)\<rparr>)
                   else if isTrue ret
                   then (let p = p\<lparr>sap_packet := (sap_packet p)
                                     \<lparr>sa_packetIdentifier := pi_packetIdentifier ip\<rparr>\<rparr>
                         in if sap_length p \<noteq> 0 then (err, p\<lparr>sap_status := SA_QoS\<rparr>)
                            else (err, p\<lparr>sap_status := SA_Ready,
                                          sap_ret := tribool_set True (sap_ret p)\<rparr>))
                   else (err, p)))
      | SA_QoS \<Rightarrow>
          (if byte > 0x02
           then (Some invalid_qos_level,
                 p\<lparr>sap_status := SA_Ready, sap_ret := tribool_set False (sap_ret p)\<rparr>)
           else (let p = p\<lparr>sap_packet := (sap_packet p)
                             \<lparr>sa_qosLevels := sa_qosLevels (sap_packet p) @ [QoSLevel_of byte]\<rparr>\<rparr>
                 in if sap_length p = 0
                    then (err, p\<lparr>sap_status := SA_Ready, sap_ret := tribool_set True (sap_ret p)\<rparr>)
                    else (err, p)))
      | SA_Ready \<Rightarrow> (Some publish_protocol_violation, p))"

definition SubAckParser_parse :: "SubAckParser byte_step" where
  "SubAckParser_parse p byte err =
     (if sap_length p = 0
      then (let p = p\<lparr>sap_ret := tribool_set False (sap_ret p)\<rparr>
            in (sap_ret p, Some control_packet_length, p))
      else
        (case SubAckParser_switch (p\<lparr>sap_length := sap_length p - 1\<rparr>) byte err of
           (err, p) \<Rightarrow>
             (if tribool_bool (sap_ret p) \<and> sap_length p \<noteq> 0
              then (let p = p\<lparr>sap_ret := tribool_set False (sap_ret p)\<rparr>
                    in (sap_ret p, Some control_packet_length, p))
              else (sap_ret p, err, p))))"

lemma SubAckParser_switch_length:
  "SubAckParser_switch p b err = (err', p') \<Longrightarrow> sap_length p' = sap_length p"
  by (auto simp: SubAckParser_switch_def Let_def split: SubAckStatus.splits prod.splits if_splits)

lemma SubAckParser_parse_step:
  assumes "sap_length p \<noteq> 0" "SubAckParser_parse p b err = (r, err', p')"
  shows "sap_length p' = sap_length p - 1 \<and> (isTrue r \<longrightarrow> sap_length p' = 0)"
proof -
  obtain e q where sw: "SubAckParser_switch (p\<lparr>sap_length := sap_length p - 1\<rparr>) b err = (e, q)"
    by (cases "SubAckParser_switch (p\<lparr>sap_length := sap_length p - 1\<rparr>) b err") auto
  from SubAckParser_switch_length [OF sw] sw assms show ?thesis
    by (auto simp: SubAckParser_parse_def Let_def split: if_splits)
qed

interpretation suback: length_bounded SubAckParser_parse "\<lambda>p :: SubAckParser. unat (sap_length p)"
  by (rule length_bounded_u32 [OF _ SubAckParser_parse_step]) (simp_all add: SubAckParser_parse_def)


section \<open>PublishParser\<close>

datatype PublishStatus = PU_TopicName | PU_PacketIdentifier | PU_Payload | PU_Ready

record PublishParser =
  pbp_status :: PublishStatus
  pbp_packet :: PublishControlPacket
  pbp_ret :: Tribool
  pbp_qos :: QoSLevel
  pbp_length :: u32
  pbp_stringParser :: StringParser
  pbp_identifierParser :: PacketIdentifierParser

definition PublishParser_new :: "u16 \<Rightarrow> u32 \<Rightarrow> QoSLevel \<Rightarrow> u32 \<Rightarrow> PublishParser" where
  "PublishParser_new junk16 junk32 qos len =
     \<lparr>pbp_status = PU_TopicName, pbp_packet = PublishControlPacket_new junk16,
      pbp_ret = Tribool_new, pbp_qos = qos, pbp_length = len,
      pbp_stringParser = StringParser_new junk32,
      pbp_identifierParser = PacketIdentifierParser_new junk16\<rparr>"

definition PublishParser_reset :: "QoSLevel \<Rightarrow> u32 \<Rightarrow> PublishParser \<Rightarrow> PublishParser" where
  "PublishParser_reset qos len p =
     p\<lparr>pbp_ret := Tribool_new, pbp_status := PU_TopicName, pbp_qos := qos, pbp_length := len,
       pbp_stringParser := StringParser_reset (pbp_stringParser p),
       pbp_identifierParser := PacketIdentifierParser_reset (pbp_identifierParser p),
       pbp_packet := (pbp_packet p)\<lparr>pb_payload := []\<rparr>\<rparr>"

text \<open>The topic name case looks at the member \<open>_ret\<close>, not at the string parser's answer.\<close>

definition PublishParser_switch :: "PublishParser \<Rightarrow> u8 \<Rightarrow> ec \<Rightarrow> ec \<times> PublishParser" where
  "PublishParser_switch p byte err =
     (let failed = (\<lambda>p. p\<lparr>pbp_status := PU_Ready, pbp_ret := tribool_set False (pbp_ret p)\<rparr>) in
      case pbp_status p of
        PU_TopicName \<Rightarrow>
          (case StringParser_parse (pbp_stringParser p) byte err of
             (ret, err, sp) \<Rightarrow>
               (let p = p\<lparr>pbp_stringParser := sp\<rparr>
                in if isIndeterminate ret then (err, p)
                   else if isFalse (pbp_ret p) \<or> err \<noteq> None then (err, failed p)
                   else
                     (let p = p\<lparr>pbp_packet := (pbp_packet p)\<lparr>pb_topicName := StringParser_string sp\<rparr>\<rparr>
                      in case TopicName_validate (pb_topicName (pbp_packet p)) err of
                           (False, err) \<Rightarrow> (err, failed p)
                         | (True, err) \<Rightarrow>
                             (err, p\<lparr>pbp_status := (if pbp_qos p > AtMostOnce then PU_PacketIdentifier
                                                     else PU_Payload),
                                     pbp_stringParser := StringParser_reset sp\<rparr>))))
      | PU_PacketIdentifier \<Rightarrow>
          (case PacketIdentifierParser_parse (pbp_identifierParser p) byte err of
             (ret, err, ip) \<Rightarrow>
               (let p = p\<lparr>pbp_identifierParser := ip\<rparr>
                in if isFalse ret \<or> err \<noteq> None then (err, failed p)
                   else if isTrue ret
                   then (let p = p\<lparr>pbp_packet := (pbp_packet p)
                                     \<lparr>pb_packetIdentifier := pi_packetIdentifier ip\<rparr>\<rparr>
                         in if pbp_length p \<noteq> 0 then (err, p\<lparr>pbp_status := PU_Payload\<rparr>)
                            else (err, p\<lparr>pbp_status := PU_Ready,
                                          pbp_ret := tribool_set True (pbp_ret p)\<rparr>))
                   else (err, p)))
      | PU_Payload \<Rightarrow>
          (let p = p\<lparr>pbp_packet := (pbp_packet p)\<lparr>pb_payload := pb_payload (pbp_packet p) @ [byte]\<rparr>\<rparr>
           in if pbp_length p = 0
              then (err, p\<lparr>pbp_status := PU_Ready, pbp_ret := tribool_set True (pbp_ret p)\<rparr>)
              else (err, p))
      | PU_Ready \<Rightarrow> (Some publish_protocol_violation, p))"

definition PublishParser_parse :: "PublishParser byte_step" where
  "PublishParser_parse p byte err =
     (if pbp_length p = 0
      then (let p = p\<lparr>pbp_ret := tribool_set False (pbp_ret p)\<rparr>
            in (pbp_ret p, Some control_packet_length, p))
      else
        (case PublishParser_switch (p\<lparr>pbp_length := pbp_length p - 1\<rparr>) byte err of
           (err, p) \<Rightarrow>
             (if tribool_bool (pbp_ret p) \<and> pbp_length p \<noteq> 0
              then (let p = p\<lparr>pbp_ret := tribool_set False (pbp_ret p)\<rparr>
                    in (pbp_ret p, Some control_packet_length, p))
              else (pbp_ret p, err, p))))"

lemma PublishParser_switch_length:
  "PublishParser_switch p b err = (err', p') \<Longrightarrow> pbp_length p' = pbp_length p"
  by (auto simp: PublishParser_switch_def Let_def
      split: PublishStatus.splits prod.splits if_splits bool.splits)

lemma PublishParser_parse_step:
  assumes "pbp_length p \<noteq> 0" "PublishParser_parse p b err = (r, err', p')"
  shows "pbp_length p' = pbp_length p - 1 \<and> (isTrue r \<longrightarrow> pbp_length p' = 0)"
proof -
  obtain e q where sw: "PublishParser_switch (p\<lparr>pbp_length := pbp_length p - 1\<rparr>) b err = (e, q)"
    by (cases "PublishParser_switch (p\<lparr>pbp_length := pbp_length p - 1\<rparr>) b err") auto
  from PublishParser_switch_length [OF sw] sw assms show ?thesis
    by (auto simp: PublishParser_parse_def Let_def split: if_splits)
qed

interpretation publish: length_bounded PublishParser_parse "\<lambda>p :: PublishParser. unat (pbp_length p)"
  by (rule length_bounded_u32 [OF _ PublishParser_parse_step]) (simp_all add: PublishParser_parse_def)


section \<open>SubscribeParser\<close>

datatype SubscribeStatus = SU_PacketIdentifier | SU_TopicFilter | SU_QoS | SU_Ready

record SubscribeParser =
  sbp_status :: SubscribeStatus
  sbp_packet :: SubscribeControlPacket
  sbp_ret :: Tribool
  sbp_length :: u32
  sbp_identifierParser :: PacketIdentifierParser
  sbp_stringParser :: StringParser
  sbp_topicFilter :: TopicFilter

definition SubscribeParser_new :: "u16 \<Rightarrow> u32 \<Rightarrow> u32 \<Rightarrow> SubscribeParser" where
  "SubscribeParser_new junk16 junk32 len =
     \<lparr>sbp_status = SU_PacketIdentifier, sbp_packet = SubscribeControlPacket_new junk16,
      sbp_ret = Tribool_new, sbp_length = len,
      sbp_identifierParser = PacketIdentifierParser_new junk16,
      sbp_stringParser = StringParser_new junk32,
      sbp_topicFilter = TopicFilter_of [] AtMostOnce\<rparr>"

text \<open>\<open>reset\<close> does not clear the topic filters of the packet under construction.\<close>

definition SubscribeParser_reset :: "u32 \<Rightarrow> SubscribeParser \<Rightarrow> SubscribeParser" where
  "SubscribeParser_reset len p =
     p\<lparr>sbp_ret := Tribool_new, sbp_status := SU_PacketIdentifier, sbp_length := len,
       sbp_identifierParser := PacketIdentifierParser_reset (sbp_identifierParser p),
       sbp_stringParser := StringParser_reset (sbp_stringParser p)\<rparr>"

definition SubscribeParser_switch :: "SubscribeParser \<Rightarrow> u8 \<Rightarrow> ec \<Rightarrow> ec \<times> SubscribeParser" where
  "SubscribeParser_switch p byte err =
     (let failed = (\<lambda>p. p\<lparr>sbp_status := SU_Ready, sbp_ret := tribool_set False (sbp_ret p)\<rparr>) in
      case sbp_status p of
        SU_PacketIdentifier \<Rightarrow>
          (case PacketIdentifierParser_parse (sbp_identifierParser p) byte err of
             (ret, err, ip) \<Rightarrow>
               (let p = p\<lparr>sbp_identifierParser := ip\<rparr>
                in if isFalse ret \<or> err \<noteq> None then (err, failed p)
                   else if isTrue ret
                   then (err, p\<lparr>sbp_packet := (sbp_packet p)
                                  \<lparr>sb_packetIdentifier := pi_packetIdentifier ip\<rparr>,
                                sbp_status := SU_TopicFilter,
                                sbp_stringParser := StringParser_reset (sbp_stringParser p)\<rparr>)
                   else (err, p)))
      | SU_TopicFilter \<Rightarrow>
          (case StringParser_parse (sbp_stringParser p) byte err of
             (ret, err, sp) \<Rightarrow>
               (let p = p\<lparr>sbp_stringParser := sp\<rparr>
                in if isFalse ret \<or> err \<noteq> None then (err, failed p)
                   else if isTrue ret
                   then (err, p\<lparr>sbp_topicFilter := TopicFilter_of (StringParser_string sp) AtMostOnce,
                                sbp_status := SU_QoS,
                                sbp_stringParser := StringParser_reset sp\<rparr>)
                   else (err, p)))
      | SU_QoS \<Rightarrow>
          (if byte AND 0xFC \<noteq> 0 \<or> byte AND 0x03 > 2
           then (Some invalid_qos_level, failed p)
           else
             (let p = p\<lparr>sbp_topicFilter := (sbp_topicFilter p)\<lparr>tf_qos := QoSLevel_of (byte AND 0x03)\<rparr>\<rparr>
              in case TopicFilter_validate (sbp_topicFilter p) err of
                   (False, _) \<Rightarrow> (Some invalid_topic_filter, failed p)
                 | (True, err) \<Rightarrow>
                     (let fs = sb_topicFilters (sbp_packet p) @ [sbp_topicFilter p]
                      in if sbp_length p > 0
                         then (err, p\<lparr>sbp_packet := (sbp_packet p)\<lparr>sb_topicFilters := fs\<rparr>,
                                      sbp_status := SU_TopicFilter\<rparr>)
                         else (err, p\<lparr>sbp_packet := (sbp_packet p)
                                        \<lparr>sb_topicFilters := sort_unique_filters fs\<rparr>,
                                      sbp_status := SU_Ready,
                                      sbp_ret := tribool_set True (sbp_ret p)\<rparr>))))
      | SU_Ready \<Rightarrow> (Some subscribe_protocol_violation, p))"

definition SubscribeParser_parse :: "SubscribeParser byte_step" where
  "SubscribeParser_parse p byte err =
     (if sbp_length p = 0
      then (let p = p\<lparr>sbp_ret := tribool_set False (sbp_ret p)\<rparr>
            in (sbp_ret p, Some control_packet_length, p))
      else
        (case SubscribeParser_switch (p\<lparr>sbp_length := sbp_length p - 1\<rparr>) byte err of
           (err, p) \<Rightarrow>
             (if tribool_bool (sbp_ret p) \<and> sbp_length p \<noteq> 0
              then (let p = p\<lparr>sbp_status := SU_Ready, sbp_ret := tribool_set False (sbp_ret p)\<rparr>
                    in (sbp_ret p, Some control_packet_length, p))
              else (sbp_ret p, err, p))))"

lemma SubscribeParser_switch_length:
  "SubscribeParser_switch p b err = (err', p') \<Longrightarrow> sbp_length p' = sbp_length p"
  by (auto simp: SubscribeParser_switch_def Let_def
      split: SubscribeStatus.splits prod.splits if_splits bool.splits)

lemma SubscribeParser_parse_step:
  assumes "sbp_length p \<noteq> 0" "SubscribeParser_parse p b err = (r, err', p')"
  shows "sbp_length p' = sbp_length p - 1 \<and> (isTrue r \<longrightarrow> sbp_length p' = 0)"
proof -
  obtain e q where sw: "SubscribeParser_switch (p\<lparr>sbp_length := sbp_length p - 1\<rparr>) b err = (e, q)"
    by (cases "SubscribeParser_switch (p\<lparr>sbp_length := sbp_length p - 1\<rparr>) b err") auto
  from SubscribeParser_switch_length [OF sw] sw assms show ?thesis
    by (auto simp: SubscribeParser_parse_def Let_def split: if_splits)
qed

interpretation subscribe: length_bounded SubscribeParser_parse "\<lambda>p :: SubscribeParser. unat (sbp_length p)"
  by (rule length_bounded_u32 [OF _ SubscribeParser_parse_step]) (simp_all add: SubscribeParser_parse_def)

section \<open>Reading back an encoded body\<close>

subsection \<open>PUBLISH\<close>

definition publish_inside :: "PublishParser \<Rightarrow> bool" where
  "publish_inside p \<longleftrightarrow> pbp_status p = PU_TopicName \<and> pbp_ret p = Tribool_new"

definition publish_adv :: "nat \<Rightarrow> StringParser \<Rightarrow> PublishParser \<Rightarrow> PublishParser" where
  "publish_adv n s p = p\<lparr>pbp_stringParser := s, pbp_length := pbp_length p - of_nat n\<rparr>"

interpretation publish_field: string_field PublishParser_parse pbp_stringParser publish_adv
  "\<lambda>p :: PublishParser. unat (pbp_length p)" publish_inside
proof
  fix p :: PublishParser and b s'
  assume "publish_inside p" "0 < unat (pbp_length p)"
    "StringParser_parse (pbp_stringParser p) b None = (Tribool_new, None, s')"
  then show "PublishParser_parse p b None = (Tribool_new, None, publish_adv 1 s' p)"
    by (auto simp: PublishParser_parse_def PublishParser_switch_def publish_inside_def
        publish_adv_def Let_def)
qed (simp_all add: publish_inside_def publish_adv_def u32_sub_of_nat diff_diff_eq add.commute)

definition publish_body :: "QoSLevel \<Rightarrow> TopicName \<Rightarrow> PacketIdentifier \<Rightarrow> u8 list \<Rightarrow> u8 list" where
  "publish_body qos topic ident payload =
     string_bytes topic @ (if qos > AtMostOnce then [hi_byte ident, lo_byte ident] else []) @ payload"

lemma PublishParser_payload:
  assumes "pbp_status p = PU_Payload" "pbp_ret p = Tribool_new" "bs \<noteq> []" "length bs < 2 ^ 32"
    "pbp_length p = of_nat (length bs)"
  shows "\<exists>p'. feed PublishParser_parse p (bs @ rest) None = (Tribool_of True, None, p', rest) \<and>
     pbp_packet p' = (pbp_packet p)\<lparr>pb_payload := pb_payload (pbp_packet p) @ bs\<rparr>"
  using assms
proof (induction bs arbitrary: p)
  case (Cons b bs)
  have pos: "pbp_length p \<noteq> 0" using Cons.prems u32_of_nat_unat [of "length (b # bs)"] by auto
  have dec: "pbp_length p - 1 = of_nat (length bs)" using Cons.prems by simp
  show ?case
  proof (cases "bs = []")
    case True
    with Cons.prems pos dec show ?thesis
      by (simp add: feed_stop PublishParser_parse_def PublishParser_switch_def Let_def)
  next
    case False
    let ?p = "p\<lparr>pbp_length := of_nat (length bs),
      pbp_packet := (pbp_packet p)\<lparr>pb_payload := pb_payload (pbp_packet p) @ [b]\<rparr>\<rparr>"
    have ne: "(of_nat (length bs) :: u32) \<noteq> 0"
      using False Cons.prems(4) u32_of_nat_unat [of "length bs"] by auto
    have step: "PublishParser_parse p b None = (Tribool_new, None, ?p)"
      using Cons.prems(1,2) pos dec ne
      by (simp add: PublishParser_parse_def PublishParser_switch_def Let_def)
    have "\<exists>p'. feed PublishParser_parse ?p (bs @ rest) None = (Tribool_of True, None, p', rest) \<and>
       pbp_packet p' = (pbp_packet ?p)\<lparr>pb_payload := pb_payload (pbp_packet ?p) @ bs\<rparr>"
      by (rule Cons.IH) (use False Cons.prems in simp_all)
    with step show ?thesis by (auto simp: feed_indet)
  qed
qed simp

text \<open>The last byte of the topic name, and the two bytes of the packet identifier.\<close>

lemma PublishParser_topic:
  assumes "publish_inside p" "pbp_length p \<noteq> 0"
    "StringParser_parse (pbp_stringParser p) b None = (Tribool_of True, None, s2)"
    "TopicName_validate (StringParser_string s2) None = (True, None)"
  shows "PublishParser_parse p b None =
    (Tribool_new, None,
     p\<lparr>pbp_length := pbp_length p - 1,
       pbp_packet := (pbp_packet p)\<lparr>pb_topicName := StringParser_string s2\<rparr>,
       pbp_status := (if pbp_qos p > AtMostOnce then PU_PacketIdentifier else PU_Payload),
       pbp_stringParser := StringParser_reset s2\<rparr>)"
  using assms
  by (simp add: PublishParser_parse_def PublishParser_switch_def publish_inside_def Let_def
      del: StringParser_reset_eq)

lemma PublishParser_identifier:
  assumes "pbp_status p = PU_PacketIdentifier" "pbp_ret p = Tribool_new"
    "pi_status (pbp_identifierParser p) = PI_Start" "length bs + 2 < 2 ^ 32"
    "pbp_length p = of_nat (length bs + 2)"
  shows "\<exists>p'. feed PublishParser_parse p ([hi_byte x, lo_byte x] @ bs @ rest) None =
      (if bs = [] then (Tribool_of True, None, p', rest) else feed PublishParser_parse p' (bs @ rest) None) \<and>
    (bs \<noteq> [] \<longrightarrow> pbp_status p' = PU_Payload) \<and> pbp_ret p' = (if bs = [] then Tribool_of True else Tribool_new) \<and>
    pbp_length p' = of_nat (length bs) \<and>
    pbp_packet p' = (pbp_packet p)\<lparr>pb_packetIdentifier := x\<rparr>"
proof -
  have l2: "pbp_length p \<noteq> 0"
    using assms(4,5) u32_of_nat_unat [of "length bs + 2"] by auto
  have d1: "pbp_length p - 1 = of_nat (length bs + 1)" using assms(5) by simp
  have l1: "(of_nat (length bs + 1) :: u32) \<noteq> 0"
    using assms(4) u32_of_nat_unat [of "length bs + 1"] by auto
  have l0: "(of_nat (length bs) :: u32) = 0 \<longleftrightarrow> bs = []"
    using assms(4) u32_of_nat_unat [of "length bs"] by auto
  have d0: "(of_nat (length bs + 1) :: u32) - 1 = of_nat (length bs)" by simp
  let ?i = "pbp_identifierParser p"
  let ?i1 = "?i\<lparr>pi_packetIdentifier := push_bit 8 (ucast (hi_byte x)), pi_status := PI_ReadIdentifier\<rparr>"
  let ?i2 = "?i1\<lparr>pi_packetIdentifier := x, pi_status := PI_Ready\<rparr>"
  let ?p1 = "p\<lparr>pbp_length := of_nat (length bs + 1), pbp_identifierParser := ?i1\<rparr>"
  let ?p2 = "?p1\<lparr>pbp_length := of_nat (length bs), pbp_identifierParser := ?i2,
     pbp_packet := (pbp_packet p)\<lparr>pb_packetIdentifier := x\<rparr>,
     pbp_status := (if bs = [] then PU_Ready else PU_Payload),
     pbp_ret := (if bs = [] then Tribool_of True else Tribool_new)\<rparr>"
  have s1: "PublishParser_parse p (hi_byte x) None = (Tribool_new, None, ?p1)"
    using assms(1-3) l2 d1
    by (simp add: PublishParser_parse_def PublishParser_switch_def PacketIdentifierParser_parse_def Let_def
        del: of_nat_add)
  have s2: "PublishParser_parse ?p1 (lo_byte x) None =
      (if bs = [] then Tribool_of True else Tribool_new, None, ?p2)"
    using assms(1,2) l1 l0 d0
    by (simp add: PublishParser_parse_def PublishParser_switch_def PacketIdentifierParser_parse_def
        Let_def hi_lo_join16 del: of_nat_add)
  have "feed PublishParser_parse p ([hi_byte x, lo_byte x] @ bs @ rest) None =
      feed PublishParser_parse ?p1 (lo_byte x # bs @ rest) None"
    by (simp only: append_Cons append_Nil feed_indet [where parse = PublishParser_parse, OF s1] tribool_simps)
  also have "\<dots> = (if bs = [] then (Tribool_of True, None, ?p2, rest)
      else feed PublishParser_parse ?p2 (bs @ rest) None)"
    using feed_indet [where parse = PublishParser_parse, OF s2, of "bs @ rest"] feed_stop [where parse = PublishParser_parse, OF s2, of "bs @ rest"]
    by (cases "bs = []") (simp_all only: tribool_simps if_True if_False append_Nil simp_thms)
  finally show ?thesis by (intro exI [of _ ?p2]) (simp del: of_nat_add)
qed

lemma PublishParser_after_topic:
  assumes "tail = (if qos > AtMostOnce then [hi_byte ident, lo_byte ident] else []) @ payload"
    "pbp_status p = (if qos > AtMostOnce then PU_PacketIdentifier else PU_Payload)"
    "pbp_ret p = Tribool_new" "pi_status (pbp_identifierParser p) = PI_Start"
    "length tail < 2 ^ 32" "pbp_length p = of_nat (length tail)" "AtMostOnce < qos \<or> payload \<noteq> []"
  shows "\<exists>p'. feed PublishParser_parse p (tail @ rest) None = (Tribool_of True, None, p', rest) \<and>
    pbp_packet p' = (pbp_packet p)\<lparr>pb_payload := pb_payload (pbp_packet p) @ payload,
      pb_packetIdentifier := (if AtMostOnce < qos then ident else pb_packetIdentifier (pbp_packet p))\<rparr>"
proof (cases "AtMostOnce < qos")
  case False
  then show ?thesis using PublishParser_payload [of p payload rest] assms by auto
next
  case True
  have l: "length payload + 2 < 2 ^ 32" "pbp_length p = of_nat (length payload + 2)"
    using True assms(1,5,6) by simp_all
  have st: "pbp_status p = PU_PacketIdentifier" using True assms(2) by simp
  from PublishParser_identifier [OF st assms(3,4) l, of ident rest] obtain p1 where
    f: "feed PublishParser_parse p (tail @ rest) None =
      (if payload = [] then (Tribool_of True, None, p1, rest)
       else feed PublishParser_parse p1 (payload @ rest) None)"
    and p1: "payload \<noteq> [] \<Longrightarrow> pbp_status p1 = PU_Payload \<and> pbp_ret p1 = Tribool_new"
      "pbp_length p1 = of_nat (length payload)"
      "pbp_packet p1 = (pbp_packet p)\<lparr>pb_packetIdentifier := ident\<rparr>"
    using True assms(1) by auto
  show ?thesis
  proof (cases "payload = []")
    case True
    with f p1 \<open>AtMostOnce < qos\<close> show ?thesis by auto
  next
    case False
    from PublishParser_payload [of p1 payload rest] False f p1 l(1) True show ?thesis by auto
  qed
qed

text \<open>The topic name field, up to the first byte behind it.\<close>

lemma PublishParser_topic_field:
  assumes "length topic < 2 ^ 16" "TopicName_validate topic None = (True, None)"
    "length topic + 2 + n < 2 ^ 32"
  obtains r where
    "\<And>rest. feed PublishParser_parse (PublishParser_reset qos (of_nat (length topic + 2 + n)) p)
        (string_bytes topic @ rest) None = feed PublishParser_parse r rest None"
    "pbp_status r = (if qos > AtMostOnce then PU_PacketIdentifier else PU_Payload)"
    "pbp_ret r = Tribool_new" "pi_status (pbp_identifierParser r) = PI_Start"
    "pbp_length r = of_nat n"
    "pbp_packet r = (pbp_packet p)\<lparr>pb_topicName := topic, pb_payload := []\<rparr>"
proof -
  let ?p = "PublishParser_reset qos (of_nat (length topic + 2 + n)) p"
  have u: "unat (of_nat (length topic + 2 + n) :: u32) = length topic + 2 + n"
    using assms(3) by (rule u32_of_nat_unat)
  have inside: "publish_inside ?p" by (simp add: publish_inside_def PublishParser_reset_def)
  have ready: "string_ready (pbp_stringParser ?p)" by (simp add: PublishParser_reset_def)
  have left: "length topic + 2 \<le> unat (pbp_length ?p)"
    unfolding PublishParser_reset_def using u by simp
  obtain s1 s2 where
    f: "\<And>rest. feed PublishParser_parse ?p (string_bytes topic @ rest) None =
        feed PublishParser_parse (publish_adv (length topic + 1) s1 ?p) (last (string_bytes topic) # rest) None"
    and l: "StringParser_parse s1 (last (string_bytes topic)) None = (Tribool_of True, None, s2)"
    and t: "StringParser_string s2 = topic"
    using publish_field.field_feed [OF inside ready assms(1) left] by blast
  let ?q = "publish_adv (length topic + 1) s1 ?p"
  have ql: "pbp_length ?q = of_nat (Suc n)" by (simp add: publish_adv_def PublishParser_reset_def)
  have ne: "pbp_length ?q \<noteq> 0"
    unfolding ql using assms(3) u32_of_nat_unat [of "Suc n"] by auto
  have dec: "pbp_length ?q - 1 = of_nat n" unfolding ql by simp
  let ?r = "?q\<lparr>pbp_length := of_nat n, pbp_packet := (pbp_packet ?q)\<lparr>pb_topicName := topic\<rparr>,
      pbp_status := (if qos > AtMostOnce then PU_PacketIdentifier else PU_Payload),
      pbp_stringParser := StringParser_reset s2\<rparr>"
  have inside_q: "publish_inside ?q" by (rule publish_field.inside_adv [OF inside])
  have qos_q: "pbp_qos ?q = qos" by (simp add: publish_adv_def PublishParser_reset_def)
  have sub_q: "pbp_stringParser ?q = s1" by (rule publish_field.sub_adv)
  from PublishParser_topic [OF inside_q ne] l t assms(2)
  have step: "PublishParser_parse ?q (last (string_bytes topic)) None = (Tribool_new, None, ?r)"
    unfolding dec qos_q sub_q by simp
  show thesis
  proof (rule that [of ?r])
    show "feed PublishParser_parse ?p (string_bytes topic @ rest) None =
        feed PublishParser_parse ?r rest None" for rest
      using f [of rest] feed_indet [where parse = PublishParser_parse, OF step] by simp
  qed (simp_all add: publish_adv_def PublishParser_reset_def PacketIdentifierParser_reset_def)
qed

lemma publish_body_length:
  "length (publish_body qos topic ident payload) =
     length topic + 2 + length ((if qos > AtMostOnce then [hi_byte ident, lo_byte ident] else []) @ payload)"
  by (simp add: publish_body_def)

lemma PublishParser_body:
  assumes "body = publish_body qos topic ident payload" "length body < 2 ^ 32" "length topic < 2 ^ 16"
    "TopicName_validate topic None = (True, None)" "AtMostOnce < qos \<or> payload \<noteq> []"
  shows "\<exists>p'. feed PublishParser_parse (PublishParser_reset qos (of_nat (length body)) p) (body @ rest) None =
      (Tribool_of True, None, p', rest) \<and>
    pbp_packet p' = (pbp_packet p)\<lparr>pb_topicName := topic, pb_payload := payload,
      pb_packetIdentifier := (if AtMostOnce < qos then ident else pb_packetIdentifier (pbp_packet p))\<rparr>"
proof -
  let ?tail = "(if qos > AtMostOnce then [hi_byte ident, lo_byte ident] else []) @ payload"
  have len: "length body = length topic + 2 + length ?tail"
    unfolding assms(1) by (rule publish_body_length)
  obtain r where r: "\<And>rest. feed PublishParser_parse (PublishParser_reset qos (of_nat (length body)) p)
        (string_bytes topic @ rest) None = feed PublishParser_parse r rest None"
    "pbp_status r = (if qos > AtMostOnce then PU_PacketIdentifier else PU_Payload)"
    "pbp_ret r = Tribool_new" "pi_status (pbp_identifierParser r) = PI_Start"
    "pbp_length r = of_nat (length ?tail)"
    "pbp_packet r = (pbp_packet p)\<lparr>pb_topicName := topic, pb_payload := []\<rparr>"
    using PublishParser_topic_field [OF assms(3,4), of "length ?tail" qos p] len assms(2) by metis
  have "length ?tail < 2 ^ 32" using len assms(2) by simp
  from PublishParser_after_topic [OF refl r(2-4) this r(5) assms(5), of rest]
  show ?thesis using r(1) [of "?tail @ rest"] r(6) assms(1) by (auto simp: publish_body_def)
qed

text \<open>
  A QoS 0 publication without payload is not recognised: the parser waits for a byte that the
  remaining length does not grant, and answers the next packet's first byte with an error.
\<close>

lemma PublishParser_empty_payload:
  assumes "length topic < 2 ^ 16" "TopicName_validate topic None = (True, None)"
  shows "\<exists>p'. feed PublishParser_parse (PublishParser_reset AtMostOnce (of_nat (length topic + 2)) p)
      (string_bytes topic) None = (Tribool_new, None, p', [])"
    "\<exists>p'. feed PublishParser_parse (PublishParser_reset AtMostOnce (of_nat (length topic + 2)) p)
      (string_bytes topic @ [b]) None = (Tribool_of False, Some control_packet_length, p', [])"
proof -
  obtain r where r: "\<And>rest. feed PublishParser_parse
        (PublishParser_reset AtMostOnce (of_nat (length topic + 2)) p)
        (string_bytes topic @ rest) None = feed PublishParser_parse r rest None"
    "pbp_length r = of_nat 0"
    using PublishParser_topic_field [OF assms, of 0 AtMostOnce p] assms(1) by auto
  show 1: "\<exists>p'. feed PublishParser_parse (PublishParser_reset AtMostOnce (of_nat (length topic + 2)) p)
      (string_bytes topic) None = (Tribool_new, None, p', [])"
    using r(1) [of "[]"] by simp
  then obtain p' where p': "feed PublishParser_parse
      (PublishParser_reset AtMostOnce (of_nat (length topic + 2)) p) (string_bytes topic) None =
      (Tribool_new, None, p', [])" by blast
  have "unat (of_nat (length topic + 2) :: u32) = length topic + 2"
    using assms(1) by (intro u32_of_nat_unat) simp
  then show "\<exists>p'. feed PublishParser_parse (PublishParser_reset AtMostOnce (of_nat (length topic + 2)) p)
      (string_bytes topic @ [b]) None = (Tribool_of False, Some control_packet_length, p', [])"
    by (intro publish.too_long_fails [OF p']) (simp_all add: PublishParser_reset_def)
qed


subsection \<open>SUBSCRIBE\<close>

definition subscribe_inside :: "SubscribeParser \<Rightarrow> bool" where
  "subscribe_inside p \<longleftrightarrow> sbp_status p = SU_TopicFilter \<and> sbp_ret p = Tribool_new"

definition subscribe_adv :: "nat \<Rightarrow> StringParser \<Rightarrow> SubscribeParser \<Rightarrow> SubscribeParser" where
  "subscribe_adv n s p = p\<lparr>sbp_stringParser := s, sbp_length := sbp_length p - of_nat n\<rparr>"

interpretation subscribe_field: string_field SubscribeParser_parse sbp_stringParser subscribe_adv
  "\<lambda>p :: SubscribeParser. unat (sbp_length p)" subscribe_inside
proof
  fix p :: SubscribeParser and b s'
  assume "subscribe_inside p" "0 < unat (sbp_length p)"
    "StringParser_parse (sbp_stringParser p) b None = (Tribool_new, None, s')"
  then show "SubscribeParser_parse p b None = (Tribool_new, None, subscribe_adv 1 s' p)"
    by (auto simp: SubscribeParser_parse_def SubscribeParser_switch_def subscribe_inside_def
        subscribe_adv_def Let_def)
qed (simp_all add: subscribe_inside_def subscribe_adv_def u32_sub_of_nat diff_diff_eq add.commute)

definition filter_bytes :: "TopicFilter \<Rightarrow> u8 list" where
  "filter_bytes f = string_bytes (tf_filter f) @ [QoSLevel_value (tf_qos f)]"

definition subscribe_body :: "PacketIdentifier \<Rightarrow> TopicFilter list \<Rightarrow> u8 list" where
  "subscribe_body ident fs = [hi_byte ident, lo_byte ident] @ concat (map filter_bytes fs)"

lemma filter_bytes_length [simp]: "length (filter_bytes f) = length (tf_filter f) + 3"
  by (simp add: filter_bytes_def)

text \<open>What a client may put into a SUBSCRIBE packet.\<close>

definition wire_filter :: "TopicFilter \<Rightarrow> bool" where
  "wire_filter f \<longleftrightarrow> length (tf_filter f) < 2 ^ 16 \<and> tf_qos f \<noteq> QoSError \<and>
     TopicFilter_validate f None = (True, None)"

lemma QoSLevel_value_masks:
  "q \<noteq> QoSError \<Longrightarrow> QoSLevel_value q AND 0xFC = 0 \<and> QoSLevel_value q AND 0x03 = QoSLevel_value q \<and>
     \<not> QoSLevel_value q > 2"
  by (cases q) simp_all

lemma SubscribeParser_name:
  assumes "subscribe_inside p" "sbp_length p \<noteq> 0"
    "StringParser_parse (sbp_stringParser p) b None = (Tribool_of True, None, s2)"
  shows "SubscribeParser_parse p b None =
    (Tribool_new, None,
     p\<lparr>sbp_length := sbp_length p - 1, sbp_status := SU_QoS,
       sbp_topicFilter := TopicFilter_of (StringParser_string s2) AtMostOnce,
       sbp_stringParser := StringParser_reset s2\<rparr>)"
  using assms
  by (simp add: SubscribeParser_parse_def SubscribeParser_switch_def subscribe_inside_def Let_def
      del: StringParser_reset_eq)

lemma SubscribeParser_qos:
  assumes "sbp_status p = SU_QoS" "sbp_ret p = Tribool_new" "sbp_length p \<noteq> 0" "q \<noteq> QoSError"
    "TopicFilter_validate (sbp_topicFilter p) None = (True, None)"
    "fs = sb_topicFilters (sbp_packet p) @ [(sbp_topicFilter p)\<lparr>tf_qos := q\<rparr>]"
  shows "SubscribeParser_parse p (QoSLevel_value q) None =
    (let p = p\<lparr>sbp_length := sbp_length p - 1, sbp_topicFilter := (sbp_topicFilter p)\<lparr>tf_qos := q\<rparr>\<rparr>
     in if sbp_length p \<noteq> 0
        then (Tribool_new, None, p\<lparr>sbp_packet := (sbp_packet p)\<lparr>sb_topicFilters := fs\<rparr>,
                                   sbp_status := SU_TopicFilter\<rparr>)
        else (Tribool_of True, None,
              p\<lparr>sbp_packet := (sbp_packet p)\<lparr>sb_topicFilters := sort_unique_filters fs\<rparr>,
                sbp_status := SU_Ready, sbp_ret := Tribool_of True\<rparr>))"
proof -
  have "TopicFilter_validate ((sbp_topicFilter p)\<lparr>tf_qos := q\<rparr>) None = (True, None)"
    using assms(5) by (simp add: TopicFilter_validate_def)
  then show ?thesis
    using assms QoSLevel_value_masks [OF assms(4)]
    by (simp add: SubscribeParser_parse_def SubscribeParser_switch_def Let_def word_gt_0)
qed

text \<open>One topic filter with its requested QoS level.\<close>

lemma SubscribeParser_filter:
  assumes "subscribe_inside p" "string_ready (sbp_stringParser p)" "wire_filter f"
    "length (filter_bytes f) + n < 2 ^ 32" "sbp_length p = of_nat (length (filter_bytes f) + n)"
    "fs = sb_topicFilters (sbp_packet p) @ [f]"
  obtains q where
    "\<And>rest. feed SubscribeParser_parse p (filter_bytes f @ rest) None =
       (if n = 0 then (Tribool_of True, None, q, rest) else feed SubscribeParser_parse q rest None)"
    "n \<noteq> 0 \<Longrightarrow> subscribe_inside q" "string_ready (sbp_stringParser q)" "sbp_length q = of_nat n"
    "sbp_packet q = (sbp_packet p)\<lparr>sb_topicFilters := (if n = 0 then sort_unique_filters fs else fs)\<rparr>"
proof -
  let ?s = "tf_filter f"
  have wf: "length ?s < 2 ^ 16" "tf_qos f \<noteq> QoSError" "TopicFilter_validate f None = (True, None)"
    using assms(3) by (simp_all add: wire_filter_def)
  have u: "unat (sbp_length p) = length ?s + 3 + n"
    unfolding assms(5) using u32_of_nat_unat [OF assms(4)] by simp
  then have left: "length ?s + 2 \<le> unat (sbp_length p)" by simp
  obtain s1 s2 where
    g: "\<And>rest. feed SubscribeParser_parse p (string_bytes ?s @ rest) None =
        feed SubscribeParser_parse (subscribe_adv (length ?s + 1) s1 p) (last (string_bytes ?s) # rest) None"
    and l: "StringParser_parse s1 (last (string_bytes ?s)) None = (Tribool_of True, None, s2)"
    and t: "StringParser_string s2 = ?s"
    using subscribe_field.field_feed [OF assms(1,2) wf(1) left] by blast
  let ?p1 = "subscribe_adv (length ?s + 1) s1 p"
  have l1: "sbp_length ?p1 = of_nat (n + 2)" unfolding subscribe_adv_def assms(5) by simp
  have n1: "sbp_length ?p1 \<noteq> 0"
    unfolding l1 using assms(4) u32_of_nat_unat [of "n + 2"] by auto
  have d1: "sbp_length ?p1 - 1 = of_nat (n + 1)" unfolding l1 by simp
  let ?p2 = "?p1\<lparr>sbp_length := of_nat (n + 1), sbp_status := SU_QoS,
       sbp_topicFilter := TopicFilter_of ?s AtMostOnce, sbp_stringParser := StringParser_reset s2\<rparr>"
  have st1: "SubscribeParser_parse ?p1 (last (string_bytes ?s)) None = (Tribool_new, None, ?p2)"
    using SubscribeParser_name [OF subscribe_field.inside_adv [OF assms(1)] n1]
    unfolding d1 subscribe_field.sub_adv using l t by simp
  have n2: "sbp_length ?p2 \<noteq> 0" using assms(4) u32_of_nat_unat [of "n + 1"] by auto
  have n3: "(of_nat n :: u32) = 0 \<longleftrightarrow> n = 0"
    using assms(4) u32_of_nat_unat [of n] by auto
  have val: "TopicFilter_validate (sbp_topicFilter ?p2) None = (True, None)"
    using wf(3) by (simp add: TopicFilter_validate_def TopicFilter_of_def)
  let ?p3 = "?p2\<lparr>sbp_length := of_nat n, sbp_topicFilter := f,
     sbp_packet := (sbp_packet p)\<lparr>sb_topicFilters := (if n = 0 then sort_unique_filters fs else fs)\<rparr>,
     sbp_status := (if n = 0 then SU_Ready else SU_TopicFilter),
     sbp_ret := (if n = 0 then Tribool_of True else Tribool_new)\<rparr>"
  have ret2: "sbp_status ?p2 = SU_QoS" "sbp_ret ?p2 = Tribool_new"
    using assms(1) by (simp_all add: subscribe_adv_def subscribe_inside_def)
  have f: "fs = sb_topicFilters (sbp_packet ?p2) @ [(sbp_topicFilter ?p2)\<lparr>tf_qos := tf_qos f\<rparr>]"
    using assms(6) by (simp add: subscribe_adv_def TopicFilter_of_def)
  have st2: "SubscribeParser_parse ?p2 (QoSLevel_value (tf_qos f)) None =
      (if n = 0 then Tribool_of True else Tribool_new, None, ?p3)"
    unfolding SubscribeParser_qos [OF ret2 n2 wf(2) val f] Let_def
    using n3 assms(1) by (cases "n = 0") (simp_all add: subscribe_adv_def subscribe_inside_def TopicFilter_of_def)
  show thesis
  proof (rule that [of ?p3])
    fix rest
    have "feed SubscribeParser_parse p (filter_bytes f @ rest) None =
      feed SubscribeParser_parse ?p2 (QoSLevel_value (tf_qos f) # rest) None"
      using g feed_indet [where parse = SubscribeParser_parse, OF st1]
      by (simp add: filter_bytes_def)
    also have "\<dots> = (if n = 0 then (Tribool_of True, None, ?p3, rest)
        else feed SubscribeParser_parse ?p3 rest None)"
      using feed_indet [where parse = SubscribeParser_parse, OF st2, of rest]
        feed_stop [where parse = SubscribeParser_parse, OF st2, of rest]
      by (cases "n = 0") (simp_all only: tribool_simps if_True if_False simp_thms)
    finally show "feed SubscribeParser_parse p (filter_bytes f @ rest) None =
      (if n = 0 then (Tribool_of True, None, ?p3, rest) else feed SubscribeParser_parse ?p3 rest None)" .
  qed (simp_all add: subscribe_inside_def)
qed

lemma SubscribeParser_filters:
  assumes "fs \<noteq> []" "\<And>f. f \<in> set fs \<Longrightarrow> wire_filter f"
    "subscribe_inside p" "string_ready (sbp_stringParser p)"
    "length (concat (map filter_bytes fs)) < 2 ^ 32"
    "sbp_length p = of_nat (length (concat (map filter_bytes fs)))"
  shows "\<exists>p'. feed SubscribeParser_parse p (concat (map filter_bytes fs) @ rest) None =
      (Tribool_of True, None, p', rest) \<and>
    sbp_packet p' = (sbp_packet p)
      \<lparr>sb_topicFilters := sort_unique_filters (sb_topicFilters (sbp_packet p) @ fs)\<rparr>"
  using assms
proof (induction fs arbitrary: p)
  case (Cons f fs)
  let ?n = "length (concat (map filter_bytes fs))"
  have n0: "?n = 0 \<longleftrightarrow> fs = []" by (cases fs) simp_all
  obtain q where q:
    "\<And>rest. feed SubscribeParser_parse p (filter_bytes f @ rest) None =
       (if ?n = 0 then (Tribool_of True, None, q, rest) else feed SubscribeParser_parse q rest None)"
    "?n \<noteq> 0 \<Longrightarrow> subscribe_inside q" "string_ready (sbp_stringParser q)" "sbp_length q = of_nat ?n"
    "sbp_packet q = (sbp_packet p)\<lparr>sb_topicFilters := (if ?n = 0
       then sort_unique_filters (sb_topicFilters (sbp_packet p) @ [f])
       else sb_topicFilters (sbp_packet p) @ [f])\<rparr>"
    by (rule SubscribeParser_filter [of p f ?n, OF Cons.prems(3,4) _ _ _ refl])
      (use Cons.prems in simp_all)
  show ?case
  proof (cases "fs = []")
    case True
    with q(1) [of rest] q(5) show ?thesis by simp
  next
    case False
    have "\<exists>p'. feed SubscribeParser_parse q (concat (map filter_bytes fs) @ rest) None =
        (Tribool_of True, None, p', rest) \<and>
      sbp_packet p' = (sbp_packet q)
        \<lparr>sb_topicFilters := sort_unique_filters (sb_topicFilters (sbp_packet q) @ fs)\<rparr>"
      by (rule Cons.IH) (use False Cons.prems q n0 in simp_all)
    then show ?thesis
      using q(1) [of "concat (map filter_bytes fs) @ rest"] q(5) False n0 by auto
  qed
qed simp

lemma SubscribeParser_identifier:
  assumes "n + 2 < 2 ^ 32"
  obtains r where
    "\<And>rest. feed SubscribeParser_parse (SubscribeParser_reset (of_nat (n + 2)) p)
        ([hi_byte x, lo_byte x] @ rest) None = feed SubscribeParser_parse r rest None"
    "subscribe_inside r" "string_ready (sbp_stringParser r)" "sbp_length r = of_nat n"
    "sbp_packet r = (sbp_packet p)\<lparr>sb_packetIdentifier := x\<rparr>"
proof -
  let ?p = "SubscribeParser_reset (of_nat (n + 2)) p"
  let ?i = "sbp_identifierParser ?p"
  let ?i1 = "?i\<lparr>pi_packetIdentifier := push_bit 8 (ucast (hi_byte x)), pi_status := PI_ReadIdentifier\<rparr>"
  let ?i2 = "?i1\<lparr>pi_packetIdentifier := x, pi_status := PI_Ready\<rparr>"
  let ?p1 = "?p\<lparr>sbp_length := of_nat (n + 1), sbp_identifierParser := ?i1\<rparr>"
  let ?p2 = "?p1\<lparr>sbp_length := of_nat n, sbp_identifierParser := ?i2, sbp_status := SU_TopicFilter,
     sbp_packet := (sbp_packet p)\<lparr>sb_packetIdentifier := x\<rparr>,
     sbp_stringParser := StringParser_reset (sbp_stringParser ?p)\<rparr>"
  have l2: "(of_nat (n + 2) :: u32) \<noteq> 0" using assms u32_of_nat_unat [of "n + 2"] by auto
  have l1: "(of_nat (n + 1) :: u32) \<noteq> 0" using assms u32_of_nat_unat [of "n + 1"] by auto
  have d1: "(of_nat (n + 2) :: u32) - 1 = of_nat (n + 1)" by simp
  have d0: "(of_nat (n + 1) :: u32) - 1 = of_nat n" by simp
  have s1: "SubscribeParser_parse ?p (hi_byte x) None = (Tribool_new, None, ?p1)"
    using l2 d1
    by (simp add: SubscribeParser_parse_def SubscribeParser_switch_def PacketIdentifierParser_parse_def
        SubscribeParser_reset_def PacketIdentifierParser_reset_def Let_def del: of_nat_add)
  have s2: "SubscribeParser_parse ?p1 (lo_byte x) None = (Tribool_new, None, ?p2)"
    using l1 d0
    by (simp add: SubscribeParser_parse_def SubscribeParser_switch_def PacketIdentifierParser_parse_def
        SubscribeParser_reset_def PacketIdentifierParser_reset_def Let_def hi_lo_join16 del: of_nat_add)
  show thesis
  proof (rule that [of ?p2])
    show "feed SubscribeParser_parse ?p ([hi_byte x, lo_byte x] @ rest) None =
        feed SubscribeParser_parse ?p2 rest None" for rest
      by (simp only: append_Cons append_Nil tribool_simps
          feed_indet [where parse = SubscribeParser_parse, OF s1]
          feed_indet [where parse = SubscribeParser_parse, OF s2])
  qed (simp_all add: subscribe_inside_def SubscribeParser_reset_def)
qed

text \<open>
  The parsed packet holds the filters in sorted order without repetitions, behind those the
  parser object still had from earlier SUBSCRIBE packets.
\<close>

lemma SubscribeParser_body:
  assumes "body = subscribe_body ident fs" "length body < 2 ^ 32" "fs \<noteq> []"
    "\<And>f. f \<in> set fs \<Longrightarrow> wire_filter f"
  shows "\<exists>p'. feed SubscribeParser_parse (SubscribeParser_reset (of_nat (length body)) p) (body @ rest) None =
      (Tribool_of True, None, p', rest) \<and>
    sbp_packet p' = (sbp_packet p)\<lparr>sb_packetIdentifier := ident,
      sb_topicFilters := sort_unique_filters (sb_topicFilters (sbp_packet p) @ fs)\<rparr>"
proof -
  let ?n = "length (concat (map filter_bytes fs))"
  have len: "length body = ?n + 2" using assms(1) by (simp add: subscribe_body_def)
  then have n: "?n + 2 < 2 ^ 32" using assms(2) by simp
  obtain r where r:
    "\<And>rest. feed SubscribeParser_parse (SubscribeParser_reset (of_nat (length body)) p)
        ([hi_byte ident, lo_byte ident] @ rest) None = feed SubscribeParser_parse r rest None"
    "subscribe_inside r" "string_ready (sbp_stringParser r)" "sbp_length r = of_nat ?n"
    "sbp_packet r = (sbp_packet p)\<lparr>sb_packetIdentifier := ident\<rparr>"
    using SubscribeParser_identifier [OF n, of p ident] unfolding len by blast
  from SubscribeParser_filters [OF assms(3,4) r(2,3) _ r(4), of rest] n
  obtain p' where "feed SubscribeParser_parse r (concat (map filter_bytes fs) @ rest) None =
      (Tribool_of True, None, p', rest)"
    "sbp_packet p' = (sbp_packet r)
      \<lparr>sb_topicFilters := sort_unique_filters (sb_topicFilters (sbp_packet r) @ fs)\<rparr>" by auto
  then show ?thesis
    using r(1) [of "concat (map filter_bytes fs) @ rest"] r(5) assms(1)
    by (auto simp: subscribe_body_def)
qed

subsection \<open>SUBACK and CONNACK\<close>

definition suback_body :: "PacketIdentifier \<Rightarrow> QoSLevel list \<Rightarrow> u8 list" where
  "suback_body ident qs = [hi_byte ident, lo_byte ident] @ map QoSLevel_value qs"

lemma QoSLevel_value_le_2: "q \<noteq> QoSError \<Longrightarrow> \<not> 2 < QoSLevel_value q"
  by (cases q) simp_all

lemma SubAckParser_levels:
  assumes "qs \<noteq> []" "QoSError \<notin> set qs" "sap_status p = SA_QoS" "sap_ret p = Tribool_new"
    "length qs < 2 ^ 32" "sap_length p = of_nat (length qs)"
  shows "\<exists>p'. feed SubAckParser_parse p (map QoSLevel_value qs @ rest) None = (Tribool_of True, None, p', rest) \<and>
     sap_packet p' = (sap_packet p)\<lparr>sa_qosLevels := sa_qosLevels (sap_packet p) @ qs\<rparr>"
  using assms
proof (induction qs arbitrary: p)
  case (Cons q qs)
  have pos: "sap_length p \<noteq> 0" using Cons.prems u32_of_nat_unat [of "length (q # qs)"] by auto
  have dec: "sap_length p - 1 = of_nat (length qs)" using Cons.prems by simp
  have v: "\<not> 2 < QoSLevel_value q" using Cons.prems(2) by (intro QoSLevel_value_le_2) auto
  show ?case
  proof (cases "qs = []")
    case True
    with Cons.prems pos dec v show ?thesis
      by (simp add: feed_stop SubAckParser_parse_def SubAckParser_switch_def Let_def)
  next
    case False
    let ?p = "p\<lparr>sap_length := of_nat (length qs),
      sap_packet := (sap_packet p)\<lparr>sa_qosLevels := sa_qosLevels (sap_packet p) @ [q]\<rparr>\<rparr>"
    have ne: "(of_nat (length qs) :: u32) \<noteq> 0"
      using False Cons.prems(5) u32_of_nat_unat [of "length qs"] by auto
    have step: "SubAckParser_parse p (QoSLevel_value q) None = (Tribool_new, None, ?p)"
      using Cons.prems(3,4) pos dec ne v
      by (simp add: SubAckParser_parse_def SubAckParser_switch_def Let_def)
    have "\<exists>p'. feed SubAckParser_parse ?p (map QoSLevel_value qs @ rest) None =
        (Tribool_of True, None, p', rest) \<and>
       sap_packet p' = (sap_packet ?p)\<lparr>sa_qosLevels := sa_qosLevels (sap_packet ?p) @ qs\<rparr>"
      by (rule Cons.IH) (use False Cons.prems in simp_all)
    with step show ?thesis by (auto simp: feed_indet)
  qed
qed simp

lemma SubAckParser_body:
  assumes "body = suback_body ident qs" "length body < 2 ^ 32" "QoSError \<notin> set qs" "qs \<noteq> []"
  shows "\<exists>p'. feed SubAckParser_parse (SubAckParser_reset (of_nat (length body)) p) (body @ rest) None =
      (Tribool_of True, None, p', rest) \<and>
    sap_packet p' = (sap_packet p)\<lparr>sa_packetIdentifier := ident,
      sa_qosLevels := sa_qosLevels (sap_packet p) @ qs\<rparr>"
proof -
  let ?n = "length qs"
  let ?p = "SubAckParser_reset (of_nat (?n + 2)) p"
  let ?i = "sap_identifierParser ?p"
  let ?i1 = "?i\<lparr>pi_packetIdentifier := push_bit 8 (ucast (hi_byte ident)), pi_status := PI_ReadIdentifier\<rparr>"
  let ?i2 = "?i1\<lparr>pi_packetIdentifier := ident, pi_status := PI_Ready\<rparr>"
  let ?p1 = "?p\<lparr>sap_length := of_nat (?n + 1), sap_identifierParser := ?i1\<rparr>"
  let ?p2 = "?p1\<lparr>sap_length := of_nat ?n, sap_identifierParser := ?i2, sap_status := SA_QoS,
     sap_packet := (sap_packet p)\<lparr>sa_packetIdentifier := ident\<rparr>\<rparr>"
  have len: "length body = ?n + 2" using assms(1) by (simp add: suback_body_def)
  have l2: "(of_nat (?n + 2) :: u32) \<noteq> 0" using assms(2) len u32_of_nat_unat [of "?n + 2"] by auto
  have l1: "(of_nat (?n + 1) :: u32) \<noteq> 0" using assms(2) len u32_of_nat_unat [of "?n + 1"] by auto
  have l0: "(of_nat ?n :: u32) \<noteq> 0" using assms(2,4) len u32_of_nat_unat [of ?n] by auto
  have d1: "(of_nat (?n + 2) :: u32) - 1 = of_nat (?n + 1)" by simp
  have d0: "(of_nat (?n + 1) :: u32) - 1 = of_nat ?n" by simp
  have s1: "SubAckParser_parse ?p (hi_byte ident) None = (Tribool_new, None, ?p1)"
    using l2 d1
    by (simp add: SubAckParser_parse_def SubAckParser_switch_def PacketIdentifierParser_parse_def
        SubAckParser_reset_def PacketIdentifierParser_reset_def Let_def del: of_nat_add)
  have s2: "SubAckParser_parse ?p1 (lo_byte ident) None = (Tribool_new, None, ?p2)"
    using l1 l0 d0
    by (simp add: SubAckParser_parse_def SubAckParser_switch_def PacketIdentifierParser_parse_def
        SubAckParser_reset_def PacketIdentifierParser_reset_def Let_def hi_lo_join16 del: of_nat_add)
  have "feed SubAckParser_parse ?p (body @ rest) None =
      feed SubAckParser_parse ?p2 (map QoSLevel_value qs @ rest) None"
    unfolding assms(1) suback_body_def
    by (simp only: append_Cons append_Nil tribool_simps
        feed_indet [where parse = SubAckParser_parse, OF s1]
        feed_indet [where parse = SubAckParser_parse, OF s2])
  moreover have "\<exists>p'. feed SubAckParser_parse ?p2 (map QoSLevel_value qs @ rest) None =
      (Tribool_of True, None, p', rest) \<and>
    sap_packet p' = (sap_packet ?p2)\<lparr>sa_qosLevels := sa_qosLevels (sap_packet ?p2) @ qs\<rparr>"
    by (rule SubAckParser_levels) (use assms len in \<open>simp_all add: SubAckParser_reset_def\<close>)
  ultimately show ?thesis using len by simp
qed

lemma ConnectAckParser_body:
  assumes "cap_status p = CA_ConnectAcknowledgeFlag" "ConnectReturnCode_byte code \<le> 5"
  shows "\<exists>p'. feed ConnectAckParser_parse p
      ([ConnectAcknowledgeFlags_byte flag, ConnectReturnCode_byte code] @ rest) None =
      (Tribool_of True, None, p', rest) \<and>
    cap_packet p' = (cap_packet p)\<lparr>ca_connectAcknowledgeFlag := flag,
      ca_connectReturnCode := ConnectReturnCode_of (ConnectReturnCode_byte code)\<rparr>"
  using assms
  by (cases flag)
    (auto simp: feed.simps(2) ConnectAckParser_parse_def ConnectAcknowledgeFlags_of_def not_less)

end
