(* ===== verification/Mqtt_Connect_Parser.thy ===== *)
theory Mqtt_Connect_Parser
  imports Mqtt_Codec Mqtt_Packets
begin

text \<open>
  The parser of the CONNECT packet (mqtt_connect_parser.h). \<open>UuidGenerator::generate()\<close> is a
  call of the operating system's random generator: the text it yields is the argument
  \<open>uuid\<close> of the step.
\<close>

section \<open>ConnectParser\<close>

datatype ConnectStatus =
    CP_ProtocolName | CP_ProtocolLevel | CP_ConnectFlags | CP_KeepAliveMsb | CP_KeepAliveLsb
  | CP_ClientId | CP_WillTopic | CP_WillMessage | CP_Username | CP_Password | CP_Ready

record ConnectParser =
  cnp_status :: ConnectStatus
  cnp_packet :: ConnectControlPacket
  cnp_ret :: Tribool
  cnp_length :: u32
  cnp_stringParser :: StringParser

definition ConnectParser_new :: "u16 \<Rightarrow> u32 \<Rightarrow> u32 \<Rightarrow> ConnectParser" where
  "ConnectParser_new junk16 junk32 len =
     \<lparr>cnp_status = CP_ProtocolName, cnp_packet = ConnectControlPacket_new junk16,
      cnp_ret = Tribool_new, cnp_length = len, cnp_stringParser = StringParser_new junk32\<rparr>"

text \<open>\<open>reset\<close> leaves the packet of the previous run in place.\<close>

definition ConnectParser_reset :: "u32 \<Rightarrow> ConnectParser \<Rightarrow> ConnectParser" where
  "ConnectParser_reset len p =
     p\<lparr>cnp_ret := Tribool_new, cnp_status := CP_ProtocolName, cnp_length := len,
       cnp_stringParser := StringParser_reset (cnp_stringParser p)\<rparr>"

definition connect_fail :: "ConnectParser \<Rightarrow> ConnectParser" where
  "connect_fail p = p\<lparr>cnp_status := CP_Ready, cnp_ret := tribool_set False (cnp_ret p)\<rparr>"

definition connect_done :: "ConnectParser \<Rightarrow> ConnectParser" where
  "connect_done p = p\<lparr>cnp_status := CP_Ready, cnp_ret := tribool_set True (cnp_ret p)\<rparr>"

definition connect_reset_string :: "ConnectParser \<Rightarrow> ConnectParser" where
  "connect_reset_string p = p\<lparr>cnp_stringParser := StringParser_reset (cnp_stringParser p)\<rparr>"

text \<open>
  The flags byte. The two bits of the will QoS are combined before they are shifted down:
  \<open>(byte & 0x10) << 8\<close> is lost in the cast to eight bits.
\<close>

definition connect_flags :: "u8 \<Rightarrow> ConnectControlPacket \<Rightarrow> ConnectControlPacket" where
  "connect_flags byte c =
     c\<lparr>cn_cleanSession := byte AND 0x02 \<noteq> 0,
       cn_willFlag := byte AND 0x04 \<noteq> 0,
       cn_willQoSLevel := QoSLevel_of (drop_bit 3 (ucast
         (push_bit 8 (ucast (byte AND 0x10) :: u32) OR ucast (byte AND 0x08)) :: u8)),
       cn_willRetain := byte AND 0x20 \<noteq> 0,
       cn_passwordFlag := byte AND 0x40 \<noteq> 0,
       cn_userNameFlag := byte AND 0x80 \<noteq> 0\<rparr>"

text \<open>
  What each of the six string states does with its complete string \<open>s\<close>. An empty client
  identifier without the clean-session flag is reported in the error code, but the parser goes
  on as if it had been accepted.
\<close>

definition ConnectParser_field :: "string \<Rightarrow> string \<Rightarrow> ec \<Rightarrow> ConnectParser \<Rightarrow> ec \<times> ConnectParser" where
  "ConnectParser_field uuid s err p =
     (case cnp_status p of
        CP_ProtocolName \<Rightarrow>
          (if s \<noteq> ''MQTT'' then (Some protocol_name_violation, connect_fail p)
           else (err, connect_reset_string (p\<lparr>cnp_status := CP_ProtocolLevel\<rparr>)))
      | CP_ClientId \<Rightarrow>
          (let p = p\<lparr>cnp_packet := (cnp_packet p)\<lparr>cn_clientId := s\<rparr>\<rparr>;
               (err, p) =
                 (if s = [] then
                    (let (err, p) =
                       (if \<not> cn_cleanSession (cnp_packet p)
                        then (Some clean_session_not_set_for_empty_client_id, connect_fail p)
                        else (err, p))
                     in (err, p\<lparr>cnp_packet := (cnp_packet p)\<lparr>cn_clientId := uuid\<rparr>\<rparr>))
                  else (err, p));
               p = (if cn_willFlag (cnp_packet p) then p\<lparr>cnp_status := CP_WillTopic\<rparr>
                    else if cn_userNameFlag (cnp_packet p) then p\<lparr>cnp_status := CP_Username\<rparr>
                    else connect_done p)
           in (err, connect_reset_string p))
      | CP_WillTopic \<Rightarrow>
          (err, connect_reset_string
                  (p\<lparr>cnp_packet := (cnp_packet p)\<lparr>cn_willTopic := s\<rparr>, cnp_status := CP_WillMessage\<rparr>))
      | CP_WillMessage \<Rightarrow>
          (let p = p\<lparr>cnp_packet := (cnp_packet p)\<lparr>cn_willMessage := s\<rparr>\<rparr>;
               p = (if cn_userNameFlag (cnp_packet p) then p\<lparr>cnp_status := CP_Username\<rparr>
                    else connect_done p)
           in (err, connect_reset_string p))
      | CP_Username \<Rightarrow>
          (err, connect_reset_string
                  (p\<lparr>cnp_packet := (cnp_packet p)\<lparr>cn_userName := s\<rparr>, cnp_status := CP_Password\<rparr>))
      | CP_Password \<Rightarrow>
          (err, connect_done (p\<lparr>cnp_packet := (cnp_packet p)\<lparr>cn_password := s\<rparr>\<rparr>))
      | _ \<Rightarrow> (err, p))"

text \<open>
  The code in front of it, the same in the six cases. The test is on the member \<open>_ret\<close>
  rather than on the string parser's answer \<open>ret\<close>.
\<close>

definition ConnectParser_string ::
    "string \<Rightarrow> ConnectParser \<Rightarrow> u8 \<Rightarrow> ec \<Rightarrow> ec \<times> ConnectParser" where
  "ConnectParser_string uuid p byte err =
     (case StringParser_parse (cnp_stringParser p) byte err of
        (ret, err, sp) \<Rightarrow>
          (let p = p\<lparr>cnp_stringParser := sp\<rparr>
           in if isIndeterminate ret then (err, p)
              else if isFalse (cnp_ret p) \<or> err \<noteq> None then (err, connect_fail p)
              else ConnectParser_field uuid (StringParser_string sp) err p))"

definition ConnectParser_switch ::
    "string \<Rightarrow> ConnectParser \<Rightarrow> u8 \<Rightarrow> ec \<Rightarrow> ec \<times> ConnectParser" where
  "ConnectParser_switch uuid p byte err =
     (case cnp_status p of
        CP_ProtocolName \<Rightarrow> ConnectParser_string uuid p byte err
      | CP_ProtocolLevel \<Rightarrow>
          (if byte \<noteq> 0x04 then (Some unacceptable_protocol_level, connect_fail p)
           else (err, p\<lparr>cnp_packet := (cnp_packet p)\<lparr>cn_protocolLevel := byte\<rparr>,
                        cnp_status := CP_ConnectFlags\<rparr>))
      | CP_ConnectFlags \<Rightarrow>
          (if byte AND 0x01 \<noteq> 0 then (Some connect_flag_protocol_violation, connect_fail p)
           else (err, p\<lparr>cnp_packet := connect_flags byte (cnp_packet p),
                        cnp_status := CP_KeepAliveMsb\<rparr>))
      | CP_KeepAliveMsb \<Rightarrow>
          (err, p\<lparr>cnp_packet := (cnp_packet p)\<lparr>cn_keepAlive := push_bit 8 (ucast byte)\<rparr>,
                  cnp_status := CP_KeepAliveLsb\<rparr>)
      | CP_KeepAliveLsb \<Rightarrow>
          (err, p\<lparr>cnp_packet := (cnp_packet p)
                    \<lparr>cn_keepAlive := cn_keepAlive (cnp_packet p) OR ucast byte\<rparr>,
                  cnp_status := CP_ClientId\<rparr>)
      | CP_ClientId \<Rightarrow> ConnectParser_string uuid p byte err
      | CP_WillTopic \<Rightarrow> ConnectParser_string uuid p byte err
      | CP_WillMessage \<Rightarrow> ConnectParser_string uuid p byte err
      | CP_Username \<Rightarrow> ConnectParser_string uuid p byte err
      | CP_Password \<Rightarrow> ConnectParser_string uuid p byte err
      | CP_Ready \<Rightarrow> (Some connect_protocol_violation, p))"

definition ConnectParser_finish :: "ec \<Rightarrow> ConnectParser \<Rightarrow> Tribool \<times> ec \<times> ConnectParser" where
  "ConnectParser_finish err p =
     (if tribool_bool (cnp_ret p) \<and> cnp_length p \<noteq> 0
      then (let p = p\<lparr>cnp_ret := tribool_set False (cnp_ret p)\<rparr>
            in (cnp_ret p, Some control_packet_length, p))
      else (cnp_ret p, err, p))"

definition ConnectParser_parse :: "string \<Rightarrow> ConnectParser byte_step" where
  "ConnectParser_parse uuid p byte err =
     (if cnp_length p = 0
      then (let p = p\<lparr>cnp_ret := tribool_set False (cnp_ret p)\<rparr>
            in (cnp_ret p, Some control_packet_length, p))
      else
        (case ConnectParser_switch uuid (p\<lparr>cnp_length := cnp_length p - 1\<rparr>) byte err of
           (err, p) \<Rightarrow> ConnectParser_finish err p))"

lemmas connect_small_defs = connect_fail_def connect_done_def connect_reset_string_def

lemma ConnectParser_field_length:
  "ConnectParser_field uuid s err p = (err', p') \<Longrightarrow> cnp_length p' = cnp_length p"
  by (auto simp: ConnectParser_field_def connect_small_defs Let_def
      split: ConnectStatus.splits if_splits)

lemma ConnectParser_string_length:
  "ConnectParser_string uuid p b err = (err', p') \<Longrightarrow> cnp_length p' = cnp_length p"
  by (auto simp: ConnectParser_string_def connect_small_defs Let_def
      split: prod.splits if_splits dest!: ConnectParser_field_length)

lemma ConnectParser_switch_length:
  "ConnectParser_switch uuid p b err = (err', p') \<Longrightarrow> cnp_length p' = cnp_length p"
  by (auto simp: ConnectParser_switch_def connect_small_defs
      split: ConnectStatus.splits if_splits dest!: ConnectParser_string_length)

lemma ConnectParser_parse_step:
  assumes "cnp_length p \<noteq> 0" "ConnectParser_parse uuid p b err = (r, err', p')"
  shows "cnp_length p' = cnp_length p - 1 \<and> (isTrue r \<longrightarrow> cnp_length p' = 0)"
proof -
  obtain e q where sw: "ConnectParser_switch uuid (p\<lparr>cnp_length := cnp_length p - 1\<rparr>) b err = (e, q)"
    by (cases "ConnectParser_switch uuid (p\<lparr>cnp_length := cnp_length p - 1\<rparr>) b err") auto
  from ConnectParser_switch_length [OF sw] sw assms show ?thesis
    by (auto simp: ConnectParser_parse_def ConnectParser_finish_def Let_def split: if_splits)
qed

interpretation connect: length_bounded "ConnectParser_parse uuid" "\<lambda>p :: ConnectParser. unat (cnp_length p)"
  for uuid
  by (rule length_bounded_u32 [OF _ ConnectParser_parse_step]) (simp_all add: ConnectParser_parse_def)


section \<open>Reading back an encoded body\<close>

definition connect_inside :: "ConnectParser \<Rightarrow> bool" where
  "connect_inside p \<longleftrightarrow> cnp_ret p = Tribool_new \<and>
     cnp_status p \<in> {CP_ProtocolName, CP_ClientId, CP_WillTopic, CP_WillMessage, CP_Username, CP_Password}"

definition connect_adv :: "nat \<Rightarrow> StringParser \<Rightarrow> ConnectParser \<Rightarrow> ConnectParser" where
  "connect_adv n s p = p\<lparr>cnp_stringParser := s, cnp_length := cnp_length p - of_nat n\<rparr>"

lemma ConnectParser_inside_step:
  "connect_inside p \<Longrightarrow> cnp_length p \<noteq> 0 \<Longrightarrow>
   ConnectParser_parse uuid p b err =
     (case ConnectParser_string uuid (p\<lparr>cnp_length := cnp_length p - 1\<rparr>) b err of
        (err, p) \<Rightarrow> ConnectParser_finish err p)"
  by (auto simp: ConnectParser_parse_def ConnectParser_switch_def connect_inside_def)

interpretation connect_field: string_field "ConnectParser_parse uuid" cnp_stringParser connect_adv
  "\<lambda>p :: ConnectParser. unat (cnp_length p)" connect_inside for uuid
proof
  fix p :: ConnectParser and b s'
  assume i: "connect_inside p" and "0 < unat (cnp_length p)"
    and s: "StringParser_parse (cnp_stringParser p) b None = (Tribool_new, None, s')"
  then have "cnp_length p \<noteq> 0" "cnp_ret p = Tribool_new" by (auto simp: connect_inside_def)
  with s show "ConnectParser_parse uuid p b None = (Tribool_new, None, connect_adv 1 s' p)"
    by (simp add: ConnectParser_inside_step [OF i] ConnectParser_string_def ConnectParser_finish_def
        connect_adv_def)
qed (auto simp: connect_inside_def connect_adv_def u32_sub_of_nat diff_diff_eq add.commute)

text \<open>A complete string field, in any of the six states.\<close>

lemma ConnectParser_string_field:
  assumes "connect_inside p" "string_ready (cnp_stringParser p)" "length s < 2 ^ 16"
    "length s + 2 + n < 2 ^ 32" "cnp_length p = of_nat (length s + 2 + n)"
  obtains s2 where
    "\<And>rest. feed (ConnectParser_parse uuid) p (string_bytes s @ rest) None =
       settle (ConnectParser_parse uuid)
         (case ConnectParser_field uuid s None (p\<lparr>cnp_length := of_nat n, cnp_stringParser := s2\<rparr>) of
            (err, p) \<Rightarrow> ConnectParser_finish err p) rest"
proof -
  have u: "unat (cnp_length p) = length s + 2 + n"
    unfolding assms(5) using u32_of_nat_unat [OF assms(4)] by simp
  then have left: "length s + 2 \<le> unat (cnp_length p)" by simp
  obtain s1 s2 where
    g: "\<And>rest. feed (ConnectParser_parse uuid) p (string_bytes s @ rest) None =
        feed (ConnectParser_parse uuid) (connect_adv (length s + 1) s1 p) (last (string_bytes s) # rest) None"
    and l: "StringParser_parse s1 (last (string_bytes s)) None = (Tribool_of True, None, s2)"
    and t: "StringParser_string s2 = s"
    using connect_field.field_feed [OF assms(1,2,3) left] by blast
  let ?p1 = "connect_adv (length s + 1) s1 p"
  have l1: "cnp_length ?p1 = of_nat (n + 1)" unfolding connect_adv_def assms(5) by simp
  have n1: "cnp_length ?p1 \<noteq> 0"
    unfolding l1 using assms(4) u32_of_nat_unat [of "n + 1"] by auto
  have d1: "cnp_length ?p1 - 1 = of_nat n" unfolding l1 by simp
  have ret: "cnp_ret ?p1 = Tribool_new" using assms(1) by (simp add: connect_inside_def connect_adv_def)
  have upd: "?p1\<lparr>cnp_length := of_nat n, cnp_stringParser := s2\<rparr> =
      p\<lparr>cnp_length := of_nat n, cnp_stringParser := s2\<rparr>" by (simp add: connect_adv_def)
  have step: "ConnectParser_parse uuid ?p1 (last (string_bytes s)) None =
     (case ConnectParser_field uuid s None (?p1\<lparr>cnp_length := of_nat n, cnp_stringParser := s2\<rparr>) of
        (err, p) \<Rightarrow> ConnectParser_finish err p)"
    unfolding ConnectParser_inside_step [OF connect_field.inside_adv [OF assms(1)] n1]
      ConnectParser_string_def d1
    using l t ret by (simp add: connect_field.sub_adv)
  show thesis
    by (rule that [of s2]) (simp only: g feed.simps(2) step [unfolded upd] settle_def)
qed

text \<open>
  What the fields after the keep-alive interval are: the client identifier, the two will
  fields if the will flag is set, and user name and password if the user name flag is set.
\<close>

definition will_bytes :: "ConnectControlPacket \<Rightarrow> u8 list" where
  "will_bytes c = (if cn_willFlag c then string_bytes (cn_willTopic c) @ string_bytes (cn_willMessage c) else [])"

definition login_bytes :: "ConnectControlPacket \<Rightarrow> u8 list" where
  "login_bytes c =
     (if cn_userNameFlag c then string_bytes (cn_userName c) else []) @
     (if cn_passwordFlag c then string_bytes (cn_password c) else [])"

definition flags_byte :: "ConnectControlPacket \<Rightarrow> u8" where
  "flags_byte c =
     (let b = 0;
          b = (if cn_userNameFlag c then b OR 0x80 else b);
          b = (if cn_passwordFlag c then b OR 0x40 else b);
          b = (if cn_willRetain c then b OR 0x20 else b);
          b = b OR (0x18 AND push_bit 3 (QoSLevel_value (cn_willQoSLevel c)));
          b = (if cn_willFlag c then b OR 0x04 else b)
      in if cn_cleanSession c then b OR 0x02 else b)"

definition connect_body :: "ConnectControlPacket \<Rightarrow> u8 list" where
  "connect_body c =
     string_bytes ''MQTT'' @ [0x04, flags_byte c, hi_byte (cn_keepAlive c), lo_byte (cn_keepAlive c)] @
     string_bytes (cn_clientId c) @ will_bytes c @ login_bytes c"

text \<open>The flags byte is read back, apart from bit 4, which carries will QoS level 2.\<close>

lemma connect_flags_byte:
  "connect_flags (flags_byte c) d =
     d\<lparr>cn_cleanSession := cn_cleanSession c, cn_willFlag := cn_willFlag c,
       cn_willQoSLevel := (if cn_willQoSLevel c = AtLeastOnce then AtLeastOnce else AtMostOnce),
       cn_willRetain := cn_willRetain c, cn_passwordFlag := cn_passwordFlag c,
       cn_userNameFlag := cn_userNameFlag c\<rparr>"
  by (cases "cn_cleanSession c"; cases "cn_willFlag c"; cases "cn_willRetain c";
      cases "cn_passwordFlag c"; cases "cn_userNameFlag c"; cases "cn_willQoSLevel c";
      simp add: connect_flags_def flags_byte_def QoSLevel_of_def)

lemma flags_byte_reserved: "flags_byte c AND 0x01 = 0"
  by (cases "cn_cleanSession c"; cases "cn_willFlag c"; cases "cn_willRetain c";
      cases "cn_passwordFlag c"; cases "cn_userNameFlag c"; cases "cn_willQoSLevel c";
      simp add: flags_byte_def)

text \<open>The parser between two fields, with \<open>n\<close> bytes to come.\<close>

definition connect_at :: "ConnectStatus \<Rightarrow> ConnectControlPacket \<Rightarrow> nat \<Rightarrow> ConnectParser" where
  "connect_at st c n =
     \<lparr>cnp_status = st, cnp_packet = c, cnp_ret = Tribool_new, cnp_length = of_nat n,
      cnp_stringParser = \<lparr>sp_status = SP_Start, sp_length = 0, sp_ss = []\<rparr>\<rparr>"

lemma ConnectParser_reset_at: "ConnectParser_reset (of_nat n) p = connect_at CP_ProtocolName (cnp_packet p) n"
  by (cases p) (simp add: ConnectParser_reset_def connect_at_def)

definition string_status :: "ConnectStatus \<Rightarrow> bool" where
  "string_status st \<longleftrightarrow>
     st \<in> {CP_ProtocolName, CP_ClientId, CP_WillTopic, CP_WillMessage, CP_Username, CP_Password}"

lemma connect_at_inside: "string_status st \<Longrightarrow> connect_inside (connect_at st c n)"
  by (simp add: string_status_def connect_inside_def connect_at_def)

lemma connect_at_field:
  assumes "string_status st" "length s < 2 ^ 16" "length s + 2 + n < 2 ^ 32"
  obtains s2 where
    "\<And>rest. feed (ConnectParser_parse uuid) (connect_at st c (length s + 2 + n)) (string_bytes s @ rest) None =
       settle (ConnectParser_parse uuid)
         (case ConnectParser_field uuid s None ((connect_at st c n)\<lparr>cnp_stringParser := s2\<rparr>) of
            (err, p) \<Rightarrow> ConnectParser_finish err p) rest"
proof -
  have upd: "(connect_at st c (length s + 2 + n))\<lparr>cnp_length := of_nat n, cnp_stringParser := s2\<rparr> =
      (connect_at st c n)\<lparr>cnp_stringParser := s2\<rparr>" for s2 by (simp add: connect_at_def)
  have ready: "string_ready (cnp_stringParser (connect_at st c (length s + 2 + n)))"
    and len: "cnp_length (connect_at st c (length s + 2 + n)) = of_nat (length s + 2 + n)"
    by (simp_all only: connect_at_def ConnectParser.simps string_ready_new)
  show thesis
    using ConnectParser_string_field [OF connect_at_inside [OF assms(1)] ready assms(2,3) len] that
    unfolding upd by blast
qed

lemma connect_at_next:
  assumes "string_status st" "length s < 2 ^ 16" "length s + 2 + n < 2 ^ 32"
    "\<And>s2. ConnectParser_field uuid s None ((connect_at st c n)\<lparr>cnp_stringParser := s2\<rparr>) =
       (None, connect_at st' c' n)"
  shows "feed (ConnectParser_parse uuid) (connect_at st c (length s + 2 + n)) (string_bytes s @ rest) None =
    feed (ConnectParser_parse uuid) (connect_at st' c' n) rest None"
proof -
  have "ConnectParser_finish None (connect_at st' c' n) = (Tribool_new, None, connect_at st' c' n)"
    by (simp add: ConnectParser_finish_def connect_at_def)
  moreover obtain s2 where
    "\<And>rest. feed (ConnectParser_parse uuid) (connect_at st c (length s + 2 + n)) (string_bytes s @ rest) None =
       settle (ConnectParser_parse uuid)
         (case ConnectParser_field uuid s None ((connect_at st c n)\<lparr>cnp_stringParser := s2\<rparr>) of
            (err, p) \<Rightarrow> ConnectParser_finish err p) rest"
    using connect_at_field [OF assms(1-3), of uuid c] by blast
  ultimately show ?thesis by (simp only: assms(4) prod.case settle_def tribool_simps if_True)
qed

lemma connect_at_last:
  assumes "string_status st" "length s < 2 ^ 16"
    "\<And>s2. \<exists>q. ConnectParser_field uuid s None ((connect_at st c 0)\<lparr>cnp_stringParser := s2\<rparr>) = (None, q) \<and>
       cnp_ret q = Tribool_of True \<and> cnp_packet q = c'"
  shows "\<exists>p'. feed (ConnectParser_parse uuid) (connect_at st c (length s + 2)) (string_bytes s @ rest) None =
    (Tribool_of True, None, p', rest) \<and> cnp_packet p' = c'"
proof -
  have l: "length s + 2 + 0 < 2 ^ 32" using assms(2) by simp
  obtain s2 where
    f: "\<And>rest. feed (ConnectParser_parse uuid) (connect_at st c (length s + 2 + 0)) (string_bytes s @ rest) None =
       settle (ConnectParser_parse uuid)
         (case ConnectParser_field uuid s None ((connect_at st c 0)\<lparr>cnp_stringParser := s2\<rparr>) of
            (err, p) \<Rightarrow> ConnectParser_finish err p) rest"
    using connect_at_field [OF assms(1,2) l, of uuid c] by blast
  obtain q where q: "ConnectParser_field uuid s None ((connect_at st c 0)\<lparr>cnp_stringParser := s2\<rparr>) = (None, q)"
    "cnp_ret q = Tribool_of True" "cnp_packet q = c'" using assms(3) by blast
  have "cnp_length q = 0" using ConnectParser_field_length [OF q(1)] by (simp add: connect_at_def)
  then have "ConnectParser_finish None q = (Tribool_of True, None, q)"
    using q(2) by (simp add: ConnectParser_finish_def)
  then show ?thesis using f [of rest] q by (simp add: settle_def)
qed

lemmas connect_field_simps = ConnectParser_field_def connect_small_defs connect_at_def string_status_def

lemma connect_at_name:
  assumes "n + 6 < 2 ^ 32"
  shows "feed (ConnectParser_parse uuid) (connect_at CP_ProtocolName c (n + 6)) (string_bytes ''MQTT'' @ rest) None =
    feed (ConnectParser_parse uuid) (connect_at CP_ProtocolLevel c n) rest None"
  using connect_at_next [of CP_ProtocolName "''MQTT''" n uuid c CP_ProtocolLevel c rest] assms
  by (simp add: connect_field_simps add.commute)

text \<open>Protocol level, flags and keep-alive interval.\<close>

lemma connect_at_fixed:
  assumes "n + 4 < 2 ^ 32" "flags AND 0x01 = 0"
  shows "feed (ConnectParser_parse uuid) (connect_at CP_ProtocolLevel c (n + 4))
      ([0x04, flags, hi_byte k, lo_byte k] @ rest) None =
    feed (ConnectParser_parse uuid)
      (connect_at CP_ClientId ((connect_flags flags (c\<lparr>cn_protocolLevel := 4\<rparr>))\<lparr>cn_keepAlive := k\<rparr>) n) rest None"
proof -
  have ne: "(of_nat (n + m) :: u32) \<noteq> 0" if "0 < m" "m \<le> 4" for m
    using that assms(1) u32_of_nat_unat [of "n + m"] by auto
  have dec: "(of_nat (n + 4) :: u32) - 1 = of_nat (n + 3)" "(of_nat (n + 3) :: u32) - 1 = of_nat (n + 2)"
    "(of_nat (n + 2) :: u32) - 1 = of_nat (n + 1)" "(of_nat (n + 1) :: u32) - 1 = of_nat n"
    by simp_all
  note defs = ConnectParser_parse_def ConnectParser_switch_def ConnectParser_finish_def connect_at_def
  let ?c1 = "c\<lparr>cn_protocolLevel := 4\<rparr>"
  let ?c2 = "connect_flags flags ?c1"
  let ?c3 = "?c2\<lparr>cn_keepAlive := push_bit 8 (ucast (hi_byte k))\<rparr>"
  have s1: "ConnectParser_parse uuid (connect_at CP_ProtocolLevel c (n + 4)) 0x04 None =
      (Tribool_new, None, connect_at CP_ConnectFlags ?c1 (n + 3))"
    using ne [of 4] dec(1) by (simp add: defs del: of_nat_add)
  have s2: "ConnectParser_parse uuid (connect_at CP_ConnectFlags ?c1 (n + 3)) flags None =
      (Tribool_new, None, connect_at CP_KeepAliveMsb ?c2 (n + 2))"
    using ne [of 3] dec(2) assms(2) by (simp add: defs del: of_nat_add)
  have s3: "ConnectParser_parse uuid (connect_at CP_KeepAliveMsb ?c2 (n + 2)) (hi_byte k) None =
      (Tribool_new, None, connect_at CP_KeepAliveLsb ?c3 (n + 1))"
    using ne [of 2] dec(3) by (simp add: defs del: of_nat_add)
  have s4: "ConnectParser_parse uuid (connect_at CP_KeepAliveLsb ?c3 (n + 1)) (lo_byte k) None =
      (Tribool_new, None, connect_at CP_ClientId (?c2\<lparr>cn_keepAlive := k\<rparr>) n)"
    using ne [of 1] dec(4) by (simp add: defs hi_lo_join16 del: of_nat_add)
  note step = feed_indet [where parse = "ConnectParser_parse uuid"]
  show ?thesis
    by (simp only: append_Cons append_Nil step [OF s1] step [OF s2] step [OF s3] step [OF s4] tribool_simps)
qed

text \<open>
  The packets the parser can read back: a password comes with a user name and a user name with
  a password (\<open>_passwordFlag\<close> is parsed but never looked at), and only clean sessions may be
  anonymous.
\<close>

definition wire_connect :: "ConnectControlPacket \<Rightarrow> bool" where
  "wire_connect c \<longleftrightarrow>
     (cn_passwordFlag c \<longleftrightarrow> cn_userNameFlag c) \<and> (cn_clientId c = [] \<longrightarrow> cn_cleanSession c) \<and>
     length (cn_clientId c) < 2 ^ 16 \<and> length (cn_willTopic c) < 2 ^ 16 \<and>
     length (cn_willMessage c) < 2 ^ 16 \<and> length (cn_userName c) < 2 ^ 16 \<and>
     length (cn_password c) < 2 ^ 16"

definition set_login :: "ConnectControlPacket \<Rightarrow> ConnectControlPacket \<Rightarrow> ConnectControlPacket" where
  "set_login c d =
     (if cn_userNameFlag c then d\<lparr>cn_userName := cn_userName c, cn_password := cn_password c\<rparr> else d)"

definition set_will :: "ConnectControlPacket \<Rightarrow> ConnectControlPacket \<Rightarrow> ConnectControlPacket" where
  "set_will c d =
     (if cn_willFlag c then d\<lparr>cn_willTopic := cn_willTopic c, cn_willMessage := cn_willMessage c\<rparr> else d)"

definition connect_result ::
    "string \<Rightarrow> ConnectControlPacket \<Rightarrow> ConnectControlPacket \<Rightarrow> ConnectControlPacket" where
  "connect_result uuid c d =
     set_login c (set_will c
       (d\<lparr>cn_protocolLevel := 4, cn_cleanSession := cn_cleanSession c, cn_willFlag := cn_willFlag c,
          cn_willQoSLevel := (if cn_willQoSLevel c = AtLeastOnce then AtLeastOnce else AtMostOnce),
          cn_willRetain := cn_willRetain c, cn_passwordFlag := cn_passwordFlag c,
          cn_userNameFlag := cn_userNameFlag c, cn_keepAlive := cn_keepAlive c,
          cn_clientId := (if cn_clientId c = [] then uuid else cn_clientId c)\<rparr>))"

lemma connect_at_login:
  assumes "wire_connect c" "cn_userNameFlag c"
  shows "\<exists>p'. feed (ConnectParser_parse uuid) (connect_at CP_Username d (length (login_bytes c)))
      (login_bytes c @ rest) None = (Tribool_of True, None, p', rest) \<and> cnp_packet p' = set_login c d"
proof -
  let ?u = "cn_userName c" and ?w = "cn_password c"
  have lb: "login_bytes c = string_bytes ?u @ string_bytes ?w"
    using assms by (simp add: wire_connect_def login_bytes_def)
  have w: "length ?u < 2 ^ 16" "length ?w < 2 ^ 16" using assms(1) by (simp_all add: wire_connect_def)
  then have l: "length ?u + 2 + (length ?w + 2) < 2 ^ 32" by simp
  have "feed (ConnectParser_parse uuid) (connect_at CP_Username d (length ?u + 2 + (length ?w + 2)))
      (string_bytes ?u @ string_bytes ?w @ rest) None =
    feed (ConnectParser_parse uuid) (connect_at CP_Password (d\<lparr>cn_userName := ?u\<rparr>) (length ?w + 2))
      (string_bytes ?w @ rest) None"
    by (rule connect_at_next [OF _ w(1) l]) (simp_all add: connect_field_simps)
  moreover have "\<exists>p'. feed (ConnectParser_parse uuid)
      (connect_at CP_Password (d\<lparr>cn_userName := ?u\<rparr>) (length ?w + 2)) (string_bytes ?w @ rest) None =
      (Tribool_of True, None, p', rest) \<and> cnp_packet p' = d\<lparr>cn_userName := ?u, cn_password := ?w\<rparr>"
    by (rule connect_at_last [OF _ w(2)]) (simp_all add: connect_field_simps)
  moreover have len: "length (login_bytes c) = length ?u + 2 + (length ?w + 2)" by (simp add: lb)
  have app: "login_bytes c @ rest = string_bytes ?u @ string_bytes ?w @ rest" by (simp add: lb)
  have set: "set_login c d = d\<lparr>cn_userName := ?u, cn_password := ?w\<rparr>"
    using assms(2) by (simp add: set_login_def)
  ultimately show ?thesis unfolding len app set by (simp only:)
qed

lemma connect_at_will:
  assumes "wire_connect c" "cn_willFlag c" "cn_userNameFlag d = cn_userNameFlag c"
  shows "\<exists>p'. feed (ConnectParser_parse uuid)
      (connect_at CP_WillTopic d (length (will_bytes c @ login_bytes c)))
      ((will_bytes c @ login_bytes c) @ rest) None = (Tribool_of True, None, p', rest) \<and>
    cnp_packet p' = set_login c (set_will c d)"
proof -
  let ?t = "cn_willTopic c" and ?m = "cn_willMessage c" and ?n = "length (login_bytes c)"
  have w: "length ?t < 2 ^ 16" "length ?m < 2 ^ 16" "?n < 2 ^ 18"
    using assms(1) by (simp_all add: wire_connect_def login_bytes_def)
  then have l: "length ?t + 2 + (length ?m + 2 + ?n) < 2 ^ 32" "length ?m + 2 + ?n < 2 ^ 32" by simp_all
  let ?d1 = "d\<lparr>cn_willTopic := ?t\<rparr>"
  let ?d2 = "?d1\<lparr>cn_willMessage := ?m\<rparr>"
  have len: "length (will_bytes c @ login_bytes c) = length ?t + 2 + (length ?m + 2 + ?n)"
    and app: "(will_bytes c @ login_bytes c) @ rest = string_bytes ?t @ string_bytes ?m @ login_bytes c @ rest"
    using assms(2) by (simp_all add: will_bytes_def)
  have set: "set_will c d = ?d2" using assms(2) by (simp add: set_will_def)
  have 1: "feed (ConnectParser_parse uuid) (connect_at CP_WillTopic d (length ?t + 2 + (length ?m + 2 + ?n)))
      (string_bytes ?t @ string_bytes ?m @ login_bytes c @ rest) None =
    feed (ConnectParser_parse uuid) (connect_at CP_WillMessage ?d1 (length ?m + 2 + ?n))
      (string_bytes ?m @ login_bytes c @ rest) None"
    by (rule connect_at_next [OF _ w(1) l(1)]) (simp_all add: connect_field_simps)
  show ?thesis
  proof (cases "cn_userNameFlag c")
    case True
    have "feed (ConnectParser_parse uuid) (connect_at CP_WillMessage ?d1 (length ?m + 2 + ?n))
        (string_bytes ?m @ login_bytes c @ rest) None =
      feed (ConnectParser_parse uuid) (connect_at CP_Username ?d2 ?n) (login_bytes c @ rest) None"
      by (rule connect_at_next [OF _ w(2) l(2)]) (use True assms(3) in \<open>simp_all add: connect_field_simps\<close>)
    then show ?thesis unfolding len app set 1
      using connect_at_login [OF assms(1) True] by simp
  next
    case False
    then have lb: "login_bytes c = []" using assms(1) by (simp add: login_bytes_def wire_connect_def)
    have "\<exists>p'. feed (ConnectParser_parse uuid) (connect_at CP_WillMessage ?d1 (length ?m + 2))
        (string_bytes ?m @ rest) None = (Tribool_of True, None, p', rest) \<and> cnp_packet p' = ?d2"
      by (rule connect_at_last [OF _ w(2)]) (use False assms(3) in \<open>simp_all add: connect_field_simps\<close>)
    then show ?thesis unfolding len app set 1 using False lb by (simp add: set_login_def)
  qed
qed

lemma connect_at_client:
  assumes "wire_connect c" "cn_userNameFlag d = cn_userNameFlag c" "cn_willFlag d = cn_willFlag c"
    "cn_cleanSession d = cn_cleanSession c"
    "bs = string_bytes (cn_clientId c) @ will_bytes c @ login_bytes c"
  shows "\<exists>p'. feed (ConnectParser_parse uuid) (connect_at CP_ClientId d (length bs)) (bs @ rest) None =
      (Tribool_of True, None, p', rest) \<and>
    cnp_packet p' = set_login c (set_will c
      (d\<lparr>cn_clientId := (if cn_clientId c = [] then uuid else cn_clientId c)\<rparr>))"
proof -
  let ?i = "cn_clientId c" and ?n = "length (will_bytes c @ login_bytes c)"
  let ?d = "d\<lparr>cn_clientId := (if ?i = [] then uuid else ?i)\<rparr>"
  have w: "length ?i < 2 ^ 16" "?n < 2 ^ 20"
    using assms(1) by (simp_all add: wire_connect_def login_bytes_def will_bytes_def)
  then have l: "length ?i + 2 + ?n < 2 ^ 32" by simp
  have clean: "?i = [] \<Longrightarrow> cn_cleanSession d" using assms(1,4) by (simp add: wire_connect_def)
  have len: "length bs = length ?i + 2 + ?n"
    and app: "bs @ rest = string_bytes ?i @ (will_bytes c @ login_bytes c) @ rest"
    using assms(5) by simp_all
  consider (will) "cn_willFlag c" | (user) "\<not> cn_willFlag c" "cn_userNameFlag c"
    | (none) "\<not> cn_willFlag c" "\<not> cn_userNameFlag c" by blast
  then show ?thesis
  proof cases
    case will
    have "feed (ConnectParser_parse uuid) (connect_at CP_ClientId d (length ?i + 2 + ?n))
        (string_bytes ?i @ (will_bytes c @ login_bytes c) @ rest) None =
      feed (ConnectParser_parse uuid) (connect_at CP_WillTopic ?d ?n) ((will_bytes c @ login_bytes c) @ rest) None"
      by (rule connect_at_next [OF _ w(1) l])
        (use will assms(2,3) clean in \<open>auto simp: connect_field_simps Let_def\<close>)
    then show ?thesis unfolding len app
      using connect_at_will [OF assms(1) will, of ?d] assms(2) by simp
  next
    case user
    then have wb: "will_bytes c = []" "set_will c ?d = ?d" by (simp_all add: will_bytes_def set_will_def)
    have "feed (ConnectParser_parse uuid) (connect_at CP_ClientId d (length ?i + 2 + ?n))
        (string_bytes ?i @ (will_bytes c @ login_bytes c) @ rest) None =
      feed (ConnectParser_parse uuid) (connect_at CP_Username ?d ?n) ((will_bytes c @ login_bytes c) @ rest) None"
      by (rule connect_at_next [OF _ w(1) l])
        (use user assms(2,3) clean in \<open>auto simp: connect_field_simps Let_def\<close>)
    then show ?thesis unfolding len app wb
      using connect_at_login [OF assms(1) user(2), of uuid ?d] by simp
  next
    case none
    then have nb: "will_bytes c = []" "login_bytes c = []" "set_login c (set_will c ?d) = ?d"
      using assms(1) by (simp_all add: will_bytes_def login_bytes_def set_will_def set_login_def wire_connect_def)
    have "\<exists>p'. feed (ConnectParser_parse uuid) (connect_at CP_ClientId d (length ?i + 2))
        (string_bytes ?i @ rest) None = (Tribool_of True, None, p', rest) \<and> cnp_packet p' = ?d"
      by (rule connect_at_last [OF _ w(1)])
        (use none assms(2,3) clean in \<open>auto simp: connect_field_simps Let_def\<close>)
    then show ?thesis unfolding len app nb by simp
  qed
qed

lemma ConnectParser_body:
  assumes "wire_connect c" "body = connect_body c"
  shows "\<exists>p'. feed (ConnectParser_parse uuid) (ConnectParser_reset (of_nat (length body)) p) (body @ rest) None =
      (Tribool_of True, None, p', rest) \<and> cnp_packet p' = connect_result uuid c (cnp_packet p)"
proof -
  let ?bs = "string_bytes (cn_clientId c) @ will_bytes c @ login_bytes c"
  let ?n = "length ?bs" and ?d = "cnp_packet p"
  have "?n < 2 ^ 21"
    using assms(1) by (simp add: wire_connect_def login_bytes_def will_bytes_def)
  then have l: "(?n + 4) + 6 < 2 ^ 32" "?n + 4 < 2 ^ 32" by simp_all
  have len: "length body = (?n + 4) + 6" by (simp add: assms(2) connect_body_def)
  have app: "body @ rest = string_bytes ''MQTT'' @
      [0x04, flags_byte c, hi_byte (cn_keepAlive c), lo_byte (cn_keepAlive c)] @ ?bs @ rest"
    by (simp add: assms(2) connect_body_def)
  let ?e = "(connect_flags (flags_byte c) (?d\<lparr>cn_protocolLevel := 4\<rparr>))\<lparr>cn_keepAlive := cn_keepAlive c\<rparr>"
  have "\<exists>p'. feed (ConnectParser_parse uuid) (connect_at CP_ClientId ?e ?n) (?bs @ rest) None =
      (Tribool_of True, None, p', rest) \<and>
    cnp_packet p' = set_login c (set_will c
      (?e\<lparr>cn_clientId := (if cn_clientId c = [] then uuid else cn_clientId c)\<rparr>))"
    by (rule connect_at_client [OF assms(1) _ _ _ refl]) (simp_all add: connect_flags_byte)
  then show ?thesis
    unfolding len app ConnectParser_reset_at connect_at_name [OF l(1)]
      connect_at_fixed [OF l(2) flags_byte_reserved] connect_result_def
    by (simp add: connect_flags_byte)
qed

text \<open>
  An anonymous client that asks for a persistent session is answered with a finished packet
  and an error code at once.
\<close>

lemma ConnectParser_anonymous:
  assumes "\<not> cn_cleanSession c" "\<not> cn_willFlag c" "\<not> cn_userNameFlag c"
  shows "\<exists>p'. feed (ConnectParser_parse uuid) (connect_at CP_ClientId c 2) [0, 0] None =
    (Tribool_of True, Some clean_session_not_set_for_empty_client_id, p', []) \<and>
    cn_clientId (cnp_packet p') = uuid"
  using assms
  by (simp add: feed.simps(2) ConnectParser_parse_def ConnectParser_switch_def ConnectParser_string_def
      ConnectParser_field_def ConnectParser_finish_def connect_small_defs connect_at_def
      StringParser_parse_def StringParser_string_def)

end
