(* ===== verification/Mqtt_Parser.thy ===== *)
theory Mqtt_Parser
  imports Mqtt_Body_Parsers Mqtt_Connect_Parser
begin

text \<open>
  The parser of a whole control packet (mqtt_parser.h): the fixed header decides which body
  parser gets the bytes that follow.
\<close>

section \<open>MQTTParser\<close>

datatype ParserStatus =
  MP_Start | MP_Connect | MP_ConnAck | MP_Publish | MP_Subscribe | MP_SubAck | MP_Ready

record MQTTParser =
  mp_status :: ParserStatus
  mp_fixedHeaderParser :: FixedHeaderParser
  mp_connectParser :: ConnectParser
  mp_connAckParser :: ConnectAckParser
  mp_publishParser :: PublishParser
  mp_subscribeParser :: SubscribeParser
  mp_subAckParser :: SubAckParser
  mp_packet :: "ControlPacket option"

definition MQTTParser_new :: "u16 \<Rightarrow> u32 \<Rightarrow> MQTTParser" where
  "MQTTParser_new junk16 junk32 =
     \<lparr>mp_status = MP_Start, mp_fixedHeaderParser = FixedHeaderParser_new,
      mp_connectParser = ConnectParser_new junk16 junk32 0,
      mp_connAckParser = ConnectAckParser_new,
      mp_publishParser = PublishParser_new junk16 junk32 AtMostOnce 0,
      mp_subscribeParser = SubscribeParser_new junk16 junk32 0,
      mp_subAckParser = SubAckParser_new junk16 0,
      mp_packet = None\<rparr>"

definition MQTTParser_reset :: "MQTTParser \<Rightarrow> MQTTParser" where
  "MQTTParser_reset p =
     p\<lparr>mp_status := MP_Start,
       mp_fixedHeaderParser := FixedHeaderParser_reset (mp_fixedHeaderParser p)\<rparr>"

text \<open>\<open>_packet.reset(pkt); _packet->_header = _fixedHeaderParser.header(); _status = Ready;\<close>\<close>

definition deliver :: "ControlPacket \<Rightarrow> MQTTParser \<Rightarrow> MQTTParser" where
  "deliver pkt p =
     p\<lparr>mp_packet := Some (set_packet_header (fhp_header (mp_fixedHeaderParser p)) pkt),
       mp_status := MP_Ready\<rparr>"

text \<open>The inner \<open>switch\<close>, once the fixed header is complete.\<close>

definition MQTTParser_dispatch :: "ec \<Rightarrow> MQTTParser \<Rightarrow> Tribool \<times> ec \<times> MQTTParser" where
  "MQTTParser_dispatch err p =
     (let header = fhp_header (mp_fixedHeaderParser p) in
      case fh_controlPacketType header of
        NoType \<Rightarrow> (Tribool_of False, Some invalid_control_packet_type, p)
      | Connect \<Rightarrow>
          (Tribool_new, err,
           p\<lparr>mp_connectParser := ConnectParser_reset (fh_length header) (mp_connectParser p),
             mp_status := MP_Connect\<rparr>)
      | Connack \<Rightarrow>
          (Tribool_new, err,
           p\<lparr>mp_connAckParser := ConnectAckParser_reset (mp_connAckParser p),
             mp_status := MP_ConnAck\<rparr>)
      | Publish \<Rightarrow>
          (let qos = QoSLevel_of (drop_bit 1 (fh_flags header AND 0x06))
           in (Tribool_new, err,
               p\<lparr>mp_publishParser := PublishParser_reset qos (fh_length header) (mp_publishParser p),
                 mp_status := MP_Publish\<rparr>))
      | Puback \<Rightarrow> (Tribool_of False, Some feature_not_implemented, p)
      | Pubrec \<Rightarrow> (Tribool_of False, Some feature_not_implemented, p)
      | Pubrel \<Rightarrow> (Tribool_of False, Some feature_not_implemented, p)
      | Pubcomp \<Rightarrow> (Tribool_of False, Some feature_not_implemented, p)
      | Subscribe \<Rightarrow>
          (Tribool_new, err,
           p\<lparr>mp_subscribeParser := SubscribeParser_reset (fh_length header) (mp_subscribeParser p),
             mp_status := MP_Subscribe\<rparr>)
      | Suback \<Rightarrow>
          (Tribool_new, err,
           p\<lparr>mp_subAckParser := SubAckParser_reset (fh_length header) (mp_subAckParser p),
             mp_status := MP_SubAck\<rparr>)
      | Unsubscribe \<Rightarrow> (Tribool_of False, Some feature_not_implemented, p)
      | Unsuback \<Rightarrow> (Tribool_of False, Some feature_not_implemented, p)
      | Pingreq \<Rightarrow> (Tribool_of True, err, deliver PingReqControlPacket_new p)
      | Pingresp \<Rightarrow> (Tribool_of True, err, deliver PingRespControlPacket_new p)
      | Disconnect \<Rightarrow> (Tribool_of True, err, deliver DisconnectControlPacket_new p)
      | Reserved \<Rightarrow> (Tribool_of False, Some invalid_control_packet_type, p))"

definition MQTTParser_parse :: "string \<Rightarrow> MQTTParser byte_step" where
  "MQTTParser_parse uuid p byte err =
     (case mp_status p of
        MP_Start \<Rightarrow>
          (case FixedHeaderParser_parse (mp_fixedHeaderParser p) byte err of
             (ret, err, fp) \<Rightarrow>
               (let p = p\<lparr>mp_fixedHeaderParser := fp\<rparr>
                in if isFalse ret then (Tribool_of False, err, p)
                   else if isTrue ret then MQTTParser_dispatch err p
                   else (Tribool_new, err, p)))
      | MP_Connect \<Rightarrow>
          (case ConnectParser_parse uuid (mp_connectParser p) byte err of
             (ret, err, q) \<Rightarrow>
               (let p = p\<lparr>mp_connectParser := q\<rparr>
                in if isFalse ret then (Tribool_of False, err, p)
                   else if isTrue ret then (Tribool_of True, err, deliver (PConnect (cnp_packet q)) p)
                   else (Tribool_new, err, p)))
      | MP_ConnAck \<Rightarrow>
          (case ConnectAckParser_parse (mp_connAckParser p) byte err of
             (ret, err, q) \<Rightarrow>
               (let p = p\<lparr>mp_connAckParser := q\<rparr>
                in if isFalse ret then (Tribool_of False, err, p)
                   else if isTrue ret then (Tribool_of True, err, deliver (PConnAck (cap_packet q)) p)
                   else (Tribool_new, err, p)))
      | MP_Publish \<Rightarrow>
          (case PublishParser_parse (mp_publishParser p) byte err of
             (ret, err, q) \<Rightarrow>
               (let p = p\<lparr>mp_publishParser := q\<rparr>
                in if isFalse ret then (Tribool_of False, err, p)
                   else if isTrue ret then (Tribool_of True, err, deliver (PPublish (pbp_packet q)) p)
                   else (Tribool_new, err, p)))
      | MP_Subscribe \<Rightarrow>
          (case SubscribeParser_parse (mp_subscribeParser p) byte err of
             (ret, err, q) \<Rightarrow>
               (let p = p\<lparr>mp_subscribeParser := q\<rparr>
                in if isFalse ret then (Tribool_of False, err, p)
                   else if isTrue ret then (Tribool_of True, err, deliver (PSubscribe (sbp_packet q)) p)
                   else (Tribool_new, err, p)))
      | MP_SubAck \<Rightarrow>
          (case SubAckParser_parse (mp_subAckParser p) byte err of
             (ret, err, q) \<Rightarrow>
               (let p = p\<lparr>mp_subAckParser := q\<rparr>
                in if isFalse ret then (Tribool_of False, err, p)
                   else if isTrue ret then (Tribool_of True, err, deliver (PSubAck (sap_packet q)) p)
                   else (Tribool_new, err, p)))
      | MP_Ready \<Rightarrow> (Tribool_of False, err, p))"

text \<open>\<open>consumePacket\<close> hands the packet over and leaves a null pointer behind.\<close>

definition MQTTParser_consumePacket :: "MQTTParser \<Rightarrow> ControlPacket option \<times> MQTTParser" where
  "MQTTParser_consumePacket p =
     (let p = MQTTParser_reset p in (mp_packet p, p\<lparr>mp_packet := None\<rparr>))"

text \<open>Between two packets.\<close>

definition idle :: "MQTTParser \<Rightarrow> bool" where
  "idle p \<longleftrightarrow> mp_status p = MP_Start \<and> mp_fixedHeaderParser p = FixedHeaderParser_new"

lemma idle_new [simp]: "idle (MQTTParser_new j16 j32)"
  by (simp add: idle_def MQTTParser_new_def)

lemma idle_reset [simp]: "idle (MQTTParser_reset p)"
  by (simp add: idle_def MQTTParser_reset_def)

lemma idle_consume [simp]: "idle (snd (MQTTParser_consumePacket p))"
  by (simp add: idle_def MQTTParser_consumePacket_def MQTTParser_reset_def Let_def)


section \<open>The body parsers inside\<close>

interpretation in_connect: embedded_parser "MQTTParser_parse uuid" "ConnectParser_parse uuid"
  mp_connectParser "\<lambda>q p :: MQTTParser. p\<lparr>mp_connectParser := q\<rparr>"
  "\<lambda>p :: MQTTParser. mp_status p = MP_Connect"
  "\<lambda>p. deliver (PConnect (cnp_packet (mp_connectParser p))) p" for uuid
  by unfold_locales (simp_all add: MQTTParser_parse_def Let_def)

interpretation in_connack: embedded_parser "MQTTParser_parse uuid" ConnectAckParser_parse
  mp_connAckParser "\<lambda>q p :: MQTTParser. p\<lparr>mp_connAckParser := q\<rparr>"
  "\<lambda>p :: MQTTParser. mp_status p = MP_ConnAck"
  "\<lambda>p. deliver (PConnAck (cap_packet (mp_connAckParser p))) p" for uuid
  by unfold_locales (simp_all add: MQTTParser_parse_def Let_def)

interpretation in_publish: embedded_parser "MQTTParser_parse uuid" PublishParser_parse
  mp_publishParser "\<lambda>q p :: MQTTParser. p\<lparr>mp_publishParser := q\<rparr>"
  "\<lambda>p :: MQTTParser. mp_status p = MP_Publish"
  "\<lambda>p. deliver (PPublish (pbp_packet (mp_publishParser p))) p" for uuid
  by unfold_locales (simp_all add: MQTTParser_parse_def Let_def)

interpretation in_subscribe: embedded_parser "MQTTParser_parse uuid" SubscribeParser_parse
  mp_subscribeParser "\<lambda>q p :: MQTTParser. p\<lparr>mp_subscribeParser := q\<rparr>"
  "\<lambda>p :: MQTTParser. mp_status p = MP_Subscribe"
  "\<lambda>p. deliver (PSubscribe (sbp_packet (mp_subscribeParser p))) p" for uuid
  by unfold_locales (simp_all add: MQTTParser_parse_def Let_def)

interpretation in_suback: embedded_parser "MQTTParser_parse uuid" SubAckParser_parse
  mp_subAckParser "\<lambda>q p :: MQTTParser. p\<lparr>mp_subAckParser := q\<rparr>"
  "\<lambda>p :: MQTTParser. mp_status p = MP_SubAck"
  "\<lambda>p. deliver (PSubAck (sap_packet (mp_subAckParser p))) p" for uuid
  by unfold_locales (simp_all add: MQTTParser_parse_def Let_def)

text \<open>The fixed header, with the dispatch behind its last byte.\<close>

lemma MQTTParser_header:
  "feed FixedHeaderParser_parse (mp_fixedHeaderParser p) bs err = (r, err', q, rest) \<Longrightarrow>
   mp_status p = MP_Start \<Longrightarrow>
   feed (MQTTParser_parse uuid) p bs err =
     (if isFalse r then (Tribool_of False, err', p\<lparr>mp_fixedHeaderParser := q\<rparr>, rest)
      else if isTrue r
      then settle (MQTTParser_parse uuid) (MQTTParser_dispatch err' (p\<lparr>mp_fixedHeaderParser := q\<rparr>)) rest
      else (Tribool_new, err', p\<lparr>mp_fixedHeaderParser := q\<rparr>, rest))"
proof (induction bs arbitrary: p err)
  case (Cons b bs)
  obtain r1 e1 q1 where s: "FixedHeaderParser_parse (mp_fixedHeaderParser p) b err = (r1, e1, q1)"
    by (cases "FixedHeaderParser_parse (mp_fixedHeaderParser p) b err") auto
  let ?p = "p\<lparr>mp_fixedHeaderParser := q1\<rparr>"
  have o: "MQTTParser_parse uuid p b err =
      (if isFalse r1 then (Tribool_of False, e1, ?p)
       else if isTrue r1 then MQTTParser_dispatch e1 ?p else (Tribool_new, e1, ?p))"
    using s Cons.prems(2) by (simp add: MQTTParser_parse_def Let_def)
  show ?case
  proof (cases r1 rule: tribool_cases)
    case indet
    then have "feed FixedHeaderParser_parse (mp_fixedHeaderParser ?p) bs e1 = (r, err', q, rest)"
      using Cons.prems(1) s by (simp add: feed_indet)
    from Cons.IH [OF this] Cons.prems(2) o indet show ?thesis by (simp add: feed_indet)
  next
    case true
    then have "r1 = r" "e1 = err'" "q1 = q" "bs = rest" using Cons.prems(1) s by (simp_all add: feed_stop)
    with o true show ?thesis by (simp add: feed_settle)
  next
    case false
    then have "r1 = r" "e1 = err'" "q1 = q" "bs = rest" using Cons.prems(1) s by (simp_all add: feed_stop)
    with o false show ?thesis by (simp add: feed_stop)
  qed
qed simp

lemma MQTTParser_header_roundtrip:
  assumes "idle p" "flags_allowed t f" "f AND 0x0F = f" "n < 2 ^ 28"
  shows "\<exists>q. feed (MQTTParser_parse uuid) p (header_bytes t f n @ rest) None =
      settle (MQTTParser_parse uuid) (MQTTParser_dispatch None (p\<lparr>mp_fixedHeaderParser := q\<rparr>)) rest \<and>
    fhp_header q = \<lparr>fh_controlPacketType = t, fh_flags = f, fh_length = of_nat n\<rparr>"
proof -
  from FixedHeaderParser_roundtrip [OF assms(2-4), of rest] obtain q where
    q: "feed FixedHeaderParser_parse FixedHeaderParser_new (header_bytes t f n @ rest) None =
      (Tribool_of True, None, q, rest)"
      "fhp_header q = \<lparr>fh_controlPacketType = t, fh_flags = f, fh_length = of_nat n\<rparr>" by blast
  with assms(1) show ?thesis
    using MQTTParser_header [of p "header_bytes t f n @ rest" None "Tribool_of True" None q rest uuid]
    by (auto simp: idle_def)
qed


section \<open>Reading back whole packets\<close>

abbreviation header_of :: "ControlPacketType \<Rightarrow> HeaderFlags \<Rightarrow> nat \<Rightarrow> FixedHeader" where
  "header_of t f n \<equiv> \<lparr>fh_controlPacketType = t, fh_flags = f, fh_length = of_nat n\<rparr>"

text \<open>A packet on the wire: fixed header, then body.\<close>

definition packet_bytes :: "ControlPacketType \<Rightarrow> HeaderFlags \<Rightarrow> u8 list \<Rightarrow> u8 list" where
  "packet_bytes t f body = header_bytes t f (length body) @ body"

lemma packet_bytes_append: "packet_bytes t f body @ rest = header_bytes t f (length body) @ body @ rest"
  by (simp add: packet_bytes_def)

lemma MQTTParser_connect:
  assumes "idle p" "wire_connect c"
  shows "\<exists>p'. feed (MQTTParser_parse uuid) p (packet_bytes Connect 0 (connect_body c) @ rest) None =
      (Tribool_of True, None, p', rest) \<and>
    mp_packet p' = Some (PConnect ((connect_result uuid c (cnp_packet (mp_connectParser p)))
      \<lparr>cn_header := header_of Connect 0 (length (connect_body c))\<rparr>))"
proof -
  let ?b = "connect_body c"
  have n: "length ?b < 2 ^ 28"
    using assms(2) by (simp add: wire_connect_def connect_body_def will_bytes_def login_bytes_def)
  obtain q where q: "feed (MQTTParser_parse uuid) p (packet_bytes Connect 0 ?b @ rest) None =
      settle (MQTTParser_parse uuid) (MQTTParser_dispatch None (p\<lparr>mp_fixedHeaderParser := q\<rparr>)) (?b @ rest)"
    "fhp_header q = header_of Connect 0 (length ?b)"
    using MQTTParser_header_roundtrip [OF assms(1) _ _ n, of Connect 0 uuid "?b @ rest"]
    unfolding packet_bytes_append by (auto simp: flags_allowed_def)
  let ?cp = "ConnectParser_reset (of_nat (length ?b)) (mp_connectParser p)"
  let ?p = "p\<lparr>mp_fixedHeaderParser := q, mp_connectParser := ?cp, mp_status := MP_Connect\<rparr>"
  obtain cp where cp: "feed (ConnectParser_parse uuid) ?cp (?b @ rest) None = (Tribool_of True, None, cp, rest)"
    "cnp_packet cp = connect_result uuid c (cnp_packet (mp_connectParser p))"
    using ConnectParser_body [OF assms(2) refl] by blast
  have "feed (MQTTParser_parse uuid) ?p (?b @ rest) None =
      (Tribool_of True, None, deliver (PConnect (cnp_packet cp)) (?p\<lparr>mp_connectParser := cp\<rparr>), rest)"
    using in_connect.feed_inner [of uuid ?p "?b @ rest" None "Tribool_of True" None cp rest] cp(1) by simp
  then show ?thesis using q cp(2)
    by (simp add: MQTTParser_dispatch_def settle_def deliver_def)
qed

lemma MQTTParser_publish:
  assumes "idle p" "flags_allowed Publish f" "f AND 0x0F = f"
    "qos = QoSLevel_of (drop_bit 1 (f AND 0x06))" "body = publish_body qos topic ident payload"
    "length body < 2 ^ 28" "length topic < 2 ^ 16" "TopicName_validate topic None = (True, None)"
    "AtMostOnce < qos \<or> payload \<noteq> []"
  shows "\<exists>p'. feed (MQTTParser_parse uuid) p (packet_bytes Publish f body @ rest) None =
      (Tribool_of True, None, p', rest) \<and>
    mp_packet p' = Some (PPublish ((pbp_packet (mp_publishParser p))
      \<lparr>pb_header := header_of Publish f (length body), pb_topicName := topic, pb_payload := payload,
       pb_packetIdentifier := (if AtMostOnce < qos then ident
         else pb_packetIdentifier (pbp_packet (mp_publishParser p)))\<rparr>))"
proof -
  obtain q where q: "feed (MQTTParser_parse uuid) p (packet_bytes Publish f body @ rest) None =
      settle (MQTTParser_parse uuid) (MQTTParser_dispatch None (p\<lparr>mp_fixedHeaderParser := q\<rparr>)) (body @ rest)"
    "fhp_header q = header_of Publish f (length body)"
    using MQTTParser_header_roundtrip [OF assms(1-3,6), of uuid "body @ rest"]
    unfolding packet_bytes_append by auto
  let ?pp = "PublishParser_reset qos (of_nat (length body)) (mp_publishParser p)"
  let ?p = "p\<lparr>mp_fixedHeaderParser := q, mp_publishParser := ?pp, mp_status := MP_Publish\<rparr>"
  have n: "length body < 2 ^ 32" using assms(6) by simp
  from PublishParser_body [OF assms(5) n assms(7-9), of "mp_publishParser p" rest]
  obtain pp where pp: "feed PublishParser_parse ?pp (body @ rest) None = (Tribool_of True, None, pp, rest)"
    "pbp_packet pp = (pbp_packet (mp_publishParser p))\<lparr>pb_topicName := topic, pb_payload := payload,
       pb_packetIdentifier := (if AtMostOnce < qos then ident
         else pb_packetIdentifier (pbp_packet (mp_publishParser p)))\<rparr>"
    by blast
  have "feed (MQTTParser_parse uuid) ?p (body @ rest) None =
      (Tribool_of True, None, deliver (PPublish (pbp_packet pp)) (?p\<lparr>mp_publishParser := pp\<rparr>), rest)"
    using in_publish.feed_inner [of ?p "body @ rest" None "Tribool_of True" None pp rest uuid] pp(1) by simp
  then show ?thesis using q pp(2) assms(4)
    by (simp add: MQTTParser_dispatch_def settle_def deliver_def Let_def)
qed

lemma MQTTParser_subscribe:
  assumes "idle p" "body = subscribe_body ident fs" "length body < 2 ^ 28" "fs \<noteq> []"
    "\<And>f. f \<in> set fs \<Longrightarrow> wire_filter f"
  shows "\<exists>p'. feed (MQTTParser_parse uuid) p (packet_bytes Subscribe 2 body @ rest) None =
      (Tribool_of True, None, p', rest) \<and>
    mp_packet p' = Some (PSubscribe ((sbp_packet (mp_subscribeParser p))
      \<lparr>sb_header := header_of Subscribe 2 (length body), sb_packetIdentifier := ident,
       sb_topicFilters := sort_unique_filters (sb_topicFilters (sbp_packet (mp_subscribeParser p)) @ fs)\<rparr>))"
proof -
  obtain q where q: "feed (MQTTParser_parse uuid) p (packet_bytes Subscribe 2 body @ rest) None =
      settle (MQTTParser_parse uuid) (MQTTParser_dispatch None (p\<lparr>mp_fixedHeaderParser := q\<rparr>)) (body @ rest)"
    "fhp_header q = header_of Subscribe 2 (length body)"
    using MQTTParser_header_roundtrip [OF assms(1) _ _ assms(3), of Subscribe 2 uuid "body @ rest"]
    unfolding packet_bytes_append by (auto simp: flags_allowed_def)
  let ?pp = "SubscribeParser_reset (of_nat (length body)) (mp_subscribeParser p)"
  let ?p = "p\<lparr>mp_fixedHeaderParser := q, mp_subscribeParser := ?pp, mp_status := MP_Subscribe\<rparr>"
  have n: "length body < 2 ^ 32" using assms(3) by simp
  from SubscribeParser_body [OF assms(2) n assms(4,5), of "mp_subscribeParser p" rest]
  obtain pp where pp: "feed SubscribeParser_parse ?pp (body @ rest) None = (Tribool_of True, None, pp, rest)"
    "sbp_packet pp = (sbp_packet (mp_subscribeParser p))\<lparr>sb_packetIdentifier := ident,
      sb_topicFilters := sort_unique_filters (sb_topicFilters (sbp_packet (mp_subscribeParser p)) @ fs)\<rparr>"
    by blast
  have "feed (MQTTParser_parse uuid) ?p (body @ rest) None =
      (Tribool_of True, None, deliver (PSubscribe (sbp_packet pp)) (?p\<lparr>mp_subscribeParser := pp\<rparr>), rest)"
    using in_subscribe.feed_inner [of ?p "body @ rest" None "Tribool_of True" None pp rest uuid] pp(1) by simp
  then show ?thesis using q pp(2)
    by (simp add: MQTTParser_dispatch_def settle_def deliver_def)
qed

lemma MQTTParser_suback:
  assumes "idle p" "body = suback_body ident qs" "length body < 2 ^ 28" "QoSError \<notin> set qs" "qs \<noteq> []"
  shows "\<exists>p'. feed (MQTTParser_parse uuid) p (packet_bytes Suback 0 body @ rest) None =
      (Tribool_of True, None, p', rest) \<and>
    mp_packet p' = Some (PSubAck ((sap_packet (mp_subAckParser p))
      \<lparr>sa_header := header_of Suback 0 (length body), sa_packetIdentifier := ident,
       sa_qosLevels := sa_qosLevels (sap_packet (mp_subAckParser p)) @ qs\<rparr>))"
proof -
  obtain q where q: "feed (MQTTParser_parse uuid) p (packet_bytes Suback 0 body @ rest) None =
      settle (MQTTParser_parse uuid) (MQTTParser_dispatch None (p\<lparr>mp_fixedHeaderParser := q\<rparr>)) (body @ rest)"
    "fhp_header q = header_of Suback 0 (length body)"
    using MQTTParser_header_roundtrip [OF assms(1) _ _ assms(3), of Suback 0 uuid "body @ rest"]
    unfolding packet_bytes_append by (auto simp: flags_allowed_def)
  let ?pp = "SubAckParser_reset (of_nat (length body)) (mp_subAckParser p)"
  let ?p = "p\<lparr>mp_fixedHeaderParser := q, mp_subAckParser := ?pp, mp_status := MP_SubAck\<rparr>"
  have n: "length body < 2 ^ 32" using assms(3) by simp
  from SubAckParser_body [OF assms(2) n assms(4,5), of "mp_subAckParser p" rest]
  obtain pp where pp: "feed SubAckParser_parse ?pp (body @ rest) None = (Tribool_of True, None, pp, rest)"
    "sap_packet pp = (sap_packet (mp_subAckParser p))\<lparr>sa_packetIdentifier := ident,
      sa_qosLevels := sa_qosLevels (sap_packet (mp_subAckParser p)) @ qs\<rparr>"
    by blast
  have "feed (MQTTParser_parse uuid) ?p (body @ rest) None =
      (Tribool_of True, None, deliver (PSubAck (sap_packet pp)) (?p\<lparr>mp_subAckParser := pp\<rparr>), rest)"
    using in_suback.feed_inner [of ?p "body @ rest" None "Tribool_of True" None pp rest uuid] pp(1) by simp
  then show ?thesis using q pp(2)
    by (simp add: MQTTParser_dispatch_def settle_def deliver_def)
qed

lemma MQTTParser_connack:
  assumes "idle p" "ConnectReturnCode_byte code \<le> 5"
    "body = [ConnectAcknowledgeFlags_byte flag, ConnectReturnCode_byte code]"
  shows "\<exists>p'. feed (MQTTParser_parse uuid) p (packet_bytes Connack 0 body @ rest) None =
      (Tribool_of True, None, p', rest) \<and>
    mp_packet p' = Some (PConnAck ((cap_packet (mp_connAckParser p))
      \<lparr>ca_header := header_of Connack 0 (length body), ca_connectAcknowledgeFlag := flag,
       ca_connectReturnCode := ConnectReturnCode_of (ConnectReturnCode_byte code)\<rparr>))"
proof -
  have n: "length body < 2 ^ 28" using assms(3) by simp
  obtain q where q: "feed (MQTTParser_parse uuid) p (packet_bytes Connack 0 body @ rest) None =
      settle (MQTTParser_parse uuid) (MQTTParser_dispatch None (p\<lparr>mp_fixedHeaderParser := q\<rparr>)) (body @ rest)"
    "fhp_header q = header_of Connack 0 (length body)"
    using MQTTParser_header_roundtrip [OF assms(1) _ _ n, of Connack 0 uuid "body @ rest"]
    unfolding packet_bytes_append by (auto simp: flags_allowed_def)
  let ?pp = "ConnectAckParser_reset (mp_connAckParser p)"
  let ?p = "p\<lparr>mp_fixedHeaderParser := q, mp_connAckParser := ?pp, mp_status := MP_ConnAck\<rparr>"
  have "cap_status ?pp = CA_ConnectAcknowledgeFlag" by (simp add: ConnectAckParser_reset_def)
  from ConnectAckParser_body [OF this assms(2), of flag rest]
  obtain pp where pp: "feed ConnectAckParser_parse ?pp (body @ rest) None = (Tribool_of True, None, pp, rest)"
    "cap_packet pp = (cap_packet ?pp)\<lparr>ca_connectAcknowledgeFlag := flag,
      ca_connectReturnCode := ConnectReturnCode_of (ConnectReturnCode_byte code)\<rparr>"
    using assms(3) by blast
  have "feed (MQTTParser_parse uuid) ?p (body @ rest) None =
      (Tribool_of True, None, deliver (PConnAck (cap_packet pp)) (?p\<lparr>mp_connAckParser := pp\<rparr>), rest)"
    using in_connack.feed_inner [of ?p "body @ rest" None "Tribool_of True" None pp rest uuid] pp(1) by simp
  then show ?thesis using q pp(2)
    by (simp add: MQTTParser_dispatch_def settle_def deliver_def ConnectAckParser_reset_def)
qed

text \<open>The packets without a body.\<close>

definition bare_packet :: "ControlPacketType \<Rightarrow> FixedHeader \<Rightarrow> ControlPacket" where
  "bare_packet t h = (if t = Pingreq then PPingReq h else if t = Pingresp then PPingResp h else PDisconnect h)"

lemma MQTTParser_bare:
  assumes "idle p" "t \<in> {Pingreq, Pingresp, Disconnect}"
  shows "\<exists>p'. feed (MQTTParser_parse uuid) p (packet_bytes t 0 [] @ rest) None =
      (Tribool_of True, None, p', rest) \<and> mp_packet p' = Some (bare_packet t (header_of t 0 0))"
proof -
  have fl: "flags_allowed t 0" using assms(2) by (auto simp: flags_allowed_def)
  obtain q where q: "feed (MQTTParser_parse uuid) p (packet_bytes t 0 [] @ rest) None =
      settle (MQTTParser_parse uuid) (MQTTParser_dispatch None (p\<lparr>mp_fixedHeaderParser := q\<rparr>)) rest"
    "fhp_header q = header_of t 0 0"
    using MQTTParser_header_roundtrip [OF assms(1) fl, of 0 uuid rest] by (auto simp: packet_bytes_def)
  then show ?thesis using assms(2)
    by (auto simp: MQTTParser_dispatch_def settle_def deliver_def bare_packet_def
        PingReqControlPacket_new_def PingRespControlPacket_new_def DisconnectControlPacket_new_def)
qed


section \<open>Framing\<close>

text \<open>
  How many bytes behind the fixed header a delivered packet occupies: the remaining length
  for the packets whose parser counts it down, two for CONNACK, whose parser does not look at
  it, and none for the packets without a body, whose remaining length is ignored as well.
\<close>

definition body_length :: "FixedHeader \<Rightarrow> nat" where
  "body_length h =
     (if fh_controlPacketType h \<in> {Connect, Publish, Subscribe, Suback} then unat (fh_length h)
      else if fh_controlPacketType h = Connack then 2 else 0)"

lemma ConnectAckParser_two_bytes:
  assumes "feed ConnectAckParser_parse p bs err = (r, err', p', rest)" "isTrue r"
    "cap_status p = CA_ConnectAcknowledgeFlag"
  shows "length bs = 2 + length rest"
proof -
  have one: "length bs = 1 + length rest"
    if "feed ConnectAckParser_parse q bs err = (r, err', p', rest)" "cap_status q = CA_ConnectReturnCode"
    for q bs
    using that assms(2)
    by (cases bs) (auto simp: feed.simps(2) ConnectAckParser_parse_def split: if_splits)
  show ?thesis
  proof (cases bs)
    case Nil
    then show ?thesis using assms(1,2) by auto
  next
    case (Cons b bs')
    show ?thesis
    proof (cases "b AND 0xFE \<noteq> 0")
      case True
      with Cons assms show ?thesis by (auto simp: feed.simps(2) ConnectAckParser_parse_def)
    next
      case False
      then have s: "ConnectAckParser_parse p b err = (Tribool_new, err,
          p\<lparr>cap_packet := (cap_packet p)
             \<lparr>ca_connectAcknowledgeFlag := ConnectAcknowledgeFlags_of (b AND 0x01)\<rparr>,
            cap_status := CA_ConnectReturnCode\<rparr>)"
        using assms(3) by (simp add: ConnectAckParser_parse_def)
      with assms(1) Cons show ?thesis
        using one [of "p\<lparr>cap_packet := (cap_packet p)
             \<lparr>ca_connectAcknowledgeFlag := ConnectAcknowledgeFlags_of (b AND 0x01)\<rparr>,
            cap_status := CA_ConnectReturnCode\<rparr>" bs'] by (simp add: feed_indet)
    qed
  qed
qed

lemma used_length:
  "feed parse p bs err = (r, err', p', rest) \<Longrightarrow> length bs = n + length rest \<Longrightarrow>
   \<exists>body. bs = body @ rest \<and> length body = n"
  using feed_used [of parse p bs err r err' p' rest] by auto

lemma MQTTParser_dispatch_framing:
  assumes d: "settle (MQTTParser_parse uuid) (MQTTParser_dispatch e p) bs = (r, err', p', rest)"
    and true: "isTrue r" and h: "h = fhp_header (mp_fixedHeaderParser p)"
  shows "\<exists>body pkt. bs = body @ rest \<and> length body = body_length h \<and>
    mp_packet p' = Some pkt \<and> packet_header pkt = h \<and> well_typed pkt"
proof -
  note dd = MQTTParser_dispatch_def settle_def Let_def
  show ?thesis
  proof (cases "fh_controlPacketType h")
    case Connect
    let ?p = "p\<lparr>mp_connectParser := ConnectParser_reset (fh_length h) (mp_connectParser p),
      mp_status := MP_Connect\<rparr>"
    have "feed (MQTTParser_parse uuid) ?p bs e = (r, err', p', rest)" using d Connect h by (simp add: dd)
    from in_connect.outer_true [OF this true] obtain q where
      f: "feed (ConnectParser_parse uuid) (ConnectParser_reset (fh_length h) (mp_connectParser p)) bs e =
        (Tribool_of True, err', q, rest)"
      and p': "p' = deliver (PConnect (cnp_packet q)) (?p\<lparr>mp_connectParser := q\<rparr>)" by auto
    have "length bs = unat (fh_length h) + length rest" using connect.true_consumes_all [OF f] by (simp add: ConnectParser_reset_def)
    with used_length [OF f] p' Connect h show ?thesis by (auto simp: body_length_def deliver_def)
  next
    case Publish
    let ?p = "p\<lparr>mp_publishParser := PublishParser_reset (QoSLevel_of (drop_bit 1 (fh_flags h AND 0x06))) (fh_length h) (mp_publishParser p),
      mp_status := MP_Publish\<rparr>"
    have "feed (MQTTParser_parse uuid) ?p bs e = (r, err', p', rest)" using d Publish h by (simp add: dd)
    from in_publish.outer_true [OF this true] obtain q where
      f: "feed PublishParser_parse (PublishParser_reset (QoSLevel_of (drop_bit 1 (fh_flags h AND 0x06))) (fh_length h) (mp_publishParser p)) bs e =
        (Tribool_of True, err', q, rest)"
      and p': "p' = deliver (PPublish (pbp_packet q)) (?p\<lparr>mp_publishParser := q\<rparr>)" by auto
    have "length bs = unat (fh_length h) + length rest" using publish.true_consumes_all [OF f] by (simp add: PublishParser_reset_def)
    with used_length [OF f] p' Publish h show ?thesis by (auto simp: body_length_def deliver_def)
  next
    case Subscribe
    let ?p = "p\<lparr>mp_subscribeParser := SubscribeParser_reset (fh_length h) (mp_subscribeParser p),
      mp_status := MP_Subscribe\<rparr>"
    have "feed (MQTTParser_parse uuid) ?p bs e = (r, err', p', rest)" using d Subscribe h by (simp add: dd)
    from in_subscribe.outer_true [OF this true] obtain q where
      f: "feed SubscribeParser_parse (SubscribeParser_reset (fh_length h) (mp_subscribeParser p)) bs e =
        (Tribool_of True, err', q, rest)"
      and p': "p' = deliver (PSubscribe (sbp_packet q)) (?p\<lparr>mp_subscribeParser := q\<rparr>)" by auto
    have "length bs = unat (fh_length h) + length rest" using subscribe.true_consumes_all [OF f] by (simp add: SubscribeParser_reset_def)
    with used_length [OF f] p' Subscribe h show ?thesis by (auto simp: body_length_def deliver_def)
  next
    case Suback
    let ?p = "p\<lparr>mp_subAckParser := SubAckParser_reset (fh_length h) (mp_subAckParser p),
      mp_status := MP_SubAck\<rparr>"
    have "feed (MQTTParser_parse uuid) ?p bs e = (r, err', p', rest)" using d Suback h by (simp add: dd)
    from in_suback.outer_true [OF this true] obtain q where
      f: "feed SubAckParser_parse (SubAckParser_reset (fh_length h) (mp_subAckParser p)) bs e =
        (Tribool_of True, err', q, rest)"
      and p': "p' = deliver (PSubAck (sap_packet q)) (?p\<lparr>mp_subAckParser := q\<rparr>)" by auto
    have "length bs = unat (fh_length h) + length rest" using suback.true_consumes_all [OF f] by (simp add: SubAckParser_reset_def)
    with used_length [OF f] p' Suback h show ?thesis by (auto simp: body_length_def deliver_def)
  next
    case Connack
    let ?p = "p\<lparr>mp_connAckParser := ConnectAckParser_reset (mp_connAckParser p),
      mp_status := MP_ConnAck\<rparr>"
    have "feed (MQTTParser_parse uuid) ?p bs e = (r, err', p', rest)" using d Connack h by (simp add: dd)
    from in_connack.outer_true [OF this true] obtain q where
      f: "feed ConnectAckParser_parse (ConnectAckParser_reset (mp_connAckParser p)) bs e =
        (Tribool_of True, err', q, rest)"
      and p': "p' = deliver (PConnAck (cap_packet q)) (?p\<lparr>mp_connAckParser := q\<rparr>)" by auto
    have "length bs = 2 + length rest" using ConnectAckParser_two_bytes [OF f] by (simp add: ConnectAckParser_reset_def)
    with used_length [OF f] p' Connack h show ?thesis by (auto simp: body_length_def deliver_def)
  qed (use d true h in \<open>auto simp: dd deliver_def body_length_def PingReqControlPacket_new_def
        PingRespControlPacket_new_def DisconnectControlPacket_new_def\<close>)
qed

lemma MQTTParser_framing:
  assumes "idle p" "feed (MQTTParser_parse uuid) p bs err = (r, err', p', rest)" "isTrue r"
  shows "\<exists>hdr body q e pkt. bs = hdr @ body @ rest \<and>
    feed FixedHeaderParser_parse FixedHeaderParser_new hdr err = (Tribool_of True, e, q, []) \<and>
    length body = body_length (fhp_header q) \<and>
    mp_packet p' = Some pkt \<and> packet_header pkt = fhp_header q \<and> well_typed pkt"
proof -
  have p: "mp_status p = MP_Start" "mp_fixedHeaderParser p = FixedHeaderParser_new"
    using assms(1) by (simp_all add: idle_def)
  obtain r1 e1 q rest1 where
    h: "feed FixedHeaderParser_parse FixedHeaderParser_new bs err = (r1, e1, q, rest1)"
    by (cases "feed FixedHeaderParser_parse FixedHeaderParser_new bs err") auto
  from MQTTParser_header [of p bs err r1 e1 q rest1 uuid] h p assms(2,3)
  have t1: "isTrue r1" and d: "settle (MQTTParser_parse uuid)
      (MQTTParser_dispatch e1 (p\<lparr>mp_fixedHeaderParser := q\<rparr>)) rest1 = (r, err', p', rest)"
    by (auto split: if_splits)
  then have r1: "r1 = Tribool_of True" by (simp add: isTrue_eq)
  from feed_used [OF h] obtain hdr where hdr: "bs = hdr @ rest1"
    "feed FixedHeaderParser_parse FixedHeaderParser_new hdr err = (r1, e1, q, [])" by blast
  have "\<exists>body pkt. rest1 = body @ rest \<and> length body = body_length (fhp_header q) \<and>
    mp_packet p' = Some pkt \<and> packet_header pkt = fhp_header q \<and> well_typed pkt"
    by (rule MQTTParser_dispatch_framing [OF d assms(3)]) simp
  with hdr r1 show ?thesis by blast
qed

end
