(* ===== verification/Mqtt_Serializer.thy ===== *)
theory Mqtt_Serializer
  imports Mqtt_Parser
begin

text \<open>
  The serializer of control packets (mqtt_serializer.h). The caller passes a buffer that is
  kept between calls; each overload of \<open>doSerialize\<close> enlarges it, if it is smaller than its
  estimate of the packet's size, and then writes with unchecked indices. The model of an
  overload takes the buffer and returns the buffer and the length, or \<open>None\<close> if it writes
  past the end of the buffer.
\<close>

section \<open>The overloads of doSerialize\<close>

definition serialize_connect :: "ConnectControlPacket \<Rightarrow> u8 list \<Rightarrow> out_buffer option" where
  "serialize_connect connect buffer =
     (let dataLength = 10 + 2 + of_nat (length (cn_clientId connect)) :: u32;
          dataLength = (if cn_willFlag connect
                        then dataLength + of_nat (2 + length (cn_willTopic connect))
                                        + of_nat (2 + length (cn_willMessage connect))
                        else dataLength);
          dataLength = (if cn_userNameFlag connect
                        then dataLength + of_nat (2 + length (cn_userName connect)) else dataLength);
          dataLength = (if cn_passwordFlag connect
                        then dataLength + of_nat (2 + length (cn_password connect)) else dataLength);
          buffer = grow_to (unat (dataLength + 2)) buffer
      in do {
        ob \<leftarrow> put (ControlPacketType_byte Connect) (buffer, 0);
        ob \<leftarrow> RunlengthEncoder_encode dataLength ob;
        ob \<leftarrow> put 0x00 ob;
        ob \<leftarrow> put 0x04 ob;
        ob \<leftarrow> put_all (bytes_of ''MQTT'') ob;
        ob \<leftarrow> put 0x04 ob;
        ob \<leftarrow> put (flags_byte connect) ob;
        ob \<leftarrow> put (hi_byte (cn_keepAlive connect)) ob;
        ob \<leftarrow> put (lo_byte (cn_keepAlive connect)) ob;
        ob \<leftarrow> StringEncoder_encode (cn_clientId connect) ob;
        ob \<leftarrow> (if cn_willFlag connect
               then do {
                 ob \<leftarrow> StringEncoder_encode (cn_willTopic connect) ob;
                 StringEncoder_encode (cn_willMessage connect) ob
               } else Some ob);
        ob \<leftarrow> (if cn_userNameFlag connect then StringEncoder_encode (cn_userName connect) ob
               else Some ob);
        (if cn_passwordFlag connect then StringEncoder_encode (cn_password connect) ob else Some ob)
      })"

definition serialize_connack :: "ConnAckControlPacket \<Rightarrow> u8 list \<Rightarrow> out_buffer option" where
  "serialize_connack connack buffer =
     put_all [ControlPacketType_byte Connack, 0x02,
              ConnectAcknowledgeFlags_byte (ca_connectAcknowledgeFlag connack),
              ConnectReturnCode_byte (ca_connectReturnCode connack)] (grow_to 4 buffer, 0)"

definition serialize_disconnect :: "FixedHeader \<Rightarrow> u8 list \<Rightarrow> out_buffer option" where
  "serialize_disconnect disco buffer =
     put_all [ControlPacketType_byte Disconnect, 0x00] (grow_to 2 buffer, 0)"

text \<open>Neither the QoS flags nor the packet identifier of a publication are written.\<close>

definition serialize_publish :: "PublishControlPacket \<Rightarrow> u8 list \<Rightarrow> out_buffer option" where
  "serialize_publish publish buffer =
     (let dataLength = 2 + of_nat (length (pb_topicName publish) + length (pb_payload publish)) :: u32;
          buffer = grow_to (unat (dataLength + 2)) buffer
      in do {
        ob \<leftarrow> put (ControlPacketType_byte Publish) (buffer, 0);
        ob \<leftarrow> RunlengthEncoder_encode dataLength ob;
        ob \<leftarrow> StringEncoder_encode (pb_topicName publish) ob;
        put_all (pb_payload publish) ob
      })"

fun encode_filters :: "TopicFilter list \<Rightarrow> out_buffer \<Rightarrow> out_buffer option" where
  "encode_filters [] ob = Some ob"
| "encode_filters (flt # fs) ob =
     do {
       ob \<leftarrow> StringEncoder_encode (tf_filter flt) ob;
       ob \<leftarrow> put (QoSLevel_value (tf_qos flt)) ob;
       encode_filters fs ob
     }"

fun filters_length :: "TopicFilter list \<Rightarrow> u32 \<Rightarrow> u32" where
  "filters_length [] dataLength = dataLength"
| "filters_length (flt # fs) dataLength =
     filters_length fs (dataLength + 3 + of_nat (length (tf_filter flt)))"

definition serialize_subscribe :: "SubscribeControlPacket \<Rightarrow> u8 list \<Rightarrow> out_buffer option" where
  "serialize_subscribe subscribe buffer =
     (let dataLength = filters_length (sb_topicFilters subscribe) 2;
          buffer = grow_to (unat (dataLength + 2)) buffer
      in do {
        ob \<leftarrow> put (ControlPacketType_byte Subscribe OR 0x02) (buffer, 0);
        ob \<leftarrow> RunlengthEncoder_encode dataLength ob;
        ob \<leftarrow> put (hi_byte (sb_packetIdentifier subscribe)) ob;
        ob \<leftarrow> put (lo_byte (sb_packetIdentifier subscribe)) ob;
        encode_filters (sb_topicFilters subscribe) ob
      })"

text \<open>The buffer is enlarged by two bytes less than are written, and the length is one byte.\<close>

definition serialize_suback :: "SubAckControlPacket \<Rightarrow> u8 list \<Rightarrow> out_buffer option" where
  "serialize_suback suback buffer =
     (let buffer = grow_to (length (sa_qosLevels suback) + 2) buffer
      in do {
        ob \<leftarrow> put (ControlPacketType_byte Suback) (buffer, 0);
        ob \<leftarrow> put (0x02 + of_nat (length (sa_qosLevels suback))) ob;
        ob \<leftarrow> put (hi_byte (sa_packetIdentifier suback)) ob;
        ob \<leftarrow> put (lo_byte (sa_packetIdentifier suback)) ob;
        put_all (map QoSLevel_value (sa_qosLevels suback)) ob
      })"

definition serialize_pingresp :: "FixedHeader \<Rightarrow> u8 list \<Rightarrow> out_buffer option" where
  "serialize_pingresp pingresp buffer =
     put_all [ControlPacketType_byte Pingresp, 0x00] (grow_to 2 buffer, 0)"


section \<open>serialize\<close>

text \<open>
  The result is the value returned and the new values of the reference parameters. A packet
  whose header names a class it is not an instance of yields a null pointer from the
  \<open>dynamic_cast\<close>, which is dereferenced: \<open>None\<close>.
\<close>

definition written :: "ec \<Rightarrow> out_buffer option \<Rightarrow> (bool \<times> u8 list \<times> nat \<times> ec) option" where
  "written err r = map_option (\<lambda>(buffer, len). (True, buffer, len, err)) r"

definition Serializer_serialize ::
    "ControlPacket \<Rightarrow> u8 list \<Rightarrow> nat \<Rightarrow> ec \<Rightarrow> (bool \<times> u8 list \<times> nat \<times> ec) option" where
  "Serializer_serialize packet buffer len err =
     (let not_implemented = Some (False, buffer, len, Some feature_not_implemented);
          invalid = Some (False, buffer, len, Some invalid_control_packet_type)
      in case packet_type packet of
        Connect \<Rightarrow> (case packet of PConnect p \<Rightarrow> written err (serialize_connect p buffer) | _ \<Rightarrow> None)
      | Connack \<Rightarrow> (case packet of PConnAck p \<Rightarrow> written err (serialize_connack p buffer) | _ \<Rightarrow> None)
      | Subscribe \<Rightarrow> (case packet of PSubscribe p \<Rightarrow> written err (serialize_subscribe p buffer) | _ \<Rightarrow> None)
      | Unsubscribe \<Rightarrow> not_implemented
      | Suback \<Rightarrow> (case packet of PSubAck p \<Rightarrow> written err (serialize_suback p buffer) | _ \<Rightarrow> None)
      | Unsuback \<Rightarrow> not_implemented
      | Pingreq \<Rightarrow> not_implemented
      | Pingresp \<Rightarrow> (case packet of PPingResp h \<Rightarrow> written err (serialize_pingresp h buffer) | _ \<Rightarrow> None)
      | Disconnect \<Rightarrow> (case packet of PDisconnect h \<Rightarrow> written err (serialize_disconnect h buffer) | _ \<Rightarrow> None)
      | Publish \<Rightarrow> (case packet of PPublish p \<Rightarrow> written err (serialize_publish p buffer) | _ \<Rightarrow> None)
      | Puback \<Rightarrow> not_implemented
      | Pubrec \<Rightarrow> not_implemented
      | Pubcomp \<Rightarrow> not_implemented
      | Pubrel \<Rightarrow> not_implemented
      | NoType \<Rightarrow> invalid
      | Reserved \<Rightarrow> invalid)"


section \<open>What is written\<close>

lemma put_all_bind: "put_all xs ob \<bind> put_all ys = put_all (xs @ ys) ob"
  by (simp add: put_all_append)

lemma put_eq_put_all: "put b = put_all [b]"
  by (simp add: put_all_Cons_fun put_all_Nil)

lemma Some_eq_put_all: "Some = put_all []"
  by (simp add: put_all_Nil)

text \<open>Every writer is \<open>put_all\<close> of its bytes, and a sequence of them of the concatenation.\<close>

lemma bind_writes:
  assumes "a = put_all xs ob" "\<And>ob. g ob = put_all ys ob"
  shows "a \<bind> g = put_all (xs @ ys) ob"
proof -
  have "g = put_all ys" using assms(2) by (rule ext)
  then show ?thesis using assms(1) by (simp add: put_all_append)
qed

lemma if_writes:
  "(c \<Longrightarrow> a = put_all xs ob) \<Longrightarrow> (if c then a else Some ob) = put_all (if c then xs else []) ob"
  by simp

lemma put_writes: "put b ob = put_all [b] ob"
  by (simp add: put_all_Cons_fun put_all_Nil)

lemma put_all_writes: "put_all xs ob = put_all xs ob"
  by (rule refl)

lemma encode_filters_eq: "encode_filters fs ob = put_all (concat (map filter_bytes fs)) ob"
proof (induction fs arbitrary: ob)
  case (Cons f fs)
  have "encode_filters (f # fs) ob =
      put_all (string_bytes (tf_filter f) @ [QoSLevel_value (tf_qos f)] @ concat (map filter_bytes fs)) ob"
    unfolding encode_filters.simps
    by (intro bind_writes StringEncoder_encode_eq put_writes Cons.IH)
  then show ?case by (simp add: filter_bytes_def [of f])
qed simp

lemma filters_length_eq: "filters_length fs n = n + of_nat (length (concat (map filter_bytes fs)))"
  by (induction fs arbitrary: n) (simp_all add: algebra_simps)

lemmas writes_intros = bind_writes if_writes put_writes put_all_writes StringEncoder_encode_eq
  RunlengthEncoder_encode_eq encode_filters_eq

lemma u32_plus_2: "n < 2 ^ 32 - 2 \<Longrightarrow> unat (of_nat n + 2 :: u32) = n + 2"
  using u32_of_nat_unat [of "n + 2"] by (simp add: add.commute)

lemma packet_bytes_split:
  "packet_bytes t f body = (ControlPacketType_byte t OR f) # varint (length body) @ body"
  by (simp add: packet_bytes_def header_bytes_def)

lemma serialize_connect_eq:
  assumes "n = length (connect_body c)" "n < 2 ^ 32 - 2"
  shows "serialize_connect c buffer =
    put_all (packet_bytes Connect 0 (connect_body c)) (grow_to (n + 2) buffer, 0)"
proof -
  let ?dl = "of_nat n :: u32"
  have dl: "serialize_connect c buffer =
    (let buffer = grow_to (unat (?dl + 2)) buffer
     in do {
        ob \<leftarrow> put (ControlPacketType_byte Connect) (buffer, 0);
        ob \<leftarrow> RunlengthEncoder_encode ?dl ob;
        ob \<leftarrow> put 0x00 ob;
        ob \<leftarrow> put 0x04 ob;
        ob \<leftarrow> put_all (bytes_of ''MQTT'') ob;
        ob \<leftarrow> put 0x04 ob;
        ob \<leftarrow> put (flags_byte c) ob;
        ob \<leftarrow> put (hi_byte (cn_keepAlive c)) ob;
        ob \<leftarrow> put (lo_byte (cn_keepAlive c)) ob;
        ob \<leftarrow> StringEncoder_encode (cn_clientId c) ob;
        ob \<leftarrow> (if cn_willFlag c
               then do {
                 ob \<leftarrow> StringEncoder_encode (cn_willTopic c) ob;
                 StringEncoder_encode (cn_willMessage c) ob
               } else Some ob);
        ob \<leftarrow> (if cn_userNameFlag c then StringEncoder_encode (cn_userName c) ob else Some ob);
        (if cn_passwordFlag c then StringEncoder_encode (cn_password c) ob else Some ob)
      })"
    unfolding serialize_connect_def assms(1) Let_def
    by (simp add: connect_body_def will_bytes_def login_bytes_def algebra_simps)
  have len: "unat (?dl + 2) = n + 2"
    using assms(2) by (rule u32_plus_2)
  have u: "unat ?dl = n" using assms(2) by (intro u32_of_nat_unat) simp
  have b: "0x00 # 0x04 # bytes_of ''MQTT'' @ 0x04 # flags_byte c # hi_byte (cn_keepAlive c) #
      lo_byte (cn_keepAlive c) # string_bytes (cn_clientId c) @
      (if cn_willFlag c then string_bytes (cn_willTopic c) @ string_bytes (cn_willMessage c) else []) @
      (if cn_userNameFlag c then string_bytes (cn_userName c) else []) @
      (if cn_passwordFlag c then string_bytes (cn_password c) else []) = connect_body c"
    by (simp add: connect_body_def will_bytes_def login_bytes_def string_bytes_def [of "''MQTT''"]
      hi_byte_def lo_byte_def)
  show ?thesis
    unfolding dl Let_def len
    by (rule trans, (rule writes_intros)+)
      (simp only: u b packet_bytes_split append_Cons append_Nil append_assoc or.right_neutral
        assms(1) [symmetric])
qed

lemma serialize_publish_eq:
  assumes "body = publish_body AtMostOnce (pb_topicName p) ident (pb_payload p)" "length body < 2 ^ 32 - 2"
  shows "serialize_publish p buffer =
    put_all (packet_bytes Publish 0 body) (grow_to (length body + 2) buffer, 0)"
proof -
  let ?dl = "of_nat (length body) :: u32"
  have dl: "2 + of_nat (length (pb_topicName p) + length (pb_payload p)) = ?dl"
    using assms(1) by (simp add: publish_body_def)
  have len: "unat (?dl + 2) = length body + 2"
    using assms(2) by (rule u32_plus_2)
  have u: "unat ?dl = length body" using assms(2) by (intro u32_of_nat_unat) simp
  have b: "string_bytes (pb_topicName p) @ pb_payload p = body"
    using assms(1) by (simp add: publish_body_def)
  show ?thesis
    unfolding serialize_publish_def Let_def dl len
    by (rule trans, (rule writes_intros)+)
      (simp only: u b packet_bytes_split append_Cons append_Nil or.right_neutral)
qed

lemma serialize_subscribe_eq:
  assumes "body = subscribe_body (sb_packetIdentifier p) (sb_topicFilters p)" "length body < 2 ^ 32 - 2"
  shows "serialize_subscribe p buffer =
    put_all (packet_bytes Subscribe 2 body) (grow_to (length body + 2) buffer, 0)"
proof -
  let ?dl = "of_nat (length body) :: u32"
  have dl: "filters_length (sb_topicFilters p) 2 = ?dl"
    using assms(1) by (simp add: filters_length_eq subscribe_body_def)
  have len: "unat (?dl + 2) = length body + 2"
    using assms(2) by (rule u32_plus_2)
  have u: "unat ?dl = length body" using assms(2) by (intro u32_of_nat_unat) simp
  have b: "hi_byte (sb_packetIdentifier p) # lo_byte (sb_packetIdentifier p) #
      concat (map filter_bytes (sb_topicFilters p)) = body"
    using assms(1) by (simp add: subscribe_body_def)
  show ?thesis
    unfolding serialize_subscribe_def Let_def dl len
    by (rule trans, (rule writes_intros)+)
      (simp only: u b packet_bytes_split append_Cons append_Nil)
qed

text \<open>The acknowledgement of a subscription gets a correct length byte for up to 125 levels.\<close>

lemma serialize_suback_eq:
  assumes "body = suback_body (sa_packetIdentifier p) (sa_qosLevels p)" "length body < 128"
  shows "serialize_suback p buffer =
    put_all (packet_bytes Suback 0 body) (grow_to (length body) buffer, 0)"
proof -
  have n: "length (sa_qosLevels p) + 2 = length body" using assms(1) by (simp add: suback_body_def)
  have b: "[0x02 + of_nat (length (sa_qosLevels p))] = varint (length body)"
    using assms(2) n [symmetric] by (simp add: varint.simps)
  show ?thesis
    unfolding serialize_suback_def Let_def n
    by (rule trans, (rule writes_intros)+)
      (simp add: b packet_bytes_def header_bytes_def suback_body_def assms(1) del: of_nat_add)
qed


section \<open>Where the buffer is large enough\<close>

lemma packet_bytes_nonempty [simp]: "packet_bytes t f body \<noteq> []"
  by (simp add: packet_bytes_split)

lemma packet_bytes_length: "length (packet_bytes t f body) = 1 + length (varint (length body)) + length body"
  by (simp add: packet_bytes_split)

text \<open>
  The buffer is enlarged to two bytes more than the remaining length, which is right exactly
  while the remaining length takes one byte. A longer packet is written correctly only into
  a buffer that happens to be large enough from before.
\<close>

lemma put_all_packet:
  fixes t f body buf
  defines "ps \<equiv> packet_bytes t f body"
  shows "put_all ps (grow_to (length body + 2) buf, 0) =
    (if length body < 128 \<or> length ps \<le> length buf
     then Some (ps @ drop (length ps) (grow_to (length body + 2) buf), length ps) else None)"
proof -
  have v: "length body < 128 \<longleftrightarrow> length (varint (length body)) = 1"
    using varint_length [of "length body"] by (cases "length body < 128") auto
  have "1 \<le> length (varint (length body))" by (cases "varint (length body)") auto
  then have "length ps \<le> max (length body + 2) (length buf) \<longleftrightarrow>
      length body < 128 \<or> length ps \<le> length buf"
    using v by (auto simp: ps_def packet_bytes_length)
  then show ?thesis by (simp add: put_all_eq ps_def)
qed

text \<open>The writer is defined, and what it wrote is the packet.\<close>

lemma emits:
  assumes "put_all (packet_bytes t f body) (grow_to (length body + 2) buf, 0) = Some (buf', k)"
  shows "take k buf' = packet_bytes t f body"
  using assms unfolding put_all_packet by (auto split: if_splits)

lemma emits_short:
  assumes "length body < 128"
  obtains buf' k where
    "put_all (packet_bytes t f body) (grow_to (length body + 2) buf, 0) = Some (buf', k)"
    "take k buf' = packet_bytes t f body"
  using assms unfolding put_all_packet by auto

lemma serialize_suback_overrun:
  assumes "body = suback_body (sa_packetIdentifier p) (sa_qosLevels p)" "length body < 128"
  shows "serialize_suback p buffer = None \<longleftrightarrow> length buffer < length body + 2"
proof -
  have "length (packet_bytes Suback 0 body) = length body + 2"
    using assms(2) varint_length [of "length body"] by (simp add: packet_bytes_length)
  then show ?thesis unfolding serialize_suback_eq [OF assms] by (auto simp: put_all_eq)
qed

lemma serialize_suback_emits:
  assumes "body = suback_body (sa_packetIdentifier p) (sa_qosLevels p)" "length body < 128"
    "serialize_suback p buffer = Some (buf', k)"
  shows "take k buf' = packet_bytes Suback 0 body"
  using assms(3) unfolding serialize_suback_eq [OF assms(1,2)]
  by (auto simp: put_all_eq split: if_splits)

lemma serialize_small_packets:
  "\<exists>buf'. serialize_connack c buffer = Some (buf', 4) \<and> take 4 buf' = packet_bytes Connack 0
     [ConnectAcknowledgeFlags_byte (ca_connectAcknowledgeFlag c), ConnectReturnCode_byte (ca_connectReturnCode c)]"
  "\<exists>buf'. serialize_pingresp h buffer = Some (buf', 2) \<and> take 2 buf' = packet_bytes Pingresp 0 []"
  "\<exists>buf'. serialize_disconnect h buffer = Some (buf', 2) \<and> take 2 buf' = packet_bytes Disconnect 0 []"
  by (auto simp: serialize_connack_def serialize_pingresp_def serialize_disconnect_def put_all_eq
      packet_bytes_split varint.simps)

text \<open>The writer's buffer is that of the largest packet written before, or larger.\<close>

lemma put_all_buffer_length: "put_all bs (buf, i) = Some (buf', k) \<Longrightarrow> length buf' = length buf"
  by (auto simp: put_all_eq split: if_splits)


section \<open>From the serializer to the parser\<close>

lemma connect_wire:
  assumes "wire_connect c" "serialize_connect c buffer = Some (buf', k)" "idle p"
  shows "\<exists>p'. feed (MQTTParser_parse uuid) p (take k buf' @ rest) None = (Tribool_of True, None, p', rest) \<and>
    mp_packet p' = Some (PConnect ((connect_result uuid c (cnp_packet (mp_connectParser p)))
      \<lparr>cn_header := header_of Connect 0 (length (connect_body c))\<rparr>))"
proof -
  have n: "length (connect_body c) < 2 ^ 32 - 2"
    using assms(1) by (simp add: wire_connect_def connect_body_def will_bytes_def login_bytes_def)
  have "take k buf' = packet_bytes Connect 0 (connect_body c)"
    by (rule emits) (use assms(2) in \<open>simp add: serialize_connect_eq [OF refl n]\<close>)
  then show ?thesis using MQTTParser_connect [OF assms(3,1)] by simp
qed

lemma publish_wire:
  assumes "length (pb_topicName m) < 2 ^ 16" "length (pb_payload m) < 2 ^ 27" "pb_payload m \<noteq> []"
    "TopicName_validate (pb_topicName m) None = (True, None)"
    "serialize_publish m buffer = Some (buf', k)" "idle p"
  shows "\<exists>p'. feed (MQTTParser_parse uuid) p (take k buf' @ rest) None = (Tribool_of True, None, p', rest) \<and>
    (\<exists>m'. mp_packet p' = Some (PPublish m') \<and> pb_topicName m' = pb_topicName m \<and> pb_payload m' = pb_payload m)"
proof -
  define body where "body = publish_body AtMostOnce (pb_topicName m) 0 (pb_payload m)"
  then have n: "length body < 2 ^ 28" using assms(1,2) by (simp add: publish_body_def)
  then have n': "length body < 2 ^ 32 - 2" by simp
  have "take k buf' = packet_bytes Publish 0 body"
    by (rule emits) (use assms(5) in \<open>simp add: serialize_publish_eq [OF body_def n']\<close>)
  moreover have "\<exists>p'. feed (MQTTParser_parse uuid) p (packet_bytes Publish 0 body @ rest) None =
      (Tribool_of True, None, p', rest) \<and>
    mp_packet p' = Some (PPublish ((pbp_packet (mp_publishParser p))
      \<lparr>pb_header := header_of Publish 0 (length body), pb_topicName := pb_topicName m, pb_payload := pb_payload m,
       pb_packetIdentifier := (if AtMostOnce < AtMostOnce then 0
         else pb_packetIdentifier (pbp_packet (mp_publishParser p)))\<rparr>))"
    by (rule MQTTParser_publish [OF assms(6) _ _ _ body_def n assms(1,4)])
      (use assms(3) in \<open>simp_all add: flags_allowed_def QoSLevel_of_def\<close>)
  ultimately show ?thesis by auto
qed

lemma subscribe_wire:
  assumes "body = subscribe_body (sb_packetIdentifier m) (sb_topicFilters m)" "length body < 2 ^ 28"
    "sb_topicFilters m \<noteq> []" "\<And>f. f \<in> set (sb_topicFilters m) \<Longrightarrow> wire_filter f"
    "serialize_subscribe m buffer = Some (buf', k)" "idle p"
  shows "\<exists>p'. feed (MQTTParser_parse uuid) p (take k buf' @ rest) None = (Tribool_of True, None, p', rest) \<and>
    (\<exists>m'. mp_packet p' = Some (PSubscribe m') \<and> sb_packetIdentifier m' = sb_packetIdentifier m \<and>
      sb_topicFilters m' = sort_unique_filters
        (sb_topicFilters (sbp_packet (mp_subscribeParser p)) @ sb_topicFilters m))"
proof -
  have n': "length body < 2 ^ 32 - 2" using assms(2) by simp
  have "take k buf' = packet_bytes Subscribe 2 body"
    by (rule emits) (use assms(5) in \<open>simp add: serialize_subscribe_eq [OF assms(1) n']\<close>)
  then show ?thesis using MQTTParser_subscribe [OF assms(6,1,2,3,4), of uuid rest] by auto
qed

lemma suback_wire:
  assumes "length (sa_qosLevels m) < 126" "sa_qosLevels m \<noteq> []" "QoSError \<notin> set (sa_qosLevels m)"
    "serialize_suback m buffer = Some (buf', k)" "idle p"
  shows "\<exists>p'. feed (MQTTParser_parse uuid) p (take k buf' @ rest) None = (Tribool_of True, None, p', rest) \<and>
    (\<exists>m'. mp_packet p' = Some (PSubAck m') \<and> sa_packetIdentifier m' = sa_packetIdentifier m \<and>
      sa_qosLevels m' = sa_qosLevels (sap_packet (mp_subAckParser p)) @ sa_qosLevels m)"
proof -
  define body where "body = suback_body (sa_packetIdentifier m) (sa_qosLevels m)"
  then have n: "length body < 128" using assms(1) by (simp add: suback_body_def)
  have "take k buf' = packet_bytes Suback 0 body"
    by (rule serialize_suback_emits [OF body_def n assms(4)])
  then show ?thesis
    using MQTTParser_suback [OF assms(5) body_def _ assms(3,2), of uuid rest] n by auto
qed

lemma connack_wire:
  assumes "ConnectReturnCode_byte (ca_connectReturnCode m) \<le> 5" "serialize_connack m buffer = Some (buf', k)"
    "idle p"
  shows "\<exists>p'. feed (MQTTParser_parse uuid) p (take k buf' @ rest) None = (Tribool_of True, None, p', rest) \<and>
    (\<exists>m'. mp_packet p' = Some (PConnAck m') \<and>
      ca_connectAcknowledgeFlag m' = ca_connectAcknowledgeFlag m \<and>
      ConnectReturnCode_byte (ca_connectReturnCode m') = ConnectReturnCode_byte (ca_connectReturnCode m))"
proof -
  have "take k buf' = packet_bytes Connack 0
     [ConnectAcknowledgeFlags_byte (ca_connectAcknowledgeFlag m), ConnectReturnCode_byte (ca_connectReturnCode m)]"
    using serialize_small_packets(1) [of m buffer] assms(2) by auto
  then show ?thesis
    using MQTTParser_connack [OF assms(3,1) refl, of uuid "ca_connectAcknowledgeFlag m" rest] by auto
qed

text \<open>A well-typed packet never meets a failing cast.\<close>

lemma serialize_defined:
  assumes "well_typed pkt" "packet_type pkt \<in> {Connack, Pingresp, Disconnect}"
  shows "\<exists>buf'. Serializer_serialize pkt buffer len err =
    Some (True, buf', if packet_type pkt = Connack then 4 else 2, err)"
  using assms
  by (cases pkt) (auto simp: Serializer_serialize_def written_def serialize_connack_def
      serialize_pingresp_def serialize_disconnect_def put_all_eq)

end
