(* ===== verification/Mqtt_Tree.thy ===== *)
theory Mqtt_Tree
  imports Mqtt_Topic "HOL-Library.AList"
begin

text \<open>
  The subscription tree (mqtt_subscription_tree.h): a trie over the levels of topic filters
  whose nodes carry the sessions subscribed there. The type of sessions is a parameter.
\<close>

section \<open>Nodes\<close>

text \<open>
  One constructor per node class, with its \<open>_nodes\<close> (absent from the multi-level wildcard)
  and its \<open>_sessions\<close>. The hash map is an association list without repeated keys; the
  code never depends on its order, except for the order of lines in a debugging dump.
\<close>

datatype (plugins del: size) 's node =
    RootSubscriptionNode "(string \<times> 's node) list" "'s set"
  | TopicSubscriptionNode string "(string \<times> 's node) list" "'s set"
  | SingleLevelWildCardSubscriptionNode "(string \<times> 's node) list" "'s set"
  | MultiLevelWildCardSubscriptionNode "'s set"

text \<open>The size of a node is that of the tree below it.\<close>

instantiation node :: (type) size
begin

primrec size_node :: "'s node \<Rightarrow> nat" where
  "size_node (RootSubscriptionNode ns ss) = Suc (sum_list (map snd (map (map_prod id size_node) ns)))"
| "size_node (TopicSubscriptionNode t ns ss) = Suc (sum_list (map snd (map (map_prod id size_node) ns)))"
| "size_node (SingleLevelWildCardSubscriptionNode ns ss) = Suc (sum_list (map snd (map (map_prod id size_node) ns)))"
| "size_node (MultiLevelWildCardSubscriptionNode ss) = 1"

instance ..

end

fun node_sessions :: "'s node \<Rightarrow> 's set" where
  "node_sessions (RootSubscriptionNode ns ss) = ss"
| "node_sessions (TopicSubscriptionNode t ns ss) = ss"
| "node_sessions (SingleLevelWildCardSubscriptionNode ns ss) = ss"
| "node_sessions (MultiLevelWildCardSubscriptionNode ss) = ss"

text \<open>The children of an \<open>IntermediateSubscriptionNode\<close>.\<close>

fun node_children :: "'s node \<Rightarrow> (string \<times> 's node) list option" where
  "node_children (RootSubscriptionNode ns ss) = Some ns"
| "node_children (TopicSubscriptionNode t ns ss) = Some ns"
| "node_children (SingleLevelWildCardSubscriptionNode ns ss) = Some ns"
| "node_children (MultiLevelWildCardSubscriptionNode ss) = None"

fun set_sessions :: "'s set \<Rightarrow> 's node \<Rightarrow> 's node" where
  "set_sessions ss (RootSubscriptionNode ns _) = RootSubscriptionNode ns ss"
| "set_sessions ss (TopicSubscriptionNode t ns _) = TopicSubscriptionNode t ns ss"
| "set_sessions ss (SingleLevelWildCardSubscriptionNode ns _) = SingleLevelWildCardSubscriptionNode ns ss"
| "set_sessions ss (MultiLevelWildCardSubscriptionNode _) = MultiLevelWildCardSubscriptionNode ss"

fun set_children :: "(string \<times> 's node) list \<Rightarrow> 's node \<Rightarrow> 's node" where
  "set_children ns (RootSubscriptionNode _ ss) = RootSubscriptionNode ns ss"
| "set_children ns (TopicSubscriptionNode t _ ss) = TopicSubscriptionNode t ns ss"
| "set_children ns (SingleLevelWildCardSubscriptionNode _ ss) = SingleLevelWildCardSubscriptionNode ns ss"
| "set_children ns (MultiLevelWildCardSubscriptionNode ss) = MultiLevelWildCardSubscriptionNode ss"

lemma child_size:
  "node_children n = Some ns \<Longrightarrow> map_of ns k = Some c \<Longrightarrow> size c < size n"
proof -
  assume n: "node_children n = Some ns" and "map_of ns k = Some c"
  then have "(k, c) \<in> set ns" by (rule_tac map_of_SomeD)
  then have "size c \<in> set (map snd (map (map_prod id size) ns))" by force
  then have "size c \<le> sum_list (map snd (map (map_prod id size) ns))"
    by (intro member_le_sum_list) simp_all
  with n show ?thesis by (cases n) auto
qed


section \<open>match\<close>

text \<open>
  \<open>match\<close> takes its iterator by value, but a copy shares the position of the original. A
  call is modelled with the two parts of its iterator: whether the variable is non-null
  (\<open>alive\<close>), which is the callee's own, and the shared position, which the call returns as
  it left it. The session set is an in/out parameter; the error code is not touched.
  The literal child is visited first, then the two wildcards, with the iterator variable
  incremented once in between: the later visits see whatever the earlier ones did to the
  shared position.
\<close>

function node_match ::
    "bool \<Rightarrow> iter_impl \<Rightarrow> 's node \<Rightarrow> 's set \<Rightarrow> bool \<times> iter_impl \<times> 's set" where
  "node_match alive i n sessions =
     (if \<not> alive then (True, i, sessions \<union> node_sessions n)
      else
        (case node_children n of
           None \<Rightarrow> (True, i, sessions \<union> node_sessions n)
         | Some ns \<Rightarrow>
             (let key = ii_nextTopic i;
                  step = iter_incr i;
                  r1 = (case map_of ns key of
                          None \<Rightarrow> (False, snd step, sessions)
                        | Some c \<Rightarrow> node_match (fst step) (snd step) c sessions);
                  r2 = (case map_of ns ''#'' of
                          None \<Rightarrow> (False, snd r1)
                        | Some c \<Rightarrow> node_match (fst step) (fst (snd r1)) c (snd (snd r1)));
                  r3 = (case map_of ns ''+'' of
                          None \<Rightarrow> (False, snd r2)
                        | Some c \<Rightarrow> node_match (fst step) (fst (snd r2)) c (snd (snd r2)))
              in (fst r1 \<or> fst r2 \<or> fst r3, snd r3))))"
  by pat_completeness auto
termination
  by (relation "measure (\<lambda>(alive, i, n, ss). size n)") (auto intro: child_size)

declare node_match.simps [simp del]


section \<open>addFilter\<close>

text \<open>\<open>NodeCreator\<close>, by the branch of \<open>doAddFilter\<close> that calls it.\<close>

definition create_node :: "string \<Rightarrow> 's node" where
  "create_node level =
     (if level = ''#'' then MultiLevelWildCardSubscriptionNode {}
      else if level = ''+'' then SingleLevelWildCardSubscriptionNode [] {}
      else TopicSubscriptionNode level [] {})"

lemma nextTopic_progress:
  "nextTopic i = (True, i') \<Longrightarrow> ii_topic i' = ii_topic i \<and> ii_pos i < length (ii_topic i) \<and> ii_pos i < ii_pos i'"
proof -
  assume n: "nextTopic i = (True, i')"
  have pos: "ii_pos i < length (ii_topic i)"
    by (rule ccontr) (use n in \<open>simp add: nextTopic_def\<close>)
  let ?d = "drop (ii_pos i) (ii_topic i)"
  have "char_at ?d 0 = CHR ''/'' \<or> 0 < length (first_level ?d)"
    using pos by (cases ?d) (auto simp: char_at_def)
  with n pos show ?thesis by (auto simp: nextTopic_unfold Let_def)
qed

text \<open>The levels a loop \<open>for(cur = begin(); cur != end(); ++cur)\<close> sees.\<close>

function iter_all :: "bool \<Rightarrow> iter_impl \<Rightarrow> string list" where
  "iter_all alive i =
     (if \<not> alive then [] else ii_nextTopic i # iter_all (fst (iter_incr i)) (snd (iter_incr i)))"
  by pat_completeness auto
termination
proof (relation "measure (\<lambda>(alive, i). if alive then Suc (length (ii_topic i) - ii_pos i) else 0)", goal_cases)
  case (2 alive i)
  obtain a i' where n: "nextTopic i = (a, i')" by (cases "nextTopic i")
  show ?case
  proof (cases a)
    case True
    with n nextTopic_progress [of i i'] have "ii_topic i' = ii_topic i" "ii_pos i < length (ii_topic i)"
      "ii_pos i < ii_pos i'" by simp_all
    with 2 n show ?thesis by (simp add: iter_incr_def diff_less_mono2)
  next
    case False
    with 2 n show ?thesis by (simp add: iter_incr_def)
  qed
qed simp

declare iter_all.simps [simp del]

text \<open>
  \<open>emplace\<close> keeps an existing child; the child found or created is then descended into. The
  result is the value returned, the error code and the node.
\<close>

function node_addFilter ::
    "bool \<Rightarrow> iter_impl \<Rightarrow> 's \<Rightarrow> 's node \<Rightarrow> ec \<Rightarrow> bool \<times> ec \<times> 's node" where
  "node_addFilter alive i session n err =
     (if \<not> alive then (True, err, set_sessions (insert session (node_sessions n)) n)
      else
        (case node_children n of
           None \<Rightarrow> (False, Some invalid_topic_filter, n)
         | Some ns \<Rightarrow>
             (let key = ii_nextTopic i;
                  child = (case map_of ns key of Some c \<Rightarrow> c | None \<Rightarrow> create_node key);
                  step = iter_incr i;
                  r = node_addFilter (fst step) (snd step) session child err
              in (fst r, fst (snd r), set_children (AList.update key (snd (snd r)) ns) n))))"
  by pat_completeness auto
termination
proof (relation "measure (\<lambda>(alive, i, s, n, err). if alive then Suc (length (ii_topic i) - ii_pos i) else 0)",
    goal_cases)
  case (2 alive i session n err ns key child step)
  obtain a i' where st: "step = (a, i')" by (cases step)
  with 2 have n: "nextTopic i = (a, i')" by (simp add: iter_incr_def)
  show ?case
  proof (cases a)
    case True
    with n nextTopic_progress [of i i'] have "ii_topic i' = ii_topic i" "ii_pos i < length (ii_topic i)"
      "ii_pos i < ii_pos i'" by simp_all
    with 2(1) st show ?thesis by (simp add: diff_less_mono2)
  next
    case False
    with 2(1) st show ?thesis by simp
  qed
qed simp

declare node_addFilter.simps [simp del]


section \<open>clone\<close>

text \<open>Only the clone of a root node leaves the sessions behind.\<close>

primrec node_clone :: "'s node \<Rightarrow> 's node" where
  "node_clone (RootSubscriptionNode ns ss) =
     RootSubscriptionNode (map (map_prod id node_clone) ns) {}"
| "node_clone (TopicSubscriptionNode t ns ss) = TopicSubscriptionNode t (map (map_prod id node_clone) ns) ss"
| "node_clone (SingleLevelWildCardSubscriptionNode ns ss) =
     SingleLevelWildCardSubscriptionNode (map (map_prod id node_clone) ns) ss"
| "node_clone (MultiLevelWildCardSubscriptionNode ss) = MultiLevelWildCardSubscriptionNode ss"


section \<open>SubscriptionTree\<close>

definition SubscriptionTree_new :: "'s node" where
  "SubscriptionTree_new = RootSubscriptionNode [] {}"

definition SubscriptionTree_match :: "'s node \<Rightarrow> TopicName \<Rightarrow> 's set \<Rightarrow> bool \<times> 's set" where
  "SubscriptionTree_match root topic sessions =
     (case node_match True (iter_impl_new topic) root sessions of (r, _, ss) \<Rightarrow> (r, ss))"

definition SubscriptionTree_addFilter ::
    "'s node \<Rightarrow> TopicFilter \<Rightarrow> 's \<Rightarrow> ec \<Rightarrow> bool \<times> ec \<times> 's node" where
  "SubscriptionTree_addFilter root flt session err =
     node_addFilter True (iter_impl_new (tf_filter flt)) session root err"

definition SubscriptionTree_clone :: "'s node \<Rightarrow> 's node" where
  "SubscriptionTree_clone root = node_clone root"


section \<open>What a tree holds\<close>

text \<open>The abstraction: which session is subscribed under which sequence of levels.\<close>

fun subscribed :: "string list \<Rightarrow> 's node \<Rightarrow> 's \<Rightarrow> bool" where
  "subscribed [] n s \<longleftrightarrow> s \<in> node_sessions n"
| "subscribed (l # ls) n s \<longleftrightarrow>
     (case node_children n of None \<Rightarrow> False
      | Some ns \<Rightarrow> (case map_of ns l of None \<Rightarrow> False | Some c \<Rightarrow> subscribed ls c s))"

fun has_path :: "string list \<Rightarrow> 's node \<Rightarrow> bool" where
  "has_path [] n \<longleftrightarrow> True"
| "has_path (l # ls) n \<longleftrightarrow>
     (case node_children n of None \<Rightarrow> False
      | Some ns \<Rightarrow> (case map_of ns l of None \<Rightarrow> False | Some c \<Rightarrow> has_path ls c))"

text \<open>Every node sits under the key its class stands for.\<close>

fun node_label :: "'s node \<Rightarrow> string option" where
  "node_label (RootSubscriptionNode ns ss) = None"
| "node_label (TopicSubscriptionNode t ns ss) = (if t \<in> {''#'', ''+''} then None else Some t)"
| "node_label (SingleLevelWildCardSubscriptionNode ns ss) = Some ''+''"
| "node_label (MultiLevelWildCardSubscriptionNode ss) = Some ''#''"

inductive node_ok :: "'s node \<Rightarrow> bool" where
  node_okI: "(\<forall>ns k c. node_children n = Some ns \<longrightarrow> map_of ns k = Some c \<longrightarrow>
     node_label c = Some k \<and> node_ok c) \<Longrightarrow> node_ok n"

inductive_simps node_ok_iff: "node_ok n"

lemma node_ok_child:
  "node_ok n \<Longrightarrow> node_children n = Some ns \<Longrightarrow> map_of ns k = Some c \<Longrightarrow> node_label c = Some k \<and> node_ok c"
  by (simp add: node_ok_iff [of n])

lemma node_label_hash: "node_label c = Some ''#'' \<Longrightarrow> node_children c = None"
  by (cases c) (auto split: if_splits)

lemma node_label_not_hash: "node_label c = Some k \<Longrightarrow> k \<noteq> ''#'' \<Longrightarrow> node_children c \<noteq> None"
  by (cases c) (auto split: if_splits)

lemma node_ok_new [simp]: "node_ok SubscriptionTree_new"
  by (simp add: node_ok_iff [of SubscriptionTree_new], simp add: SubscriptionTree_new_def)

lemma create_node_children [simp]:
  "node_children (create_node k) = (if k = ''#'' then None else Some [])"
  "node_sessions (create_node k) = {}"
  by (simp_all add: create_node_def)

lemma create_node_facts [simp]:
  "node_label (create_node k) = Some k"
  "\<not> subscribed ls (create_node k) s"
  "has_path ls (create_node k) \<longleftrightarrow> ls = []"
  "node_ok (create_node k)"
proof -
  show "node_label (create_node k) = Some k" by (simp add: create_node_def)
  show "\<not> subscribed ls (create_node k) s" by (cases ls) simp_all
  show "has_path ls (create_node k) \<longleftrightarrow> ls = []" by (cases ls) simp_all
  show "node_ok (create_node k)" by (rule node_okI) simp
qed

lemma set_node_simps [simp]:
  "node_sessions (set_sessions ss n) = ss" "node_children (set_sessions ss n) = node_children n"
  "node_label (set_sessions ss n) = node_label n"
  "node_sessions (set_children ns n) = node_sessions n" "node_label (set_children ns n) = node_label n"
  by (cases n; simp)+

lemma children_set_children:
  "node_children n \<noteq> None \<Longrightarrow> node_children (set_children ns n) = Some ns"
  by (cases n) simp_all

text \<open>The levels an iterator still has to yield, the current one included.\<close>

definition iter_levels :: "bool \<Rightarrow> iter_impl \<Rightarrow> string list" where
  "iter_levels alive i = (if alive then ii_nextTopic i # iter_rest i else [])"

lemma iter_incr_levels:
  assumes "iter_ok i"
  shows "iter_levels (fst (iter_incr i)) (snd (iter_incr i)) = iter_rest i \<and> iter_ok (snd (iter_incr i))"
proof (cases "iter_rest i")
  case Nil
  with assms show ?thesis by (simp add: iter_incr_def nextTopic_end iter_levels_def)
next
  case (Cons l ls)
  from nextTopic_step [OF assms Cons] obtain i' where "nextTopic i = (True, i')"
    "ii_nextTopic i' = l" "iter_rest i' = ls" "iter_ok i'" by metis
  with Cons show ?thesis by (simp add: iter_incr_def iter_levels_def)
qed

lemma iter_new_levels: "iter_levels True (iter_impl_new s) = topic_levels s" "iter_ok (iter_impl_new s)"
  using iter_impl_new_view [of s] by (simp_all add: iter_levels_def)

lemma iter_all_levels: "iter_ok i \<Longrightarrow> iter_all alive i = iter_levels alive i"
proof (induction alive i rule: iter_all.induct)
  case (1 alive i)
  show ?case
  proof (cases alive)
    case True
    with 1 iter_incr_levels [OF "1.prems"] show ?thesis
      by (subst iter_all.simps) (simp add: iter_levels_def [of True])
  next
    case False
    then show ?thesis by (subst iter_all.simps) (simp add: iter_levels_def)
  qed
qed


section \<open>addFilter is insertion\<close>

fun hash_last :: "string list \<Rightarrow> bool" where
  "hash_last [] = True"
| "hash_last (l # ls) = ((l = ''#'' \<longrightarrow> ls = []) \<and> hash_last ls)"

lemma node_addFilter_insert:
  assumes "iter_levels alive i = ls" "iter_ok i" "hash_last ls" "node_ok n"
    "node_children n = None \<Longrightarrow> ls = []"
  shows "\<exists>n'. node_addFilter alive i s n err = (True, err, n') \<and> node_ok n' \<and>
    node_label n' = node_label n \<and>
    (\<forall>ls' s'. subscribed ls' n' s' \<longleftrightarrow> subscribed ls' n s' \<or> ls' = ls \<and> s' = s) \<and>
    (\<forall>ls'. has_path ls' n' \<longleftrightarrow> has_path ls' n \<or> (\<exists>r. ls = ls' @ r))"
  using assms
proof (induction ls arbitrary: alive i n)
  case Nil
  then have dead: "\<not> alive" by (simp add: iter_levels_def split: if_splits)
  let ?n = "set_sessions (insert s (node_sessions n)) n"
  have "subscribed ls' ?n s' \<longleftrightarrow> subscribed ls' n s' \<or> ls' = [] \<and> s' = s" for ls' s'
    by (cases ls') auto
  moreover have "has_path ls' ?n \<longleftrightarrow> has_path ls' n \<or> ls' = []" for ls'
    by (cases ls') auto
  moreover have "node_ok ?n" using Nil.prems(4) by (simp add: node_ok_iff [of ?n] node_ok_iff [of n])
  ultimately show ?case using dead by (subst node_addFilter.simps) auto
next
  case (Cons l ls)
  have alive: "alive" "ii_nextTopic i = l" "iter_rest i = ls"
    using Cons.prems(1) by (simp_all add: iter_levels_def split: if_splits)
  obtain ns where ns: "node_children n = Some ns" using Cons.prems(5) by (cases "node_children n") auto
  define child where "child = (case map_of ns l of Some c \<Rightarrow> c | None \<Rightarrow> create_node l)"
  have label: "node_label child = Some l" and ok: "node_ok child"
    using node_ok_child [OF Cons.prems(4) ns] by (auto simp: child_def split: option.splits)
  have sub: "(case map_of ns l of None \<Rightarrow> False | Some c \<Rightarrow> subscribed ls' c s') \<longleftrightarrow> subscribed ls' child s'"
    for ls' s' by (auto simp: child_def split: option.splits)
  have path: "(case map_of ns l of None \<Rightarrow> False | Some c \<Rightarrow> has_path ls' c) \<longleftrightarrow>
      map_of ns l \<noteq> None \<and> has_path ls' child" for ls'
    by (auto simp: child_def split: option.splits)
  have nochild: "map_of ns l = None \<Longrightarrow> has_path ls' child \<longleftrightarrow> ls' = []" for ls'
    by (simp add: child_def)
  note inc = iter_incr_levels [OF Cons.prems(2)]
  have "\<exists>c'. node_addFilter (fst (iter_incr i)) (snd (iter_incr i)) s child err = (True, err, c') \<and>
    node_ok c' \<and> node_label c' = node_label child \<and>
    (\<forall>ls' s'. subscribed ls' c' s' \<longleftrightarrow> subscribed ls' child s' \<or> ls' = ls \<and> s' = s) \<and>
    (\<forall>ls'. has_path ls' c' \<longleftrightarrow> has_path ls' child \<or> (\<exists>r. ls = ls' @ r))"
    by (rule Cons.IH)
      (use inc alive Cons.prems(3) ok label in \<open>auto dest: node_label_not_hash\<close>)
  then obtain c' where c': "node_addFilter (fst (iter_incr i)) (snd (iter_incr i)) s child err = (True, err, c')"
    "node_ok c'" "node_label c' = Some l"
    "\<And>ls' s'. subscribed ls' c' s' \<longleftrightarrow> subscribed ls' child s' \<or> ls' = ls \<and> s' = s"
    "\<And>ls'. has_path ls' c' \<longleftrightarrow> has_path ls' child \<or> (\<exists>r. ls = ls' @ r)"
    using label by auto
  let ?n = "set_children (AList.update l c' ns) n"
  have ch: "node_children ?n = Some (AList.update l c' ns)" using ns by (simp add: children_set_children)
  have step: "node_addFilter alive i s n err = (True, err, ?n)"
    using alive ns c'(1) by (subst node_addFilter.simps) (simp add: child_def Let_def)
  have "node_ok ?n"
    using node_ok_child [OF Cons.prems(4) ns] c'(2,3)
    by (auto simp: node_ok_iff [of ?n] ch update_conv' split: if_splits)
  moreover have "subscribed ls' ?n s' \<longleftrightarrow> subscribed ls' n s' \<or> ls' = l # ls \<and> s' = s" for ls' s'
    by (cases ls') (auto simp: ch ns update_conv' c'(4) sub)
  moreover have "has_path ls' ?n \<longleftrightarrow> has_path ls' n \<or> (\<exists>r. l # ls = ls' @ r)" for ls'
    by (cases ls') (auto simp: ch ns update_conv' c'(5) path nochild Cons_eq_append_conv split: option.splits)
  ultimately show ?case using step by simp
qed

text \<open>A filter with a multi-level wildcard in front of other levels is refused.\<close>

lemma node_addFilter_refuse:
  assumes "iter_levels alive i = ls" "iter_ok i" "\<not> hash_last ls \<or> node_children n = None \<and> ls \<noteq> []"
    "node_ok n"
  shows "\<exists>n'. node_addFilter alive i s n err = (False, Some invalid_topic_filter, n') \<and>
    node_label n' = node_label n \<and> node_ok n' \<and>
    (\<forall>ls' s'. subscribed ls' n' s' \<longleftrightarrow> subscribed ls' n s')"
  using assms
proof (induction ls arbitrary: alive i n)
  case (Cons l ls)
  have alive: "alive" "ii_nextTopic i = l" "iter_rest i = ls"
    using Cons.prems(1) by (simp_all add: iter_levels_def split: if_splits)
  show ?case
  proof (cases "node_children n")
    case None
    with alive Cons.prems(4) show ?thesis by (subst node_addFilter.simps) simp
  next
    case (Some ns)
    define child where "child = (case map_of ns l of Some c \<Rightarrow> c | None \<Rightarrow> create_node l)"
    have label: "node_label child = Some l" and ok: "node_ok child"
      using node_ok_child [OF Cons.prems(4) Some] by (auto simp: child_def split: option.splits)
    have sub: "(case map_of ns l of None \<Rightarrow> False | Some c \<Rightarrow> subscribed ls' c s') \<longleftrightarrow> subscribed ls' child s'"
      for ls' s' by (auto simp: child_def split: option.splits)
    have bad: "\<not> hash_last ls \<or> node_children child = None \<and> ls \<noteq> []"
      using Cons.prems(3) Some label node_label_hash [of child] by auto
    note inc = iter_incr_levels [OF Cons.prems(2)]
    have "\<exists>c'. node_addFilter (fst (iter_incr i)) (snd (iter_incr i)) s child err =
        (False, Some invalid_topic_filter, c') \<and> node_label c' = node_label child \<and> node_ok c' \<and>
      (\<forall>ls' s'. subscribed ls' c' s' \<longleftrightarrow> subscribed ls' child s')"
      by (rule Cons.IH) (use inc alive bad ok in simp_all)
    then obtain c' where c': "node_addFilter (fst (iter_incr i)) (snd (iter_incr i)) s child err =
        (False, Some invalid_topic_filter, c')" "node_label c' = Some l" "node_ok c'"
      "\<And>ls' s'. subscribed ls' c' s' \<longleftrightarrow> subscribed ls' child s'" using label by auto
    let ?n = "set_children (AList.update l c' ns) n"
    have ch: "node_children ?n = Some (AList.update l c' ns)" using Some by (simp add: children_set_children)
    have "node_addFilter alive i s n err = (False, Some invalid_topic_filter, ?n)"
      using alive Some c'(1) by (subst node_addFilter.simps) (simp add: child_def Let_def)
    moreover have "node_ok ?n"
      using node_ok_child [OF Cons.prems(4) Some] c'(2,3)
      by (auto simp: node_ok_iff [of ?n] ch update_conv' split: if_splits)
    moreover have "subscribed ls' ?n s' \<longleftrightarrow> subscribed ls' n s'" for ls' s'
      by (cases ls') (auto simp: ch Some update_conv' c'(4) sub)
    ultimately show ?thesis by simp
  qed
qed simp


section \<open>match, where the shared iterator does no harm\<close>

text \<open>The rule for matching a filter's levels with a topic's.\<close>

fun topic_matches :: "string list \<Rightarrow> string list \<Rightarrow> bool" where
  "topic_matches [] ts \<longleftrightarrow> ts = []"
| "topic_matches (f # fs) [] \<longleftrightarrow> False"
| "topic_matches (f # fs) (t # ts) \<longleftrightarrow> f = ''#'' \<or> (f = ''+'' \<or> f = t) \<and> topic_matches fs ts"

text \<open>
  A tree in which no node has both a single-level wildcard and a literal child: no iterator
  is used again after a literal child has moved it.
\<close>

definition unambiguous :: "'s node \<Rightarrow> bool" where
  "unambiguous n \<longleftrightarrow>
     (\<forall>p l. has_path (p @ [''+'']) n \<longrightarrow> has_path (p @ [l]) n \<longrightarrow> l \<in> {''+'', ''#''})"

lemma unambiguous_child:
  assumes "unambiguous n" "node_children n = Some ns" "map_of ns k = Some c"
  shows "unambiguous c"
  unfolding unambiguous_def
proof (intro allI impI)
  fix p l
  assume "has_path (p @ [''+'']) c" "has_path (p @ [l]) c"
  then have "has_path ((k # p) @ [''+'']) n" "has_path ((k # p) @ [l]) n" using assms(2,3) by simp_all
  then show "l \<in> {''+'', ''#''}" using assms(1) unfolding unambiguous_def by blast
qed

lemma unambiguous_here:
  "unambiguous n \<Longrightarrow> node_children n = Some ns \<Longrightarrow> map_of ns ''+'' = Some c \<Longrightarrow> map_of ns l = Some d \<Longrightarrow>
   l \<in> {''+'', ''#''}"
  unfolding unambiguous_def by (drule spec [of _ "[]"], drule spec [of _ l]) simp

text \<open>A child that is a multi-level wildcard collects its sessions and leaves the iterator alone.\<close>

lemma node_match_hash:
  "node_label c = Some ''#'' \<Longrightarrow> node_match alive i c ss = (True, i, ss \<union> node_sessions c)"
  by (subst node_match.simps) (simp add: node_label_hash)

definition matching :: "'s node \<Rightarrow> string list \<Rightarrow> 's set" where
  "matching n ts = {s. \<exists>ls. subscribed ls n s \<and> topic_matches ls ts}"

lemma matching_Nil: "matching n [] = node_sessions n"
proof -
  have "subscribed ls n s \<and> topic_matches ls [] \<longleftrightarrow> ls = [] \<and> s \<in> node_sessions n" for ls s
    by (cases ls) auto
  then show ?thesis by (simp add: matching_def)
qed

lemma matching_Cons:
  assumes "node_ok n" "node_children n = Some ns" "t \<noteq> ''#''" "t \<noteq> ''+''"
  shows "matching n (t # ts) =
    (case map_of ns t of None \<Rightarrow> {} | Some c \<Rightarrow> matching c ts) \<union>
    (case map_of ns ''#'' of None \<Rightarrow> {} | Some c \<Rightarrow> node_sessions c) \<union>
    (case map_of ns ''+'' of None \<Rightarrow> {} | Some c \<Rightarrow> matching c ts)"
proof -
  have hash: "subscribed ls c s \<longleftrightarrow> ls = [] \<and> s \<in> node_sessions c" if "map_of ns ''#'' = Some c" for c ls s
    using node_label_hash [of c] node_ok_child [OF assms(1,2) that] by (cases ls) auto
  have "s \<in> matching n (t # ts) \<longleftrightarrow>
      (\<exists>c ls. map_of ns t = Some c \<and> subscribed ls c s \<and> topic_matches ls ts) \<or>
      (\<exists>c. map_of ns ''#'' = Some c \<and> s \<in> node_sessions c) \<or>
      (\<exists>c ls. map_of ns ''+'' = Some c \<and> subscribed ls c s \<and> topic_matches ls ts)" (is "_ \<longleftrightarrow> ?R") for s
  proof
    assume "s \<in> matching n (t # ts)"
    then obtain ls where ls: "subscribed ls n s" "topic_matches ls (t # ts)" by (auto simp: matching_def)
    then obtain l ls' where "ls = l # ls'" by (cases ls) auto
    with ls assms(2) obtain c where "map_of ns l = Some c" "subscribed ls' c s"
      "l = ''#'' \<or> (l = ''+'' \<or> l = t) \<and> topic_matches ls' ts"
      by (auto split: option.splits)
    then show ?R using hash by blast
  next
    assume ?R
    then show "s \<in> matching n (t # ts)"
    proof (elim disjE exE conjE)
      fix c ls assume "map_of ns t = Some c" "subscribed ls c s" "topic_matches ls ts"
      then have "subscribed (t # ls) n s \<and> topic_matches (t # ls) (t # ts)" using assms(2) by simp
      then show ?thesis unfolding matching_def by blast
    next
      fix c assume "map_of ns ''#'' = Some c" "s \<in> node_sessions c"
      then have "subscribed [''#''] n s \<and> topic_matches [''#''] (t # ts)" using assms(2) by simp
      then show ?thesis unfolding matching_def by blast
    next
      fix c ls assume "map_of ns ''+'' = Some c" "subscribed ls c s" "topic_matches ls ts"
      then have "subscribed (''+'' # ls) n s \<and> topic_matches (''+'' # ls) (t # ts)" using assms(2) by simp
      then show ?thesis unfolding matching_def by blast
    qed
  qed
  then show ?thesis by (auto simp: matching_def split: option.splits)
qed

lemma node_match_exact:
  assumes "iter_levels alive i = ts" "iter_ok i" "node_ok n" "unambiguous n"
    "node_children n = None \<Longrightarrow> ts = []" "\<And>t. t \<in> set ts \<Longrightarrow> t \<noteq> ''#'' \<and> t \<noteq> ''+''"
  shows "\<exists>r i'. node_match alive i n ss = (r, i', ss \<union> matching n ts) \<and> (matching n ts \<noteq> {} \<longrightarrow> r)"
  using assms
proof (induction ts arbitrary: alive i n ss)
  case Nil
  then have "\<not> alive" by (simp add: iter_levels_def split: if_splits)
  then show ?case by (subst node_match.simps) (auto simp: matching_Nil)
next
  case (Cons t ts)
  have alive: "alive" "ii_nextTopic i = t" "iter_rest i = ts"
    using Cons.prems(1) by (simp_all add: iter_levels_def split: if_splits)
  obtain ns where ns: "node_children n = Some ns" using Cons.prems(5) by (cases "node_children n") auto
  have t: "t \<noteq> ''#''" "t \<noteq> ''+''" using Cons.prems(6) [of t] by simp_all
  obtain a i1 where st: "iter_incr i = (a, i1)" by (cases "iter_incr i")
  with iter_incr_levels [OF Cons.prems(2)] alive
  have i1: "iter_levels a i1 = ts" "iter_ok i1" by simp_all
  have child: "\<exists>r i'. node_match a i1 c ss' = (r, i', ss' \<union> matching c ts) \<and> (matching c ts \<noteq> {} \<longrightarrow> r)"
    if "map_of ns k = Some c" "k \<noteq> ''#''" for k c ss'
  proof (rule Cons.IH [OF i1])
    show "node_ok c" "unambiguous c"
      using node_ok_child [OF Cons.prems(3) ns that(1)] unambiguous_child [OF Cons.prems(4) ns that(1)] by simp_all
    show "node_children c = None \<Longrightarrow> ts = []"
      using node_ok_child [OF Cons.prems(3) ns that(1)] node_label_not_hash [of c k] that(2) by simp
  qed (use Cons.prems(6) in simp)
  have hash: "node_match a i' c ss' = (True, i', ss' \<union> node_sessions c)" if "map_of ns ''#'' = Some c" for c i' ss'
    using node_match_hash node_ok_child [OF Cons.prems(3) ns that] by blast
  note m = matching_Cons [OF Cons.prems(3) ns t, of ts]
  note unf = node_match.simps [of alive i n ss]
  show ?case
  proof (cases "map_of ns ''+''")
    case None
    show ?thesis
    proof (cases "map_of ns t")
      case (Some c)
      from child [OF this t(1), of ss] obtain r i' where
        "node_match a i1 c ss = (r, i', ss \<union> matching c ts)" "matching c ts \<noteq> {} \<longrightarrow> r" by blast
      with None Some alive ns st hash show ?thesis
        unfolding unf m by (cases "map_of ns ''#''") (auto simp: Let_def Un_assoc)
    next
      assume "map_of ns t = None"
      with None alive ns st hash show ?thesis
        unfolding unf m by (cases "map_of ns ''#''") (auto simp: Let_def)
    qed
  next
    case (Some c)
    have nt: "map_of ns t = None"
      using unambiguous_here [OF Cons.prems(4) ns Some, of t] t by (cases "map_of ns t") auto
    define ss1 where "ss1 = ss \<union> (case map_of ns ''#'' of None \<Rightarrow> {} | Some c \<Rightarrow> node_sessions c)"
    from child [OF Some, of ss1] obtain r i' where
      "node_match a i1 c ss1 = (r, i', ss1 \<union> matching c ts)" "matching c ts \<noteq> {} \<longrightarrow> r" by auto
    with Some nt alive ns st hash show ?thesis
      unfolding unf m ss1_def by (cases "map_of ns ''#''") (auto simp: Let_def Un_assoc)
  qed
qed


section \<open>clone\<close>

text \<open>
  \<open>begin()\<close> never yields a null iterator, so no session is ever entered at the root, and
  the sessions that the root's clone drops do not exist.
\<close>

lemma node_clone_sessions:
  "node_sessions (node_clone n) = (case n of RootSubscriptionNode _ _ \<Rightarrow> {} | _ \<Rightarrow> node_sessions n)"
  by (cases n) simp_all

lemma node_clone_children: "node_children (node_clone n) = map_option (map (map_prod id node_clone)) (node_children n)"
  by (cases n) simp_all

lemma map_of_map_prod: "map_of (map (map_prod id f) ns) k = map_option f (map_of ns k)"
  by (induction ns) auto

lemma node_label_clone [simp]: "node_label (node_clone n) = node_label n"
  by (cases n) simp_all

lemma node_clone_subscribed_child:
  "node_ok n \<Longrightarrow> node_label n \<noteq> None \<Longrightarrow> subscribed ls (node_clone n) s \<longleftrightarrow> subscribed ls n s"
proof (induction ls arbitrary: n)
  case Nil
  from Nil.prems(2) show ?case by (cases n) simp_all
next
  case (Cons l ls)
  show ?case
  proof (cases "node_children n")
    case None
    then show ?thesis by (simp add: node_clone_children)
  next
    case (Some ns)
    with Cons.IH node_ok_child [OF Cons.prems(1) Some, of l] show ?thesis
      by (auto simp: node_clone_children map_of_map_prod split: option.splits)
  qed
qed

lemma node_clone_has_path: "has_path ls (node_clone n) \<longleftrightarrow> has_path ls n"
  by (induction ls arbitrary: n)
    (auto simp: node_clone_children map_of_map_prod split: option.splits)

lemma node_ok_clone: "node_ok n \<Longrightarrow> node_ok (node_clone n)"
proof (induction n rule: node_ok.induct)
  case (node_okI n)
  show ?case
  proof (rule node_ok.node_okI, intro allI impI)
    fix ns k c
    assume "node_children (node_clone n) = Some ns" "map_of ns k = Some c"
    then obtain ns' c' where "node_children n = Some ns'" "map_of ns' k = Some c'" "c = node_clone c'"
      by (auto simp: node_clone_children map_of_map_prod)
    with node_okI show "node_label c = Some k \<and> node_ok c" by auto
  qed
qed


section \<open>Trees\<close>

text \<open>The trees the code builds: a root without sessions over well-labelled nodes.\<close>

definition tree_ok :: "'s node \<Rightarrow> bool" where
  "tree_ok t \<longleftrightarrow> node_ok t \<and> (\<exists>ns. t = RootSubscriptionNode ns {})"

lemma tree_ok_new [simp]: "tree_ok SubscriptionTree_new"
  using node_ok_new by (simp add: tree_ok_def) (simp add: SubscriptionTree_new_def)

lemma new_subscribed [simp]: "\<not> subscribed ls SubscriptionTree_new s"
  "has_path ls SubscriptionTree_new \<longleftrightarrow> ls = []"
  by (cases ls; simp add: SubscriptionTree_new_def)+

lemma root_subscribed_Nil: "tree_ok t \<Longrightarrow> \<not> subscribed [] t s"
  by (auto simp: tree_ok_def)

lemma clone_subscribed:
  assumes "tree_ok t"
  shows "subscribed ls (SubscriptionTree_clone t) s \<longleftrightarrow> subscribed ls t s"
proof (cases ls)
  case Nil
  then show ?thesis using assms by (auto simp: tree_ok_def SubscriptionTree_clone_def)
next
  case (Cons l ls')
  from assms obtain ns where t: "t = RootSubscriptionNode ns {}" "node_ok t" by (auto simp: tree_ok_def)
  then have "subscribed ls' (node_clone c) s \<longleftrightarrow> subscribed ls' c s" if "map_of ns l = Some c" for c
    using node_ok_child [OF t(2) _ that] node_clone_subscribed_child [of c] t(1) by simp
  with t(1) Cons show ?thesis
    by (auto simp: SubscriptionTree_clone_def map_of_map_prod split: option.splits)
qed

lemma tree_ok_clone [simp]: "tree_ok t \<Longrightarrow> tree_ok (SubscriptionTree_clone t)"
  using node_ok_clone by (auto simp: tree_ok_def SubscriptionTree_clone_def)

lemma root_addFilter:
  "node_addFilter True i s (RootSubscriptionNode ns ss) err = (r, e, n') \<Longrightarrow>
   \<exists>ns'. n' = RootSubscriptionNode ns' ss"
  by (subst (asm) node_addFilter.simps) (auto simp: Let_def)

lemma addFilter_insert:
  assumes "tree_ok t" "hash_last (topic_levels (tf_filter f))"
  obtains t' where "SubscriptionTree_addFilter t f s err = (True, err, t')" "tree_ok t'"
    "\<And>ls' s'. subscribed ls' t' s' \<longleftrightarrow> subscribed ls' t s' \<or> ls' = topic_levels (tf_filter f) \<and> s' = s"
    "\<And>ls'. has_path ls' t' \<longleftrightarrow> has_path ls' t \<or> (\<exists>r. topic_levels (tf_filter f) = ls' @ r)"
proof -
  from assms(1) obtain ns where t: "t = RootSubscriptionNode ns {}" "node_ok t" by (auto simp: tree_ok_def)
  have "node_children t = None \<Longrightarrow> topic_levels (tf_filter f) = []" using t by simp
  from node_addFilter_insert [OF iter_new_levels assms(2) t(2) this, of s err] obtain n' where
    n': "node_addFilter True (iter_impl_new (tf_filter f)) s t err = (True, err, n')" "node_ok n'"
    "\<And>ls' s'. subscribed ls' n' s' \<longleftrightarrow> subscribed ls' t s' \<or> ls' = topic_levels (tf_filter f) \<and> s' = s"
    "\<And>ls'. has_path ls' n' \<longleftrightarrow> has_path ls' t \<or> (\<exists>r. topic_levels (tf_filter f) = ls' @ r)" by blast
  moreover have "tree_ok n'" using n'(1,2) t(1) root_addFilter by (fastforce simp: tree_ok_def)
  ultimately show thesis by (intro that) (simp_all add: SubscriptionTree_addFilter_def)
qed

lemma addFilter_refuse:
  assumes "tree_ok t" "\<not> hash_last (topic_levels (tf_filter f))"
  obtains t' where "SubscriptionTree_addFilter t f s err = (False, Some invalid_topic_filter, t')" "tree_ok t'"
    "\<And>ls' s'. subscribed ls' t' s' \<longleftrightarrow> subscribed ls' t s'"
proof -
  from assms(1) obtain ns where t: "t = RootSubscriptionNode ns {}" "node_ok t" by (auto simp: tree_ok_def)
  from node_addFilter_refuse [OF iter_new_levels disjI1 [OF assms(2)] t(2), of s err] obtain n' where
    n': "node_addFilter True (iter_impl_new (tf_filter f)) s t err = (False, Some invalid_topic_filter, n')"
    "node_ok n'" "\<And>ls' s'. subscribed ls' n' s' \<longleftrightarrow> subscribed ls' t s'" by blast
  moreover have "tree_ok n'" using n'(1,2) t(1) root_addFilter by (fastforce simp: tree_ok_def)
  ultimately show thesis by (intro that [of n']) (simp_all add: SubscriptionTree_addFilter_def)
qed

lemma match_exact:
  assumes "tree_ok t" "unambiguous t" "\<And>l. l \<in> set (topic_levels topic) \<Longrightarrow> l \<noteq> ''#'' \<and> l \<noteq> ''+''"
    "SubscriptionTree_match t topic ss = (r, ss')"
  shows "ss' = ss \<union> matching t (topic_levels topic) \<and> (matching t (topic_levels topic) \<noteq> {} \<longrightarrow> r)"
proof -
  have "node_ok t" "node_children t \<noteq> None" using assms(1) by (auto simp: tree_ok_def)
  with node_match_exact [OF iter_new_levels, of t topic ss] assms(2,3)
  obtain r' i' where "node_match True (iter_impl_new topic) t ss =
      (r', i', ss \<union> matching t (topic_levels topic))" "matching t (topic_levels topic) \<noteq> {} \<longrightarrow> r'" by blast
  with assms(4) show ?thesis by (auto simp: SubscriptionTree_match_def)
qed


section \<open>Building a tree from subscriptions\<close>

text \<open>
  What a client of a subscription index relies on: adding a filter adds that subscription and
  no other, and a refused filter changes nothing.
\<close>

locale subscription_index =
  fixes valid :: "'t \<Rightarrow> bool"
    and holds :: "'k \<Rightarrow> 't \<Rightarrow> 's \<Rightarrow> bool"
    and key :: "'f \<Rightarrow> 'k"
    and good :: "'f \<Rightarrow> bool"
    and add :: "'f \<Rightarrow> 's \<Rightarrow> 't \<Rightarrow> 't"
  assumes add_valid: "valid t \<Longrightarrow> valid (add f s t)"
    and add_holds: "valid t \<Longrightarrow> good f \<Longrightarrow> holds k (add f s t) s' \<longleftrightarrow> holds k t s' \<or> k = key f \<and> s' = s"
    and add_refused: "valid t \<Longrightarrow> \<not> good f \<Longrightarrow> holds k (add f s t) s' \<longleftrightarrow> holds k t s'"
begin

definition add_all :: "('f \<times> 's) list \<Rightarrow> 't \<Rightarrow> 't" where
  "add_all fs t = fold (\<lambda>(f, s). add f s) fs t"

lemma add_all_simps [simp]:
  "add_all [] t = t" "add_all ((f, s) # fs) t = add_all fs (add f s t)"
  "add_all (fs @ gs) t = add_all gs (add_all fs t)"
  by (simp_all add: add_all_def)

lemma add_all_valid: "valid t \<Longrightarrow> valid (add_all fs t)"
  by (induction fs arbitrary: t) (simp_all add: add_all_def add_valid split: prod.split)

lemma add_all_holds:
  "valid t \<Longrightarrow> holds k (add_all fs t) s \<longleftrightarrow> holds k t s \<or> (\<exists>f. (f, s) \<in> set fs \<and> good f \<and> key f = k)"
proof (induction fs arbitrary: t)
  case (Cons p fs)
  obtain f s1 where p: "p = (f, s1)" by (cases p)
  have "holds k (add f s1 t) s \<longleftrightarrow> holds k t s \<or> good f \<and> k = key f \<and> s = s1"
    using add_holds add_refused Cons.prems by (cases "good f") auto
  then show ?case using Cons.IH [OF add_valid [OF Cons.prems]] p by auto
qed simp

text \<open>The order of insertions does not matter, and repeating them neither.\<close>

lemma add_all_order:
  "valid t \<Longrightarrow> set fs = set gs \<Longrightarrow> holds k (add_all fs t) s \<longleftrightarrow> holds k (add_all gs t) s"
  by (simp add: add_all_holds)

end

definition tree_add :: "TopicFilter \<Rightarrow> 's \<Rightarrow> 's node \<Rightarrow> 's node" where
  "tree_add f s t = snd (snd (SubscriptionTree_addFilter t f s None))"

abbreviation filter_levels :: "TopicFilter \<Rightarrow> string list" where
  "filter_levels f \<equiv> topic_levels (tf_filter f)"

interpretation tree: subscription_index tree_ok subscribed filter_levels
  "\<lambda>f. hash_last (filter_levels f)" tree_add
proof
  fix t :: "'s node" and f s k s'
  assume t: "tree_ok t"
  show "tree_ok (tree_add f s t)"
    by (cases "hash_last (filter_levels f)")
      (auto simp: tree_add_def elim: addFilter_insert [OF t, of f s None] addFilter_refuse [OF t, of f s None])
  show "hash_last (filter_levels f) \<Longrightarrow>
      subscribed k (tree_add f s t) s' \<longleftrightarrow> subscribed k t s' \<or> k = filter_levels f \<and> s' = s"
    by (erule addFilter_insert [OF t, of f s None]) (simp add: tree_add_def)
  show "\<not> hash_last (filter_levels f) \<Longrightarrow> subscribed k (tree_add f s t) s' \<longleftrightarrow> subscribed k t s'"
    by (erule addFilter_refuse [OF t, of f s None]) (simp add: tree_add_def)
qed

definition tree_of :: "(TopicFilter \<times> 's) list \<Rightarrow> 's node" where
  "tree_of fs = fold (\<lambda>(f, s). tree_add f s) fs SubscriptionTree_new"

lemma tree_of_add_all: "tree_of fs = tree.add_all fs SubscriptionTree_new"
  by (simp add: tree_of_def tree.add_all_def)

lemma tree_of_ok [simp]: "tree_ok (tree_of fs)"
  by (simp add: tree_of_add_all tree.add_all_valid)

lemma tree_of_subscribed:
  "subscribed ls (tree_of fs) s \<longleftrightarrow> (\<exists>f. (f, s) \<in> set fs \<and> hash_last (filter_levels f) \<and> filter_levels f = ls)"
  by (simp add: tree_of_add_all tree.add_all_holds)

lemma add_all_has_path:
  "tree_ok t \<Longrightarrow> (\<And>f s. (f, s) \<in> set fs \<Longrightarrow> hash_last (filter_levels f)) \<Longrightarrow>
   has_path ls (tree.add_all fs t) \<longleftrightarrow> has_path ls t \<or> (\<exists>f s r. (f, s) \<in> set fs \<and> filter_levels f = ls @ r)"
proof (induction fs arbitrary: t)
  case (Cons p fs)
  obtain f s where p: "p = (f, s)" by (cases p)
  have good: "hash_last (filter_levels f)" using Cons.prems(2) p by auto
  have "has_path ls (tree_add f s t) \<longleftrightarrow> has_path ls t \<or> (\<exists>r. filter_levels f = ls @ r)"
    by (rule addFilter_insert [OF Cons.prems(1) good, of s None]) (simp add: tree_add_def)
  moreover have "has_path ls (tree.add_all fs (tree_add f s t)) \<longleftrightarrow>
      has_path ls (tree_add f s t) \<or> (\<exists>f s r. (f, s) \<in> set fs \<and> filter_levels f = ls @ r)"
    by (rule Cons.IH) (use Cons.prems tree.add_valid in auto)
  ultimately show ?case using p by auto
qed simp

text \<open>Filters of a list that never put a single-level wildcard beside a literal level.\<close>

definition separate :: "TopicFilter set \<Rightarrow> bool" where
  "separate F \<longleftrightarrow>
     (\<forall>f\<in>F. \<forall>g\<in>F. \<forall>p l r r'. filter_levels f = p @ ''+'' # r \<longrightarrow> filter_levels g = p @ l # r' \<longrightarrow>
        l \<in> {''+'', ''#''})"

lemma tree_of_unambiguous:
  assumes "\<And>f s. (f, s) \<in> set fs \<Longrightarrow> hash_last (filter_levels f)" "separate (fst ` set fs)"
  shows "unambiguous (tree_of fs)"
  unfolding unambiguous_def
proof (intro allI impI)
  fix p l
  have path: "has_path ls (tree_of fs) \<longleftrightarrow> ls = [] \<or> (\<exists>f s r. (f, s) \<in> set fs \<and> filter_levels f = ls @ r)" for ls
    unfolding tree_of_add_all
    by (subst add_all_has_path) (use assms(1) in auto)
  assume "has_path (p @ [''+'']) (tree_of fs)" "has_path (p @ [l]) (tree_of fs)"
  then obtain f s r g s' r' where fg: "(f, s) \<in> set fs" "filter_levels f = p @ ''+'' # r"
    "(g, s') \<in> set fs" "filter_levels g = p @ l # r'"
    unfolding path by (auto; fastforce)
  have "f \<in> fst ` set fs" "g \<in> fst ` set fs" using fg(1,3) by force+
  with fg(2,4) show "l \<in> {''+'', ''#''}"
    using assms(2) unfolding separate_def by blast
qed

text \<open>The same, position by position.\<close>

lemma separate_nth:
  assumes "\<And>f g n. f \<in> F \<Longrightarrow> g \<in> F \<Longrightarrow> n < length (filter_levels f) \<Longrightarrow> n < length (filter_levels g) \<Longrightarrow>
    take n (filter_levels f) = take n (filter_levels g) \<Longrightarrow> filter_levels f ! n = ''+'' \<Longrightarrow>
    filter_levels g ! n \<in> {''+'', ''#''}"
  shows "separate F"
  unfolding separate_def
proof (intro ballI allI impI)
  fix f g p l r r'
  assume "f \<in> F" "g \<in> F" and f: "filter_levels f = p @ ''+'' # r" and g: "filter_levels g = p @ l # r'"
  then show "l \<in> {''+'', ''#''}"
    using assms [of f g "length p"] by simp
qed

text \<open>Levels of valid filters and topic names.\<close>

lemma valid_hash_last: "valid_levels ls \<Longrightarrow> hash_last ls"
proof (induction ls)
  case (Cons l ls)
  then show ?case by (cases "l = ''#''") simp_all
qed simp

lemma hash_last_butlast: "hash_last ls \<Longrightarrow> hash_last (butlast ls)"
  by (induction ls) simp_all

lemma filter_hash_last:
  "CHR 0x00 \<notin> set (tf_filter f) \<Longrightarrow> fst (TopicFilter_validate f err) \<Longrightarrow> hash_last (filter_levels f)"
  using valid_hash_last [of "split_slash (tf_filter f)"] hash_last_butlast [of "split_slash (tf_filter f)"]
  by (simp add: TopicFilter_validate_levels topic_levels_split)

lemma split_slash_chars: "l \<in> set (split_slash s) \<Longrightarrow> set l \<subseteq> set s"
  by (induction s arbitrary: l) (force split: list.splits if_splits)+

lemma topic_no_wildcards:
  assumes "CHR ''+'' \<notin> set s" "CHR ''#'' \<notin> set s" "l \<in> set (topic_levels s)"
  shows "l \<noteq> ''#'' \<and> l \<noteq> ''+''"
proof -
  have "l \<in> set (split_slash s)"
    using assms(3) in_set_butlastD [of l "split_slash s"] by (auto simp: topic_levels_split split: if_splits)
  then show ?thesis using split_slash_chars [of l s] assms(1,2) by auto
qed

lemma tree_of_match:
  assumes "\<And>f s. (f, s) \<in> set fs \<Longrightarrow> CHR 0x00 \<notin> set (tf_filter f) \<and> fst (TopicFilter_validate f None)"
    "separate (fst ` set fs)" "fst (TopicName_validate topic None)"
    "SubscriptionTree_match (tree_of fs) topic {} = (r, ss)"
  shows "ss = {s. \<exists>f. (f, s) \<in> set fs \<and> topic_matches (filter_levels f) (topic_levels topic)}"
    "ss \<noteq> {} \<Longrightarrow> r"
proof -
  have good: "hash_last (filter_levels f)" if "(f, s) \<in> set fs" for f s
    using filter_hash_last assms(1) that by blast
  then have m: "matching (tree_of fs) (topic_levels topic) =
      {s. \<exists>f. (f, s) \<in> set fs \<and> topic_matches (filter_levels f) (topic_levels topic)}"
    by (auto simp: matching_def tree_of_subscribed)
  have "CHR ''+'' \<notin> set topic" "CHR ''#'' \<notin> set topic"
    using assms(3) by (simp_all add: TopicName_validate_iff)
  then have "l \<noteq> ''#'' \<and> l \<noteq> ''+''" if "l \<in> set (topic_levels topic)" for l
    using topic_no_wildcards that by blast
  from match_exact [OF tree_of_ok tree_of_unambiguous [OF good assms(2)] this assms(4)] m
  show "ss = {s. \<exists>f. (f, s) \<in> set fs \<and> topic_matches (filter_levels f) (topic_levels topic)}"
    "ss \<noteq> {} \<Longrightarrow> r" by auto
qed

text \<open>
  Without that restriction subscriptions are missed, and others are found that do not match:
  the single-level wildcard is visited with the position its literal sibling left behind.
\<close>

lemma match_misses:
  "SubscriptionTree_match (tree_of [(TopicFilter_of ''a/b/c'' AtMostOnce, 1 :: nat),
     (TopicFilter_of ''+/b/c'' AtMostOnce, 2)]) ''a/b/c'' {} = (True, {1})"
  by code_simp

lemma match_false_hit:
  "SubscriptionTree_match (tree_of [(TopicFilter_of ''a/b/x'' AtMostOnce, 1 :: nat),
     (TopicFilter_of ''+/c'' AtMostOnce, 2)]) ''a/b/c'' {} = (True, {2})"
  by code_simp

end
