(* ===== verification/Mqtt_Broker.thy ===== *)
theory Mqtt_Broker
  imports Mqtt_Tree Mqtt_Packets
begin

text \<open>
  Sessions, the session manager, the manager of the subscription tree and the packet
  processor (mqtt_session.h, mqtt_session_manager.h, mqtt_subscription_tree_manager.h,
  mqtt_processor.h). They share objects through references and shared pointers, so the state
  of a broker holds all of them: session objects by their address, processors and packet
  senders by a number.
\<close>

section \<open>State\<close>

type_synonym session_ptr = "nat option"
type_synonym processor_id = nat
type_synonym sender_id = nat

text \<open>
  \<open>_subscriptionHandler\<close> is a reference to the processor that created the session;
  \<open>_sender\<close> is a weak pointer, \<open>None\<close> when it is empty.
\<close>

record Session =
  se_clientId :: string
  se_subscriptionHandler :: processor_id
  se_sender :: "sender_id option"
  se_subscriptions :: "TopicFilter list"

record SessionWrapper =
  sw_session :: nat
  sw_inUse :: bool

datatype ProcessorStatus = PS_None | PS_Connected | PS_Disconnected

record Processor =
  pr_status :: ProcessorStatus
  pr_currentSession :: session_ptr
  pr_packetSender :: "sender_id option"

text \<open>
  \<open>br_heap\<close> are the session objects, numbered in the order of their allocation;
  \<open>br_sessions\<close> is the session manager's hash map, which nothing iterates over;
  \<open>br_tree\<close> and \<open>br_writeLocked\<close> are the tree manager's members; \<open>br_processors\<close> and
  \<open>br_senders\<close> are the processors and packet senders alive; \<open>br_sent\<close> records the calls of
  \<open>PacketSender::addSendPacket\<close>.
\<close>

record Broker =
  br_heap :: "Session list"
  br_sessions :: "(string \<times> SessionWrapper) list"
  br_tree :: "session_ptr node"
  br_writeLocked :: bool
  br_processors :: "(processor_id \<times> Processor) list"
  br_senders :: "sender_id list"
  br_sent :: "(sender_id \<times> ControlPacket) list"

definition Broker_new :: Broker where
  "Broker_new =
     \<lparr>br_heap = [], br_sessions = [], br_tree = SubscriptionTree_new, br_writeLocked = False,
      br_processors = [], br_senders = [], br_sent = []\<rparr>"


section \<open>Session\<close>

definition Session_new :: "string \<Rightarrow> processor_id \<Rightarrow> Session" where
  "Session_new clientId handler =
     \<lparr>se_clientId = clientId, se_subscriptionHandler = handler, se_sender = None, se_subscriptions = []\<rparr>"

definition Session_setSender :: "nat \<Rightarrow> sender_id option \<Rightarrow> Broker \<Rightarrow> Broker" where
  "Session_setSender s sender b =
     b\<lparr>br_heap := (br_heap b)[s := (br_heap b ! s)\<lparr>se_sender := sender\<rparr>]\<rparr>"

text \<open>\<open>_sender.lock()\<close>: the sender if it is still alive.\<close>

definition Session_currentSender :: "nat \<Rightarrow> Broker \<Rightarrow> sender_id option" where
  "Session_currentSender s b =
     (case se_sender (br_heap b ! s) of
        None \<Rightarrow> None
      | Some c \<Rightarrow> (if c \<in> set (br_senders b) then Some c else None))"


section \<open>SessionManager\<close>

definition SessionManager_getSession ::
    "string \<Rightarrow> sender_id option \<Rightarrow> processor_id \<Rightarrow> ec \<Rightarrow> Broker \<Rightarrow> session_ptr \<times> ec \<times> Broker" where
  "SessionManager_getSession clientId sender handler err b =
     (case map_of (br_sessions b) clientId of
        Some w \<Rightarrow>
          (if sw_inUse w then (None, Some session_in_use, b)
           else (Some (sw_session w), None,
                 (Session_setSender (sw_session w) sender b)
                   \<lparr>br_sessions := AList.update clientId (w\<lparr>sw_inUse := True\<rparr>) (br_sessions b)\<rparr>))
      | None \<Rightarrow>
          (let s = length (br_heap b);
               b = b\<lparr>br_heap := br_heap b @ [Session_new clientId handler],
                     br_sessions := AList.update clientId \<lparr>sw_session = s, sw_inUse = True\<rparr> (br_sessions b)\<rparr>
           in (Some s, None, Session_setSender s sender b)))"

definition SessionManager_returnSession :: "session_ptr \<Rightarrow> ec \<Rightarrow> Broker \<Rightarrow> bool \<times> ec \<times> Broker" where
  "SessionManager_returnSession session err b =
     (case session of
        None \<Rightarrow> (False, Some session_not_found, b)
      | Some s \<Rightarrow>
          (let clientId = se_clientId (br_heap b ! s)
           in case map_of (br_sessions b) clientId of
                None \<Rightarrow> (False, Some session_not_found, b)
              | Some w \<Rightarrow>
                  (True, None,
                   (Session_setSender (sw_session w) None b)
                     \<lparr>br_sessions := AList.update clientId (w\<lparr>sw_inUse := False\<rparr>) (br_sessions b)\<rparr>)))"

definition SessionManager_removeSession :: "string \<Rightarrow> ec \<Rightarrow> Broker \<Rightarrow> bool \<times> ec \<times> Broker" where
  "SessionManager_removeSession clientId err b =
     (case map_of (br_sessions b) clientId of
        None \<Rightarrow> (False, Some session_not_found, b)
      | Some w \<Rightarrow>
          (if sw_inUse w then (False, Some session_in_use, b)
           else (True, err, b\<lparr>br_sessions := AList.delete clientId (br_sessions b)\<rparr>)))"

definition SessionManager_count :: "Broker \<Rightarrow> nat" where
  "SessionManager_count b = length (br_sessions b)"


section \<open>SubscriptionTreeManager\<close>

text \<open>
  \<open>getWritableTree\<close> takes the write lock and copies the tree; a second call before the copy
  is given back would block for ever: \<open>None\<close>.
\<close>

definition TreeManager_getWritableTree :: "Broker \<Rightarrow> (session_ptr node \<times> Broker) option" where
  "TreeManager_getWritableTree b =
     (if br_writeLocked b then None
      else Some (SubscriptionTree_clone (br_tree b), b\<lparr>br_writeLocked := True\<rparr>))"

text \<open>
  \<open>setTree\<close> probes the write lock with \<open>try_lock\<close>. When the probe succeeds, nobody held
  the lock, the call gives up, and the lock it has just taken stays locked.
\<close>

definition TreeManager_setTree :: "session_ptr node \<Rightarrow> Broker \<Rightarrow> bool \<times> Broker" where
  "TreeManager_setTree t b =
     (if \<not> br_writeLocked b then (False, b\<lparr>br_writeLocked := True\<rparr>)
      else (True, b\<lparr>br_tree := t, br_writeLocked := False\<rparr>))"

definition TreeManager_getCurrentSubscriptionTree :: "Broker \<Rightarrow> session_ptr node" where
  "TreeManager_getCurrentSubscriptionTree b = br_tree b"


section \<open>Processor\<close>

definition Processor_new :: Processor where
  "Processor_new = \<lparr>pr_status = PS_None, pr_currentSession = None, pr_packetSender = None\<rparr>"

definition Processor_setPacketSender :: "sender_id option \<Rightarrow> Processor \<Rightarrow> Processor" where
  "Processor_setPacketSender sender p = p\<lparr>pr_packetSender := sender\<rparr>"

abbreviation put_processor :: "processor_id \<Rightarrow> Processor \<Rightarrow> Broker \<Rightarrow> Broker" where
  "put_processor c p b \<equiv> b\<lparr>br_processors := AList.update c p (br_processors b)\<rparr>"

text \<open>
  \<open>addSubscriptions\<close>, called through the reference a session keeps. The filters are entered
  for the current session of the processor referred to, errors are dropped, and the writable
  tree's destructor puts the tree back. A reference to a processor that is gone is
  dereferenced: \<open>None\<close>.
\<close>

definition Processor_addSubscriptions :: "processor_id \<Rightarrow> TopicFilter list \<Rightarrow> Broker \<Rightarrow> Broker option" where
  "Processor_addSubscriptions c filters b =
     (case map_of (br_processors b) c of
        None \<Rightarrow> None
      | Some p \<Rightarrow>
          (case TreeManager_getWritableTree b of
             None \<Rightarrow> None
           | Some (t, b) \<Rightarrow>
               (let t = fold (\<lambda>flt t. snd (snd (SubscriptionTree_addFilter t flt (pr_currentSession p) None))) filters t
                in Some (snd (TreeManager_setTree t b)))))"

text \<open>
  The subscriptions of a session grow at their end and are not kept in order, so \<open>findDifference\<close> may be called on
  ranges for which it promises nothing: \<open>None\<close>.
\<close>

definition Session_addSubscriptions :: "nat \<Rightarrow> TopicFilter list \<Rightarrow> Broker \<Rightarrow> Broker option" where
  "Session_addSubscriptions s filters b =
     (let session = br_heap b ! s in
      case findDifference filters (se_subscriptions session) of
        None \<Rightarrow> None
      | Some result \<Rightarrow>
          (let b = b\<lparr>br_heap := (br_heap b)[s := session\<lparr>se_subscriptions := se_subscriptions session @ result\<rparr>]\<rparr>
           in Processor_addSubscriptions (se_subscriptionHandler session) result b))"

text \<open>
  The handlers of the packet types. Each returns what the connection has to do and the packet
  to answer with, the error code, and the new state; \<open>None\<close> is a call that does not return
  properly (a null or dangling pointer is dereferenced).
\<close>

type_synonym reply = "ConnectionState \<times> ControlPacket option"

definition doProcess_Connect ::
    "processor_id \<Rightarrow> Processor \<Rightarrow> ConnectControlPacket \<Rightarrow> ec \<Rightarrow> Broker \<Rightarrow> (reply \<times> ec \<times> Broker) option" where
  "doProcess_Connect c p connect err b =
     (case SessionManager_getSession (cn_clientId connect) (pr_packetSender p) c err b of
        (session, err, b) \<Rightarrow>
          (let connack = ConnAckControlPacket_new
                 \<lparr>ca_connectAcknowledgeFlag := NoFlags, ca_connectReturnCode := ConnectionAccepted\<rparr>
           in Some ((Keep, Some (PConnAck connack)), err,
                    put_processor c (p\<lparr>pr_currentSession := session\<rparr>) b)))"

text \<open>The sessions are visited in the order of their addresses.\<close>

definition deliver_to :: "nat list \<Rightarrow> PublishControlPacket \<Rightarrow> Broker \<Rightarrow> Broker" where
  "deliver_to ss pub b =
     fold (\<lambda>s b. case Session_currentSender s b of
                   None \<Rightarrow> b
                 | Some c \<Rightarrow> b\<lparr>br_sent := br_sent b @ [(c, PPublish pub)]\<rparr>) ss b"

definition doProcess_Publish ::
    "PublishControlPacket \<Rightarrow> ec \<Rightarrow> Broker \<Rightarrow> (reply \<times> ec \<times> Broker) option" where
  "doProcess_Publish pub err b =
     (case SubscriptionTree_match (TreeManager_getCurrentSubscriptionTree b) (pb_topicName pub) {} of
        (found, sessions) \<Rightarrow>
          (if \<not> found then Some ((Keep, None), err, b)
           else if None \<in> sessions then None
           else Some ((Keep, None), err, deliver_to (sorted_list_of_set (the ` sessions)) pub b)))"

definition doProcess_Subscribe ::
    "Processor \<Rightarrow> u16 \<Rightarrow> SubscribeControlPacket \<Rightarrow> ec \<Rightarrow> Broker \<Rightarrow> (reply \<times> ec \<times> Broker) option" where
  "doProcess_Subscribe p junk subs err b =
     (case pr_currentSession p of
        None \<Rightarrow> None
      | Some s \<Rightarrow>
          (case Session_addSubscriptions s (sb_topicFilters subs) b of
             None \<Rightarrow> None
           | Some b \<Rightarrow>
               (let suback = (SubAckControlPacket_new junk)
                      \<lparr>sa_packetIdentifier := sb_packetIdentifier subs,
                       sa_qosLevels := map tf_qos (sb_topicFilters subs)\<rparr>
                in Some ((Keep, Some (PSubAck suback)), err, b))))"

definition doProcess_Pingreq :: "ec \<Rightarrow> Broker \<Rightarrow> (reply \<times> ec \<times> Broker) option" where
  "doProcess_Pingreq err b = Some ((Keep, Some PingRespControlPacket_new), err, b)"

definition doProcess_Disconnect ::
    "processor_id \<Rightarrow> Processor \<Rightarrow> ec \<Rightarrow> Broker \<Rightarrow> (reply \<times> ec \<times> Broker) option" where
  "doProcess_Disconnect c p err b =
     (case SessionManager_returnSession (pr_currentSession p) None b of
        (_, _, b) \<Rightarrow> Some ((Close, None), err, put_processor c (p\<lparr>pr_currentSession := None\<rparr>) b))"

text \<open>
  \<open>processPacket\<close>. A packet object that is not of the class its header names makes the
  \<open>dynamic_cast\<close> to a reference throw \<open>std::bad_cast\<close>; this is \<open>None\<close> as well.
\<close>

definition Processor_handle ::
    "processor_id \<Rightarrow> Processor \<Rightarrow> u16 \<Rightarrow> ControlPacket \<Rightarrow> ec \<Rightarrow> Broker \<Rightarrow> (reply \<times> ec \<times> Broker) option" where
  "Processor_handle c p junk packet err b =
     (let refuse = (\<lambda>e. Some ((Close, None), Some e, b))
      in case packet_type packet of
        Connack \<Rightarrow> refuse control_packet_not_allowed
      | Pingresp \<Rightarrow> refuse control_packet_not_allowed
      | Suback \<Rightarrow> refuse control_packet_not_allowed
      | Unsuback \<Rightarrow> refuse control_packet_not_allowed
      | Connect \<Rightarrow>
          (let p = p\<lparr>pr_status := PS_Connected\<rparr>; b = put_processor c p b
           in case packet of PConnect q \<Rightarrow> doProcess_Connect c p q err b | _ \<Rightarrow> None)
      | Pingreq \<Rightarrow> (case packet of PPingReq _ \<Rightarrow> doProcess_Pingreq err b | _ \<Rightarrow> None)
      | Disconnect \<Rightarrow>
          (let p = p\<lparr>pr_status := PS_Disconnected\<rparr>; b = put_processor c p b
           in case packet of PDisconnect _ \<Rightarrow> doProcess_Disconnect c p err b | _ \<Rightarrow> None)
      | Subscribe \<Rightarrow> (case packet of PSubscribe q \<Rightarrow> doProcess_Subscribe p junk q err b | _ \<Rightarrow> None)
      | Publish \<Rightarrow> (case packet of PPublish q \<Rightarrow> doProcess_Publish q err b | _ \<Rightarrow> None)
      | Puback \<Rightarrow> refuse feature_not_implemented
      | Pubrec \<Rightarrow> refuse feature_not_implemented
      | Pubcomp \<Rightarrow> refuse feature_not_implemented
      | Pubrel \<Rightarrow> refuse feature_not_implemented
      | Unsubscribe \<Rightarrow> refuse feature_not_implemented
      | NoType \<Rightarrow> refuse invalid_control_packet_type
      | Reserved \<Rightarrow> refuse invalid_control_packet_type)"

definition expired :: "sender_id option \<Rightarrow> Broker \<Rightarrow> bool" where
  "expired sender b = (case sender of None \<Rightarrow> True | Some c \<Rightarrow> c \<notin> set (br_senders b))"

definition Processor_processPacket ::
    "processor_id \<Rightarrow> u16 \<Rightarrow> ControlPacket \<Rightarrow> ec \<Rightarrow> Broker \<Rightarrow> (reply \<times> ec \<times> Broker) option" where
  "Processor_processPacket c junk packet err b =
     (case map_of (br_processors b) c of
        None \<Rightarrow> None
      | Some p \<Rightarrow>
          (if expired (pr_packetSender p) b then Some ((Close, None), Some no_packet_sender, b)
           else
             (case pr_status p of
                PS_None \<Rightarrow>
                  (if packet_type packet \<noteq> Connect then Some ((Close, None), Some not_connected, b)
                   else Processor_handle c p junk packet err b)
              | PS_Connected \<Rightarrow>
                  (if packet_type packet = Connect
                   then Some ((Close, None), Some duplicate_connect_protocol_violation, b)
                   else Processor_handle c p junk packet err b)
              | PS_Disconnected \<Rightarrow> Some ((Close, None), Some not_connected, b))))"

text \<open>\<open>~Processor\<close>; afterwards the object is gone.\<close>

definition Processor_destroy :: "processor_id \<Rightarrow> Broker \<Rightarrow> Broker option" where
  "Processor_destroy c b =
     (case map_of (br_processors b) c of
        None \<Rightarrow> None
      | Some p \<Rightarrow>
          (case SessionManager_returnSession (pr_currentSession p) None b of
             (_, _, b) \<Rightarrow> Some (b\<lparr>br_processors := AList.delete c (br_processors b)\<rparr>)))"


section \<open>The steps of a broker\<close>

text \<open>
  A connection owns a processor and is its packet sender. Connections are numbered without
  reuse: a new one never has the number that some session still refers to.
\<close>

datatype broker_event =
  Open processor_id | Receive processor_id ControlPacket | Destroy processor_id | RemoveSession string

definition open_connection :: "processor_id \<Rightarrow> Broker \<Rightarrow> Broker" where
  "open_connection c b =
     (put_processor c (Processor_setPacketSender (Some c) Processor_new) b)\<lparr>br_senders := c # br_senders b\<rparr>"

inductive broker_step :: "Broker \<Rightarrow> broker_event \<Rightarrow> Broker \<Rightarrow> bool" where
  step_open: "map_of (br_processors b) c = None \<Longrightarrow> c \<notin> set (br_senders b) \<Longrightarrow>
     (\<forall>s\<in>set (br_heap b). se_subscriptionHandler s \<noteq> c) \<Longrightarrow>
     broker_step b (Open c) (open_connection c b)"
| step_receive: "Processor_processPacket c junk pkt None b = Some (r, err, b') \<Longrightarrow>
     broker_step b (Receive c pkt) b'"
| step_destroy: "Processor_destroy c b = Some b' \<Longrightarrow>
     broker_step b (Destroy c) (b'\<lparr>br_senders := removeAll c (br_senders b')\<rparr>)"
| step_remove: "SessionManager_removeSession clientId None b = (r, err, b') \<Longrightarrow>
     broker_step b (RemoveSession clientId) b'"

inductive_cases broker_step_receiveE: "broker_step b (Receive c pkt) b'"

inductive reachable :: "Broker \<Rightarrow> bool" where
  reachable_new: "reachable Broker_new"
| reachable_step: "reachable b \<Longrightarrow> broker_step b e b' \<Longrightarrow> reachable b'"


section \<open>The session table, abstractly\<close>

text \<open>
  What the session manager promises: client identifiers by session address, the table, and
  which processor holds which session.
\<close>

type_synonym session_table =
  "string list \<times> (string \<Rightarrow> SessionWrapper option) \<times> (processor_id \<Rightarrow> session_ptr)"

inductive table_step :: "session_table \<Rightarrow> session_table \<Rightarrow> bool" where
  stutter: "table_step t t"
| acquire: "tbl k = Some w \<Longrightarrow> \<not> sw_inUse w \<Longrightarrow> hold c = None \<Longrightarrow>
     table_step (ids, tbl, hold) (ids, tbl(k \<mapsto> w\<lparr>sw_inUse := True\<rparr>), hold(c \<mapsto> sw_session w))"
| create: "tbl k = None \<Longrightarrow> hold c = None \<Longrightarrow>
     table_step (ids, tbl, hold)
       (ids @ [k], tbl(k \<mapsto> \<lparr>sw_session = length ids, sw_inUse = True\<rparr>), hold(c \<mapsto> length ids))"
| release: "hold c = Some s \<Longrightarrow> tbl (ids ! s) = Some w \<Longrightarrow>
     table_step (ids, tbl, hold) (ids, tbl(ids ! s \<mapsto> w\<lparr>sw_inUse := False\<rparr>), hold(c := None))"
| forget: "tbl k = Some w \<Longrightarrow> \<not> sw_inUse w \<Longrightarrow>
     table_step (ids, tbl, hold) (ids, tbl(k := None), hold)"

text \<open>
  The table is consistent: an entry is in use exactly while one processor holds its session.
\<close>

definition table_inv :: "session_table \<Rightarrow> bool" where
  "table_inv = (\<lambda>(ids, tbl, hold).
     (\<forall>k w. tbl k = Some w \<longrightarrow> sw_session w < length ids \<and> ids ! sw_session w = k) \<and>
     (\<forall>c s. hold c = Some s \<longrightarrow> s < length ids \<and> tbl (ids ! s) = Some \<lparr>sw_session = s, sw_inUse = True\<rparr>) \<and>
     (\<forall>c c' s. hold c = Some s \<longrightarrow> hold c' = Some s \<longrightarrow> c = c') \<and>
     (\<forall>k w. tbl k = Some w \<longrightarrow> sw_inUse w \<longrightarrow> (\<exists>c. hold c = Some (sw_session w))))"

lemma table_invI:
  assumes "\<And>k w. tbl k = Some w \<Longrightarrow> sw_session w < length ids \<and> ids ! sw_session w = k"
    "\<And>c s. hold c = Some s \<Longrightarrow> s < length ids \<and> tbl (ids ! s) = Some \<lparr>sw_session = s, sw_inUse = True\<rparr>"
    "\<And>c c' s. hold c = Some s \<Longrightarrow> hold c' = Some s \<Longrightarrow> c = c'"
    "\<And>k w. tbl k = Some w \<Longrightarrow> sw_inUse w \<Longrightarrow> \<exists>c. hold c = Some (sw_session w)"
  shows "table_inv (ids, tbl, hold)"
  using assms unfolding table_inv_def prod.case by blast

lemma table_invD:
  assumes "table_inv (ids, tbl, hold)"
  shows "tbl k = Some w \<Longrightarrow> sw_session w < length ids \<and> ids ! sw_session w = k"
    "hold c = Some s \<Longrightarrow> s < length ids \<and> tbl (ids ! s) = Some \<lparr>sw_session = s, sw_inUse = True\<rparr>"
    "hold c = Some s \<Longrightarrow> hold c' = Some s \<Longrightarrow> c = c'"
    "tbl k = Some w \<Longrightarrow> sw_inUse w \<Longrightarrow> \<exists>c. hold c = Some (sw_session w)"
  using assms unfolding table_inv_def prod.case by blast+

lemma table_free:
  assumes "table_inv (ids, tbl, hold)" "tbl k = Some w" "\<not> sw_inUse w"
  shows "hold c \<noteq> Some (sw_session w)"
proof
  assume "hold c = Some (sw_session w)"
  from table_invD(2) [OF assms(1) this] table_invD(1) [OF assms(1,2)] assms(2)
  have "w = \<lparr>sw_session = sw_session w, sw_inUse = True\<rparr>" by simp
  then have "sw_inUse w" by (metis SessionWrapper.select_convs(2))
  with assms(3) show False by simp
qed

lemma table_step_inv: "table_step t t' \<Longrightarrow> table_inv t \<Longrightarrow> table_inv t'"
proof (induction rule: table_step.induct)
  case (acquire tbl k w hold c ids)
  note inv = table_invD [OF acquire(4)]
  have free: "hold c' \<noteq> Some (sw_session w)" for c' by (rule table_free [OF acquire(4,1,2)])
  have w: "sw_session w < length ids" "ids ! sw_session w = k" using inv(1) [OF acquire(1)] by simp_all
  have other: "ids ! s \<noteq> k" if "hold c' = Some s" for c' s
    using inv(2) [OF that] acquire(1) free [of c'] that by auto
  show ?case
  proof (rule table_invI)
    fix k' w' assume "(tbl(k \<mapsto> w\<lparr>sw_inUse := True\<rparr>)) k' = Some w'"
    then show "sw_session w' < length ids \<and> ids ! sw_session w' = k'"
      using inv(1) [of k' w'] w by (auto split: if_splits)
  next
    fix c' s assume "(hold(c \<mapsto> sw_session w)) c' = Some s"
    then show "s < length ids \<and> (tbl(k \<mapsto> w\<lparr>sw_inUse := True\<rparr>)) (ids ! s) =
        Some \<lparr>sw_session = s, sw_inUse = True\<rparr>"
      using inv(2) [of c' s] other [of c' s] w by (cases w) (auto split: if_splits)
  next
    fix c1 c2 s assume "(hold(c \<mapsto> sw_session w)) c1 = Some s" "(hold(c \<mapsto> sw_session w)) c2 = Some s"
    then show "c1 = c2" using inv(3) [of c1 s c2] free by (auto split: if_splits)
  next
    fix k' w' assume "(tbl(k \<mapsto> w\<lparr>sw_inUse := True\<rparr>)) k' = Some w'" "sw_inUse w'"
    then show "\<exists>c'. (hold(c \<mapsto> sw_session w)) c' = Some (sw_session w')"
      using inv(4) [of k' w'] acquire(3) by (cases "k' = k") (auto, metis option.distinct(1))
  qed
next
  case (create tbl k hold c ids)
  note inv = table_invD [OF create(3)]
  have old: "s < length ids \<and> ids ! s \<noteq> k" if "hold c' = Some s" for c' s
    using inv(2) [OF that] create(1) by auto
  show ?case
  proof (rule table_invI)
    fix k' w' assume "(tbl(k \<mapsto> \<lparr>sw_session = length ids, sw_inUse = True\<rparr>)) k' = Some w'"
    then show "sw_session w' < length (ids @ [k]) \<and> (ids @ [k]) ! sw_session w' = k'"
      using inv(1) [of k' w'] by (auto simp: nth_append split: if_splits)
  next
    fix c' s assume "(hold(c \<mapsto> length ids)) c' = Some s"
    then show "s < length (ids @ [k]) \<and> (tbl(k \<mapsto> \<lparr>sw_session = length ids, sw_inUse = True\<rparr>)) ((ids @ [k]) ! s) =
        Some \<lparr>sw_session = s, sw_inUse = True\<rparr>"
      using inv(2) [of c' s] old [of c' s] by (auto simp: nth_append split: if_splits)
  next
    fix c1 c2 s assume "(hold(c \<mapsto> length ids)) c1 = Some s" "(hold(c \<mapsto> length ids)) c2 = Some s"
    then show "c1 = c2" using inv(3) [of c1 s c2] old by (auto split: if_splits)
  next
    fix k' w' assume "(tbl(k \<mapsto> \<lparr>sw_session = length ids, sw_inUse = True\<rparr>)) k' = Some w'" "sw_inUse w'"
    then show "\<exists>c'. (hold(c \<mapsto> length ids)) c' = Some (sw_session w')"
      using inv(4) [of k' w'] create(2) by (cases "k' = k") (auto, metis option.distinct(1))
  qed
next
  case (release hold c s tbl ids w)
  note inv = table_invD [OF release(3)]
  have s: "s < length ids" "w = \<lparr>sw_session = s, sw_inUse = True\<rparr>"
    using inv(2) [OF release(1)] release(2) by simp_all
  show ?case
  proof (rule table_invI)
    fix k' w' assume "(tbl(ids ! s \<mapsto> w\<lparr>sw_inUse := False\<rparr>)) k' = Some w'"
    then show "sw_session w' < length ids \<and> ids ! sw_session w' = k'"
      using inv(1) [of k' w'] s by (auto split: if_splits)
  next
    fix c' s' assume h: "(hold(c := None)) c' = Some s'"
    then have ne: "c' \<noteq> c" "hold c' = Some s'" by (auto split: if_splits)
    then have "s' \<noteq> s" using inv(3) [of c' s c] release(1) by auto
    then have "ids ! s' \<noteq> ids ! s" using inv(2) [OF ne(2)] release(2) s by auto
    then show "s' < length ids \<and> (tbl(ids ! s \<mapsto> w\<lparr>sw_inUse := False\<rparr>)) (ids ! s') =
        Some \<lparr>sw_session = s', sw_inUse = True\<rparr>"
      using inv(2) [OF ne(2)] by simp
  next
    fix c1 c2 s' assume "(hold(c := None)) c1 = Some s'" "(hold(c := None)) c2 = Some s'"
    then show "c1 = c2" using inv(3) [of c1 s' c2] by (auto split: if_splits)
  next
    fix k' w' assume t: "(tbl(ids ! s \<mapsto> w\<lparr>sw_inUse := False\<rparr>)) k' = Some w'" "sw_inUse w'"
    then have k': "k' \<noteq> ids ! s" "tbl k' = Some w'" by (auto split: if_splits)
    then obtain c' where c': "hold c' = Some (sw_session w')" using inv(4) t(2) by blast
    moreover have "c' \<noteq> c" using c' release(1) inv(1) [OF k'(2)] k'(1) by auto
    ultimately show "\<exists>c'. (hold(c := None)) c' = Some (sw_session w')" by (intro exI [of _ c']) simp
  qed
next
  case (forget tbl k w ids hold)
  note inv = table_invD [OF forget(3)]
  have used: "ids ! s \<noteq> k" if "hold c = Some s" for c s
    using inv(2) [OF that] forget(1,2) by auto
  show ?case
  proof (rule table_invI)
    fix k' w' assume "(tbl(k := None)) k' = Some w'"
    then show "sw_session w' < length ids \<and> ids ! sw_session w' = k'"
      using inv(1) [of k' w'] by (auto split: if_splits)
  next
    fix c' s assume h: "hold c' = Some s"
    then show "s < length ids \<and> (tbl(k := None)) (ids ! s) = Some \<lparr>sw_session = s, sw_inUse = True\<rparr>"
      using inv(2) [OF h] used [OF h] by simp
  next
    fix c1 c2 s assume "hold c1 = Some s" "hold c2 = Some s"
    then show "c1 = c2" by (rule inv(3))
  next
    fix k' w' assume "(tbl(k := None)) k' = Some w'" "sw_inUse w'"
    then show "\<exists>c. hold c = Some (sw_session w')" using inv(4) [of k' w'] by (auto split: if_splits)
  qed
qed simp


section \<open>The broker implements the table\<close>

definition holder :: "Broker \<Rightarrow> processor_id \<Rightarrow> session_ptr" where
  "holder b c = (case map_of (br_processors b) c of None \<Rightarrow> None | Some p \<Rightarrow> pr_currentSession p)"

definition table_of :: "Broker \<Rightarrow> session_table" where
  "table_of b = (map se_clientId (br_heap b), map_of (br_sessions b), holder b)"

text \<open>A processor holds a session only between CONNECT and DISCONNECT.\<close>

definition processors_ok :: "Broker \<Rightarrow> bool" where
  "processors_ok b \<longleftrightarrow>
     (\<forall>c p. map_of (br_processors b) c = Some p \<longrightarrow> pr_status p \<noteq> PS_Connected \<longrightarrow> pr_currentSession p = None)"

definition broker_inv :: "Broker \<Rightarrow> bool" where
  "broker_inv b \<longleftrightarrow> table_inv (table_of b) \<and> processors_ok b \<and> tree_ok (br_tree b) \<and> \<not> br_writeLocked b"

lemma map_heap_update:
  "f y = f (xs ! s) \<Longrightarrow> map f (xs[s := y]) = map f xs"
  by (induction xs arbitrary: s) (auto split: nat.splits)

lemma setSender_frame [simp]:
  "map se_clientId (br_heap (Session_setSender s x b)) = map se_clientId (br_heap b)"
  "br_sessions (Session_setSender s x b) = br_sessions b" "br_tree (Session_setSender s x b) = br_tree b"
  "br_writeLocked (Session_setSender s x b) = br_writeLocked b"
  "br_processors (Session_setSender s x b) = br_processors b"
  "br_senders (Session_setSender s x b) = br_senders b"
  "length (br_heap (Session_setSender s x b)) = length (br_heap b)"
  by (simp_all add: Session_setSender_def map_heap_update)

lemma holder_put_processor [simp]:
  "holder (put_processor c p b) = (holder b)(c := pr_currentSession p)"
  by (rule ext) (simp add: holder_def update_conv')

lemma holder_cong: "br_processors b' = br_processors b \<Longrightarrow> holder b' = holder b"
  by (rule ext) (simp add: holder_def)

lemma processors_ok_put:
  "processors_ok b \<Longrightarrow> (pr_status p \<noteq> PS_Connected \<longrightarrow> pr_currentSession p = None) \<Longrightarrow>
   br_processors b' = AList.update c p (br_processors b) \<Longrightarrow> processors_ok b'"
  by (auto simp: processors_ok_def update_conv' split: if_splits)

text \<open>The rest of the state that the session manager does not touch.\<close>

definition same_rest :: "Broker \<Rightarrow> Broker \<Rightarrow> bool" where
  "same_rest b b' \<longleftrightarrow> br_processors b' = br_processors b \<and> br_tree b' = br_tree b \<and>
     br_writeLocked b' = br_writeLocked b \<and> br_senders b' = br_senders b"

lemma getSession_step:
  assumes "SessionManager_getSession k sender c err b = (s, e, b')" "holder b c = None"
  shows "same_rest b b' \<and>
    (case s of
       None \<Rightarrow> b' = b \<and> e = Some session_in_use
     | Some v \<Rightarrow> e = None \<and>
         table_step (table_of b)
           (map se_clientId (br_heap b'), map_of (br_sessions b'), (holder b)(c \<mapsto> v)))"
proof (cases "map_of (br_sessions b) k")
  case None
  have "table_step (table_of b) (map se_clientId (br_heap b) @ [k],
      (map_of (br_sessions b))(k \<mapsto> \<lparr>sw_session = length (map se_clientId (br_heap b)), sw_inUse = True\<rparr>),
      (holder b)(c \<mapsto> length (map se_clientId (br_heap b))))"
    unfolding table_of_def using None assms(2) by (rule table_step.create)
  with None assms(1) show ?thesis
    by (auto simp: SessionManager_getSession_def Let_def same_rest_def Session_new_def update_conv')
next
  case (Some w)
  show ?thesis
  proof (cases "sw_inUse w")
    case True
    with Some assms(1) show ?thesis by (auto simp: SessionManager_getSession_def same_rest_def)
  next
    case False
    from table_step.acquire [where tbl = "map_of (br_sessions b)" and hold = "holder b",
        OF Some False assms(2), of "map se_clientId (br_heap b)"]
    show ?thesis using Some False assms(1)
      by (auto simp: SessionManager_getSession_def same_rest_def table_of_def update_conv')
  qed
qed

lemma returnSession_step:
  assumes "SessionManager_returnSession (holder b c) err b = (r, e, b')" "table_inv (table_of b)"
  shows "same_rest b b' \<and> table_step (table_of b)
    (map se_clientId (br_heap b'), map_of (br_sessions b'), (holder b)(c := None))"
proof (cases "holder b c")
  case None
  have "(holder b)(c := None) = holder b" using None by auto
  with None assms(1) show ?thesis
    by (auto simp: SessionManager_returnSession_def same_rest_def table_of_def intro: table_step.stutter)
next
  case (Some s)
  from table_invD(2) [OF assms(2) [unfolded table_of_def] Some]
  have s: "map_of (br_sessions b) (map se_clientId (br_heap b) ! s) =
      Some \<lparr>sw_session = s, sw_inUse = True\<rparr>" and l: "s < length (br_heap b)" by auto
  from table_step.release [where tbl = "map_of (br_sessions b)" and hold = "holder b", OF Some s]
    Some s l assms(1) show ?thesis
    by (auto simp: SessionManager_returnSession_def same_rest_def table_of_def update_conv' Let_def)
qed

lemma addSubscriptions_frame:
  assumes "Processor_addSubscriptions c fs b = Some b'"
  shows "br_heap b' = br_heap b \<and> br_sessions b' = br_sessions b \<and> br_processors b' = br_processors b \<and>
    br_senders b' = br_senders b \<and> \<not> br_writeLocked b' \<and> \<not> br_writeLocked b \<and>
    (tree_ok (br_tree b) \<longrightarrow> tree_ok (br_tree b'))"
proof -
  obtain p where p: "map_of (br_processors b) c = Some p" and l: "\<not> br_writeLocked b"
    and b': "b' = b\<lparr>br_tree := fold (\<lambda>flt t. tree_add flt (pr_currentSession p) t) fs
      (SubscriptionTree_clone (br_tree b)), br_writeLocked := False\<rparr>"
    using assms by (auto simp: Processor_addSubscriptions_def TreeManager_getWritableTree_def
        TreeManager_setTree_def tree_add_def Let_def split: option.splits if_splits)
  have "tree_ok (fold (\<lambda>flt t. tree_add flt s t) fs t)" if "tree_ok t"
    for s :: session_ptr and t
    using that by (induction fs arbitrary: t) (simp_all add: tree.add_valid)
  with b' l show ?thesis by simp
qed

lemma session_addSubscriptions_frame:
  assumes "Session_addSubscriptions s fs b = Some b'" "broker_inv b"
  shows "table_of b' = table_of b \<and> br_processors b' = br_processors b \<and> tree_ok (br_tree b') \<and>
    \<not> br_writeLocked b'"
proof -
  obtain ds where d: "findDifference fs (se_subscriptions (br_heap b ! s)) = Some ds"
    using assms(1) by (auto simp: Session_addSubscriptions_def Let_def split: option.splits)
  let ?b = "b\<lparr>br_heap := (br_heap b)[s := (br_heap b ! s)\<lparr>se_subscriptions :=
    se_subscriptions (br_heap b ! s) @ ds\<rparr>]\<rparr>"
  from assms(1) have "Processor_addSubscriptions (se_subscriptionHandler (br_heap b ! s)) ds ?b = Some b'"
    by (simp add: Session_addSubscriptions_def Let_def d)
  from addSubscriptions_frame [OF this] assms(2) show ?thesis
    by (auto simp: table_of_def broker_inv_def map_heap_update intro: holder_cong)
qed

lemma handle_connect_eq:
  "packet_type packet = Connect \<Longrightarrow> Processor_handle c p junk packet err b =
     (case packet of PConnect q \<Rightarrow>
        doProcess_Connect c (p\<lparr>pr_status := PS_Connected\<rparr>) q err
          (put_processor c (p\<lparr>pr_status := PS_Connected\<rparr>) b)
      | _ \<Rightarrow> None)"
  unfolding Processor_handle_def Let_def by simp

lemma handle_disconnect_eq:
  "packet_type packet = Disconnect \<Longrightarrow> Processor_handle c p junk packet err b =
     (case packet of PDisconnect h \<Rightarrow>
        doProcess_Disconnect c (p\<lparr>pr_status := PS_Disconnected\<rparr>) err
          (put_processor c (p\<lparr>pr_status := PS_Disconnected\<rparr>) b)
      | _ \<Rightarrow> None)"
  unfolding Processor_handle_def Let_def by simp

lemma handle_subscribe_eq:
  "packet_type packet = Subscribe \<Longrightarrow> Processor_handle c p junk packet err b =
     (case packet of PSubscribe q \<Rightarrow> doProcess_Subscribe p junk q err b | _ \<Rightarrow> None)"
  unfolding Processor_handle_def Let_def by simp

lemma handle_publish_eq:
  "packet_type packet = Publish \<Longrightarrow> Processor_handle c p junk packet err b =
     (case packet of PPublish q \<Rightarrow> doProcess_Publish q err b | _ \<Rightarrow> None)"
  unfolding Processor_handle_def Let_def by simp

text \<open>What one handler call does to the table and the processors.\<close>

lemma handle_connect:
  assumes "Processor_handle c p junk packet err b = Some (r, e, b')" "packet_type packet = Connect"
    "map_of (br_processors b) c = Some p" "pr_status p = PS_None" "broker_inv b"
  shows "table_step (table_of b) (table_of b') \<and> processors_ok b' \<and> br_tree b' = br_tree b \<and> \<not> br_writeLocked b'"
proof -
  let ?p = "p\<lparr>pr_status := PS_Connected\<rparr>"
  let ?b = "put_processor c ?p b"
  have none: "pr_currentSession p = None" using assms(3-5) by (auto simp: broker_inv_def processors_ok_def)
  have at: "holder b c = None" using none assms(3) by (simp add: holder_def)
  then have hold: "holder ?b = holder b" using none by auto
  have ok: "processors_ok ?b"
    by (rule processors_ok_put [of b ?p ?b c]) (use assms(5) none in \<open>simp_all add: broker_inv_def\<close>)
  obtain q where q: "packet = PConnect q"
    using assms(1) unfolding handle_connect_eq [OF assms(2)] by (cases packet) simp_all
  obtain s e1 b1 where g: "SessionManager_getSession (cn_clientId q) (pr_packetSender ?p) c err ?b = (s, e1, b1)"
    by (cases "SessionManager_getSession (cn_clientId q) (pr_packetSender ?p) c err ?b") auto
  have b': "b' = put_processor c (?p\<lparr>pr_currentSession := s\<rparr>) b1"
    using assms(1) [unfolded handle_connect_eq [OF assms(2)]] g q by (simp add: doProcess_Connect_def)
  have "holder ?b c = None" using hold at by simp
  from getSession_step [OF g this] have rest: "same_rest ?b b1"
    and st: "case s of None \<Rightarrow> b1 = ?b \<and> e1 = Some session_in_use
     | Some v \<Rightarrow> e1 = None \<and> table_step (table_of ?b)
           (map se_clientId (br_heap b1), map_of (br_sessions b1), (holder ?b)(c \<mapsto> v))" by auto
  have t: "table_of ?b = table_of b" using hold by (simp add: table_of_def)
  have h1: "holder b1 = holder ?b" using rest by (intro holder_cong) (simp add: same_rest_def)
  have "table_step (table_of b) (table_of b')"
  proof (cases s)
    case None
    then have "b1 = ?b" using st by simp
    with b' None have "table_of b' = table_of b" using at by (auto simp: table_of_def)
    then show ?thesis by (simp add: table_step.stutter)
  next
    case (Some v)
    with st b' h1 t show ?thesis by (simp add: table_of_def)
  qed
  moreover have "processors_ok b'"
  proof (rule processors_ok_put [of b1 "?p\<lparr>pr_currentSession := s\<rparr>" b' c])
    show "processors_ok b1" using ok rest by (simp add: processors_ok_def same_rest_def)
  qed (simp_all add: b')
  ultimately show ?thesis using b' rest assms(5) by (auto simp: same_rest_def broker_inv_def)
qed

lemma handle_disconnect:
  assumes "Processor_handle c p junk packet err b = Some (r, e, b')" "packet_type packet = Disconnect"
    "map_of (br_processors b) c = Some p" "broker_inv b"
  shows "table_step (table_of b) (table_of b') \<and> processors_ok b' \<and> br_tree b' = br_tree b \<and> \<not> br_writeLocked b'"
proof -
  let ?p = "p\<lparr>pr_status := PS_Disconnected\<rparr>"
  let ?b = "put_processor c ?p b"
  have at: "holder b c = pr_currentSession p" using assms(3) by (simp add: holder_def)
  then have hold: "holder ?b = holder b" by auto
  then have t: "table_of ?b = table_of b" by (simp add: table_of_def)
  obtain h where q: "packet = PDisconnect h"
    using assms(1) unfolding handle_disconnect_eq [OF assms(2)] by (cases packet) simp_all
  obtain r1 e1 b1 where g: "SessionManager_returnSession (holder ?b c) None ?b = (r1, e1, b1)"
    by (cases "SessionManager_returnSession (holder ?b c) None ?b") auto
  have b': "b' = put_processor c (?p\<lparr>pr_currentSession := None\<rparr>) b1"
    using assms(1) [unfolded handle_disconnect_eq [OF assms(2)]] g q hold at
    by (simp add: doProcess_Disconnect_def)
  have "table_inv (table_of ?b)" using t assms(4) by (simp add: broker_inv_def)
  from returnSession_step [OF g this] have rest: "same_rest ?b b1"
    and st: "table_step (table_of ?b)
      (map se_clientId (br_heap b1), map_of (br_sessions b1), (holder ?b)(c := None))" by auto
  have h1: "holder b1 = holder ?b" using rest by (intro holder_cong) (simp add: same_rest_def)
  have "table_step (table_of b) (table_of b')" using st t b' h1 by (simp add: table_of_def)
  moreover have "processors_ok b'"
  proof -
    have "map_of (br_processors b') c' = Some p' \<Longrightarrow> c' \<noteq> c \<Longrightarrow> map_of (br_processors b) c' = Some p'" for c' p'
      using b' rest by (simp add: same_rest_def update_conv')
    moreover have "map_of (br_processors b') c = Some (?p\<lparr>pr_currentSession := None\<rparr>)"
      using b' by (simp add: update_conv')
    ultimately show ?thesis using assms(4) unfolding processors_ok_def broker_inv_def
      by (metis Processor.select_convs(2) Processor.surjective Processor.update_convs(1,2) option.inject)
  qed
  ultimately show ?thesis using b' rest assms(4) by (auto simp: same_rest_def broker_inv_def)
qed

lemma deliver_to_frame:
  "br_heap (deliver_to ss m b) = br_heap b \<and> br_sessions (deliver_to ss m b) = br_sessions b \<and>
   br_tree (deliver_to ss m b) = br_tree b \<and> br_writeLocked (deliver_to ss m b) = br_writeLocked b \<and>
   br_processors (deliver_to ss m b) = br_processors b \<and> br_senders (deliver_to ss m b) = br_senders b"
  unfolding deliver_to_def
  by (induction ss arbitrary: b) (auto split: option.split)

lemma handle_other:
  assumes "Processor_handle c p junk packet err b = Some (r, e, b')"
    "packet_type packet \<notin> {Connect, Disconnect}" "broker_inv b"
  shows "table_of b' = table_of b \<and> br_processors b' = br_processors b \<and> tree_ok (br_tree b') \<and>
    \<not> br_writeLocked b'"
proof -
  have inv: "tree_ok (br_tree b)" "\<not> br_writeLocked b" using assms(3) by (simp_all add: broker_inv_def)
  consider (subscribe) "packet_type packet = Subscribe" | (publish) "packet_type packet = Publish"
    | (rest) "packet_type packet \<notin> {Connect, Disconnect, Subscribe, Publish}" using assms(2) by blast
  then show ?thesis
  proof cases
    case subscribe
    then obtain q s where "packet = PSubscribe q" "Session_addSubscriptions s (sb_topicFilters q) b = Some b'"
      using assms(1) unfolding handle_subscribe_eq [OF subscribe]
      by (auto simp: doProcess_Subscribe_def split: ControlPacket.splits option.splits)
    then show ?thesis using session_addSubscriptions_frame assms(3) by blast
  next
    case publish
    then obtain q where "b' = b \<or> (\<exists>ss. b' = deliver_to ss q b)"
      using assms(1) unfolding handle_publish_eq [OF publish]
      by (auto simp: doProcess_Publish_def split: ControlPacket.splits prod.splits if_splits)
    then show ?thesis using inv deliver_to_frame [of _ q b] by (auto simp: table_of_def cong: holder_cong)
  next
    case rest
    then have "b' = b"
      using assms(1) unfolding Processor_handle_def Let_def doProcess_Pingreq_def
      by (cases "packet_type packet") (auto split: ControlPacket.splits)
    then show ?thesis using inv by simp
  qed
qed

lemma process_packet_step:
  assumes "Processor_processPacket c junk packet err b = Some (r, e, b')" "broker_inv b"
  shows "table_step (table_of b) (table_of b') \<and> broker_inv b'"
proof -
  obtain p where p: "map_of (br_processors b) c = Some p"
    using assms(1) by (auto simp: Processor_processPacket_def split: option.splits)
  consider (same) "b' = b" | (connect) "Processor_handle c p junk packet err b = Some (r, e, b')"
      "packet_type packet = Connect" "pr_status p = PS_None"
    | (disconnect) "Processor_handle c p junk packet err b = Some (r, e, b')" "packet_type packet = Disconnect"
    | (other) "Processor_handle c p junk packet err b = Some (r, e, b')"
        "packet_type packet \<notin> {Connect, Disconnect}"
    using assms(1) p
    by (auto simp: Processor_processPacket_def split: if_splits ProcessorStatus.splits)
  then have "table_step (table_of b) (table_of b') \<and> processors_ok b' \<and> tree_ok (br_tree b') \<and> \<not> br_writeLocked b'"
  proof cases
    case same
    then show ?thesis using assms(2) by (simp add: broker_inv_def table_step.stutter)
  next
    case connect
    then show ?thesis using handle_connect [OF connect(1,2) p connect(3) assms(2)] assms(2)
      by (simp add: broker_inv_def)
  next
    case disconnect
    then show ?thesis using handle_disconnect [OF disconnect p assms(2)] assms(2) by (simp add: broker_inv_def)
  next
    case other
    then show ?thesis using handle_other [OF other assms(2)] assms(2)
      by (simp add: broker_inv_def table_step.stutter processors_ok_def)
  qed
  then show ?thesis
    using table_step_inv [of "table_of b" "table_of b'"] assms(2) by (simp add: broker_inv_def)
qed

lemma broker_new_inv: "broker_inv Broker_new"
proof -
  have "table_of Broker_new = ([], \<lambda>_. None, \<lambda>_. None)"
    by (auto simp: table_of_def Broker_new_def holder_def)
  moreover have "table_inv ([], \<lambda>_. None, \<lambda>_. None)" by (rule table_invI) simp_all
  ultimately show ?thesis by (simp add: broker_inv_def) (simp add: Broker_new_def processors_ok_def)
qed

lemma broker_step_refines:
  assumes "broker_step b e b'" "broker_inv b"
  shows "table_step (table_of b) (table_of b') \<and> broker_inv b'"
  using assms
proof (cases rule: broker_step.cases)
  case (step_open c)
  have "holder b c = None" using step_open(3) by (simp add: holder_def)
  then have "table_of b' = table_of b"
    using step_open(2) by (auto simp: table_of_def open_connection_def Processor_setPacketSender_def
        Processor_new_def holder_def update_conv')
  moreover have "processors_ok b'"
    using step_open(2) assms(2)
    by (auto simp: open_connection_def processors_ok_def Processor_setPacketSender_def Processor_new_def
        broker_inv_def update_conv')
  ultimately show ?thesis using assms(2) step_open(2)
    by (simp add: broker_inv_def table_step.stutter) (simp add: open_connection_def)
next
  case (step_receive c junk pkt r err)
  then show ?thesis using process_packet_step assms(2) by blast
next
  case (step_destroy c b1)
  obtain p r1 e1 b2 where p: "map_of (br_processors b) c = Some p"
    and g: "SessionManager_returnSession (holder b c) None b = (r1, e1, b2)"
    and b1: "b1 = b2\<lparr>br_processors := AList.delete c (br_processors b2)\<rparr>"
    using step_destroy(3) by (auto simp: Processor_destroy_def holder_def split: option.splits prod.splits)
  have "table_inv (table_of b)" using assms(2) by (simp add: broker_inv_def)
  from returnSession_step [OF g this] have rest: "same_rest b b2"
    and st: "table_step (table_of b)
      (map se_clientId (br_heap b2), map_of (br_sessions b2), (holder b)(c := None))" by auto
  have procs: "map_of (br_processors b') = (map_of (br_processors b))(c := None)"
    using step_destroy(2) b1 rest by (simp add: same_rest_def delete_conv')
  have "holder b' = (holder b)(c := None)" by (rule ext) (simp add: holder_def procs)
  then have "table_step (table_of b) (table_of b')" using st step_destroy(2) b1 by (simp add: table_of_def)
  moreover have "processors_ok b'"
    using assms(2) by (auto simp: processors_ok_def procs broker_inv_def split: if_splits)
  ultimately show ?thesis
    using table_step_inv [of "table_of b" "table_of b'"] assms(2) step_destroy(2) b1 rest
    by (simp add: broker_inv_def same_rest_def)
next
  case (step_remove clientId r err)
  show ?thesis
  proof (cases "b' = b")
    case True
    then show ?thesis using assms(2) by (simp add: table_step.stutter)
  next
    case False
    then obtain w where w: "map_of (br_sessions b) clientId = Some w" "\<not> sw_inUse w"
      and b': "b' = b\<lparr>br_sessions := AList.delete clientId (br_sessions b)\<rparr>"
      using step_remove(2) by (auto simp: SessionManager_removeSession_def split: option.splits if_splits)
    have "holder b' = holder b" using b' by (intro holder_cong) simp
    with table_step.forget [where tbl = "map_of (br_sessions b)", OF w, of "map se_clientId (br_heap b)" "holder b"] b'
    have "table_step (table_of b) (table_of b')" by (simp add: table_of_def delete_conv')
    then show ?thesis
      using table_step_inv [of "table_of b" "table_of b'"] assms(2) b'
      by (simp add: broker_inv_def processors_ok_def)
  qed
qed

lemma reachable_inv: "reachable b \<Longrightarrow> broker_inv b"
  by (induction rule: reachable.induct) (auto simp: broker_new_inv dest: broker_step_refines)


text \<open>The status of a processor only advances: not connected, connected, disconnected.\<close>

fun status_next :: "ProcessorStatus \<Rightarrow> ProcessorStatus \<Rightarrow> bool" where
  "status_next PS_None s \<longleftrightarrow> s \<noteq> PS_Disconnected"
| "status_next PS_Connected s \<longleftrightarrow> s \<noteq> PS_None"
| "status_next PS_Disconnected s \<longleftrightarrow> s = PS_Disconnected"

lemma status_next_refl [simp]: "status_next s s"
  by (cases s) simp_all

lemma manager_processors:
  "SessionManager_getSession k x c err b = (s, e, b') \<Longrightarrow> br_processors b' = br_processors b"
  "SessionManager_returnSession s err b = (r, e, b') \<Longrightarrow> br_processors b' = br_processors b"
  by (auto simp: SessionManager_getSession_def SessionManager_returnSession_def Let_def
      split: option.splits if_splits)

lemma handle_processors:
  assumes "Processor_handle c p junk packet err b = Some (r, e, b')" "map_of (br_processors b) c = Some p"
    "packet_type packet = Connect \<longleftrightarrow> pr_status p = PS_None" "pr_status p \<noteq> PS_Disconnected" "broker_inv b"
  shows "\<exists>p'. map_of (br_processors b') = (map_of (br_processors b))(c \<mapsto> p') \<and>
    status_next (pr_status p) (pr_status p')"
proof (cases "packet_type packet \<in> {Connect, Disconnect}")
  case False
  then show ?thesis using handle_other [OF assms(1) _ assms(5)] assms(2)
    by (intro exI [of _ p]) (simp add: fun_upd_idem)
next
  case True
  show ?thesis
  proof (cases "packet_type packet = Connect")
    case con: True
    then show ?thesis using assms(1,3) unfolding handle_connect_eq [OF con]
      by (auto simp: doProcess_Connect_def update_conv' split: ControlPacket.splits prod.splits
          dest!: manager_processors)
  next
    case False
    with True have dis: "packet_type packet = Disconnect" by simp
    have "pr_status p = PS_Connected" using assms(3,4) False by (cases "pr_status p") auto
    then show ?thesis using assms(1) unfolding handle_disconnect_eq [OF dis]
      by (auto simp: doProcess_Disconnect_def update_conv' split: ControlPacket.splits prod.splits
          dest!: manager_processors)
  qed
qed

lemma step_status:
  assumes "broker_step b e b'" "broker_inv b" "map_of (br_processors b) c = Some p"
    "map_of (br_processors b') c = Some p'"
  shows "status_next (pr_status p) (pr_status p')"
  using assms(1)
proof (cases rule: broker_step.cases)
  case (step_receive d junk pkt r err)
  obtain q where q: "map_of (br_processors b) d = Some q"
    using step_receive by (auto simp: Processor_processPacket_def split: option.splits)
  have "b' = b \<or> (\<exists>q'. map_of (br_processors b') = (map_of (br_processors b))(d \<mapsto> q') \<and>
      status_next (pr_status q) (pr_status q'))"
  proof (cases "expired (pr_packetSender q) b \<or> pr_status q = PS_Disconnected \<or>
      (packet_type pkt = Connect) \<noteq> (pr_status q = PS_None)")
    case True
    then show ?thesis using step_receive q
      by (auto simp: Processor_processPacket_def split: ProcessorStatus.splits if_splits)
  next
    case False
    then have "Processor_handle d q junk pkt None b = Some (r, err, b')"
      using step_receive q by (cases "pr_status q") (auto simp: Processor_processPacket_def)
    from handle_processors [OF this q _ _ assms(2)] False show ?thesis by blast
  qed
  then show ?thesis using assms(3,4) q by (auto split: if_splits)
next
  case (step_open d)
  then show ?thesis using assms(3,4)
    by (auto simp: open_connection_def update_conv' split: if_splits)
next
  case (step_destroy d b1)
  then show ?thesis using assms(3,4)
    by (auto simp: Processor_destroy_def delete_conv' split: option.splits prod.splits if_splits
        dest!: manager_processors)
next
  case (step_remove clientId r err)
  then show ?thesis using assms(3,4)
    by (auto simp: SessionManager_removeSession_def split: option.splits if_splits)
qed


section \<open>What the handlers achieve\<close>

lemma processPacket_none:
  "map_of (br_processors b) c = Some p \<Longrightarrow> \<not> expired (pr_packetSender p) b \<Longrightarrow> pr_status p = PS_None \<Longrightarrow>
   packet_type pkt = Connect \<Longrightarrow>
   Processor_processPacket c junk pkt err b = Processor_handle c p junk pkt err b"
  by (simp add: Processor_processPacket_def)

lemma processPacket_connected:
  "map_of (br_processors b) c = Some p \<Longrightarrow> \<not> expired (pr_packetSender p) b \<Longrightarrow> pr_status p = PS_Connected \<Longrightarrow>
   packet_type pkt \<noteq> Connect \<Longrightarrow>
   Processor_processPacket c junk pkt err b = Processor_handle c p junk pkt err b"
  by (simp add: Processor_processPacket_def)

text \<open>CONNECT: a new client gets a new session, a known one its old session if that is free.\<close>

definition accepted :: "ConnAckControlPacket" where
  "accepted = ConnAckControlPacket_new
     \<lparr>ca_connectAcknowledgeFlag := NoFlags, ca_connectReturnCode := ConnectionAccepted\<rparr>"

lemma connect_reply:
  assumes "map_of (br_processors b) c = Some p" "\<not> expired (pr_packetSender p) b" "pr_status p = PS_None"
    "fh_controlPacketType (cn_header q) = Connect"
  shows "\<exists>s e b'. Processor_processPacket c junk (PConnect q) err b = Some ((Keep, Some (PConnAck accepted)), e, b') \<and>
    SessionManager_getSession (cn_clientId q) (pr_packetSender p) c err
      (put_processor c (p\<lparr>pr_status := PS_Connected\<rparr>) b) =
      (s, e, b'\<lparr>br_processors := AList.update c (p\<lparr>pr_status := PS_Connected\<rparr>) (br_processors b)\<rparr>) \<and>
    map_of (br_processors b') c = Some (p\<lparr>pr_status := PS_Connected, pr_currentSession := s\<rparr>)"
proof -
  let ?p = "p\<lparr>pr_status := PS_Connected\<rparr>"
  let ?b = "put_processor c ?p b"
  obtain s e b1 where g: "SessionManager_getSession (cn_clientId q) (pr_packetSender p) c err ?b = (s, e, b1)"
    by (cases "SessionManager_getSession (cn_clientId q) (pr_packetSender p) c err ?b") auto
  have rest: "br_processors b1 = br_processors ?b"
    using g by (auto simp: SessionManager_getSession_def Let_def split: option.splits if_splits)
  have t: "packet_type (PConnect q) = Connect" using assms(4) by simp
  have "Processor_processPacket c junk (PConnect q) err b =
      Some ((Keep, Some (PConnAck accepted)), e, put_processor c (?p\<lparr>pr_currentSession := s\<rparr>) b1)"
    unfolding processPacket_none [OF assms(1-3) t] handle_connect_eq [OF t]
    by (simp add: doProcess_Connect_def g accepted_def)
  moreover have "b1 = (put_processor c (?p\<lparr>pr_currentSession := s\<rparr>) b1)
      \<lparr>br_processors := AList.update c ?p (br_processors b)\<rparr>"
    using rest by simp
  ultimately show ?thesis using g by (auto simp: update_conv')
qed

lemma connect_new_client:
  assumes "map_of (br_processors b) c = Some p" "\<not> expired (pr_packetSender p) b" "pr_status p = PS_None"
    "fh_controlPacketType (cn_header q) = Connect" "map_of (br_sessions b) (cn_clientId q) = None"
  shows "\<exists>b'. Processor_processPacket c junk (PConnect q) err b = Some ((Keep, Some (PConnAck accepted)), None, b') \<and>
    holder b' c = Some (length (br_heap b)) \<and>
    br_heap b' = br_heap b @ [(Session_new (cn_clientId q) c)\<lparr>se_sender := pr_packetSender p\<rparr>] \<and>
    map_of (br_sessions b') (cn_clientId q) = Some \<lparr>sw_session = length (br_heap b), sw_inUse = True\<rparr>"
proof -
  from connect_reply [OF assms(1-4), of junk err] obtain s e b' where
    r: "Processor_processPacket c junk (PConnect q) err b = Some ((Keep, Some (PConnAck accepted)), e, b')"
    "SessionManager_getSession (cn_clientId q) (pr_packetSender p) c err
      (put_processor c (p\<lparr>pr_status := PS_Connected\<rparr>) b) =
      (s, e, b'\<lparr>br_processors := AList.update c (p\<lparr>pr_status := PS_Connected\<rparr>) (br_processors b)\<rparr>)"
    "map_of (br_processors b') c = Some (p\<lparr>pr_status := PS_Connected, pr_currentSession := s\<rparr>)" by blast
  from r(2) assms(5) have e: "e = None" "s = Some (length (br_heap b))"
    and b': "b'\<lparr>br_processors := AList.update c (p\<lparr>pr_status := PS_Connected\<rparr>) (br_processors b)\<rparr> =
      Session_setSender (length (br_heap b)) (pr_packetSender p)
        ((put_processor c (p\<lparr>pr_status := PS_Connected\<rparr>) b)
          \<lparr>br_heap := br_heap b @ [Session_new (cn_clientId q) c],
           br_sessions := AList.update (cn_clientId q) \<lparr>sw_session = length (br_heap b), sw_inUse = True\<rparr>
             (br_sessions b)\<rparr>)"
    by (auto simp: SessionManager_getSession_def Let_def)
  from arg_cong [where f = br_heap, OF b'] arg_cong [where f = br_sessions, OF b']
  show ?thesis using r(1,3) e
    by (simp add: holder_def Session_setSender_def update_conv')
qed

lemma connect_resume:
  assumes "map_of (br_processors b) c = Some p" "\<not> expired (pr_packetSender p) b" "pr_status p = PS_None"
    "fh_controlPacketType (cn_header q) = Connect" "map_of (br_sessions b) (cn_clientId q) = Some w"
    "\<not> sw_inUse w"
  shows "\<exists>b'. Processor_processPacket c junk (PConnect q) err b = Some ((Keep, Some (PConnAck accepted)), None, b') \<and>
    holder b' c = Some (sw_session w) \<and>
    br_heap b' = (br_heap b)[sw_session w := (br_heap b ! sw_session w)\<lparr>se_sender := pr_packetSender p\<rparr>]"
proof -
  from connect_reply [OF assms(1-4), of junk err] obtain s e b' where
    r: "Processor_processPacket c junk (PConnect q) err b = Some ((Keep, Some (PConnAck accepted)), e, b')"
    "SessionManager_getSession (cn_clientId q) (pr_packetSender p) c err
      (put_processor c (p\<lparr>pr_status := PS_Connected\<rparr>) b) =
      (s, e, b'\<lparr>br_processors := AList.update c (p\<lparr>pr_status := PS_Connected\<rparr>) (br_processors b)\<rparr>)"
    "map_of (br_processors b') c = Some (p\<lparr>pr_status := PS_Connected, pr_currentSession := s\<rparr>)" by blast
  from r(2) assms(5,6) have e: "e = None" "s = Some (sw_session w)"
    and b': "b'\<lparr>br_processors := AList.update c (p\<lparr>pr_status := PS_Connected\<rparr>) (br_processors b)\<rparr> =
      (Session_setSender (sw_session w) (pr_packetSender p)
        (put_processor c (p\<lparr>pr_status := PS_Connected\<rparr>) b))
          \<lparr>br_sessions := AList.update (cn_clientId q) (w\<lparr>sw_inUse := True\<rparr>) (br_sessions b)\<rparr>"
    by (auto simp: SessionManager_getSession_def)
  from arg_cong [where f = br_heap, OF b'] show ?thesis using r(1,3) e
    by (simp add: holder_def Session_setSender_def)
qed

text \<open>
  A client identifier whose session another connection uses: the reply says that the
  connection is accepted all the same, the error code says it is not, and the processor is
  connected without a session.
\<close>

lemma connect_in_use:
  assumes "map_of (br_processors b) c = Some p" "\<not> expired (pr_packetSender p) b" "pr_status p = PS_None"
    "fh_controlPacketType (cn_header q) = Connect" "map_of (br_sessions b) (cn_clientId q) = Some w"
    "sw_inUse w"
  shows "\<exists>b'. Processor_processPacket c junk (PConnect q) err b =
      Some ((Keep, Some (PConnAck accepted)), Some session_in_use, b') \<and>
    map_of (br_processors b') c = Some (p\<lparr>pr_status := PS_Connected, pr_currentSession := None\<rparr>)"
proof -
  from connect_reply [OF assms(1-4), of junk err] obtain s e b' where
    "Processor_processPacket c junk (PConnect q) err b = Some ((Keep, Some (PConnAck accepted)), e, b')"
    "SessionManager_getSession (cn_clientId q) (pr_packetSender p) c err
      (put_processor c (p\<lparr>pr_status := PS_Connected\<rparr>) b) =
      (s, e, b'\<lparr>br_processors := AList.update c (p\<lparr>pr_status := PS_Connected\<rparr>) (br_processors b)\<rparr>)"
    "map_of (br_processors b') c = Some (p\<lparr>pr_status := PS_Connected, pr_currentSession := s\<rparr>)" by blast
  with assms(5,6) show ?thesis by (auto simp: SessionManager_getSession_def)
qed

text \<open>SUBSCRIBE, on the connection that created the session.\<close>

lemma fold_tree_add: "fold (\<lambda>f t. tree_add f s t) fs t = tree.add_all (map (\<lambda>f. (f, s)) fs) t"
  by (simp add: tree.add_all_def fold_map comp_def)

lemma subscribe_tree:
  assumes "map_of (br_processors b) c = Some p" "\<not> expired (pr_packetSender p) b" "pr_status p = PS_Connected"
    "fh_controlPacketType (sb_header q) = Subscribe" "pr_currentSession p = Some s"
    "se_subscriptionHandler (br_heap b ! s) = c" "broker_inv b"
    "\<And>f. f \<in> set (sb_topicFilters q) \<Longrightarrow> hash_last (filter_levels f)"
    "comonotone (set (sb_topicFilters q) \<union> set (se_subscriptions (br_heap b ! s)))"
    "asc topic_filter_less (sb_topicFilters q)" "distinct (sb_topicFilters q)"
    "asc topic_filter_less (se_subscriptions (br_heap b ! s))"
  shows "\<exists>b' a. Processor_processPacket c junk (PSubscribe q) err b = Some ((Keep, Some (PSubAck a)), err, b') \<and>
    sa_packetIdentifier a = sb_packetIdentifier q \<and> sa_qosLevels a = map tf_qos (sb_topicFilters q) \<and>
    se_subscriptions (br_heap b' ! s) = se_subscriptions (br_heap b ! s) @
      filter (\<lambda>f. f \<notin> set (se_subscriptions (br_heap b ! s))) (sb_topicFilters q) \<and>
    (\<forall>ls x. subscribed ls (br_tree b') x \<longleftrightarrow> subscribed ls (br_tree b) x \<or>
       (x = Some s \<and> (\<exists>f\<in>set (sb_topicFilters q) - set (se_subscriptions (br_heap b ! s)). filter_levels f = ls)))"
proof -
  let ?fs = "filter (\<lambda>f. f \<notin> set (se_subscriptions (br_heap b ! s))) (sb_topicFilters q)"
  have d: "findDifference (sb_topicFilters q) (se_subscriptions (br_heap b ! s)) = Some ?fs"
    by (rule findDifference_new [OF assms(9,10,12,11)])
  have "holder b c = Some s" using assms(1,5) by (simp add: holder_def)
  then have len: "s < length (br_heap b)"
    using assms(7) by (auto simp: broker_inv_def table_inv_def table_of_def)
  let ?b = "b\<lparr>br_heap := (br_heap b)[s := (br_heap b ! s)\<lparr>se_subscriptions :=
    se_subscriptions (br_heap b ! s) @ ?fs\<rparr>]\<rparr>"
  have t: "packet_type (PSubscribe q) = Subscribe" "packet_type (PSubscribe q) \<noteq> Connect" using assms(4) by simp_all
  have inv: "tree_ok (br_tree b)" "\<not> br_writeLocked b" using assms(7) by (simp_all add: broker_inv_def)
  let ?t = "tree.add_all (map (\<lambda>f. (f, Some s)) ?fs) (SubscriptionTree_clone (br_tree b))"
  have "Session_addSubscriptions s (sb_topicFilters q) b = Some (?b\<lparr>br_tree := ?t, br_writeLocked := False\<rparr>)"
    using assms(1,5,6) inv(2) d
    by (simp add: Session_addSubscriptions_def Processor_addSubscriptions_def TreeManager_getWritableTree_def
        TreeManager_setTree_def Let_def fold_tree_add [symmetric] tree_add_def [symmetric, abs_def])
  then have "\<exists>b' a. Processor_processPacket c junk (PSubscribe q) err b = Some ((Keep, Some (PSubAck a)), err, b') \<and>
    sa_packetIdentifier a = sb_packetIdentifier q \<and> sa_qosLevels a = map tf_qos (sb_topicFilters q) \<and>
    se_subscriptions (br_heap b' ! s) = se_subscriptions (br_heap b ! s) @ ?fs \<and> br_tree b' = ?t"
    unfolding processPacket_connected [OF assms(1-3) t(2)] handle_subscribe_eq [OF t(1)]
    using len by (simp add: doProcess_Subscribe_def assms(5))
  moreover have "subscribed ls ?t x \<longleftrightarrow> subscribed ls (br_tree b) x \<or>
      (x = Some s \<and> (\<exists>f\<in>set (sb_topicFilters q) - set (se_subscriptions (br_heap b ! s)). filter_levels f = ls))" for ls x
    using inv assms(8) by (auto simp: tree.add_all_holds clone_subscribed)
  ultimately show ?thesis by auto
qed

text \<open>A session whose creator is gone: the reference it keeps dangles.\<close>

lemma subscribe_stale:
  assumes "map_of (br_processors b) c = Some p" "\<not> expired (pr_packetSender p) b" "pr_status p = PS_Connected"
    "fh_controlPacketType (sb_header q) = Subscribe" "pr_currentSession p = Some s"
    "map_of (br_processors b) (se_subscriptionHandler (br_heap b ! s)) = None"
  shows "Processor_processPacket c junk (PSubscribe q) err b = None"
proof -
  have t: "packet_type (PSubscribe q) = Subscribe" "packet_type (PSubscribe q) \<noteq> Connect" using assms(4) by simp_all
  show ?thesis
    unfolding processPacket_connected [OF assms(1-3) t(2)] handle_subscribe_eq [OF t(1)]
    by (simp add: doProcess_Subscribe_def assms(5,6) Session_addSubscriptions_def
        Processor_addSubscriptions_def Let_def split: option.split)
qed

text \<open>PUBLISH: one copy for every matching session that has a live connection.\<close>

lemma deliver_to_sent:
  "deliver_to ss m b = b\<lparr>br_sent := br_sent b @
     List.map_filter (\<lambda>s. map_option (\<lambda>c. (c, PPublish m)) (Session_currentSender s b)) ss\<rparr>"
proof (induction ss arbitrary: b)
  case Nil
  then show ?case by (simp add: deliver_to_def List.map_filter_simps)
next
  case (Cons s ss)
  have sender: "Session_currentSender s' (b\<lparr>br_sent := x\<rparr>) = Session_currentSender s' b" for s' x
    by (simp add: Session_currentSender_def split: option.split)
  show ?case
  proof (cases "Session_currentSender s b")
    case None
    then have "deliver_to (s # ss) m b = deliver_to ss m b" by (simp add: deliver_to_def)
    with Cons.IH [of b] None show ?thesis by (simp add: List.map_filter_simps)
  next
    case (Some c)
    then have "deliver_to (s # ss) m b = deliver_to ss m (b\<lparr>br_sent := br_sent b @ [(c, PPublish m)]\<rparr>)"
      by (simp add: deliver_to_def)
    with Cons.IH [of "b\<lparr>br_sent := br_sent b @ [(c, PPublish m)]\<rparr>"] Some show ?thesis
      by (simp add: List.map_filter_simps sender)
  qed
qed

lemma publish_exact:
  assumes "map_of (br_processors b) c = Some p" "\<not> expired (pr_packetSender p) b" "pr_status p = PS_Connected"
    "fh_controlPacketType (pb_header m) = Publish" "broker_inv b" "unambiguous (br_tree b)"
    "fst (TopicName_validate (pb_topicName m) None)" "\<And>ls. \<not> subscribed ls (br_tree b) None"
  shows "Processor_processPacket c junk (PPublish m) err b =
    Some ((Keep, None), err, deliver_to (sorted_list_of_set
      {s. \<exists>ls. subscribed ls (br_tree b) (Some s) \<and> topic_matches ls (topic_levels (pb_topicName m))}) m b)"
proof -
  let ?t = "br_tree b" and ?ls = "topic_levels (pb_topicName m)"
  have ty: "packet_type (PPublish m) = Publish" "packet_type (PPublish m) \<noteq> Connect" using assms(4) by simp_all
  obtain r ss where match: "SubscriptionTree_match ?t (pb_topicName m) {} = (r, ss)"
    by (cases "SubscriptionTree_match ?t (pb_topicName m) {}") auto
  have "CHR ''+'' \<notin> set (pb_topicName m)" "CHR ''#'' \<notin> set (pb_topicName m)"
    using assms(7) by (simp_all add: TopicName_validate_iff)
  then have "l \<noteq> ''#'' \<and> l \<noteq> ''+''" if "l \<in> set ?ls" for l using topic_no_wildcards that by blast
  from match_exact [OF _ assms(6) this match] assms(5)
  have ss: "ss = matching ?t ?ls" "matching ?t ?ls \<noteq> {} \<Longrightarrow> r" by (auto simp: broker_inv_def)
  have none: "None \<notin> ss" using ss(1) assms(8) by (auto simp: matching_def)
  have the: "the ` ss = {s. \<exists>ls. subscribed ls ?t (Some s) \<and> topic_matches ls ?ls}"
  proof -
    have "x \<in> the ` ss \<longleftrightarrow> Some x \<in> ss" for x
    proof
      assume "x \<in> the ` ss"
      then obtain y where "y \<in> ss" "x = the y" by blast
      with none show "Some x \<in> ss" by (cases y) auto
    qed force
    then show ?thesis using ss(1) by (auto simp: matching_def)
  qed
  have "doProcess_Publish m err b = Some ((Keep, None), err, deliver_to (sorted_list_of_set (the ` ss)) m b)"
  proof (cases r)
    case True
    then show ?thesis using match none
      by (simp add: doProcess_Publish_def TreeManager_getCurrentSubscriptionTree_def)
  next
    case False
    then have "ss = {}" using ss by auto
    with False match show ?thesis
      by (simp add: doProcess_Publish_def TreeManager_getCurrentSubscriptionTree_def deliver_to_def)
  qed
  then show ?thesis
    unfolding processPacket_connected [OF assms(1-3) ty(2)] handle_publish_eq [OF ty(1)] the by simp
qed


section \<open>Running a broker\<close>

text \<open>The steps as a function, for evaluating concrete histories.\<close>

definition broker_next :: "broker_event \<Rightarrow> Broker \<Rightarrow> Broker option" where
  "broker_next e b =
     (case e of
        Open c \<Rightarrow>
          (if map_of (br_processors b) c = None \<and> c \<notin> set (br_senders b) \<and>
              list_all (\<lambda>s. se_subscriptionHandler s \<noteq> c) (br_heap b)
           then Some (open_connection c b) else None)
      | Receive c pkt \<Rightarrow> map_option (\<lambda>(r, err, b'). b') (Processor_processPacket c 0 pkt None b)
      | Destroy c \<Rightarrow> map_option (\<lambda>b'. b'\<lparr>br_senders := removeAll c (br_senders b')\<rparr>) (Processor_destroy c b)
      | RemoveSession k \<Rightarrow> Some (snd (snd (SessionManager_removeSession k None b))))"

fun broker_run :: "broker_event list \<Rightarrow> Broker \<Rightarrow> Broker option" where
  "broker_run [] b = Some b"
| "broker_run (e # es) b = (case broker_next e b of None \<Rightarrow> None | Some b' \<Rightarrow> broker_run es b')"

lemma broker_next_step: "broker_next e b = Some b' \<Longrightarrow> broker_step b e b'"
proof (cases e)
  case (RemoveSession k)
  assume "broker_next e b = Some b'"
  with RemoveSession have "SessionManager_removeSession k None b =
      (fst (SessionManager_removeSession k None b), fst (snd (SessionManager_removeSession k None b)), b')"
    by (auto simp: broker_next_def)
  then show ?thesis unfolding RemoveSession by (rule step_remove)
qed (auto simp: broker_next_def list_all_iff split: if_splits intro: broker_step.intros)

lemma broker_run_reachable: "broker_run es b = Some b' \<Longrightarrow> reachable b \<Longrightarrow> reachable b'"
  by (induction es arbitrary: b)
    (auto split: option.splits intro: reachable_step broker_next_step)

definition connect_packet :: "string \<Rightarrow> ControlPacket" where
  "connect_packet clientId = PConnect ((ConnectControlPacket_new 0)\<lparr>cn_clientId := clientId\<rparr>)"

definition subscribe_packet :: "TopicFilter list \<Rightarrow> ControlPacket" where
  "subscribe_packet fs = PSubscribe ((SubscribeControlPacket_new 0)\<lparr>sb_topicFilters := fs\<rparr>)"

definition publish_packet :: "string \<Rightarrow> u8 list \<Rightarrow> ControlPacket" where
  "publish_packet topic payload =
     PPublish ((PublishControlPacket_new 0)\<lparr>pb_topicName := topic, pb_payload := payload\<rparr>)"

text \<open>A client that comes back for its session and subscribes.\<close>

definition returning_client :: "broker_event list" where
  "returning_client =
     [Open 1, Receive 1 (connect_packet ''sensor''), Receive 1 DisconnectControlPacket_new, Destroy 1,
      Open 2, Receive 2 (connect_packet ''sensor'')]"

lemma returning_client_stale:
  "case broker_run returning_client Broker_new of None \<Rightarrow> False
   | Some b \<Rightarrow> Option.is_none
       (Processor_processPacket 2 0 (subscribe_packet [TopicFilter_of ''a/b'' AtMostOnce]) None b)"
  by code_simp

text \<open>
  If the first connection's object still exists, the subscription is entered for that
  connection's current session, which is null, and the next matching publication fails.
\<close>

definition overlapping_client :: "broker_event list" where
  "overlapping_client =
     [Open 1, Receive 1 (connect_packet ''sensor''), Receive 1 DisconnectControlPacket_new,
      Open 2, Receive 2 (connect_packet ''sensor''),
      Receive 2 (subscribe_packet [TopicFilter_of ''a/b'' AtMostOnce])]"

lemma overlapping_client_null:
  "case broker_run overlapping_client Broker_new of None \<Rightarrow> False
   | Some b \<Rightarrow> Option.is_none (Processor_processPacket 2 0 (publish_packet ''a/b'' [1]) None b)"
  by code_simp

text \<open>Two connected clients, one subscription, one publication.\<close>

definition two_clients :: "broker_event list" where
  "two_clients =
     [Open 1, Receive 1 (connect_packet ''sub''), Open 2, Receive 2 (connect_packet ''pub''),
      Receive 1 (subscribe_packet [TopicFilter_of ''a/+'' AtMostOnce])]"

end
