(* ===== verification/Mqtt_Connection.thy ===== *)
theory Mqtt_Connection
  imports Mqtt_Broker Mqtt_Serializer
begin

text \<open>
  src/examples/mqtt_broker/connection.h: the class \<open>Connection\<close>, which puts the parser, the processor and the
  serializer together. A connection reads into a buffer of 64 bytes, hands every packet to its processor, and
  is the packet sender through which the processors of all connections send to its client: packets wait
  in a queue, and one write at a time takes the next from it.

  The socket is what asio promises: an operation that was started completes later, with an error or
  without, and its handler is one step of the server. A record keeps, beside the members of the class, which
  operations are outstanding and the bytes that writes have put on the socket. The shared pointers
  in the handlers keep a connection alive: it is destroyed as soon as no operation is outstanding.
\<close>

section \<open>The connection\<close>

record Connection =
  co_writeBuf :: "u8 list"
  co_isSending :: bool
  co_sendPackets :: "ControlPacket list"
  co_mqttParser :: MQTTParser
  co_reading :: bool
  co_writes :: "nat list"
  co_sent :: "u8 list"

definition Connection_new :: "u16 \<Rightarrow> u32 \<Rightarrow> Connection" where
  "Connection_new junk16 junk32 =
     \<lparr>co_writeBuf = replicate 64 0, co_isSending = False, co_sendPackets = [],
      co_mqttParser = MQTTParser_new junk16 junk32, co_reading = False, co_writes = [], co_sent = []\<rparr>"

definition Connection_do_read :: "Connection \<Rightarrow> Connection" where
  "Connection_do_read co = co\<lparr>co_reading := True\<rparr>"

definition Connection_do_write :: "nat \<Rightarrow> Connection \<Rightarrow> Connection" where
  "Connection_do_write len co = (if 0 < len then co\<lparr>co_writes := co_writes co @ [len]\<rparr> else co)"

text \<open>Sending. \<open>None\<close> is a serializer that writes beyond its buffer.\<close>

definition doSendPackages :: "Connection \<Rightarrow> Connection option" where
  "doSendPackages co =
     (case co_sendPackets co of
        [] \<Rightarrow> Some (co\<lparr>co_isSending := False\<rparr>)
      | nextPacket # rest \<Rightarrow>
          (let co = co\<lparr>co_sendPackets := rest\<rparr> in
           (case Serializer_serialize nextPacket (co_writeBuf co) 0 None of
              None \<Rightarrow> None
            | Some (ok, buffer, len, ec) \<Rightarrow>
                (let co = co\<lparr>co_writeBuf := buffer\<rparr> in
                 if \<not> ok then Some (co\<lparr>co_isSending := False\<rparr>)
                 else Some (Connection_do_write len co)))))"

definition sendPackages :: "Connection \<Rightarrow> Connection option" where
  "sendPackages co = (if co_isSending co then Some co else doSendPackages (co\<lparr>co_isSending := True\<rparr>))"

definition addSendPacket :: "ControlPacket \<Rightarrow> Connection \<Rightarrow> Connection option" where
  "addSendPacket packet co = sendPackages (co\<lparr>co_sendPackets := co_sendPackets co @ [packet]\<rparr>)"

text \<open>The handler of \<open>async_write\<close>; the oldest outstanding write completes first.\<close>

definition handle_written :: "bool \<Rightarrow> Connection \<Rightarrow> Connection option" where
  "handle_written ok co =
     (case co_writes co of
        [] \<Rightarrow> None
      | len # rest \<Rightarrow>
          (let co = co\<lparr>co_writes := rest\<rparr> in
           if ok then doSendPackages (co\<lparr>co_sent := co_sent co @ take len (co_writeBuf co)\<rparr>)
           else Some co))"


section \<open>The server\<close>

record server =
  sv_broker :: Broker
  sv_connections :: "(nat \<times> Connection) list"

definition server_new :: server where
  "server_new = \<lparr>sv_broker = Broker_new, sv_connections = []\<rparr>"

definition put_connection :: "nat \<Rightarrow> Connection \<Rightarrow> server \<Rightarrow> server" where
  "put_connection c co sv = sv\<lparr>sv_connections := AList.update c co (sv_connections sv)\<rparr>"

text \<open>The calls of \<open>addSendPacket\<close> that one packet led to, in their order.\<close>

fun forward :: "(nat \<times> ControlPacket) list \<Rightarrow> (nat \<times> Connection) list \<Rightarrow> (nat \<times> Connection) list option" where
  "forward [] cs = Some cs"
| "forward ((c, packet) # ps) cs =
     (case map_of cs c of
        None \<Rightarrow> None
      | Some co \<Rightarrow>
          (case addSendPacket packet co of
             None \<Rightarrow> None
           | Some co \<Rightarrow> forward ps (AList.update c co cs)))"

text \<open>
  The branch of \<open>handle_read\<close> for a complete packet: whether the loop goes on, and the server. What the
  processor sent to the connections is what it added to \<open>br_sent\<close>.
\<close>

definition process_packet :: "u16 \<Rightarrow> nat \<Rightarrow> Connection \<Rightarrow> server \<Rightarrow> (bool \<times> server) option" where
  "process_packet junk c co sv =
     (case MQTTParser_consumePacket (co_mqttParser co) of
        (None, parser) \<Rightarrow> None
      | (Some packet, parser) \<Rightarrow>
          (let sv = put_connection c (co\<lparr>co_mqttParser := parser\<rparr>) sv;
               b = sv_broker sv
           in case Processor_processPacket c junk packet None b of
                None \<Rightarrow> None
              | Some ((state, reply), err, b') \<Rightarrow>
                  (case forward (drop (length (br_sent b)) (br_sent b') @
                        (case reply of None \<Rightarrow> [] | Some r \<Rightarrow> [(c, r)])) (sv_connections sv) of
                     None \<Rightarrow> None
                   | Some cs \<Rightarrow>
                       Some (err = None \<and> state \<noteq> Close, \<lparr>sv_broker = b', sv_connections = cs\<rparr>))))"

lemma feed_shorter:
  assumes "feed parse p (b # bs) err = (r, err', p', rest)"
  shows "length rest < length (b # bs)"
proof -
  obtain r1 e1 p1 where s: "parse p b err = (r1, e1, p1)" by (cases "parse p b err") auto
  show ?thesis
  proof (cases "isIndeterminate r1")
    case True
    with assms s have "feed parse p1 bs e1 = (r, err', p', rest)" by (simp add: feed_indet)
    from feed_used [OF this] show ?thesis by auto
  next
    case False
    with assms s show ?thesis by (simp add: feed_stop)
  qed
qed

text \<open>The loop of \<open>handle_read\<close> over the bytes of one read.\<close>

function read_packets :: "string \<Rightarrow> u16 \<Rightarrow> nat \<Rightarrow> u8 list \<Rightarrow> server \<Rightarrow> (bool \<times> server) option" where
  "read_packets uuid junk c [] sv = Some (True, sv)"
| "read_packets uuid junk c (b # bs) sv =
     (case map_of (sv_connections sv) c of
        None \<Rightarrow> None
      | Some co \<Rightarrow>
          (case feed (MQTTParser_parse uuid) (co_mqttParser co) (b # bs) None of
             (ret, err, parser, rest) \<Rightarrow>
               (let co = co\<lparr>co_mqttParser := parser\<rparr> in
                if isFalse ret \<or> err \<noteq> None then Some (False, put_connection c co sv)
                else if isTrue ret
                then (case process_packet junk c co sv of
                        None \<Rightarrow> None
                      | Some (go_on, sv) \<Rightarrow>
                          (if go_on then read_packets uuid junk c rest sv else Some (False, sv)))
                else read_packets uuid junk c rest (put_connection c co sv))))"
  by pat_completeness auto
termination
  by (relation "measure (\<lambda>(uuid, junk, c, bs, sv). length bs)") (auto dest: feed_shorter [OF sym])

declare read_packets.simps(2) [simp del]

definition change_connection :: "nat \<Rightarrow> (Connection \<Rightarrow> Connection) \<Rightarrow> server \<Rightarrow> server" where
  "change_connection c f sv =
     (case map_of (sv_connections sv) c of None \<Rightarrow> sv | Some co \<Rightarrow> put_connection c (f co) sv)"

definition handle_read :: "string \<Rightarrow> u16 \<Rightarrow> nat \<Rightarrow> u8 list \<Rightarrow> server \<Rightarrow> server option" where
  "handle_read uuid junk c bytes sv =
     (case read_packets uuid junk c bytes sv of
        None \<Rightarrow> None
      | Some (go_on, sv) \<Rightarrow> Some (if go_on then change_connection c Connection_do_read sv else sv))"

text \<open>The last shared pointer goes away with the last outstanding operation.\<close>

definition release :: "nat \<Rightarrow> server \<Rightarrow> server option" where
  "release c sv =
     (case map_of (sv_connections sv) c of
        None \<Rightarrow> Some sv
      | Some co \<Rightarrow>
          (if co_reading co \<or> co_writes co \<noteq> [] then Some sv
           else (case Processor_destroy c (sv_broker sv) of
                   None \<Rightarrow> None
                 | Some b \<Rightarrow>
                     Some \<lparr>sv_broker = b\<lparr>br_senders := removeAll c (br_senders b)\<rparr>,
                           sv_connections = AList.delete c (sv_connections sv)\<rparr>)))"

text \<open>
  The events: a client is accepted, and an outstanding operation completes. What the environment decides is
  part of the event: the bytes that were read, the identifier that the generator would give to
  a client without one, and the contents of uninitialised members. \<open>None\<close> is an event that cannot occur or
  one whose handler does not return properly.
\<close>

datatype server_event =
    Accept nat u16 u32
  | Data nat string u16 "u8 list"
  | ReadError nat
  | Written nat bool

definition readBuf_size :: nat where
  "readBuf_size = 64"

fun server_next :: "server_event \<Rightarrow> server \<Rightarrow> server option" where
  "server_next (Accept c junk16 junk32) sv =
     (if map_of (sv_connections sv) c = None \<and> map_of (br_processors (sv_broker sv)) c = None \<and>
         c \<notin> set (br_senders (sv_broker sv)) \<and> list_all (\<lambda>s. se_subscriptionHandler s \<noteq> c) (br_heap (sv_broker sv))
      then Some (put_connection c (Connection_do_read (Connection_new junk16 junk32))
             (sv\<lparr>sv_broker := open_connection c (sv_broker sv)\<rparr>))
      else None)"
| "server_next (Data c uuid junk bytes) sv =
     (case map_of (sv_connections sv) c of
        None \<Rightarrow> None
      | Some co \<Rightarrow>
          (if co_reading co \<and> bytes \<noteq> [] \<and> length bytes \<le> readBuf_size
           then (case handle_read uuid junk c bytes (put_connection c (co\<lparr>co_reading := False\<rparr>) sv) of
                   None \<Rightarrow> None
                 | Some sv \<Rightarrow> release c sv)
           else None))"
| "server_next (ReadError c) sv =
     (case map_of (sv_connections sv) c of
        None \<Rightarrow> None
      | Some co \<Rightarrow>
          (if co_reading co then release c (put_connection c (co\<lparr>co_reading := False\<rparr>) sv) else None))"
| "server_next (Written c ok) sv =
     (case map_of (sv_connections sv) c of
        None \<Rightarrow> None
      | Some co \<Rightarrow>
          (case handle_written ok co of
             None \<Rightarrow> None
           | Some co \<Rightarrow> release c (put_connection c co sv)))"

fun server_run :: "server_event list \<Rightarrow> server \<Rightarrow> server option" where
  "server_run [] sv = Some sv"
| "server_run (e # es) sv = (case server_next e sv of None \<Rightarrow> None | Some sv \<Rightarrow> server_run es sv)"

end
