(* ===== verification/Mqtt_Server.thy ===== *)
theory Mqtt_Server
  imports Mqtt_Connection
begin

text \<open>
  What the parts of the MQTT broker example promise together. A connection is a queue of packets in front of a
  byte stream, stated as a locale and interpreted on \<open>addSendPacket\<close> and the write handler; every event
  of the server is a run of broker steps, so the invariants of Mqtt_Broker hold in the server; and how
  the bytes of a client are cut into reads does not matter.
\<close>

section \<open>Sending in order\<close>

text \<open>The packets that the broker sends, within the lengths that the serializer writes correctly.\<close>

fun sendable :: "ControlPacket \<Rightarrow> bool" where
  "sendable (PConnAck p) \<longleftrightarrow> well_typed (PConnAck p)"
| "sendable (PPublish p) \<longleftrightarrow> well_typed (PPublish p) \<and>
     length (publish_body AtMostOnce (pb_topicName p) 0 (pb_payload p)) < 2 ^ 28"
| "sendable (PSubAck p) \<longleftrightarrow> well_typed (PSubAck p) \<and>
     length (suback_body (sa_packetIdentifier p) (sa_qosLevels p)) < 128"
| "sendable (PPingResp h) \<longleftrightarrow> well_typed (PPingResp h)"
| "sendable p \<longleftrightarrow> False"

fun wire_bytes :: "ControlPacket \<Rightarrow> u8 list" where
  "wire_bytes (PConnAck p) = packet_bytes Connack 0
     [ConnectAcknowledgeFlags_byte (ca_connectAcknowledgeFlag p), ConnectReturnCode_byte (ca_connectReturnCode p)]"
| "wire_bytes (PPublish p) = packet_bytes Publish 0 (publish_body AtMostOnce (pb_topicName p) 0 (pb_payload p))"
| "wire_bytes (PSubAck p) = packet_bytes Suback 0 (suback_body (sa_packetIdentifier p) (sa_qosLevels p))"
| "wire_bytes (PPingResp h) = packet_bytes Pingresp 0 []"
| "wire_bytes p = []"

lemma take_bytes_pos: "take k buf = packet_bytes t f body \<Longrightarrow> 0 < k"
  by (cases k) (auto dest: sym)

lemma sendable_serialized:
  assumes "sendable p" "Serializer_serialize p buf 0 None = Some (ok, buf', k, ec)"
  shows "ok" "take k buf' = wire_bytes p" "0 < k"
proof -
  have "ok \<and> take k buf' = wire_bytes p \<and> 0 < k"
  proof (cases p)
    case (PConnAck c)
    with assms show ?thesis using serialize_small_packets(1) [of c buf]
      by (auto simp: Serializer_serialize_def written_def)
  next
    case (PPublish m)
    define body where "body = publish_body AtMostOnce (pb_topicName m) 0 (pb_payload m)"
    have b: "length body < 2 ^ 28" using assms(1) PPublish by (simp add: body_def)
    then have n: "length body < 2 ^ 32 - 2" by simp
    have s: "serialize_publish m buf = Some (buf', k)" and ok: ok
      using assms PPublish by (auto simp: Serializer_serialize_def written_def)
    have "take k buf' = packet_bytes Publish 0 body"
      by (rule emits) (use s in \<open>simp add: serialize_publish_eq [OF body_def n]\<close>)
    with ok take_bytes_pos [OF this] PPublish show ?thesis by (simp add: body_def)
  next
    case (PSubAck m)
    define body where "body = suback_body (sa_packetIdentifier m) (sa_qosLevels m)"
    have n: "length body < 128" using assms(1) PSubAck by (simp add: body_def)
    have s: "serialize_suback m buf = Some (buf', k)" and ok: ok
      using assms PSubAck by (auto simp: Serializer_serialize_def written_def)
    have t: "take k buf' = packet_bytes Suback 0 body" by (rule serialize_suback_emits [OF body_def n s])
    from t take_bytes_pos [OF t] PSubAck ok show ?thesis by (simp add: body_def)
  next
    case (PPingResp h)
    with assms show ?thesis using serialize_small_packets(2) [of h buf]
      by (auto simp: Serializer_serialize_def written_def)
  qed (use assms in simp_all)
  then show ok "take k buf' = wire_bytes p" "0 < k" by simp_all
qed

text \<open>
  A sender takes packets and, between them, completions of writes. Its stream is what it has sent, is sending and
  will send.
\<close>

datatype 'p send_event = Add 'p | Completed

fun run_sends :: "('p \<Rightarrow> 's \<Rightarrow> 's option) \<Rightarrow> ('s \<Rightarrow> 's option) \<Rightarrow> 'p send_event list \<Rightarrow> 's \<Rightarrow> 's option" where
  "run_sends add complete [] s = Some s"
| "run_sends add complete (Add p # es) s =
     (case add p s of None \<Rightarrow> None | Some s \<Rightarrow> run_sends add complete es s)"
| "run_sends add complete (Completed # es) s =
     (case complete s of None \<Rightarrow> None | Some s \<Rightarrow> run_sends add complete es s)"

fun added :: "'p send_event list \<Rightarrow> 'p list" where
  "added [] = []"
| "added (Add p # es) = p # added es"
| "added (Completed # es) = added es"

locale ordered_sender =
  fixes add :: "'p \<Rightarrow> 's \<Rightarrow> 's option" and complete :: "'s \<Rightarrow> 's option"
    and valid :: "'s \<Rightarrow> bool" and good :: "'p \<Rightarrow> bool"
    and stream :: "'s \<Rightarrow> u8 list" and encoding :: "'p \<Rightarrow> u8 list"
  assumes add_valid: "valid s \<Longrightarrow> good p \<Longrightarrow> add p s = Some s' \<Longrightarrow> valid s'"
    and add_stream: "valid s \<Longrightarrow> good p \<Longrightarrow> add p s = Some s' \<Longrightarrow> stream s' = stream s @ encoding p"
    and complete_valid: "valid s \<Longrightarrow> complete s = Some s' \<Longrightarrow> valid s'"
    and complete_stream: "valid s \<Longrightarrow> complete s = Some s' \<Longrightarrow> stream s' = stream s"
begin

lemma run_in_order:
  "valid s \<Longrightarrow> list_all good (added es) \<Longrightarrow> run_sends add complete es s = Some s' \<Longrightarrow>
   valid s' \<and> stream s' = stream s @ concat (map encoding (added es))"
proof (induction es arbitrary: s rule: added.induct)
  case (2 p es)
  then show ?case
    using add_valid [of s p] add_stream [of s p] by (auto split: option.splits)
next
  case (3 es)
  then show ?case
    using complete_valid [of s] complete_stream [of s] by (auto split: option.splits)
qed simp

end

definition outstanding :: "Connection \<Rightarrow> u8 list" where
  "outstanding co = (case co_writes co of [] \<Rightarrow> [] | n # ns \<Rightarrow> take n (co_writeBuf co))"

definition send_stream :: "Connection \<Rightarrow> u8 list" where
  "send_stream co = co_sent co @ outstanding co @ concat (map wire_bytes (co_sendPackets co))"

definition send_inv :: "Connection \<Rightarrow> bool" where
  "send_inv co \<longleftrightarrow> length (co_writes co) = (if co_isSending co then 1 else 0) \<and>
     (\<not> co_isSending co \<longrightarrow> co_sendPackets co = []) \<and> list_all sendable (co_sendPackets co)"

lemma doSendPackages_stream:
  assumes "doSendPackages co = Some co'" "co_isSending co" "co_writes co = []" "list_all sendable (co_sendPackets co)"
  shows "send_inv co' \<and> send_stream co' = send_stream co"
proof (cases "co_sendPackets co")
  case Nil
  with assms show ?thesis
    by (auto simp: doSendPackages_def send_inv_def send_stream_def outstanding_def)
next
  case (Cons p ps)
  then obtain ok buf k ec where s: "Serializer_serialize p (co_writeBuf co) 0 None = Some (ok, buf, k, ec)"
    using assms(1) by (auto simp: doSendPackages_def split: option.splits)
  have p: "sendable p" using assms(4) Cons by simp
  note r = sendable_serialized [OF p s]
  from assms Cons s r show ?thesis
    by (auto simp: doSendPackages_def send_inv_def send_stream_def outstanding_def Connection_do_write_def)
qed

lemma addSendPacket_stream:
  assumes "send_inv co" "sendable p" "addSendPacket p co = Some co'"
  shows "send_inv co' \<and> send_stream co' = send_stream co @ wire_bytes p"
proof (cases "co_isSending co")
  case True
  with assms show ?thesis
    by (auto simp: addSendPacket_def sendPackages_def send_inv_def send_stream_def outstanding_def
        split: list.splits)
next
  case False
  let ?co = "co\<lparr>co_sendPackets := co_sendPackets co @ [p], co_isSending := True\<rparr>"
  have "doSendPackages ?co = Some co'" using assms(3) False by (simp add: addSendPacket_def sendPackages_def)
  from doSendPackages_stream [OF this] assms False show ?thesis
    by (auto simp: send_inv_def send_stream_def outstanding_def)
qed

lemma handle_written_stream:
  assumes "send_inv co" "handle_written True co = Some co'"
  shows "send_inv co' \<and> send_stream co' = send_stream co"
proof -
  obtain n where w: "co_writes co = [n]" and b: "co_isSending co"
    using assms by (auto simp: handle_written_def send_inv_def length_Suc_conv split: list.splits if_splits)
  let ?co = "co\<lparr>co_writes := [], co_sent := co_sent co @ take n (co_writeBuf co)\<rparr>"
  have "doSendPackages ?co = Some co'" using assms(2) w by (simp add: handle_written_def)
  from doSendPackages_stream [OF this] assms(1) w b show ?thesis
    by (auto simp: send_inv_def send_stream_def outstanding_def)
qed

interpretation connection: ordered_sender addSendPacket "handle_written True" send_inv sendable send_stream wire_bytes
  by unfold_locales (use addSendPacket_stream handle_written_stream in blast)+

lemma send_inv_new [simp]: "send_inv (Connection_new j16 j32)" "send_stream (Connection_new j16 j32) = []"
  by (simp_all add: send_inv_def send_stream_def outstanding_def Connection_new_def)


section \<open>The server and the broker\<close>

lemma processPacket_frame:
  assumes "Processor_processPacket c junk pkt err b = Some (r, e, b')" "broker_inv b"
  shows "br_senders b' = br_senders b \<and>
    (\<forall>d. map_option pr_packetSender (map_of (br_processors b') d) = map_option pr_packetSender (map_of (br_processors b) d))"
proof -
  obtain p where p: "map_of (br_processors b) c = Some p"
    using assms(1) by (auto simp: Processor_processPacket_def split: option.splits)
  consider "b' = b" | (handled) "Processor_handle c p junk pkt err b = Some (r, e, b')"
    using assms(1) p by (auto simp: Processor_processPacket_def split: ProcessorStatus.splits if_splits)
  then show ?thesis
  proof cases
    case handled
    consider (connect) "packet_type pkt = Connect" | (disconnect) "packet_type pkt = Disconnect"
      | (subscribe) "packet_type pkt = Subscribe" | (publish) "packet_type pkt = Publish"
      | (rest) "packet_type pkt \<notin> {Connect, Disconnect, Subscribe, Publish}" by blast
    then show ?thesis
    proof cases
      case connect
      then show ?thesis using handled p unfolding handle_connect_eq [OF connect]
        by (auto simp: doProcess_Connect_def update_conv' SessionManager_getSession_def Let_def
            split: ControlPacket.splits prod.splits option.splits if_splits)
    next
      case disconnect
      then show ?thesis using handled p unfolding handle_disconnect_eq [OF disconnect]
        by (auto simp: doProcess_Disconnect_def update_conv' SessionManager_returnSession_def Let_def
            split: ControlPacket.splits prod.splits option.splits if_splits)
    next
      case subscribe
      then obtain s fs where s: "Session_addSubscriptions s fs b = Some b'"
        using handled unfolding handle_subscribe_eq [OF subscribe]
        by (fastforce simp: doProcess_Subscribe_def split: ControlPacket.splits option.splits)
      then have "br_senders b' = br_senders b"
        by (auto simp: Session_addSubscriptions_def Processor_addSubscriptions_def TreeManager_getWritableTree_def
            TreeManager_setTree_def Let_def split: option.splits if_splits)
      then show ?thesis using session_addSubscriptions_frame [OF s assms(2)] by simp
    next
      case publish
      then obtain q where "b' = b \<or> (\<exists>ss. b' = deliver_to ss q b)"
        using handled unfolding handle_publish_eq [OF publish]
        by (auto simp: doProcess_Publish_def split: ControlPacket.splits prod.splits if_splits)
      then show ?thesis using deliver_to_frame by auto
    next
      case rest
      then show ?thesis using handled
        by (auto simp: Processor_handle_def doProcess_Pingreq_def Let_def
            split: ControlPacketType.splits ControlPacket.splits)
    qed
  qed simp
qed

text \<open>A connection writes one packet at a time, and lives as long as an operation is outstanding.\<close>

definition one_write :: "Connection \<Rightarrow> bool" where
  "one_write co \<longleftrightarrow> length (co_writes co) \<le> 1 \<and> (co_writes co \<noteq> [] \<longrightarrow> co_isSending co)"

definition in_use :: "Connection \<Rightarrow> bool" where
  "in_use co \<longleftrightarrow> co_reading co \<or> co_writes co \<noteq> []"

lemma doSendPackages_frame:
  assumes "doSendPackages co = Some co'" "co_isSending co" "co_writes co = []"
  shows "one_write co' \<and> co_reading co' = co_reading co \<and> co_mqttParser co' = co_mqttParser co"
  using assms
  by (auto simp: doSendPackages_def one_write_def Connection_do_write_def Let_def
      split: list.splits option.splits if_splits)

lemma addSendPacket_frame:
  assumes "addSendPacket p co = Some co'" "one_write co"
  shows "one_write co' \<and> co_reading co' = co_reading co \<and> co_mqttParser co' = co_mqttParser co \<and>
    (co_writes co \<noteq> [] \<longrightarrow> co_writes co' = co_writes co)"
proof (cases "co_isSending co")
  case True
  with assms show ?thesis by (auto simp: addSendPacket_def sendPackages_def one_write_def)
next
  case False
  let ?co = "co\<lparr>co_sendPackets := co_sendPackets co @ [p], co_isSending := True\<rparr>"
  have "doSendPackages ?co = Some co'" using assms(1) False by (simp add: addSendPacket_def sendPackages_def)
  from doSendPackages_frame [OF this] assms False show ?thesis by (auto simp: one_write_def)
qed

lemma handle_written_frame:
  assumes "handle_written ok co = Some co'" "one_write co"
  shows "one_write co'"
proof -
  obtain n where w: "co_writes co = [n]" and b: "co_isSending co"
    using assms by (auto simp: handle_written_def one_write_def split: list.splits)
  let ?co = "co\<lparr>co_writes := [], co_sent := co_sent co @ take n (co_writeBuf co)\<rparr>"
  have "doSendPackages ?co = Some co' \<or> co' = co\<lparr>co_writes := []\<rparr>"
    using assms(1) w by (auto simp: handle_written_def Let_def split: if_splits)
  with doSendPackages_frame [of ?co co'] b show ?thesis by (auto simp: one_write_def)
qed

lemma forward_frame:
  assumes "forward ps cs = Some cs'" "\<And>d co. map_of cs d = Some co \<Longrightarrow> one_write co"
  shows "case map_of cs d of
      None \<Rightarrow> map_of cs' d = None
    | Some co \<Rightarrow> (\<exists>co'. map_of cs' d = Some co' \<and> one_write co' \<and> co_reading co' = co_reading co \<and>
        co_mqttParser co' = co_mqttParser co \<and> (in_use co \<longrightarrow> in_use co'))"
  using assms
proof (induction ps cs rule: forward.induct)
  case (1 cs)
  then show ?case by (auto split: option.splits)
next
  case (2 c p ps cs)
  then obtain co co1 where c: "map_of cs c = Some co" "addSendPacket p co = Some co1"
    and f: "forward ps (AList.update c co1 cs) = Some cs'" by (auto split: option.splits)
  note fr = addSendPacket_frame [OF c(2) "2.prems"(2) [OF c(1)]]
  have ow: "map_of (AList.update c co1 cs) d' = Some x \<Longrightarrow> one_write x" for d' x
    using fr "2.prems"(2) [of d' x] by (auto simp: update_conv' split: if_splits)
  have ih: "case map_of (AList.update c co1 cs) d of
      None \<Rightarrow> map_of cs' d = None
    | Some co \<Rightarrow> (\<exists>co'. map_of cs' d = Some co' \<and> one_write co' \<and> co_reading co' = co_reading co \<and>
        co_mqttParser co' = co_mqttParser co \<and> (in_use co \<longrightarrow> in_use co'))"
    by (rule "2.IH" [OF c f]) (rule ow)
  have "in_use co \<longrightarrow> in_use co1" using fr by (auto simp: in_use_def)
  with ih fr c(1) show ?case by (cases "d = c") (auto simp: update_conv' split: option.splits)
qed

text \<open>The invariant, while the handlers of the connections in \<open>busy\<close> run.\<close>

definition server_inv :: "nat set \<Rightarrow> server \<Rightarrow> bool" where
  "server_inv busy sv \<longleftrightarrow> reachable (sv_broker sv) \<and>
     (\<forall>c. (map_of (sv_connections sv) c = None) = (map_of (br_processors (sv_broker sv)) c = None)) \<and>
     (\<forall>c. (map_of (sv_connections sv) c = None) = (c \<notin> set (br_senders (sv_broker sv)))) \<and>
     (\<forall>c p. map_of (br_processors (sv_broker sv)) c = Some p \<longrightarrow> pr_packetSender p = Some c) \<and>
     (\<forall>c co. map_of (sv_connections sv) c = Some co \<longrightarrow> one_write co \<and> (c \<in> busy \<or> in_use co))"

lemma server_invI:
  assumes "reachable (sv_broker sv)"
    "\<And>c. (map_of (sv_connections sv) c = None) = (map_of (br_processors (sv_broker sv)) c = None)"
    "\<And>c. (map_of (sv_connections sv) c = None) = (c \<notin> set (br_senders (sv_broker sv)))"
    "\<And>c p. map_of (br_processors (sv_broker sv)) c = Some p \<Longrightarrow> pr_packetSender p = Some c"
    "\<And>c co. map_of (sv_connections sv) c = Some co \<Longrightarrow> one_write co"
    "\<And>c co. map_of (sv_connections sv) c = Some co \<Longrightarrow> c \<notin> busy \<Longrightarrow> in_use co"
  shows "server_inv busy sv"
  using assms unfolding server_inv_def by blast

lemma server_invD:
  assumes "server_inv busy sv"
  shows "reachable (sv_broker sv)"
    "(map_of (sv_connections sv) c = None) = (map_of (br_processors (sv_broker sv)) c = None)"
    "(map_of (sv_connections sv) c = None) = (c \<notin> set (br_senders (sv_broker sv)))"
    "map_of (br_processors (sv_broker sv)) c = Some p \<Longrightarrow> pr_packetSender p = Some c"
    "map_of (sv_connections sv) c = Some co \<Longrightarrow> one_write co"
    "map_of (sv_connections sv) c = Some co \<Longrightarrow> c \<notin> busy \<Longrightarrow> in_use co"
  using assms unfolding server_inv_def by blast+

lemma put_connection_simps [simp]:
  "map_of (sv_connections (put_connection c co sv)) = (map_of (sv_connections sv))(c \<mapsto> co)"
  "sv_broker (put_connection c co sv) = sv_broker sv"
  by (simp_all add: put_connection_def update_conv')

lemma put_connection_inv:
  assumes "server_inv busy sv" "map_of (sv_connections sv) c = Some co0" "one_write co" "c \<in> busy \<or> in_use co"
  shows "server_inv busy (put_connection c co sv)"
proof (rule server_invI)
  note inv = server_invD [OF assms(1)]
  fix d
  show "reachable (sv_broker (put_connection c co sv))" using inv(1) by simp
  show "(map_of (sv_connections (put_connection c co sv)) d = None) =
      (map_of (br_processors (sv_broker (put_connection c co sv))) d = None)"
    using inv(2) [of d] assms(2) by auto
  show "(map_of (sv_connections (put_connection c co sv)) d = None) =
      (d \<notin> set (br_senders (sv_broker (put_connection c co sv))))"
    using inv(3) [of d] assms(2) by auto
  show "pr_packetSender p = Some d" if "map_of (br_processors (sv_broker (put_connection c co sv))) d = Some p" for p
    using inv(4) that by simp
  show "one_write x" if "map_of (sv_connections (put_connection c co sv)) d = Some x" for x
    using inv(5) [of d x] that assms(3) by (auto split: if_splits)
  show "in_use x" if "map_of (sv_connections (put_connection c co sv)) d = Some x" "d \<notin> busy" for x
    using inv(6) [of d x] that assms(4) by (auto split: if_splits)
qed

lemma process_packet_elim:
  assumes "process_packet junk c co sv = Some (go_on, sv')"
  obtains pkt parser state reply e b' cs where
    "MQTTParser_consumePacket (co_mqttParser co) = (Some pkt, parser)"
    "Processor_processPacket c junk pkt None (sv_broker sv) = Some ((state, reply), e, b')"
    "forward (drop (length (br_sent (sv_broker sv))) (br_sent b') @ (case reply of None \<Rightarrow> [] | Some x \<Rightarrow> [(c, x)]))
       (sv_connections (put_connection c (co\<lparr>co_mqttParser := parser\<rparr>) sv)) = Some cs"
    "sv' = \<lparr>sv_broker = b', sv_connections = cs\<rparr>" "go_on \<longleftrightarrow> e = None \<and> state \<noteq> Close"
proof -
  obtain pkt parser where q: "MQTTParser_consumePacket (co_mqttParser co) = (Some pkt, parser)"
    using assms by (auto simp: process_packet_def split: prod.splits option.splits)
  show ?thesis using assms q that [OF q] by (auto simp: process_packet_def Let_def split: option.splits)
qed

lemma process_packet_inv:
  assumes "process_packet junk c co sv = Some (go_on, sv')" "server_inv busy sv" "c \<in> busy"
    "map_of (sv_connections sv) c = Some co0" "one_write co"
  shows "server_inv busy sv' \<and> map_option co_reading (map_of (sv_connections sv') c) = Some (co_reading co)"
proof -
  obtain pkt parser state reply e b' cs where
    p: "Processor_processPacket c junk pkt None (sv_broker sv) = Some ((state, reply), e, b')"
    and f: "forward (drop (length (br_sent (sv_broker sv))) (br_sent b') @ (case reply of None \<Rightarrow> [] | Some x \<Rightarrow> [(c, x)]))
       (sv_connections (put_connection c (co\<lparr>co_mqttParser := parser\<rparr>) sv)) = Some cs"
    and sv': "sv' = \<lparr>sv_broker = b', sv_connections = cs\<rparr>"
    by (rule process_packet_elim [OF assms(1)])
  obtain sv1 where sv1_def: "sv1 = put_connection c (co\<lparr>co_mqttParser := parser\<rparr>) sv" by simp
  have b1: "sv_broker sv = sv_broker sv1" by (simp add: sv1_def)
  have i1: "server_inv busy sv1"
    unfolding sv1_def by (rule put_connection_inv [OF assms(2,4)]) (use assms(3,5) in \<open>simp_all add: one_write_def\<close>)
  note p = p [unfolded b1] and f = f [folded sv1_def, unfolded b1]
  note inv = server_invD [OF i1]
  note frame = processPacket_frame [OF p reachable_inv [OF inv(1)]]
  have fwd: "case map_of (sv_connections sv1) d of
      None \<Rightarrow> map_of cs d = None
    | Some co \<Rightarrow> (\<exists>co'. map_of cs d = Some co' \<and> one_write co' \<and> co_reading co' = co_reading co \<and>
        co_mqttParser co' = co_mqttParser co \<and> (in_use co \<longrightarrow> in_use co'))" for d
    by (rule forward_frame [OF f]) (rule inv(5))
  have keys: "(map_of cs d = None) = (map_of (sv_connections sv1) d = None)" for d
    using fwd [of d] by (auto split: option.splits)
  have procs: "(map_of (br_processors b') d = None) = (map_of (br_processors (sv_broker sv1)) d = None)" for d
    using frame by (metis map_option_is_None)
  have "server_inv busy \<lparr>sv_broker = b', sv_connections = cs\<rparr>"
  proof (rule server_invI, unfold server.select_convs)
    fix d
    show "reachable b'" by (rule reachable_step [OF inv(1) step_receive [OF p]])
    show "(map_of cs d = None) = (map_of (br_processors b') d = None)" using keys procs inv(2) by blast
    show "(map_of cs d = None) = (d \<notin> set (br_senders b'))" using keys frame inv(3) by simp
    show "pr_packetSender x = Some d" if "map_of (br_processors b') d = Some x" for x
    proof -
      have "map_option pr_packetSender (map_of (br_processors (sv_broker sv1)) d) = Some (pr_packetSender x)"
        using frame that by (metis option.simps(9))
      then show ?thesis using inv(4) [of d] by auto
    qed
    show "one_write x" if "map_of cs d = Some x" for x using fwd [of d] that by (auto split: option.splits)
    show "in_use x" if "map_of cs d = Some x" "d \<notin> busy" for x
      using fwd [of d] that inv(6) [of d] by (auto split: option.splits)
  qed
  moreover have "map_option co_reading (map_of cs c) = Some (co_reading co)"
    using fwd [of c] by (auto simp: sv1_def split: option.splits)
  ultimately show ?thesis using sv' by simp
qed

lemma read_packets_inv:
  "read_packets uuid junk c bs sv = Some (go_on, sv') \<Longrightarrow> server_inv busy sv \<Longrightarrow> c \<in> busy \<Longrightarrow>
   map_option co_reading (map_of (sv_connections sv) c) = Some r \<Longrightarrow>
   server_inv busy sv' \<and> map_option co_reading (map_of (sv_connections sv') c) = Some r"
proof (induction uuid junk c bs sv rule: read_packets.induct)
  case (2 uuid junk c b bs sv)
  obtain co where co: "map_of (sv_connections sv) c = Some co" and r: "co_reading co = r" using "2.prems"(4) by auto
  obtain ret err parser rest where f: "feed (MQTTParser_parse uuid) (co_mqttParser co) (b # bs) None = (ret, err, parser, rest)"
    by (cases "feed (MQTTParser_parse uuid) (co_mqttParser co) (b # bs) None") auto
  let ?co = "co\<lparr>co_mqttParser := parser\<rparr>"
  have ow: "one_write ?co" using server_invD(5) [OF "2.prems"(2) co] by (simp add: one_write_def)
  have put: "server_inv busy (put_connection c ?co sv)"
    by (rule put_connection_inv [OF "2.prems"(2) co ow]) (use "2.prems"(3) in simp)
  note step = "2.prems"(1) [unfolded read_packets.simps(2) co option.case f prod.case Let_def]
  consider (stop) "isFalse ret \<or> err \<noteq> None" | (packet) "\<not> (isFalse ret \<or> err \<noteq> None)" "isTrue ret"
    | (more) "\<not> (isFalse ret \<or> err \<noteq> None)" "\<not> isTrue ret" by blast
  then show ?case
  proof cases
    case stop
    with step put r show ?thesis by auto
  next
    case packet
    with step obtain g sv1 where p: "process_packet junk c ?co sv = Some (g, sv1)"
      by (auto split: option.splits)
    from process_packet_inv [OF p "2.prems"(2,3) co ow] r
    have i: "server_inv busy sv1" "map_option co_reading (map_of (sv_connections sv1) c) = Some r" by simp_all
    show ?thesis
    proof (cases g)
      case True
      with step packet p have "read_packets uuid junk c rest sv1 = Some (go_on, sv')" by simp
      from "2.IH"(1) [OF co f [symmetric] refl refl refl packet p refl True this i(1) "2.prems"(3) i(2)]
      show ?thesis .
    next
      case False
      with step packet p i show ?thesis by auto
    qed
  next
    case more
    with step have n: "read_packets uuid junk c rest (put_connection c ?co sv) = Some (go_on, sv')" by simp
    show ?thesis
      by (rule "2.IH"(2) [OF co f [symmetric] refl refl refl more n put "2.prems"(3)]) (use r in simp)
  qed
qed simp

lemma destroy_frame:
  assumes "Processor_destroy c b = Some b'"
  shows "map_of (br_processors b') = (map_of (br_processors b))(c := None)" "br_senders b' = br_senders b"
  using assms
  by (auto simp: Processor_destroy_def delete_conv' SessionManager_returnSession_def Let_def
      split: option.splits prod.splits if_splits)

lemma release_inv:
  assumes "release c sv = Some sv'" "server_inv {c} sv"
  shows "server_inv {} sv'"
proof (cases "map_of (sv_connections sv) c")
  case None
  note inv = server_invD [OF assms(2)]
  have "sv' = sv" using assms(1) None by (simp add: release_def)
  moreover have "server_inv {} sv"
  proof (rule server_invI)
    fix d co assume "map_of (sv_connections sv) d = Some co"
    then show "in_use co" using inv(6) [of d co] None by (cases "d = c") auto
  qed (fact inv)+
  ultimately show ?thesis by simp
next
  case (Some co)
  note inv = server_invD [OF assms(2)]
  show ?thesis
  proof (cases "in_use co")
    case True
    then have "sv' = sv" using assms(1) Some by (simp add: release_def in_use_def)
    moreover have "server_inv {} sv"
    proof (rule server_invI)
      fix d x assume "map_of (sv_connections sv) d = Some x"
      then show "in_use x" using inv(6) [of d x] Some True by (cases "d = c") auto
    qed (fact inv)+
    ultimately show ?thesis by simp
  next
    case False
    then obtain b where d: "Processor_destroy c (sv_broker sv) = Some b"
      and sv': "sv' = \<lparr>sv_broker = b\<lparr>br_senders := removeAll c (br_senders b)\<rparr>,
        sv_connections = AList.delete c (sv_connections sv)\<rparr>"
      using assms(1) Some by (auto simp: release_def in_use_def split: option.splits)
    note fr = destroy_frame [OF d]
    show ?thesis unfolding sv'
    proof (rule server_invI, unfold server.select_convs)
      show "reachable (b\<lparr>br_senders := removeAll c (br_senders b)\<rparr>)"
        by (rule reachable_step [OF inv(1) step_destroy [OF d]])
    next
      fix e
      show "(map_of (AList.delete c (sv_connections sv)) e = None) =
          (map_of (br_processors (b\<lparr>br_senders := removeAll c (br_senders b)\<rparr>)) e = None)"
        using inv(2) [of e] fr(1) by (simp add: delete_conv')
      show "(map_of (AList.delete c (sv_connections sv)) e = None) =
          (e \<notin> set (br_senders (b\<lparr>br_senders := removeAll c (br_senders b)\<rparr>)))"
        using inv(3) [of e] fr(2) by (simp add: delete_conv')
      show "pr_packetSender p = Some e"
        if "map_of (br_processors (b\<lparr>br_senders := removeAll c (br_senders b)\<rparr>)) e = Some p" for p
        using inv(4) [of e p] fr(1) that by (auto split: if_splits)
      show "one_write x" if "map_of (AList.delete c (sv_connections sv)) e = Some x" for x
        using inv(5) [of e x] that by (auto simp: delete_conv' split: if_splits)
      show "in_use x" if "map_of (AList.delete c (sv_connections sv)) e = Some x" for x
        using inv(6) [of e x] that by (auto simp: delete_conv' split: if_splits)
    qed
  qed
qed

lemma handle_read_inv:
  assumes "handle_read uuid junk c bs sv = Some sv'" "server_inv {c} sv" "map_of (sv_connections sv) c = Some co"
  shows "server_inv {c} sv'"
proof -
  obtain g sv1 where r: "read_packets uuid junk c bs sv = Some (g, sv1)"
    using assms(1) by (auto simp: handle_read_def split: option.splits)
  from read_packets_inv [OF r assms(2)] assms(3)
  have i: "server_inv {c} sv1" "map_of (sv_connections sv1) c \<noteq> None" by auto
  then obtain co1 where c: "map_of (sv_connections sv1) c = Some co1" by auto
  have "server_inv {c} (put_connection c (Connection_do_read co1) sv1)"
    by (rule put_connection_inv [OF i(1) c])
      (use server_invD(5) [OF i(1) c] in \<open>simp_all add: one_write_def Connection_do_read_def\<close>)
  with assms(1) r i c show ?thesis by (auto simp: handle_read_def change_connection_def split: if_splits)
qed

lemma server_inv_mono: "server_inv {} sv \<Longrightarrow> server_inv busy sv"
  by (auto simp: server_inv_def)

lemma server_next_inv:
  assumes "server_next e sv = Some sv'" "server_inv {} sv"
  shows "server_inv {} sv'"
proof (cases e)
  case (Accept c j16 j32)
  note inv = server_invD [OF assms(2)]
  let ?co = "Connection_do_read (Connection_new j16 j32)"
  have new: "map_of (br_processors (sv_broker sv)) c = None" "c \<notin> set (br_senders (sv_broker sv))"
    "\<forall>s\<in>set (br_heap (sv_broker sv)). se_subscriptionHandler s \<noteq> c"
    and sv': "sv' = put_connection c ?co (sv\<lparr>sv_broker := open_connection c (sv_broker sv)\<rparr>)"
    using assms(1) Accept by (auto simp: list_all_iff split: if_splits)
  have co: "one_write ?co" "in_use ?co"
    by (simp_all add: one_write_def in_use_def Connection_do_read_def Connection_new_def)
  have conns: "map_of (sv_connections sv') = (map_of (sv_connections sv))(c \<mapsto> ?co)"
    and broker: "sv_broker sv' = open_connection c (sv_broker sv)" by (simp_all add: sv')
  show ?thesis
  proof (rule server_invI, unfold conns broker)
    show "reachable (open_connection c (sv_broker sv))"
      by (rule reachable_step [OF inv(1) step_open [OF new]])
  next
    fix d
    show "(((map_of (sv_connections sv))(c \<mapsto> ?co)) d = None) =
        (map_of (br_processors (open_connection c (sv_broker sv))) d = None)"
      using inv(2) [of d] by (simp add: open_connection_def update_conv')
    show "(((map_of (sv_connections sv))(c \<mapsto> ?co)) d = None) =
        (d \<notin> set (br_senders (open_connection c (sv_broker sv))))"
      using inv(3) [of d] by (simp add: open_connection_def)
    show "pr_packetSender p = Some d" if "map_of (br_processors (open_connection c (sv_broker sv))) d = Some p" for p
      using inv(4) [of d p] that
      by (auto simp: open_connection_def update_conv' Processor_setPacketSender_def split: if_splits)
    show "one_write x" if "((map_of (sv_connections sv))(c \<mapsto> ?co)) d = Some x" for x
      using inv(5) [of d x] that co by (auto split: if_splits)
    show "in_use x" if "((map_of (sv_connections sv))(c \<mapsto> ?co)) d = Some x" for x
      using inv(6) [of d x] that co by (auto split: if_splits)
  qed
next
  case (Data c uuid junk bs)
  then obtain co sv1 where co: "map_of (sv_connections sv) c = Some co"
    and h: "handle_read uuid junk c bs (put_connection c (co\<lparr>co_reading := False\<rparr>) sv) = Some sv1"
    and r: "release c sv1 = Some sv'"
    using assms(1) by (auto split: option.splits if_splits)
  have "server_inv {c} (put_connection c (co\<lparr>co_reading := False\<rparr>) sv)"
    by (rule put_connection_inv [OF server_inv_mono [OF assms(2)] co])
      (use server_invD(5) [OF assms(2) co] in \<open>simp_all add: one_write_def\<close>)
  from release_inv [OF r handle_read_inv [OF h this]] show ?thesis by simp
next
  case (ReadError c)
  then obtain co where co: "map_of (sv_connections sv) c = Some co"
    and r: "release c (put_connection c (co\<lparr>co_reading := False\<rparr>) sv) = Some sv'"
    using assms(1) by (auto split: option.splits if_splits)
  have "server_inv {c} (put_connection c (co\<lparr>co_reading := False\<rparr>) sv)"
    by (rule put_connection_inv [OF server_inv_mono [OF assms(2)] co])
      (use server_invD(5) [OF assms(2) co] in \<open>simp_all add: one_write_def\<close>)
  from release_inv [OF r this] show ?thesis .
next
  case (Written c ok)
  then obtain co co1 where co: "map_of (sv_connections sv) c = Some co" "handle_written ok co = Some co1"
    and r: "release c (put_connection c co1 sv) = Some sv'"
    using assms(1) by (auto split: option.splits if_splits)
  have "server_inv {c} (put_connection c co1 sv)"
    by (rule put_connection_inv [OF server_inv_mono [OF assms(2)] co(1)])
      (use handle_written_frame [OF co(2)] server_invD(5) [OF assms(2) co(1)] in simp_all)
  from release_inv [OF r this] show ?thesis .
qed

lemma server_new_inv: "server_inv {} server_new"
  by (rule server_invI) (simp_all add: server_new_def Broker_new_def reachable_new [unfolded Broker_new_def])

lemma server_run_inv: "server_run es sv = Some sv' \<Longrightarrow> server_inv {} sv \<Longrightarrow> server_inv {} sv'"
  by (induction es arbitrary: sv) (auto split: option.splits dest: server_next_inv)


section \<open>Reads in pieces\<close>

lemma put_twice [simp]: "put_connection c y (put_connection c x sv) = put_connection c y sv"
  by (simp add: put_connection_def AList.update_last)

lemma put_same: "map_of (sv_connections sv) c = Some x \<Longrightarrow> put_connection c x sv = sv"
  by (simp add: put_connection_def AList.update_triv)

lemma process_packet_put: "process_packet junk c y (put_connection c x sv) = process_packet junk c y sv"
  by (auto simp: process_packet_def Let_def split: prod.split option.split)

lemma read_packets_append:
  "read_packets uuid junk c xs sv = Some (True, sv1) \<Longrightarrow>
   read_packets uuid junk c (xs @ ys) sv = read_packets uuid junk c ys sv1"
proof (induction uuid junk c xs sv rule: read_packets.induct)
  case (2 uuid junk c b bs sv)
  obtain co where co: "map_of (sv_connections sv) c = Some co"
    using "2.prems" by (auto simp: read_packets.simps(2) split: option.splits)
  obtain ret err parser rest where f: "feed (MQTTParser_parse uuid) (co_mqttParser co) (b # bs) None = (ret, err, parser, rest)"
    by (cases "feed (MQTTParser_parse uuid) (co_mqttParser co) (b # bs) None") auto
  let ?co = "co\<lparr>co_mqttParser := parser\<rparr>"
  note step = "2.prems" [unfolded read_packets.simps(2) co option.case f prod.case Let_def]
  have go: "\<not> (isFalse ret \<or> err \<noteq> None)" using step by (auto split: if_splits)
  show ?case
  proof (cases rule: tribool_cases [of ret])
    case indet
    with feed_rest [OF f] step go have sv1: "sv1 = put_connection c ?co sv" by simp
    have more: "feed (MQTTParser_parse uuid) (co_mqttParser co) (b # bs @ ys) None = feed (MQTTParser_parse uuid) parser ys None"
      using feed_append_indet [OF f indet(1), of ys] go by simp
    show ?thesis
    proof (cases ys)
      case (Cons y zs)
      then show ?thesis using more co
        by (simp add: read_packets.simps(2) sv1 Let_def process_packet_put split: prod.split)
    qed (use "2.prems" in simp)
  next
    case true
    have more: "feed (MQTTParser_parse uuid) (co_mqttParser co) (b # bs @ ys) None = (ret, err, parser, rest @ ys)"
      using feed_append_stop [OF f true(1), of ys] by simp
    from step go true obtain sv2 where p: "process_packet junk c ?co sv = Some (True, sv2)"
      and r: "read_packets uuid junk c rest sv2 = Some (True, sv1)"
      by (auto split: option.splits if_splits)
    from "2.IH"(1) [OF co f [symmetric] refl refl refl go true(2) p refl TrueI r] more co go true p
    show ?thesis by (simp add: read_packets.simps(2) Let_def)
  qed (use go in simp)
qed simp

lemma reading_after:
  assumes "read_packets uuid junk c bs sv = Some (g, sv')" "server_inv {c} sv" "map_of (sv_connections sv) c = Some co"
  obtains co' where "map_of (sv_connections sv') c = Some co'" "co_reading co' = co_reading co" "server_inv {c} sv'"
  using read_packets_inv [OF assms(1,2)] assms(3) that by auto

lemma data_append:
  assumes "server_inv {} sv" "server_next (Data c uuid junk xs) sv = Some sv1"
    "map_of (sv_connections sv1) c = Some co1" "co_reading co1" "ys \<noteq> []" "length (xs @ ys) \<le> readBuf_size"
  shows "server_next (Data c uuid junk (xs @ ys)) sv = server_next (Data c uuid junk ys) sv1"
proof -
  obtain co sv2 where co: "map_of (sv_connections sv) c = Some co" "co_reading co" "xs \<noteq> []"
    and h: "handle_read uuid junk c xs (put_connection c (co\<lparr>co_reading := False\<rparr>) sv) = Some sv2"
    and r: "release c sv2 = Some sv1"
    using assms(2) by (auto split: option.splits if_splits)
  let ?sv = "put_connection c (co\<lparr>co_reading := False\<rparr>) sv"
  have inv: "server_inv {c} ?sv"
    by (rule put_connection_inv [OF server_inv_mono [OF assms(1)] co(1)])
      (use server_invD(5) [OF assms(1) co(1)] in \<open>simp_all add: one_write_def\<close>)
  obtain g sv3 where rp: "read_packets uuid junk c xs ?sv = Some (g, sv3)"
    and sv2: "sv2 = (if g then change_connection c Connection_do_read sv3 else sv3)"
    using h by (auto simp: handle_read_def split: option.splits)
  from reading_after [OF rp inv, of "co\<lparr>co_reading := False\<rparr>"]
  obtain co3 where co3: "map_of (sv_connections sv3) c = Some co3" "\<not> co_reading co3" by auto
  have g: g
  proof (rule ccontr)
    assume "\<not> g"
    with sv2 r co3 have "sv1 = sv3 \<or> map_of (sv_connections sv1) c = None"
      by (auto simp: release_def delete_conv' split: option.splits if_splits)
    with co3 assms(3,4) show False by auto
  qed
  with sv2 co3 have sv2': "sv2 = put_connection c (Connection_do_read co3) sv3"
    by (simp add: change_connection_def)
  with r have sv1: "sv1 = put_connection c (Connection_do_read co3) sv3"
    by (simp add: release_def Connection_do_read_def)
  have same: "(Connection_do_read co3)\<lparr>co_reading := False\<rparr> = co3"
    using co3(2) by (cases co3) (simp add: Connection_do_read_def)
  have again: "put_connection c ((Connection_do_read co3)\<lparr>co_reading := False\<rparr>) sv1 = sv3"
    unfolding same sv1 put_twice by (rule put_same [OF co3(1)])
  have "handle_read uuid junk c (xs @ ys) ?sv = handle_read uuid junk c ys sv3"
    using read_packets_append [OF rp [unfolded eqTrueI [OF g]], of ys] by (simp add: handle_read_def)
  with co again assms(5,6) sv1 show ?thesis by (simp add: Connection_do_read_def)
qed


section \<open>A client connects\<close>

lemma connack_written:
  assumes "well_typed (PConnAck a)" "\<not> co_isSending co" "co_sendPackets co = []" "co_writes co = []"
  shows "\<exists>co'. addSendPacket (PConnAck a) co = Some co' \<and> outstanding co' = wire_bytes (PConnAck a) \<and>
    co_reading co' = co_reading co \<and> co_writes co' = [4]"
proof -
  obtain buf' where "serialize_connack a (co_writeBuf co) = Some (buf', 4)" "take 4 buf' = wire_bytes (PConnAck a)"
    using serialize_small_packets(1) [of a "co_writeBuf co"] by auto
  with assms show ?thesis
    by (simp add: addSendPacket_def sendPackages_def doSendPackages_def Let_def Serializer_serialize_def
        written_def Connection_do_write_def outstanding_def)
qed

lemma getSession_sent: "SessionManager_getSession k x c err b = (s, e, b') \<Longrightarrow> br_sent b' = br_sent b \<and>
    e = (case map_of (br_sessions b) k of None \<Rightarrow> None | Some w \<Rightarrow> if sw_inUse w then Some session_in_use else None)"
  by (auto simp: SessionManager_getSession_def Session_setSender_def Let_def split: option.splits if_splits)

lemma connect_processed:
  assumes "server_inv {c} sv" "map_of (sv_connections sv) c = Some co0" "map_of (br_processors (sv_broker sv)) c = Some p"
    "pr_status p = PS_None" "fh_controlPacketType (cn_header q) = Connect"
    "MQTTParser_consumePacket (co_mqttParser co) = (Some (PConnect q), parser)"
    "\<not> co_isSending co" "co_sendPackets co = []" "co_writes co = []"
  shows "\<exists>sv' co'. process_packet junk c co sv =
      Some (case map_of (br_sessions (sv_broker sv)) (cn_clientId q) of None \<Rightarrow> True | Some w \<Rightarrow> \<not> sw_inUse w, sv') \<and>
    map_of (sv_connections sv') c = Some co' \<and> outstanding co' = wire_bytes (PConnAck accepted) \<and>
    co_reading co' = co_reading co \<and> co_writes co' = [4]"
proof -
  let ?b = "sv_broker sv"
  have "pr_packetSender p = Some c" using server_invD(4) [OF assms(1,3)] .
  moreover have "c \<in> set (br_senders ?b)" using server_invD(3) [OF assms(1), of c] assms(2) by simp
  ultimately have alive: "\<not> expired (pr_packetSender p) ?b" by (simp add: expired_def)
  from connect_reply [OF assms(3) alive assms(4,5), of junk None] obtain s e b' where
    r: "Processor_processPacket c junk (PConnect q) None ?b = Some ((Keep, Some (PConnAck accepted)), e, b')"
    and g: "SessionManager_getSession (cn_clientId q) (pr_packetSender p) c None
      (put_processor c (p\<lparr>pr_status := PS_Connected\<rparr>) ?b) =
      (s, e, b'\<lparr>br_processors := AList.update c (p\<lparr>pr_status := PS_Connected\<rparr>) (br_processors ?b)\<rparr>)" by blast
  from getSession_sent [OF g] have sent: "br_sent b' = br_sent ?b"
    and e: "e = (case map_of (br_sessions ?b) (cn_clientId q) of None \<Rightarrow> None
      | Some w \<Rightarrow> if sw_inUse w then Some session_in_use else None)" by simp_all
  let ?co = "co\<lparr>co_mqttParser := parser\<rparr>"
  have "well_typed (PConnAck accepted)" by (simp add: accepted_def ConnAckControlPacket_new_def FixedHeader_of_def)
  from connack_written [OF this, of ?co] assms(7-9) obtain co' where
    w: "addSendPacket (PConnAck accepted) ?co = Some co'" "outstanding co' = wire_bytes (PConnAck accepted)"
      "co_reading co' = co_reading co" "co_writes co' = [4]" by auto
  have go: "(e = None \<and> Keep \<noteq> Close) =
      (case map_of (br_sessions ?b) (cn_clientId q) of None \<Rightarrow> True | Some w \<Rightarrow> \<not> sw_inUse w)"
    unfolding e by (auto split: option.split)
  show ?thesis
    by (intro exI [of _ "\<lparr>sv_broker = b',
        sv_connections = AList.update c co' (sv_connections (put_connection c ?co sv))\<rparr>"] exI [of _ co'])
      (use r w sent go in \<open>simp add: process_packet_def assms(6) Let_def update_conv'\<close>)
qed

lemma connect_result_clientId: "cn_clientId (connect_result uuid q d) = (if cn_clientId q = [] then uuid else cn_clientId q)"
  by (simp add: connect_result_def set_login_def set_will_def)

lemma do_read_simps [simp]:
  "outstanding (Connection_do_read co) = outstanding co" "co_reading (Connection_do_read co)"
  "co_writes (Connection_do_read co) = co_writes co"
  by (simp_all add: outstanding_def Connection_do_read_def split: list.split)

lemma connack_bytes: "wire_bytes (PConnAck accepted) = [0x20, 2, 0, 0]"
  by code_simp

lemma connected_client:
  assumes "server_inv {} sv" "map_of (sv_connections sv) c = Some co" "co_reading co" "idle (co_mqttParser co)"
    "\<not> co_isSending co" "co_sendPackets co = []" "map_of (br_processors (sv_broker sv)) c = Some p" "pr_status p = PS_None"
    "wire_connect q" "serialize_connect q buffer = Some (buf, k)" "k \<le> readBuf_size" "0 < length (take k buf)"
  shows "\<exists>sv' co'. server_next (Data c uuid junk (take k buf)) sv = Some sv' \<and>
    map_of (sv_connections sv') c = Some co' \<and> outstanding co' = [0x20, 2, 0, 0] \<and>
    (co_reading co' \<longleftrightarrow> (case map_of (br_sessions (sv_broker sv)) (if cn_clientId q = [] then uuid else cn_clientId q) of
       None \<Rightarrow> True | Some w \<Rightarrow> \<not> sw_inUse w))"
proof -
  let ?co = "co\<lparr>co_reading := False\<rparr>"
  let ?sv = "put_connection c ?co sv"
  let ?bs = "take k buf"
  let ?go = "case map_of (br_sessions (sv_broker sv)) (if cn_clientId q = [] then uuid else cn_clientId q) of
       None \<Rightarrow> True | Some w \<Rightarrow> \<not> sw_inUse w"
  have ow: "one_write co" using server_invD(5) [OF assms(1,2)] .
  then have w0: "co_writes co = []" using assms(5) by (auto simp: one_write_def)
  have inv: "server_inv {c} ?sv"
    by (rule put_connection_inv [OF server_inv_mono [OF assms(1)] assms(2)]) (use ow in \<open>simp_all add: one_write_def\<close>)
  from connect_wire [OF assms(9,10,4), of uuid "[]"] obtain p' q' where
    f: "feed (MQTTParser_parse uuid) (co_mqttParser co) ?bs None = (Tribool_of True, None, p', [])"
    and mp: "mp_packet p' = Some (PConnect q')" and h: "fh_controlPacketType (cn_header q') = Connect"
    and k: "cn_clientId q' = (if cn_clientId q = [] then uuid else cn_clientId q)"
    by (auto simp: connect_result_clientId)
  obtain parser where c: "MQTTParser_consumePacket p' = (Some (PConnect q'), parser)"
    using mp by (simp add: MQTTParser_consumePacket_def MQTTParser_reset_def)
  have "\<exists>sv' co'. process_packet junk c (?co\<lparr>co_mqttParser := p'\<rparr>) ?sv = Some (?go, sv') \<and>
      map_of (sv_connections sv') c = Some co' \<and> outstanding co' = wire_bytes (PConnAck accepted) \<and>
      co_reading co' = co_reading (?co\<lparr>co_mqttParser := p'\<rparr>) \<and> co_writes co' = [4]"
    unfolding k [symmetric] put_connection_simps(2) [symmetric, of sv c ?co]
    by (rule connect_processed [OF inv _ _ assms(8) h]) (use assms(5-7) w0 c in simp_all)
  then obtain sv1 co1 where pp: "process_packet junk c (?co\<lparr>co_mqttParser := p'\<rparr>) ?sv = Some (?go, sv1)"
    and co1: "map_of (sv_connections sv1) c = Some co1" "outstanding co1 = wire_bytes (PConnAck accepted)"
      "\<not> co_reading co1" "co_writes co1 = [4]" by auto
  obtain b bs where bs: "?bs = b # bs" using assms(12) by (cases ?bs) auto
  have rp: "read_packets uuid junk c ?bs ?sv = Some (?go, sv1)"
    unfolding bs read_packets.simps(2) using f [unfolded bs] pp by (simp add: Let_def)
  let ?co' = "if ?go then Connection_do_read co1 else co1"
  let ?sv' = "if ?go then put_connection c (Connection_do_read co1) sv1 else sv1"
  have hr: "handle_read uuid junk c ?bs ?sv = Some ?sv'"
    using rp co1(1) by (simp add: handle_read_def change_connection_def)
  have c': "map_of (sv_connections ?sv') c = Some ?co'" using co1(1) by simp
  have "co_writes ?co' \<noteq> []" using co1(4) by simp
  then have rel: "release c ?sv' = Some ?sv'" using c' by (simp add: release_def)
  have "?bs \<noteq> []" "length ?bs \<le> readBuf_size" using assms(11,12) by simp_all
  then have "server_next (Data c uuid junk ?bs) sv = Some ?sv'"
    using assms(2,3) hr rel by simp
  moreover have "outstanding ?co' = [0x20, 2, 0, 0]"
    unfolding connack_bytes [symmetric] using co1(2) by (cases ?go) simp_all
  moreover have "co_reading ?co' \<longleftrightarrow> ?go" using co1(3) by simp
  ultimately show ?thesis using c' by blast
qed

end
