(* ===== verification/Broker_Theorems.thy ===== *)
theory Broker_Theorems
  imports Mqtt_Server
begin

text \<open>
  The properties of the MQTT broker example as a server: what a connection writes, what its events are to the
  broker, and what a client sees that connects.
\<close>

section \<open>A subscriber and a publisher\<close>

definition connect_bytes :: "u8 \<Rightarrow> u8 list" where
  "connect_bytes x = [0x10, 14, 0, 4, 77, 81, 84, 84, 4, 2, 0, 60, 0, 2, 115, x]"

definition subscribe_bytes :: "u8 list" where
  "subscribe_bytes = [0x82, 8, 0, 7, 0, 3, 97, 47, 43, 0]"

definition publish_bytes :: "u8 list" where
  "publish_bytes = [0x30, 8, 0, 3, 97, 47, 120, 1, 2, 3]"

definition subscriber_ready :: "server_event list" where
  "subscriber_ready =
     [Accept 1 0 0, Data 1 ''id'' 0 (connect_bytes 49), Written 1 True, Data 1 ''id'' 0 subscribe_bytes, Written 1 True,
      Accept 2 0 0]"

definition delivered :: "server_event list" where
  "delivered = subscriber_ready @ [Data 2 ''id'' 0 (connect_bytes 50), Data 2 ''id'' 0 publish_bytes, Written 1 True]"

definition received :: "nat \<Rightarrow> server \<Rightarrow> u8 list" where
  "received c sv = (case map_of (sv_connections sv) c of None \<Rightarrow> [] | Some co \<Rightarrow> co_sent co)"

lemma ready_run: "\<not> Option.is_none (server_run subscriber_ready server_new)"
  by code_simp

lemma delivered_run:
  "case server_run delivered server_new of None \<Rightarrow> False
   | Some sv \<Rightarrow> received 1 sv = [0x20, 2, 0, 0, 0x90, 3, 0, 7, 0] @ publish_bytes"
  by code_simp


section \<open>The properties\<close>

text \<open>
  C7. A connection sends the packets it is given in their order and whole: as long as no write fails, what it has
  sent, what it is sending and the encodings of what waits in its queue are together the encodings of
  all the packets; and one write is outstanding as long as anything is left to send.
\<close>

theorem sends_in_order:
  assumes "run_sends addSendPacket (handle_written True) es (Connection_new junk16 junk32) = Some co"
    "list_all sendable (added es)"
  shows "co_sent co @ outstanding co @ concat (map wire_bytes (co_sendPackets co)) = concat (map wire_bytes (added es)) \<and>
    length (co_writes co) \<le> 1 \<and> (co_writes co = [] \<longrightarrow> co_sent co = concat (map wire_bytes (added es)))"
proof -
  from connection.run_in_order [OF _ assms(2,1)]
  have s: "send_inv co" "send_stream co = concat (map wire_bytes (added es))" by simp_all
  from s(1) have "length (co_writes co) \<le> 1" "co_writes co = [] \<longrightarrow> co_sendPackets co = []"
    by (auto simp: send_inv_def split: if_splits)
  with s(2) show ?thesis by (auto simp: send_stream_def outstanding_def)
qed

definition publication :: ControlPacket where
  "publication = publish_packet ''a/x'' [1, 2, 3]"

theorem sends_in_order_witness:
  "\<exists>co. run_sends addSendPacket (handle_written True)
      [Add PingRespControlPacket_new, Add publication, Completed, Completed] (Connection_new 0 0) = Some co \<and>
    co_sent co = [0xD0, 0] @ publish_bytes"
proof -
  let ?es = "[Add PingRespControlPacket_new, Add publication, Completed, Completed]"
  have r: "case run_sends addSendPacket (handle_written True) ?es (Connection_new 0 0) of
      None \<Rightarrow> False | Some co \<Rightarrow> co_writes co = []" by code_simp
  then obtain co where co: "run_sends addSendPacket (handle_written True) ?es (Connection_new 0 0) = Some co"
    "co_writes co = []" by (auto split: option.splits)
  have "list_all sendable (added ?es)"
    by (simp add: PingRespControlPacket_new_def publication_def publish_packet_def PublishControlPacket_new_def
        FixedHeader_of_def publish_body_def string_bytes_def)
  from sends_in_order [OF co(1) this] co(2)
  have "co_sent co = concat (map wire_bytes [PingRespControlPacket_new, publication])" by simp
  also have "\<dots> = [0xD0, 0] @ publish_bytes" by code_simp
  finally show ?thesis using co(1) by blast
qed

text \<open>
  C5. Whatever happens on its sockets, the server runs the broker: the broker's state is one that broker
  events lead to, so what was proved of those holds. The connections are exactly the packet senders alive, each
  owns the processor of its number; none has more than one write outstanding, and each lives
  exactly as long as it waits for a read or a write.
\<close>

theorem server_runs_broker:
  assumes "server_run es server_new = Some sv"
  shows "reachable (sv_broker sv) \<and>
    (\<forall>c. map_of (sv_connections sv) c \<noteq> None \<longleftrightarrow> c \<in> set (br_senders (sv_broker sv))) \<and>
    (\<forall>c. map_of (sv_connections sv) c \<noteq> None \<longleftrightarrow>
       (\<exists>p. map_of (br_processors (sv_broker sv)) c = Some p \<and> pr_packetSender p = Some c)) \<and>
    (\<forall>c co. map_of (sv_connections sv) c = Some co \<longrightarrow> length (co_writes co) \<le> 1 \<and>
       (co_reading co \<or> co_writes co \<noteq> []))"
proof -
  note inv = server_invD [OF server_run_inv [OF assms server_new_inv]]
  have "(map_of (sv_connections sv) c \<noteq> None) =
      (\<exists>p. map_of (br_processors (sv_broker sv)) c = Some p \<and> pr_packetSender p = Some c)" for c
    using inv(2) [of c] inv(4) [of c] by auto
  moreover have "length (co_writes co) \<le> 1 \<and> (co_reading co \<or> co_writes co \<noteq> [])"
    if "map_of (sv_connections sv) c = Some co" for c co
    using inv(5,6) [OF that] by (simp add: one_write_def in_use_def)
  ultimately show ?thesis using inv(1,3) by blast
qed

theorem server_runs_broker_witness:
  "\<exists>sv. server_run delivered server_new = Some sv \<and> reachable (sv_broker sv) \<and>
     received 1 sv = [0x20, 2, 0, 0, 0x90, 3, 0, 7, 0] @ publish_bytes"
proof -
  from delivered_run obtain sv where "server_run delivered server_new = Some sv"
    "received 1 sv = [0x20, 2, 0, 0, 0x90, 3, 0, 7, 0] @ publish_bytes" by (auto split: option.splits)
  with server_runs_broker [of delivered sv] show ?thesis by blast
qed

text \<open>
  C8. How the bytes of a client are cut into reads does not matter: if the connection reads on after a part of
  them, then the rest leads to the same server as all of them at once, and to the same replies.
\<close>

theorem reads_compose:
  assumes "server_run es server_new = Some sv" "server_next (Data c uuid junk xs) sv = Some sv1"
    "map_option co_reading (map_of (sv_connections sv1) c) = Some True" "ys \<noteq> []"
    "length (xs @ ys) \<le> readBuf_size"
  shows "server_next (Data c uuid junk (xs @ ys)) sv = server_next (Data c uuid junk ys) sv1"
proof -
  from assms(3) obtain co where co: "map_of (sv_connections sv1) c = Some co" "co_reading co" by auto
  show ?thesis by (rule data_append [OF server_run_inv [OF assms(1) server_new_inv] assms(2) co assms(4,5)])
qed

theorem reads_compose_witness:
  "\<exists>sv sv1. server_run subscriber_ready server_new = Some sv \<and>
     server_next (Data 2 ''id'' 0 (connect_bytes 50 @ [0x30])) sv = Some sv1 \<and>
     server_next (Data 2 ''id'' 0 ((connect_bytes 50 @ [0x30]) @ tl publish_bytes)) sv =
     server_next (Data 2 ''id'' 0 (tl publish_bytes)) sv1"
proof -
  let ?e = "Data 2 ''id'' 0 (connect_bytes 50 @ [0x30])"
  have "case server_run subscriber_ready server_new of None \<Rightarrow> False
    | Some sv \<Rightarrow> (case server_next ?e sv of None \<Rightarrow> False
        | Some sv1 \<Rightarrow> map_option co_reading (map_of (sv_connections sv1) 2) = Some True)" by code_simp
  then obtain sv sv1 where s: "server_run subscriber_ready server_new = Some sv" "server_next ?e sv = Some sv1"
    "map_option co_reading (map_of (sv_connections sv1) 2) = Some True" by (auto split: option.splits)
  have "tl publish_bytes \<noteq> []" "length ((connect_bytes 50 @ [0x30]) @ tl publish_bytes) \<le> readBuf_size"
    by (simp_all add: publish_bytes_def connect_bytes_def readBuf_size_def)
  from reads_compose [OF s this] s show ?thesis by blast
qed




end
