(* ===== verification/Strings.thy ===== *)
theory Strings
  imports Cpp_Std
begin

text \<open>
  src/acatl/string_helper.h and string_helper.cpp: splitting and joining, replacement, case
  conversion, trimming and URL decoding. A \<open>std::string\<close> is a list of characters; the
  positions that the code computes are kept as numbers, \<open>std::string::npos\<close> is \<open>None\<close>.
  \<open>::tolower\<close> and \<open>::toupper\<close> are those of the C locale. The functions that copy streams
  and load files, and the formatting of times, are not modelled.
\<close>

section \<open>The standard library's part\<close>

text \<open>\<open>std::getline\<close> on a string stream holding \<open>s\<close>: the item, and what the stream holds then.\<close>

definition std_getline :: "char \<Rightarrow> string \<Rightarrow> (string \<times> string) option" where
  "std_getline delim s =
     (if s = [] then None
      else Some (takeWhile (\<lambda>c. c \<noteq> delim) s, drop (Suc (length (takeWhile (\<lambda>c. c \<noteq> delim) s))) s))"

lemma std_getline_shorter: "std_getline delim s = Some (item, rest) \<Longrightarrow> length rest < length s"
  by (auto simp: std_getline_def split: if_splits)

lemma std_getline_item:
  "delim \<notin> set item \<Longrightarrow> item \<noteq> [] \<Longrightarrow> std_getline delim item = Some (item, [])"
  "delim \<notin> set item \<Longrightarrow> std_getline delim (item @ delim # rest) = Some (item, rest)"
proof -
  assume d: "delim \<notin> set item"
  then have t: "takeWhile (\<lambda>c. c \<noteq> delim) item = item" by (auto simp: takeWhile_eq_all_conv)
  show "item \<noteq> [] \<Longrightarrow> std_getline delim item = Some (item, [])" by (simp add: std_getline_def t)
  have "takeWhile (\<lambda>c. c \<noteq> delim) (item @ delim # rest) = item"
    using d by (subst takeWhile_append2) auto
  then show "std_getline delim (item @ delim # rest) = Some (item, rest)" by (simp add: std_getline_def)
qed

text \<open>\<open>find\<close> of a string from a position on.\<close>

fun str_find_at :: "string \<Rightarrow> nat \<Rightarrow> string \<Rightarrow> nat option" where
  "str_find_at pat pos [] = (if pat = [] then Some pos else None)"
| "str_find_at pat pos (c # s) =
     (if take (length pat) (c # s) = pat then Some pos else str_find_at pat (Suc pos) s)"

definition str_find :: "string \<Rightarrow> string \<Rightarrow> nat \<Rightarrow> nat option" where
  "str_find s pat pos = (if pos \<le> length s then str_find_at pat pos (drop pos s) else None)"

text \<open>\<open>find_last_not_of\<close>.\<close>

definition find_last_not_of :: "char list \<Rightarrow> string \<Rightarrow> nat option" where
  "find_last_not_of cs s =
     (let t = dropWhile (\<lambda>c. c \<in> set cs) (rev s) in if t = [] then None else Some (length t - 1))"

definition find_first_not_of :: "char list \<Rightarrow> string \<Rightarrow> nat option" where
  "find_first_not_of cs s =
     (let t = dropWhile (\<lambda>c. c \<in> set cs) s in if t = [] then None else Some (length s - length t))"


section \<open>split, join\<close>

function split_loop :: "char \<Rightarrow> bool \<Rightarrow> string \<Rightarrow> string list \<Rightarrow> string list" where
  "split_loop delim addEmpty s elems =
     (case std_getline delim s of
        None \<Rightarrow> elems
      | Some (item, s) \<Rightarrow>
          split_loop delim addEmpty s (if addEmpty \<or> item \<noteq> [] then elems @ [item] else elems))"
  by pat_completeness auto
termination
  by (relation "measure (\<lambda>(delim, addEmpty, s, elems). length s)") (auto dest: std_getline_shorter)

declare split_loop.simps [simp del]

definition split_string :: "string \<Rightarrow> char \<Rightarrow> bool \<Rightarrow> string list" where
  "split_string s delim addEmpty = split_loop delim addEmpty s []"

definition join :: "string list \<Rightarrow> string \<Rightarrow> string" where
  "join elems separator =
     (case elems of
        [] \<Rightarrow> []
      | [e] \<Rightarrow> e
      | _ \<Rightarrow> concat (map (\<lambda>e. e @ separator) (butlast elems)) @ last elems)"

lemma join_simps [simp]:
  "join [] sep = []" "join [e] sep = e" "join (e # e' # es) sep = e @ sep @ join (e' # es) sep"
  by (auto simp: join_def split: list.split)

lemma split_loop_Nil [simp]: "split_loop delim addEmpty [] elems = elems"
  by (subst split_loop.simps) (simp add: std_getline_def)

lemma split_loop_join:
  "(\<And>e. e \<in> set es \<Longrightarrow> delim \<notin> set e) \<Longrightarrow> es \<noteq> [] \<Longrightarrow> last es \<noteq> [] \<Longrightarrow>
   split_loop delim addEmpty (join es [delim]) acc = acc @ (if addEmpty then es else [e \<leftarrow> es. e \<noteq> []])"
proof (induction es arbitrary: acc)
  case (Cons e es)
  have e: "delim \<notin> set e" using Cons.prems(1) by simp
  show ?case
  proof (cases es)
    case Nil
    with Cons.prems e show ?thesis by (subst split_loop.simps) (simp add: std_getline_item)
  next
    case (Cons e' es')
    have "split_loop delim addEmpty (join es [delim]) acc' = acc' @ (if addEmpty then es else [e \<leftarrow> es. e \<noteq> []])"
      for acc' using Cons Cons.IH Cons.prems by (intro Cons.IH) auto
    then show ?thesis using Cons e by (subst split_loop.simps) (simp add: std_getline_item)
  qed
qed simp

lemma split_join:
  assumes "\<And>e. e \<in> set es \<Longrightarrow> delim \<notin> set e" "es \<noteq> []" "last es \<noteq> []"
  shows "split_string (join es [delim]) delim True = es"
  using split_loop_join [OF assms, of True "[]"] by (simp add: split_string_def)

text \<open>One item, and the first item of several.\<close>

lemma split_one: "delim \<notin> set s \<Longrightarrow> s \<noteq> [] \<Longrightarrow> split_string s delim True = [s]"
  using split_join [of "[s]" delim] by simp

lemma split_no_delim:
  assumes "e \<in> set (split_loop delim addEmpty s acc)" "\<And>e. e \<in> set acc \<Longrightarrow> delim \<notin> set e"
  shows "delim \<notin> set e"
  using assms
proof (induction delim addEmpty s acc rule: split_loop.induct)
  case (1 delim addEmpty s elems)
  show ?case
  proof (cases "std_getline delim s")
    case None
    with "1.prems" show ?thesis by (auto simp: split_loop.simps [of _ _ s])
  next
    case (Some p)
    then have "fst p = takeWhile (\<lambda>c. c \<noteq> delim) s" by (auto simp: std_getline_def split: if_splits)
    then have "delim \<notin> set (fst p)" using set_takeWhileD by fastforce
    moreover have "e \<in> set (split_loop delim addEmpty (snd p)
        (if addEmpty \<or> fst p \<noteq> [] then elems @ [fst p] else elems))"
      using "1.prems"(1) Some by (simp add: split_loop.simps [of _ _ s] split_beta)
    ultimately show ?thesis
      using "1.IH" [of p "fst p" "snd p"] Some "1.prems"(2) by (auto split: if_splits)
  qed
qed


section \<open>replaceAll\<close>

text \<open>
  The loop of \<open>replaceAll\<close>. It need not end: \<open>find\<close> finds the empty string everywhere.
\<close>

partial_function (option) replace_loop :: "string \<Rightarrow> string \<Rightarrow> string \<Rightarrow> nat \<Rightarrow> string \<Rightarrow> string option" where
  "replace_loop source from to lastPos newString =
     (case str_find source from lastPos of
        None \<Rightarrow> Some (newString @ drop lastPos source)
      | Some findPos \<Rightarrow>
          replace_loop source from to (findPos + length from)
            (newString @ take (findPos - lastPos) (drop lastPos source) @ to))"

definition replaceAll :: "string \<Rightarrow> string \<Rightarrow> string \<Rightarrow> string option" where
  "replaceAll source from to = replace_loop source from to 0 []"

text \<open>Replacement, read off the string from left to right.\<close>

function replaced :: "string \<Rightarrow> string \<Rightarrow> string \<Rightarrow> string" where
  "replaced from to s =
     (if s = [] \<or> from = [] then s
      else if take (length from) s = from then to @ replaced from to (drop (length from) s)
      else hd s # replaced from to (tl s))"
  by pat_completeness auto
termination by (relation "measure (\<lambda>(from, to, s). length s)") auto

declare replaced.simps [simp del]

lemma str_find_at_None: "pat \<noteq> [] \<Longrightarrow> str_find_at pat pos s = None \<Longrightarrow> replaced pat to s = s"
  by (induction pat pos s rule: str_find_at.induct)
    (auto simp: replaced.simps [of _ _ "_ # _"] replaced.simps [of _ _ "[]"] split: if_splits)

lemma str_find_at_Some:
  "pat \<noteq> [] \<Longrightarrow> str_find_at pat pos s = Some i \<Longrightarrow>
   pos \<le> i \<and> i - pos + length pat \<le> length s \<and>
   replaced pat to s = take (i - pos) s @ to @ replaced pat to (drop (i - pos + length pat) s)"
proof (induction pat pos s rule: str_find_at.induct)
  case (2 pat pos c s)
  show ?case
  proof (cases "take (length pat) (c # s) = pat")
    case True
    then have "length (take (length pat) (c # s)) = length pat" by simp
    then have "length pat \<le> length (c # s)" by (simp add: min_def split: if_splits)
    with True 2 show ?thesis by (simp add: replaced.simps [of pat to "c # s"])
  next
    case False
    with 2 have i: "Suc pos \<le> i" "i - Suc pos + length pat \<le> length s"
      "replaced pat to s = take (i - Suc pos) s @ to @ replaced pat to (drop (i - Suc pos + length pat) s)"
      by auto
    then have s: "i - pos = Suc (i - Suc pos)" by simp
    show ?thesis using i False 2(2) unfolding s by (simp add: replaced.simps [of pat to "c # s"])
  qed
qed simp

lemma replace_loop_result:
  "from \<noteq> [] \<Longrightarrow> lastPos \<le> length source \<Longrightarrow>
   replace_loop source from to lastPos newString = Some (newString @ replaced from to (drop lastPos source))"
proof (induction "length source - lastPos" arbitrary: lastPos newString rule: less_induct)
  case less
  show ?case
  proof (cases "str_find_at from lastPos (drop lastPos source)")
    case None
    with less.prems show ?thesis
      by (subst replace_loop.simps) (simp add: str_find_def str_find_at_None)
  next
    case (Some i)
    from str_find_at_Some [OF less.prems(1) Some, of to] less.prems(2)
    have i: "lastPos \<le> i" "i + length from \<le> length source"
      "replaced from to (drop lastPos source) = take (i - lastPos) (drop lastPos source) @ to @
         replaced from to (drop (i + length from) source)"
      by (auto simp: algebra_simps)
    have "0 < length from" using less.prems(1) by simp
    then have "length source - (i + length from) < length source - lastPos" using i(1,2) by linarith
    from less.hyps [OF this less.prems(1) i(2)] Some less.prems(2) i(3) show ?thesis
      by (subst replace_loop.simps) (simp add: str_find_def)
  qed
qed

lemma replaceAll_result: "from \<noteq> [] \<Longrightarrow> replaceAll source from to = Some (replaced from to source)"
  by (simp add: replaceAll_def replace_loop_result)

text \<open>With an empty search string the loop does not end.\<close>

lemma str_find_empty: "str_find source [] pos = (if pos \<le> length source then Some pos else None)"
  by (cases "drop pos source") (simp_all add: str_find_def)

lemma replace_loop_empty:
  "replace_loop source pat to lastPos newString = Some r \<Longrightarrow> pat = [] \<longrightarrow> length source < lastPos"
  by (rule replace_loop.raw_induct [where P = "\<lambda>source pat to lastPos newString r.
      pat = [] \<longrightarrow> length source < lastPos"])
    (auto simp: str_find_empty split: option.splits if_splits)

lemma replaceAll_empty: "replaceAll source [] to = None"
proof (cases "replaceAll source [] to")
  case (Some r)
  then show ?thesis using replace_loop_empty [of source "[]" to 0 "[]" r] by (simp add: replaceAll_def)
qed simp


section \<open>Case conversion, trimming\<close>

definition tolower_char :: "char \<Rightarrow> char" where
  "tolower_char c = (let n = of_char c :: nat in if 65 \<le> n \<and> n \<le> 90 then char_of (n + 32) else c)"

definition toupper_char :: "char \<Rightarrow> char" where
  "toupper_char c = (let n = of_char c :: nat in if 97 \<le> n \<and> n \<le> 122 then char_of (n - 32) else c)"

definition tolower_copy :: "string \<Rightarrow> string" where
  "tolower_copy s = map tolower_char s"

definition toupper_copy :: "string \<Rightarrow> string" where
  "toupper_copy s = map toupper_char s"

lemma tolower_char_idem [simp]: "tolower_char (tolower_char c) = tolower_char c"
  by (auto simp: tolower_char_def Let_def)

definition trim_right :: "string \<Rightarrow> string" where
  "trim_right s =
     (case find_last_not_of [CHR '' '', CHR 0x09] s of
        Some endpos \<Rightarrow> take (endpos + 1) s
      | None \<Rightarrow> s)"

definition trim_left :: "string \<Rightarrow> string" where
  "trim_left s =
     (case find_first_not_of [CHR '' '', CHR 0x09] s of
        Some startpos \<Rightarrow> drop startpos s
      | None \<Rightarrow> s)"

definition is_blank :: "char \<Rightarrow> bool" where
  "is_blank c \<longleftrightarrow> c = CHR '' '' \<or> c = CHR 0x09"

lemma trim_left_eq:
  "trim_left s = (if \<forall>c\<in>set s. is_blank c then s else dropWhile is_blank s)"
proof -
  have p: "(\<lambda>c. c \<in> set [CHR '' '', CHR 0x09]) = is_blank" by (auto simp: is_blank_def)
  have "drop (length s - length (dropWhile is_blank s)) s = dropWhile is_blank s"
    using length_takeWhile_le [of is_blank s] by (simp add: dropWhile_eq_drop)
  then show ?thesis unfolding trim_left_def find_first_not_of_def p Let_def
    by (simp add: dropWhile_eq_Nil_conv)
qed

lemma trim_right_eq:
  "trim_right s = (if \<forall>c\<in>set s. is_blank c then s else rev (dropWhile is_blank (rev s)))"
proof -
  have p: "(\<lambda>c. c \<in> set [CHR '' '', CHR 0x09]) = is_blank" by (auto simp: is_blank_def)
  let ?t = "dropWhile is_blank (rev s)"
  have s: "rev ?t @ rev (takeWhile is_blank (rev s)) = s"
    by (simp only: rev_append [symmetric] takeWhile_dropWhile_id rev_rev_ident)
  have "take (length ?t) (rev ?t @ rev (takeWhile is_blank (rev s))) = rev ?t"
    by simp
  then have "take (length ?t) s = rev ?t" by (simp only: s)
  then show ?thesis unfolding trim_right_def find_last_not_of_def p Let_def
    by (simp add: dropWhile_eq_Nil_conv)
qed

text \<open>A string that neither starts nor ends with a blank is left alone.\<close>

definition trimmed :: "string \<Rightarrow> bool" where
  "trimmed s \<longleftrightarrow> s = [] \<or> \<not> is_blank (hd s) \<and> \<not> is_blank (last s)"

lemma trim_trimmed [simp]: "trimmed s \<Longrightarrow> trim_left s = s" "trimmed s \<Longrightarrow> trim_right s = s"
proof -
  assume "trimmed s"
  then show "trim_left s = s" by (cases s) (auto simp: trim_left_eq trimmed_def)
  show "trim_right s = s" using \<open>trimmed s\<close>
    by (cases s rule: rev_cases) (auto simp: trim_right_eq trimmed_def)
qed

lemma trim_result:
  "\<not> (\<forall>c\<in>set s. is_blank c) \<Longrightarrow> trimmed (trim_right (trim_left s))"
proof -
  assume s: "\<not> (\<forall>c\<in>set s. is_blank c)"
  let ?t = "dropWhile is_blank s"
  have t: "?t \<noteq> []" "\<not> is_blank (hd ?t)" using s by (auto simp: hd_dropWhile dropWhile_eq_Nil_conv)
  then have nb: "\<not> (\<forall>c\<in>set ?t. is_blank c)" using hd_in_set by blast
  let ?u = "dropWhile is_blank (rev ?t)"
  have u: "?u \<noteq> []" "\<not> is_blank (hd ?u)" using nb by (auto simp: hd_dropWhile dropWhile_eq_Nil_conv)
  have "last (takeWhile is_blank (rev ?t) @ ?u) = last ?u" by (rule last_appendR [OF u(1)])
  then have "last ?u = last (rev ?t)" by (simp only: takeWhile_dropWhile_id)
  then have "hd (rev ?u) = hd ?t" by (simp only: hd_rev last_rev)
  then have "trimmed (rev ?u)" unfolding trimmed_def using t(2) u(2) by (simp only: last_rev simp_thms)
  moreover have "trim_left s = ?t" using s by (simp only: trim_left_eq if_False)
  moreover have "trim_right ?t = rev ?u" using nb by (simp only: trim_right_eq if_False)
  ultimately show ?thesis by (simp only:)
qed

lemma trim_blank: "(\<forall>c\<in>set s. is_blank c) \<Longrightarrow> trim_right (trim_left s) = s"
  by (simp add: trim_left_eq trim_right_eq)


section \<open>decode\<close>

text \<open>\<open>isspace\<close> and the hexadecimal digits of the C locale.\<close>

definition is_space :: "char \<Rightarrow> bool" where
  "is_space c \<longleftrightarrow> (let n = of_char c :: nat in n = 32 \<or> 9 \<le> n \<and> n \<le> 13)"

definition digit_value :: "nat \<Rightarrow> char \<Rightarrow> nat option" where
  "digit_value base c =
     (let n = of_char c :: nat;
          v = (if 48 \<le> n \<and> n \<le> 57 then n - 48
               else if 97 \<le> n \<and> n \<le> 122 then n - 87
               else if 65 \<le> n \<and> n \<le> 90 then n - 55 else base)
      in if v < base then Some v else None)"

text \<open>
  \<open>is >> std::hex >> value\<close> on a stream of two characters: blanks in front are skipped, a
  sign and the prefix \<open>0x\<close> belong to the number, and the number ends before the first other
  character. \<open>None\<close> is a failed read; a prefix without a digit fails.
\<close>

definition read_hex2 :: "char \<Rightarrow> char \<Rightarrow> int option" where
  "read_hex2 a b =
     (if is_space a then map_option int (digit_value 16 b)
      else if a = CHR ''+'' then map_option int (digit_value 16 b)
      else if a = CHR ''-'' then map_option (\<lambda>v. - int v) (digit_value 16 b)
      else
        (case digit_value 16 a of
           None \<Rightarrow> None
         | Some x \<Rightarrow>
             (case digit_value 16 b of
                Some y \<Rightarrow> Some (int (16 * x + y))
              | None \<Rightarrow> if x = 0 \<and> b \<in> {CHR ''x'', CHR ''X''} then None else Some (int x))))"

text \<open>\<open>static_cast<char>(value)\<close>.\<close>

definition char_of_int :: "int \<Rightarrow> char" where
  "char_of_int v = char_of (nat (v mod 256))"

function decode_loop :: "string \<Rightarrow> string \<Rightarrow> bool \<times> string" where
  "decode_loop s out =
     (case s of
        [] \<Rightarrow> (True, out)
      | c # s \<Rightarrow>
          (if c = CHR ''%''
           then
             (if 2 \<le> length s
              then
                (case read_hex2 (s ! 0) (s ! 1) of
                   Some v \<Rightarrow> decode_loop (drop 2 s) (out @ [char_of_int v])
                 | None \<Rightarrow> (False, out))
              else (False, out))
           else if c = CHR ''+'' then decode_loop s (out @ '' '')
           else decode_loop s (out @ [c])))"
  by pat_completeness auto
termination by (relation "measure (\<lambda>(s, out). length s)") auto

declare decode_loop.simps [simp del]

text \<open>The result and the output parameter.\<close>

definition decode :: "string \<Rightarrow> bool \<times> string" where
  "decode s = decode_loop s []"

text \<open>The encoding that RFC 3986 prescribes: two digits for everything but the unreserved characters.\<close>

definition unreserved :: "char \<Rightarrow> bool" where
  "unreserved c \<longleftrightarrow> (let n = of_char c :: nat in
     48 \<le> n \<and> n \<le> 57 \<or> 65 \<le> n \<and> n \<le> 90 \<or> 97 \<le> n \<and> n \<le> 122 \<or> n \<in> {45, 46, 95, 126})"

definition hex_char :: "nat \<Rightarrow> char" where
  "hex_char v = char_of (if v < 10 then v + 48 else v + 55)"

definition encode_char :: "char \<Rightarrow> string" where
  "encode_char c =
     (if unreserved c then [c]
      else [CHR ''%'', hex_char (of_char c div 16), hex_char (of_char c mod 16)])"

definition url_encode :: "string \<Rightarrow> string" where
  "url_encode s = concat (map encode_char s)"

lemma of_char_of_nat: "n < 256 \<Longrightarrow> (of_char (char_of n) :: nat) = n"
  by simp

lemma digit_value_hex: "v < 16 \<Longrightarrow> digit_value 16 (hex_char v) = Some v"
  by (auto simp: digit_value_def hex_char_def Let_def)

lemma hex_char_plain:
  assumes "v < 16"
  shows "\<not> is_space (hex_char v)" "hex_char v \<noteq> CHR ''+''" "hex_char v \<noteq> CHR ''-''"
proof -
  have n: "(of_char (hex_char v) :: nat) = (if v < 10 then v + 48 else v + 55)"
    using assms by (simp add: hex_char_def)
  show "\<not> is_space (hex_char v)" using assms by (simp add: is_space_def n)
  have "(of_char (hex_char v) :: nat) \<noteq> of_char (CHR ''+'')" "(of_char (hex_char v) :: nat) \<noteq> of_char (CHR ''-'')"
    using assms by (simp_all add: n)
  then show "hex_char v \<noteq> CHR ''+''" "hex_char v \<noteq> CHR ''-''" by auto
qed

lemma read_hex2_encoded: "n < 256 \<Longrightarrow> read_hex2 (hex_char (n div 16)) (hex_char (n mod 16)) = Some (int n)"
proof -
  assume "n < 256"
  then have "n div 16 < 16" "n mod 16 < 16" by simp_all
  moreover have "16 * (n div 16) + n mod 16 = n" by simp
  ultimately show ?thesis by (simp add: read_hex2_def hex_char_plain digit_value_hex)
qed

lemma decode_loop_encode: "decode_loop (encode_char c @ s) out = decode_loop s (out @ [c])"
proof (cases "unreserved c")
  case True
  then have "(of_char c :: nat) \<noteq> of_char (CHR ''%'')" "(of_char c :: nat) \<noteq> of_char (CHR ''+'')"
    by (auto simp: unreserved_def Let_def)
  then have "c \<noteq> CHR ''%''" "c \<noteq> CHR ''+''" by auto
  with True show ?thesis by (subst decode_loop.simps) (simp add: encode_char_def)
next
  case False
  have "read_hex2 (hex_char (of_char c div 16)) (hex_char (of_char c mod 16)) = Some (int (of_char c))"
    by (rule read_hex2_encoded) simp
  moreover have "char_of_int (int (of_char c)) = c" by (simp add: char_of_int_def)
  ultimately show ?thesis using False by (subst decode_loop.simps) (simp add: encode_char_def)
qed

lemma decode_loop_url_encode: "decode_loop (url_encode s @ t) out = decode_loop t (out @ s)"
  by (induction s arbitrary: out) (simp_all add: url_encode_def decode_loop_encode)

lemma decode_url_encode: "decode (url_encode s) = (True, s)"
  using decode_loop_url_encode [of s "[]" "[]"] by (simp add: decode_def decode_loop.simps [of "[]"])

text \<open>What is not an escape, a plus sign or a percent sign is copied.\<close>

lemma decode_plain: "CHR ''%'' \<notin> set s \<Longrightarrow> decode_loop s out = (True, out @ map (\<lambda>c. if c = CHR ''+'' then CHR '' '' else c) s)"
  by (induction s arbitrary: out) (auto simp: decode_loop.simps [of "[]"] decode_loop.simps [of "_ # _"])


section \<open>Numbers in decimal\<close>

text \<open>
  \<open>std::to_string\<close> of an unsigned number, and \<open>std::stoul\<close>: blanks in front, an optional
  sign, digits, and anything behind them; the number must fit 64 bits, and a minus sign
  negates it modulo \<open>2 ^ 64\<close>.
\<close>

fun to_string :: "nat \<Rightarrow> string" where
  "to_string n = (if n < 10 then [char_of (n + 48)] else to_string (n div 10) @ [char_of (n mod 10 + 48)])"

declare to_string.simps [simp del]

text \<open>What an output stream writes for a signed number.\<close>

definition print_int :: "int \<Rightarrow> string" where
  "print_int i = (if i < 0 then ''-'' @ to_string (nat (- i)) else to_string (nat i))"

datatype number_error = invalid_argument | out_of_range

definition is_digit :: "char \<Rightarrow> bool" where
  "is_digit c \<longleftrightarrow> digit_value 10 c \<noteq> None"

definition digits_value :: "string \<Rightarrow> nat" where
  "digits_value s = foldl (\<lambda>v c. v * 10 + the (digit_value 10 c)) 0 s"

definition std_stoul :: "string \<Rightarrow> number_error + nat" where
  "std_stoul s =
     (let s = dropWhile is_space s;
          negative = (s \<noteq> [] \<and> hd s = CHR ''-'');
          s = (if s \<noteq> [] \<and> hd s \<in> {CHR ''+'', CHR ''-''} then tl s else s);
          ds = takeWhile is_digit s;
          v = digits_value ds
      in if ds = [] then Inl invalid_argument
         else if 2 ^ 64 \<le> v then Inl out_of_range
         else Inr (if negative then (2 ^ 64 - v) mod 2 ^ 64 else v))"

lemma digit_value_10: "v < 10 \<Longrightarrow> digit_value 10 (char_of (v + 48)) = Some v"
  by (auto simp: digit_value_def Let_def)

lemma is_digit_char: "(v :: nat) < 10 \<Longrightarrow> is_digit (char_of (v + 48))"
  by (simp add: is_digit_def digit_value_10)

lemma to_string_digits: "list_all is_digit (to_string n) \<and> to_string n \<noteq> []"
  by (induction n rule: to_string.induct)
    (subst (1 2) to_string.simps, auto simp: is_digit_char)

lemma digits_value_to_string: "digits_value (to_string n) = n"
  by (induction n rule: to_string.induct)
    (subst to_string.simps, auto simp: digits_value_def digit_value_10)

lemma is_digit_plain: "is_digit c \<Longrightarrow> \<not> is_space c \<and> c \<noteq> CHR ''+'' \<and> c \<noteq> CHR ''-''"
  by (auto simp: is_digit_def digit_value_def is_space_def Let_def split: if_splits)

lemma stoul_to_string: "n < 2 ^ 64 \<Longrightarrow> std_stoul (to_string n) = Inr n"
proof -
  assume n: "n < 2 ^ 64"
  obtain c cs where s: "to_string n = c # cs" using to_string_digits by (cases "to_string n") auto
  then have c: "is_digit c" "list_all is_digit (c # cs)" using to_string_digits [of n] by simp_all
  then have t: "takeWhile is_digit (c # cs) = c # cs" by (auto simp: takeWhile_eq_all_conv list_all_iff)
  have "std_stoul (c # cs) =
      (let ds = takeWhile is_digit (c # cs); v = digits_value ds
       in if ds = [] then Inl invalid_argument else if 2 ^ 64 \<le> v then Inl out_of_range else Inr v)"
    using is_digit_plain [OF c(1)] by (simp add: std_stoul_def Let_def)
  also have "\<dots> = Inr (digits_value (c # cs))"
    unfolding t Let_def using n digits_value_to_string [of n] s by simp
  finally show ?thesis using digits_value_to_string [of n] by (simp add: s)
qed
end
