(* ===== verification/Numeric_Cast.thy ===== *)
theory Numeric_Cast
  imports Main
begin

text \<open>
  src/acatl/numeric_cast.h, the overloads for integral types. A type is its range; a value
  is an integer of that range, and \<open>static_cast\<close> is reduction modulo the size of the range.
  The overloads for floating point types are not modelled. \<open>None\<close> is \<open>BadNumericCast\<close>.
\<close>

record int_kind =
  ik_min :: int
  ik_max :: int

definition uint_kind :: "nat \<Rightarrow> int_kind" where
  "uint_kind w = \<lparr>ik_min = 0, ik_max = 2 ^ w - 1\<rparr>"

definition sint_kind :: "nat \<Rightarrow> int_kind" where
  "sint_kind w = \<lparr>ik_min = - (2 ^ (w - 1)), ik_max = 2 ^ (w - 1) - 1\<rparr>"

definition is_signed :: "int_kind \<Rightarrow> bool" where
  "is_signed k \<longleftrightarrow> ik_min k < 0"

definition in_kind :: "int_kind \<Rightarrow> int \<Rightarrow> bool" where
  "in_kind k v \<longleftrightarrow> ik_min k \<le> v \<and> v \<le> ik_max k"

definition static_cast :: "int_kind \<Rightarrow> int \<Rightarrow> int" where
  "static_cast k v = (v - ik_min k) mod (ik_max k - ik_min k + 1) + ik_min k"

text \<open>The four overloads: same type, same signedness, signed to unsigned, unsigned to signed.\<close>

definition cast_same :: "int_kind \<Rightarrow> int_kind \<Rightarrow> int \<Rightarrow> int option" where
  "cast_same src tgt v =
     (if ik_max tgt < ik_max src \<and> ik_max tgt < v then None
      else if ik_min src < ik_min tgt \<and> v < ik_min tgt then None
      else Some (static_cast tgt v))"

definition cast_to_unsigned :: "int_kind \<Rightarrow> int_kind \<Rightarrow> int \<Rightarrow> int option" where
  "cast_to_unsigned src tgt v =
     (if ik_max tgt < ik_max src \<and> ik_max tgt < v then None
      else if v < 0 then None
      else if v < ik_min tgt then None
      else Some (static_cast tgt v))"

definition cast_to_signed :: "int_kind \<Rightarrow> int_kind \<Rightarrow> int \<Rightarrow> int option" where
  "cast_to_signed src tgt v =
     (if ik_max tgt < ik_max src \<and> ik_max tgt < v then None
      else Some (static_cast tgt v))"

definition numeric_cast :: "int_kind \<Rightarrow> int_kind \<Rightarrow> int \<Rightarrow> int option" where
  "numeric_cast src tgt v =
     (if src = tgt then Some v
      else if is_signed src = is_signed tgt then cast_same src tgt v
      else if is_signed src then cast_to_unsigned src tgt v
      else cast_to_signed src tgt v)"

lemma static_cast_id: "in_kind k v \<Longrightarrow> static_cast k v = v"
  by (simp add: in_kind_def static_cast_def)

lemma kind_cases:
  assumes "k \<in> {uint_kind w, sint_kind w}"
  shows "if is_signed k then ik_min k = - ik_max k - 1 \<and> 0 \<le> ik_max k else ik_min k = 0 \<and> 0 \<le> ik_max k"
proof -
  have "(1 :: int) \<le> 2 ^ n" for n by simp
  then show ?thesis using assms by (auto simp: uint_kind_def sint_kind_def is_signed_def)
qed

lemma numeric_cast_exact:
  assumes "src \<in> {uint_kind w, sint_kind w}" "tgt \<in> {uint_kind w', sint_kind w'}" "in_kind src v"
  shows "numeric_cast src tgt v = (if in_kind tgt v then Some v else None)"
proof -
  note k = kind_cases [OF assms(1)] kind_cases [OF assms(2)]
  have "src = tgt \<Longrightarrow> ?thesis" using assms(3) by (simp add: numeric_cast_def)
  moreover have "src \<noteq> tgt \<Longrightarrow> ?thesis"
    using k assms(3) static_cast_id [of tgt v]
    by (auto simp: numeric_cast_def cast_same_def cast_to_unsigned_def cast_to_signed_def in_kind_def
        split: if_splits)
  ultimately show ?thesis by blast
qed

end
