(* ===== verification/Http_Cookie.thy ===== *)
theory Http_Cookie
  imports Strings Numeric_Cast Prelude
begin

text \<open>
  src/acatl_network/http_cookie.h and http_cookie.cpp: cookies, their text form, and the
  parsers for the text a server sends and a client sends. An exception is \<open>Inl\<close>; reading
  \<open>parts[0]\<close> of an empty vector has no defined result and is \<open>None\<close>. A read one behind the
  end of a \<open>std::string\<close> gives the NUL character.
\<close>

datatype cookie_exception =
  MalformedCookie string | BadNumericCast | StdException number_error

datatype CookieType = eSERVER | eCLIENT

record HttpCookie =
  hc_name :: string
  hc_value :: string
  hc_domain :: string
  hc_path :: string
  hc_maxAge :: u32
  hc_secure :: bool
  hc_httpOnly :: bool

definition HttpCookie_new :: "string \<Rightarrow> string \<Rightarrow> cookie_exception + HttpCookie" where
  "HttpCookie_new name value =
     (if char_at name 0 = CHR ''$''
      then Inl (MalformedCookie (''Cookie names may not start with a '' @ [CHR 0x27, CHR ''$'', CHR 0x27]))
      else Inr \<lparr>hc_name = name, hc_value = value, hc_domain = [], hc_path = [], hc_maxAge = - 1,
                hc_secure = True, hc_httpOnly = True\<rparr>)"

text \<open>The text of a cookie, \<open>operator<<\<close>.\<close>

definition print_cookie :: "HttpCookie \<Rightarrow> string" where
  "print_cookie c =
     hc_name c @ ''='' @ hc_value c @ '';Version=1'' @
     (if hc_domain c \<noteq> [] then '';Domain='' @ hc_domain c else []) @
     (if hc_path c \<noteq> [] then '';Path='' @ hc_path c else []) @
     (if hc_maxAge c < - 1 then '';Max-Age='' @ to_string (unat (hc_maxAge c)) else []) @
     (if hc_secure c then '';Secure'' else []) @
     (if hc_httpOnly c then '';HttpOnly'' else [])"


section \<open>What the parsers share\<close>

definition trim :: "string \<Rightarrow> string" where
  "trim s = trim_right (trim_left s)"

text \<open>\<open>substr(1, length() - 2)\<close> of a string that starts with a quote.\<close>

definition unquote :: "string \<Rightarrow> string" where
  "unquote v = (if char_at v 0 = CHR 0x22 then take (length v - 2) (drop 1 v) else v)"

text \<open>
  \<open>getNextPart\<close>: the part that starts at \<open>pos\<close>, and the position behind its separator.
\<close>

definition getNextPart :: "nat \<Rightarrow> string \<Rightarrow> string \<times> nat option" where
  "getNextPart pos s =
     (case find_first_of [CHR '';'', CHR '',''] s pos of
        None \<Rightarrow> (drop pos s, None)
      | Some p \<Rightarrow> (take (p - pos) (drop pos s), Some (p + 1)))"

definition splitPart :: "string \<Rightarrow> string \<times> string" where
  "splitPart part =
     (case find_first_of [CHR ''=''] part 0 of
        None \<Rightarrow> (trim part, [])
      | Some p \<Rightarrow>
          (let val = unquote (trim (drop (p + 1) part))
           in (tolower_copy (trim (take p part)), val)))"


section \<open>Cookies sent by a server\<close>

text \<open>
  The loop over the attributes of one cookie. They are set on \<open>cookies.front()\<close>, the first
  cookie of the header, whichever cookie they belong to.
\<close>

definition change_front :: "(HttpCookie \<Rightarrow> HttpCookie) \<Rightarrow> HttpCookie list \<Rightarrow> HttpCookie list" where
  "change_front f cookies = (case cookies of [] \<Rightarrow> [] | c # cs \<Rightarrow> f c # cs)"

definition attribute_of :: "string \<Rightarrow> string \<times> string" where
  "attribute_of part =
     (case find_first_of [CHR ''=''] part 0 of
        Some p \<Rightarrow> (tolower_copy (trim (take p part)), unquote (trim (drop (p + 1) part)))
      | None \<Rightarrow> (tolower_copy part, []))"

definition server_attribute :: "string \<Rightarrow> HttpCookie list \<Rightarrow> cookie_exception + HttpCookie list" where
  "server_attribute part cookies =
     (case attribute_of part of
        (attribute, val) \<Rightarrow>
          if attribute = ''domain'' then Inr (change_front (\<lambda>c. c\<lparr>hc_domain := val\<rparr>) cookies)
          else if attribute = ''path'' then Inr (change_front (\<lambda>c. c\<lparr>hc_path := val\<rparr>) cookies)
          else if attribute = ''max-age'' then
            (case std_stoul val of
               Inl e \<Rightarrow> Inl (StdException e)
             | Inr n \<Rightarrow>
                 (case numeric_cast (uint_kind 64) (uint_kind 32) (int n) of
                    None \<Rightarrow> Inl BadNumericCast
                  | Some m \<Rightarrow> Inr (change_front (\<lambda>c. c\<lparr>hc_maxAge := of_int m\<rparr>) cookies)))
          else if attribute = ''version'' then
            (if val \<noteq> ''1'' then Inl (MalformedCookie (''Cookie has wrong version: '' @ part)) else Inr cookies)
          else if attribute = ''secure'' then Inr (change_front (\<lambda>c. c\<lparr>hc_secure := True\<rparr>) cookies)
          else Inl (MalformedCookie (''Malformed cookie, unknown attribute: '' @ part)))"

fun server_attributes :: "string list \<Rightarrow> HttpCookie list \<Rightarrow> cookie_exception + HttpCookie list" where
  "server_attributes [] cookies = Inr cookies"
| "server_attributes (part # parts) cookies =
     (case server_attribute part cookies of
        Inl e \<Rightarrow> Inl e
      | Inr cookies \<Rightarrow> server_attributes parts cookies)"

fun server_cookies ::
    "string list \<Rightarrow> HttpCookie list \<Rightarrow> (cookie_exception + HttpCookie list) option" where
  "server_cookies [] cookies = Some (Inr cookies)"
| "server_cookies (tmp # cookie_strings) cookies =
     (case split_string tmp CHR '';'' True of
        [] \<Rightarrow> None
      | part # parts \<Rightarrow>
          (case find_first_of [CHR ''=''] part 0 of
             None \<Rightarrow> Some (Inl (MalformedCookie (''Malformed cookie: '' @ tmp)))
           | Some n \<Rightarrow>
               (case HttpCookie_new (trim (take n part)) (unquote (trim (drop (n + 1) part))) of
                  Inl e \<Rightarrow> Some (Inl e)
                | Inr cookie \<Rightarrow>
                    (case server_attributes parts (cookies @ [cookie]) of
                       Inl e \<Rightarrow> Some (Inl e)
                     | Inr cookies \<Rightarrow> server_cookies cookie_strings cookies))))"

definition parseServerCookies :: "string \<Rightarrow> (cookie_exception + HttpCookie list) option" where
  "parseServerCookies cookie = server_cookies (split_string cookie CHR '','' True) []"


section \<open>Cookies sent by a client\<close>

definition change_back :: "(HttpCookie \<Rightarrow> HttpCookie) \<Rightarrow> HttpCookie list \<Rightarrow> HttpCookie list" where
  "change_back f cookies = butlast cookies @ [f (last cookies)]"

definition client_part :: "string \<Rightarrow> HttpCookie list \<Rightarrow> cookie_exception + HttpCookie list" where
  "client_part part cookies =
     (case splitPart part of
        (first, second) \<Rightarrow>
          if second = [] then Inl (MalformedCookie (''Malformed client cookie: '' @ part))
          else if first = ''$version'' then
            (if cookies \<noteq> []
             then Inl (MalformedCookie ''Malformed client cookie: $Version has to be the first attribute'')
             else if second \<noteq> ''1'' then Inl (MalformedCookie (''Cookie has wrong version: '' @ part))
             else Inr cookies)
          else if first = ''$domain'' then
            (if cookies = [] then Inl (MalformedCookie ''Malformed client cookie: no name=value set'')
             else Inr (change_back (\<lambda>c. c\<lparr>hc_domain := second\<rparr>) cookies))
          else if first = ''$path'' then
            (if cookies = [] then Inl (MalformedCookie ''Malformed client cookie: no name=value set'')
             else Inr (change_back (\<lambda>c. c\<lparr>hc_path := second\<rparr>) cookies))
          else
            (case HttpCookie_new first second of
               Inl e \<Rightarrow> Inl e
             | Inr cookie \<Rightarrow> Inr (cookies @ [cookie])))"

lemma getNextPart_progress: "getNextPart pos s = (part, Some pos') \<Longrightarrow> pos < pos' \<and> pos' \<le> length s"
proof -
  assume "getNextPart pos s = (part, Some pos')"
  then obtain p where p: "find_first_of [CHR '';'', CHR '',''] s pos = Some p" and pos': "pos' = p + 1"
    unfolding getNextPart_def by (cases "find_first_of [CHR '';'', CHR '',''] s pos") auto
  from find_if_from_Some [OF p [unfolded find_first_of_def]] have "pos \<le> p" "p < pos + length (drop pos s)"
    by simp_all
  then show ?thesis using pos' by simp
qed

function client_loop :: "nat \<Rightarrow> string \<Rightarrow> HttpCookie list \<Rightarrow> cookie_exception + HttpCookie list" where
  "client_loop pos cookie cookies =
     (case getNextPart pos cookie of
        (part, pos) \<Rightarrow>
          (case client_part part cookies of
             Inl e \<Rightarrow> Inl e
           | Inr cookies \<Rightarrow>
               (case pos of None \<Rightarrow> Inr cookies | Some pos \<Rightarrow> client_loop pos cookie cookies)))"
  by pat_completeness auto
termination
  by (relation "measure (\<lambda>(pos, cookie, cookies). length cookie - pos)")
    (auto dest!: getNextPart_progress [OF sym] intro: diff_less_mono2)

declare client_loop.simps [simp del]

definition parseClientCookies :: "string \<Rightarrow> cookie_exception + HttpCookie list" where
  "parseClientCookies cookie = client_loop 0 cookie []"

definition parseCookie :: "CookieType \<Rightarrow> string \<Rightarrow> (cookie_exception + HttpCookie list) option" where
  "parseCookie type cookie =
     (case type of
        eSERVER \<Rightarrow> parseServerCookies cookie
      | eCLIENT \<Rightarrow> Some (parseClientCookies cookie))"


section \<open>Printing and parsing\<close>

text \<open>A text that a cookie's fields may have: no separators, no blanks or quotes at the ends.\<close>

definition plain_text :: "string \<Rightarrow> bool" where
  "plain_text s \<longleftrightarrow> CHR '';'' \<notin> set s \<and> CHR '','' \<notin> set s \<and> trimmed s \<and> char_at s 0 \<noteq> CHR 0x22"

definition plain_cookie :: "HttpCookie \<Rightarrow> bool" where
  "plain_cookie c \<longleftrightarrow>
     plain_text (hc_name c) \<and> CHR ''='' \<notin> set (hc_name c) \<and> char_at (hc_name c) 0 \<noteq> CHR ''$'' \<and>
     plain_text (hc_value c) \<and> plain_text (hc_domain c) \<and> plain_text (hc_path c)"

definition cookie_parts :: "HttpCookie \<Rightarrow> string list" where
  "cookie_parts c =
     (hc_name c @ ''='' @ hc_value c) # ''Version=1'' #
     (if hc_domain c \<noteq> [] then [''Domain='' @ hc_domain c] else []) @
     (if hc_path c \<noteq> [] then [''Path='' @ hc_path c] else []) @
     (if hc_maxAge c < - 1 then [''Max-Age='' @ to_string (unat (hc_maxAge c))] else []) @
     (if hc_secure c then [''Secure''] else []) @ (if hc_httpOnly c then [''HttpOnly''] else [])"

lemma join_Cons: "es \<noteq> [] \<Longrightarrow> join (e # es) sep = e @ sep @ join es sep"
  by (cases es) simp_all

lemma set_join: "c \<in> set (join es sep) \<Longrightarrow> c \<in> set sep \<or> (\<exists>e\<in>set es. c \<in> set e)"
proof (induction es)
  case (Cons e es)
  then show ?case by (cases es) auto
qed simp

lemma print_cookie_join: "print_cookie c = join (cookie_parts c) '';''"
  by (auto simp: print_cookie_def cookie_parts_def)

lemma to_string_plain: "CHR '';'' \<notin> set (to_string n) \<and> CHR '','' \<notin> set (to_string n)"
proof -
  have "\<not> is_digit CHR '';''" "\<not> is_digit CHR '',''"
    by (simp_all add: is_digit_def digit_value_def)
  then show ?thesis using to_string_digits [of n] by (auto simp: list_all_iff)
qed

lemma cookie_parts_plain:
  "plain_cookie c \<Longrightarrow> e \<in> set (cookie_parts c) \<Longrightarrow> CHR '';'' \<notin> set e \<and> CHR '','' \<notin> set e \<and> e \<noteq> []"
  using to_string_plain [of "unat (hc_maxAge c)"]
  by (auto simp: cookie_parts_def plain_cookie_def plain_text_def split: if_splits)


lemma find_sep:
  assumes "\<forall>c\<in>set a. c \<notin> set cs" "c \<in> set cs"
  shows "find_first_of cs (a @ c # b) 0 = Some (length a)"
proof -
  have "find_if_from P i (a @ c # b) = Some (i + length a)" if "\<forall>c\<in>set a. \<not> P c" "P c" for P i
    using that by (induction a arbitrary: i) auto
  from this [of "\<lambda>c. c \<in> set cs" 0] show ?thesis using assms by (simp add: find_first_of_def)
qed

lemma find_no_sep: "\<forall>c\<in>set a. c \<notin> set cs \<Longrightarrow> find_first_of cs a 0 = None"
  by (simp add: find_first_of_def find_if_from_None)

lemma trim_trimmed_id [simp]: "trimmed s \<Longrightarrow> trim s = s"
  by (simp add: trim_def)

lemma unquote_plain [simp]: "char_at s 0 \<noteq> CHR 0x22 \<Longrightarrow> unquote s = s"
  by (simp add: unquote_def)

lemma attribute_of_plain:
  "CHR ''='' \<notin> set k \<Longrightarrow> trimmed k \<Longrightarrow> plain_text v \<Longrightarrow>
   attribute_of (k @ CHR ''='' # v) = (tolower_copy k, v)"
proof -
  assume k: "CHR ''='' \<notin> set k" "trimmed k" and v: "plain_text v"
  have "find_first_of [CHR ''=''] (k @ CHR ''='' # v) 0 = Some (length k)" by (rule find_sep) (use k in auto)
  then show ?thesis using k v by (simp add: attribute_of_def plain_text_def)
qed

text \<open>The attributes that \<open>operator<<\<close> writes.\<close>

lemma attribute_names:
  "tolower_copy ''Version'' = ''version''" "tolower_copy ''Domain'' = ''domain''"
  "tolower_copy ''Path'' = ''path''" "tolower_copy ''Max-Age'' = ''max-age''"
  "tolower_copy ''Secure'' = ''secure''" "tolower_copy ''HttpOnly'' = ''httponly''"
  by code_simp+

lemma trimmed_names: "trimmed ''Version''" "trimmed ''Domain''" "trimmed ''Path''" "trimmed ''Max-Age''"
  by (simp_all add: trimmed_def is_blank_def)

lemma plain_number: "plain_text (to_string n)"
proof -
  let ?s = "to_string n"
  have d: "is_digit c" if "c \<in> set ?s" for c
    using to_string_digits [of n] that by (auto simp: list_all_iff)
  have s: "?s \<noteq> []" using to_string_digits by blast
  have nb: "\<not> is_blank c \<and> c \<noteq> CHR 0x22" if "is_digit c" for c
    using that by (auto simp: is_digit_def digit_value_def is_blank_def)
  have "trimmed ?s" using s d [OF hd_in_set [OF s]] d [OF last_in_set [OF s]] nb by (simp add: trimmed_def)
  moreover have "char_at ?s 0 \<noteq> CHR 0x22" using s nb d [of "?s ! 0"] by (simp add: char_at_def)
  ultimately show ?thesis using to_string_plain [of n] by (simp add: plain_text_def)
qed

lemma parse_attributes:
  "server_attribute ''Version=1'' cs = Inr cs"
  "server_attribute ''Secure'' cs = Inr (change_front (\<lambda>c. c\<lparr>hc_secure := True\<rparr>) cs)"
  "server_attribute ''HttpOnly'' cs = Inl (MalformedCookie ''Malformed cookie, unknown attribute: HttpOnly'')"
  "plain_text v \<Longrightarrow> server_attribute (''Domain='' @ v) cs = Inr (change_front (\<lambda>c. c\<lparr>hc_domain := v\<rparr>) cs)"
  "plain_text v \<Longrightarrow> server_attribute (''Path='' @ v) cs = Inr (change_front (\<lambda>c. c\<lparr>hc_path := v\<rparr>) cs)"
  "server_attribute (''Max-Age='' @ to_string (unat (m :: u32))) cs = Inr (change_front (\<lambda>c. c\<lparr>hc_maxAge := m\<rparr>) cs)"
proof -
  have one: "plain_text ''1''" by (simp add: plain_text_def trimmed_def is_blank_def char_at_def)
  have a: "attribute_of ''Version=1'' = (''version'', ''1'')"
    using attribute_of_plain [OF _ trimmed_names(1) one] by (simp add: attribute_names)
  show "server_attribute ''Version=1'' cs = Inr cs" by (simp add: server_attribute_def a)
  have b: "attribute_of ''Secure'' = (''secure'', [])" "attribute_of ''HttpOnly'' = (''httponly'', [])"
    by (simp_all add: attribute_of_def find_no_sep attribute_names)
  show "server_attribute ''Secure'' cs = Inr (change_front (\<lambda>c. c\<lparr>hc_secure := True\<rparr>) cs)"
    "server_attribute ''HttpOnly'' cs = Inl (MalformedCookie ''Malformed cookie, unknown attribute: HttpOnly'')"
    by (simp_all add: server_attribute_def b)
  show "plain_text v \<Longrightarrow> server_attribute (''Domain='' @ v) cs = Inr (change_front (\<lambda>c. c\<lparr>hc_domain := v\<rparr>) cs)"
    using attribute_of_plain [OF _ trimmed_names(2), of v] by (simp add: attribute_names server_attribute_def)
  show "plain_text v \<Longrightarrow> server_attribute (''Path='' @ v) cs = Inr (change_front (\<lambda>c. c\<lparr>hc_path := v\<rparr>) cs)"
    using attribute_of_plain [OF _ trimmed_names(3), of v] by (simp add: attribute_names server_attribute_def)
  have "uint m < 2 ^ 32" "unat m < 2 ^ 64"
    using unsigned_less [of m, where ?'a = int] unsigned_less [of m, where ?'a = nat] by simp_all
  then have r: "in_kind (uint_kind 64) (int (unat m))" "in_kind (uint_kind 32) (int (unat m))" "unat m < 2 ^ 64"
    by (simp_all add: in_kind_def uint_kind_def)
  then have "numeric_cast (uint_kind 64) (uint_kind 32) (int (unat m)) = Some (int (unat m))"
    "std_stoul (to_string (unat m)) = Inr (unat m)"
    using numeric_cast_exact [of "uint_kind 64" 64 "uint_kind 32" 32, OF _ _ r(1)]
    by (simp_all add: stoul_to_string del: int_nat_eq of_nat_unat)
  then show "server_attribute (''Max-Age='' @ to_string (unat m)) cs = Inr (change_front (\<lambda>c. c\<lparr>hc_maxAge := m\<rparr>) cs)"
    using attribute_of_plain [OF _ trimmed_names(4) plain_number, of "unat m"]
    by (simp add: attribute_names server_attribute_def)
qed


lemma server_attributes_append:
  "server_attributes (xs @ ys) cs =
     (case server_attributes xs cs of Inl e \<Rightarrow> Inl e | Inr cs \<Rightarrow> server_attributes ys cs)"
  by (induction xs arbitrary: cs) (auto split: sum.split)

text \<open>The attributes of a printed cookie, apart from \<open>HttpOnly\<close>, restore its fields.\<close>

lemma parse_printed_attributes:
  fixes c :: HttpCookie
  assumes "plain_cookie c" "b = \<lparr>hc_name = hc_name c, hc_value = hc_value c, hc_domain = [], hc_path = [],
      hc_maxAge = - 1, hc_secure = True, hc_httpOnly = True\<rparr>"
  shows "server_attributes (tl (cookie_parts c)) [b] =
    (if hc_httpOnly c then Inl (MalformedCookie ''Malformed cookie, unknown attribute: HttpOnly'')
     else Inr [c\<lparr>hc_secure := True, hc_httpOnly := True\<rparr>])"
proof -
  have p: "plain_text (hc_domain c)" "plain_text (hc_path c)" using assms(1) by (simp_all add: plain_cookie_def)
  have m: "\<not> hc_maxAge c < - 1 \<Longrightarrow> hc_maxAge c = - 1"
    using word_n1_ge [of "hc_maxAge c"] by (simp add: not_less)
  let ?b = "b\<lparr>hc_domain := hc_domain c\<rparr>"
  have s: "server_attributes (''Version=1'' # xs) cs = server_attributes xs cs" for xs cs
    by (simp only: server_attributes.simps parse_attributes sum.case)
  have d: "server_attributes (if hc_domain c \<noteq> [] then [''Domain='' @ hc_domain c] else []) [b] = Inr [?b]"
    using parse_attributes(4) [OF p(1)] assms(2) by (simp add: change_front_def)
  have q: "server_attributes (if hc_path c \<noteq> [] then [''Path='' @ hc_path c] else []) [?b] =
      Inr [?b\<lparr>hc_path := hc_path c\<rparr>]"
    using parse_attributes(5) [OF p(2)] assms(2) by (simp add: change_front_def)
  have a: "server_attributes (if hc_maxAge c < - 1 then [''Max-Age='' @ to_string (unat (hc_maxAge c))] else [])
      [?b\<lparr>hc_path := hc_path c\<rparr>] = Inr [?b\<lparr>hc_path := hc_path c, hc_maxAge := hc_maxAge c\<rparr>]"
  proof (cases "hc_maxAge c < - 1")
    case True
    then show ?thesis using parse_attributes(6) assms(2) by (simp add: change_front_def)
  next
    case False
    then show ?thesis using m [OF False, symmetric] assms(2) by simp
  qed
  have e: "server_attributes (if hc_secure c then [''Secure''] else [])
      [?b\<lparr>hc_path := hc_path c, hc_maxAge := hc_maxAge c\<rparr>] = Inr [?b\<lparr>hc_path := hc_path c, hc_maxAge := hc_maxAge c\<rparr>]"
    using parse_attributes(2) assms(2) by (simp add: change_front_def)
  have h: "server_attributes (if hc_httpOnly c then [''HttpOnly''] else []) cs =
      (if hc_httpOnly c then Inl (MalformedCookie ''Malformed cookie, unknown attribute: HttpOnly'') else Inr cs)" for cs
    using parse_attributes(3) by simp
  show ?thesis
    unfolding cookie_parts_def list.sel s server_attributes_append d sum.case q a e h
    using assms(2) by simp
qed

lemma print_parse_cookie:
  assumes "plain_cookie c"
  shows "parseServerCookies (print_cookie c) =
    Some (if hc_httpOnly c then Inl (MalformedCookie ''Malformed cookie, unknown attribute: HttpOnly'')
          else Inr [c\<lparr>hc_secure := True, hc_httpOnly := True\<rparr>])"
proof -
  note parts = cookie_parts_plain [OF assms]
  have ne: "cookie_parts c \<noteq> []" by (simp add: cookie_parts_def)
  have semi: "split_string (print_cookie c) CHR '';'' True = cookie_parts c"
    unfolding print_cookie_join using parts ne by (intro split_join) (blast, simp, metis last_in_set)
  have "CHR '','' \<notin> set (print_cookie c)" unfolding print_cookie_join using parts set_join by fastforce
  moreover have "print_cookie c \<noteq> []" by (simp add: print_cookie_def)
  ultimately have comma: "split_string (print_cookie c) CHR '','' True = [print_cookie c]" by (rule split_one)
  obtain rest where rest: "cookie_parts c = (hc_name c @ CHR ''='' # hc_value c) # rest" "tl (cookie_parts c) = rest"
    by (simp add: cookie_parts_def)
  have eq: "find_first_of [CHR ''=''] (hc_name c @ CHR ''='' # hc_value c) 0 = Some (length (hc_name c))"
    using assms by (intro find_sep) (auto simp: plain_cookie_def)
  have new: "HttpCookie_new (trim (take (length (hc_name c)) (hc_name c @ CHR ''='' # hc_value c)))
      (unquote (trim (drop (length (hc_name c) + 1) (hc_name c @ CHR ''='' # hc_value c)))) =
    Inr \<lparr>hc_name = hc_name c, hc_value = hc_value c, hc_domain = [], hc_path = [],
      hc_maxAge = - 1, hc_secure = True, hc_httpOnly = True\<rparr>"
    using assms by (simp add: plain_cookie_def plain_text_def HttpCookie_new_def)
  show ?thesis
    unfolding parseServerCookies_def comma server_cookies.simps semi rest(1) list.case eq option.case new sum.case append_Nil
    using parse_printed_attributes [OF assms refl] unfolding rest(2) by simp
qed

end
