(* ===== verification/Http_Query.thy ===== *)
theory Http_Query
  imports Strings "HOL-Library.AList"
begin

text \<open>
  src/acatl_network/http_query_parameter.h and http_query_parameter.cpp: the parameters of a
  URL's query string. The text is decoded as a whole, then split at \<open>&\<close> and \<open>=\<close>.
\<close>

datatype query_exception = InvalidParameter string

type_synonym HttpQueryParameter = "(string \<times> string) list"

definition quoted :: "string \<Rightarrow> string" where
  "quoted s = CHR 0x27 # s @ [CHR 0x27]"

text \<open>The loop over the parameters; an assignment to a known key replaces its value.\<close>

definition add_parameter :: "string \<Rightarrow> HttpQueryParameter \<Rightarrow> HttpQueryParameter" where
  "add_parameter s parameters =
     (case find_first_of [CHR ''=''] s 0 of
        None \<Rightarrow> parameters
      | Some p \<Rightarrow> AList.update (take p s) (drop (p + 1) s) parameters)"

definition HttpQueryParameter_new :: "string \<Rightarrow> query_exception + HttpQueryParameter" where
  "HttpQueryParameter_new query =
     (case decode query of
        (ok, decoded) \<Rightarrow>
          if \<not> ok then Inl (InvalidParameter (''Could not url decode '' @ quoted query))
          else Inr (fold add_parameter (split_string decoded CHR ''&'' True) []))"

definition hasParameter :: "HttpQueryParameter \<Rightarrow> string \<Rightarrow> bool" where
  "hasParameter parameters name \<longleftrightarrow> map_of parameters name \<noteq> None"

definition parameter :: "HttpQueryParameter \<Rightarrow> string \<Rightarrow> query_exception + string" where
  "parameter parameters name =
     (case map_of parameters name of
        None \<Rightarrow> Inl (InvalidParameter (''Parameter '' @ quoted name @ '' not found''))
      | Some v \<Rightarrow> Inr v)"

text \<open>The query string of a list of parameters.\<close>

definition pair_text :: "string \<times> string \<Rightarrow> string" where
  "pair_text = (\<lambda>(k, v). k @ ''='' @ v)"

definition query_of :: "(string \<times> string) list \<Rightarrow> string" where
  "query_of ps = join (map (\<lambda>p. url_encode (fst p) @ ''='' @ url_encode (snd p)) ps) ''&''"

lemma find_equals:
  "CHR ''='' \<notin> set k \<Longrightarrow> find_first_of [CHR ''=''] (k @ CHR ''='' # v) 0 = Some (length k)"
proof -
  assume k: "CHR ''='' \<notin> set k"
  have "find_if_from P i (k @ CHR ''='' # v) = Some (i + length k)" if "\<forall>c\<in>set k. \<not> P c" "P CHR ''=''" for P i
    using that by (induction k arbitrary: i) auto
  from this [of "\<lambda>c. c \<in> set [CHR ''='']" 0] show ?thesis using k by (auto simp: find_first_of_def)
qed

lemma add_parameter_pair:
  "CHR ''='' \<notin> set (fst p) \<Longrightarrow> add_parameter (pair_text p) ps = AList.update (fst p) (snd p) ps"
  by (cases p) (simp add: add_parameter_def pair_text_def find_equals)

lemma add_parameters:
  "(\<And>p. p \<in> set ps \<Longrightarrow> CHR ''='' \<notin> set (fst p)) \<Longrightarrow>
   map_of (fold add_parameter (map pair_text ps) qs) = map_of qs ++ map_of (rev ps)"
proof (induction ps arbitrary: qs)
  case (Cons p ps)
  have "map_of (fold add_parameter (map pair_text ps) qs') = map_of qs' ++ map_of (rev ps)" for qs'
    using Cons by simp
  moreover have "add_parameter (pair_text p) qs = AList.update (fst p) (snd p) qs"
    using Cons.prems by (simp add: add_parameter_pair)
  ultimately show ?case
    by (cases p) (simp add: update_conv' map_add_def fun_eq_iff split: option.split)
qed simp

lemma decode_loop_plain_char:
  "c \<noteq> CHR ''%'' \<Longrightarrow> c \<noteq> CHR ''+'' \<Longrightarrow> decode_loop (c # s) out = decode_loop s (out @ [c])"
  by (subst decode_loop.simps) simp

lemma decode_query: "decode_loop (query_of ps) out = (True, out @ join (map pair_text ps) ''&'')"
proof (induction ps arbitrary: out)
  case Nil
  then show ?case by (simp add: query_of_def decode_loop.simps [of "[]"])
next
  case (Cons p ps)
  show ?case
  proof (cases ps)
    case Nil
    then show ?thesis
      using decode_loop_url_encode [of "snd p" "[]"]
      by (simp add: query_of_def decode_loop_url_encode decode_loop_plain_char pair_text_def split_beta
          decode_loop.simps [of "[]"])
  next
    case (Cons p' ps')
    then have "query_of (p # ps) = url_encode (fst p) @ CHR ''='' # url_encode (snd p) @ CHR ''&'' # query_of ps"
      by (simp add: query_of_def)
    with Cons.IH Cons show ?thesis
      by (simp add: decode_loop_url_encode decode_loop_plain_char pair_text_def split_beta)
  qed
qed

lemma query_roundtrip:
  assumes "\<And>k v. (k, v) \<in> set ps \<Longrightarrow> CHR ''='' \<notin> set k \<and> CHR ''&'' \<notin> set k \<and> CHR ''&'' \<notin> set v"
  shows "\<exists>qs. HttpQueryParameter_new (query_of ps) = Inr qs \<and> map_of qs = map_of (rev ps)"
proof (cases "ps = []")
  case True
  then show ?thesis
    by (simp add: HttpQueryParameter_new_def query_of_def decode_def decode_loop.simps [of "[]"]
        split_string_def)
next
  case False
  have "pair_text p \<noteq> [] \<and> CHR ''&'' \<notin> set (pair_text p)" if "p \<in> set ps" for p
    using assms [of "fst p" "snd p"] that by (simp add: pair_text_def split_beta)
  then have "split_string (join (map pair_text ps) ''&'') CHR ''&'' True = map pair_text ps"
    using False by (intro split_join) (auto simp: last_map)
  then have "HttpQueryParameter_new (query_of ps) = Inr (fold add_parameter (map pair_text ps) [])"
    using decode_query [of ps "[]"] by (simp add: HttpQueryParameter_new_def decode_def)
  moreover have "map_of (fold add_parameter (map pair_text ps) []) = map_of (rev ps)"
    using add_parameters [of ps "[]"] assms by force
  ultimately show ?thesis by blast
qed

text \<open>An encoded separator is decoded before the split.\<close>

lemma query_encoded_separator:
  "HttpQueryParameter_new (query_of [(''a'', ''x&b=y'')]) = Inr [(''a'', ''x''), (''b'', ''y'')]"
  by code_simp

end
