(* ===== verification/Http_Session.thy ===== *)
theory Http_Session
  imports Main
begin

text \<open>
  src/acatl_network/http_session.h, http_session.cpp, http_session_manager.h and
  http_session_manager.cpp: sessions with their values, and the manager that finds, renews
  and drops them. A reference to a session is its key in the manager's map, or the one
  static session that stands for "no session". Time is a number of seconds, the argument of
  the operations that read the clock; the generated identifier is an argument as well. Every
  operation of the manager holds its mutex, so the operations are the steps.
\<close>

type_synonym time = int

record HttpSession =
  hs_id :: string
  hs_isNew :: bool
  hs_isValid :: bool
  hs_isSecure :: bool
  hs_timestamp :: time
  hs_values :: "string \<rightharpoonup> string"

definition HttpSession_new :: "string \<Rightarrow> bool \<Rightarrow> time \<Rightarrow> HttpSession" where
  "HttpSession_new sid secure now =
     \<lparr>hs_id = sid, hs_isNew = True, hs_isValid = True, hs_isSecure = secure, hs_timestamp = now,
      hs_values = \<lambda>_. None\<rparr>"

definition HttpSession_isValid :: "HttpSession \<Rightarrow> bool" where
  "HttpSession_isValid s \<longleftrightarrow> hs_id s \<noteq> [] \<and> hs_isValid s"

definition HttpSession_value :: "HttpSession \<Rightarrow> string \<Rightarrow> string" where
  "HttpSession_value s key = (case hs_values s key of Some v \<Rightarrow> v | None \<Rightarrow> [])"

text \<open>\<open>insert\<close> leaves the value of a known key alone.\<close>

definition HttpSession_setValue :: "string \<Rightarrow> string \<Rightarrow> HttpSession \<Rightarrow> HttpSession" where
  "HttpSession_setValue key v s =
     (if hs_values s key = None then s\<lparr>hs_values := (hs_values s)(key \<mapsto> v)\<rparr> else s)"

definition HttpSession_hasValue :: "HttpSession \<Rightarrow> string \<Rightarrow> bool" where
  "HttpSession_hasValue s key \<longleftrightarrow> hs_values s key \<noteq> None"

definition HttpSession_invalidate :: "HttpSession \<Rightarrow> HttpSession" where
  "HttpSession_invalidate s = s\<lparr>hs_values := \<lambda>_. None, hs_isValid := False\<rparr>"

datatype session_ref = Stored string | InvalidSession

text \<open>
  \<open>hm_invalid\<close> is the static session of \<open>createInvalidSession\<close>.
\<close>

record HttpSessionManager =
  hm_sessions :: "string \<rightharpoonup> HttpSession"
  hm_timeout :: time
  hm_invalid :: HttpSession

definition createInvalidSession :: "string \<Rightarrow> time \<Rightarrow> HttpSession" where
  "createInvalidSession sid now = (HttpSession_new sid False now)\<lparr>hs_isValid := False\<rparr>"

definition HttpSessionManager_new :: "time \<Rightarrow> string \<Rightarrow> time \<Rightarrow> HttpSessionManager" where
  "HttpSessionManager_new timeout sid now =
     \<lparr>hm_sessions = \<lambda>_. None, hm_timeout = timeout, hm_invalid = createInvalidSession sid now\<rparr>"

definition deref :: "HttpSessionManager \<Rightarrow> session_ref \<Rightarrow> HttpSession option" where
  "deref m r = (case r of Stored sid \<Rightarrow> hm_sessions m sid | InvalidSession \<Rightarrow> Some (hm_invalid m))"

definition store :: "session_ref \<Rightarrow> HttpSession \<Rightarrow> HttpSessionManager \<Rightarrow> HttpSessionManager" where
  "store r s m =
     (case r of
        Stored sid \<Rightarrow> m\<lparr>hm_sessions := (hm_sessions m)(sid \<mapsto> s)\<rparr>
      | InvalidSession \<Rightarrow> m\<lparr>hm_invalid := s\<rparr>)"

text \<open>\<open>invalidate\<close> of the session behind a reference; \<open>None\<close> if the reference dangles.\<close>

definition Manager_invalidate :: "session_ref \<Rightarrow> HttpSessionManager \<Rightarrow> HttpSessionManager option" where
  "Manager_invalidate r m =
     (case deref m r of
        None \<Rightarrow> None
      | Some s \<Rightarrow>
          Some (if hm_sessions m (hs_id s) \<noteq> None then store r (HttpSession_invalidate s) m else m))"

text \<open>\<open>sessionForId\<close>; it reads the clock up to twice.\<close>

definition sessionForId ::
    "string \<Rightarrow> time \<Rightarrow> time \<Rightarrow> HttpSessionManager \<Rightarrow> session_ref \<times> HttpSessionManager" where
  "sessionForId sid now now' m =
     (case hm_sessions m sid of
        None \<Rightarrow> (InvalidSession, m)
      | Some s \<Rightarrow>
          (if HttpSession_isValid s
           then
             (if now < hs_timestamp s + hm_timeout m
              then (Stored sid, m\<lparr>hm_sessions := (hm_sessions m)(sid \<mapsto> s\<lparr>hs_isNew := False, hs_timestamp := now'\<rparr>)\<rparr>)
              else (InvalidSession, m\<lparr>hm_sessions := (hm_sessions m)(sid := None)\<rparr>))
           else (InvalidSession, m\<lparr>hm_sessions := (hm_sessions m)(sid := None)\<rparr>)))"

text \<open>\<open>createSession\<close>: \<open>insert\<close> keeps a session that already has the new identifier.\<close>

definition createSession ::
    "string \<Rightarrow> bool \<Rightarrow> time \<Rightarrow> HttpSessionManager \<Rightarrow> session_ref \<times> HttpSessionManager" where
  "createSession sid secure now m =
     (if hm_sessions m sid = None
      then (Stored sid, m\<lparr>hm_sessions := (hm_sessions m)(sid \<mapsto> HttpSession_new sid secure now)\<rparr>)
      else (Stored sid, m))"

text \<open>A caller stores a value in the session it was given.\<close>

definition put_value :: "session_ref \<Rightarrow> string \<Rightarrow> string \<Rightarrow> HttpSessionManager \<Rightarrow> HttpSessionManager option" where
  "put_value r key v m = map_option (\<lambda>s. store r (HttpSession_setValue key v s) m) (deref m r)"


section \<open>What the manager guarantees\<close>

datatype session_event =
  Create string bool time | Find string time time | Put session_ref string string | Drop session_ref

inductive session_step :: "HttpSessionManager \<Rightarrow> session_event \<Rightarrow> HttpSessionManager \<Rightarrow> bool" where
  create: "createSession sid secure now m = (r, m') \<Longrightarrow> session_step m (Create sid secure now) m'"
| find: "sessionForId sid now now' m = (r, m') \<Longrightarrow> session_step m (Find sid now now') m'"
| put: "put_value r key v m = Some m' \<Longrightarrow> session_step m (Put r key v) m'"
| drop: "Manager_invalidate r m = Some m' \<Longrightarrow> session_step m (Drop r) m'"

inductive session_steps :: "HttpSessionManager \<Rightarrow> session_event list \<Rightarrow> HttpSessionManager \<Rightarrow> bool" where
  no_steps: "session_steps m [] m"
| more_steps: "session_step m e m' \<Longrightarrow> session_steps m' es m'' \<Longrightarrow> session_steps m (e # es) m''"

text \<open>Sessions are stored under their identifier, and the static session never is valid.\<close>

definition sessions_ok :: "HttpSessionManager \<Rightarrow> bool" where
  "sessions_ok m \<longleftrightarrow>
     (\<forall>sid s. hm_sessions m sid = Some s \<longrightarrow> hs_id s = sid) \<and> \<not> hs_isValid (hm_invalid m)"

lemma sessions_ok_step: "session_step m e m' \<Longrightarrow> sessions_ok m \<Longrightarrow> sessions_ok m'"
  by (induction rule: session_step.induct)
    (auto simp: sessions_ok_def createSession_def sessionForId_def put_value_def Manager_invalidate_def
      deref_def store_def HttpSession_setValue_def HttpSession_invalidate_def HttpSession_new_def
      split: option.splits session_ref.splits if_splits)

lemma sessions_ok_steps: "session_steps m es m' \<Longrightarrow> sessions_ok m \<Longrightarrow> sessions_ok m'"
  by (induction rule: session_steps.induct) (auto dest: sessions_ok_step)

text \<open>An identifier that has no valid session stays without, unless it is created again.\<close>

definition dead :: "string \<Rightarrow> HttpSessionManager \<Rightarrow> bool" where
  "dead sid m \<longleftrightarrow> (case hm_sessions m sid of None \<Rightarrow> True | Some s \<Rightarrow> \<not> hs_isValid s)"

fun creates :: "string \<Rightarrow> session_event \<Rightarrow> bool" where
  "creates sid (Create sid' secure now) \<longleftrightarrow> sid' = sid"
| "creates sid _ \<longleftrightarrow> False"

lemma dead_step: "session_step m e m' \<Longrightarrow> dead sid m \<Longrightarrow> \<not> creates sid e \<Longrightarrow> dead sid m'"
  by (induction rule: session_step.induct)
    (auto simp: dead_def createSession_def sessionForId_def put_value_def Manager_invalidate_def
      deref_def store_def HttpSession_setValue_def HttpSession_invalidate_def HttpSession_isValid_def
      split: option.splits session_ref.splits if_splits)

lemma dead_steps:
  "session_steps m es m' \<Longrightarrow> dead sid m \<Longrightarrow> \<not> list_ex (creates sid) es \<Longrightarrow> dead sid m'"
  by (induction rule: session_steps.induct) (auto dest: dead_step)

lemma dead_not_found: "dead sid m \<Longrightarrow> fst (sessionForId sid now now' m) = InvalidSession"
  by (auto simp: dead_def sessionForId_def HttpSession_isValid_def split: option.splits)

lemma invalidate_dead:
  assumes "sessions_ok m" "Manager_invalidate (Stored sid) m = Some m'"
  shows "dead sid m'"
  using assms by (auto simp: sessions_ok_def Manager_invalidate_def deref_def store_def dead_def
      HttpSession_invalidate_def split: option.splits if_splits)

lemma timeout_dead:
  assumes "hm_sessions m sid = Some s" "hs_timestamp s + hm_timeout m \<le> now"
  shows "fst (sessionForId sid now now' m) = InvalidSession" "dead sid (snd (sessionForId sid now now' m))"
  using assms by (simp_all add: sessionForId_def dead_def)

text \<open>The session found is the one that was stored, renewed.\<close>

lemma sessionForId_found:
  "fst (sessionForId sid now now' m) = Stored sid' \<longleftrightarrow>
     sid' = sid \<and> (\<exists>s. hm_sessions m sid = Some s \<and> HttpSession_isValid s \<and> now < hs_timestamp s + hm_timeout m)"
  by (auto simp: sessionForId_def split: option.splits)

end
