(* ===== verification/Paths.thy ===== *)
theory Paths
  imports Strings
begin

text \<open>
  src/acatl/filesystem.h and filesystem.cpp, the class \<open>path\<close> and its iterator: the lexical
  operations on paths. A path is its string. The code walks over \<open>c_str()\<close> with pointers;
  here they are positions in the string, and the NUL character that ends \<open>c_str()\<close> is what
  \<open>char_at\<close> reads behind the last character. The comparison by \<open>strcoll\<close> and \<open>std::hash\<close>
  are not modelled; the functions that ask the operating system are not part of this theory.
\<close>

type_synonym path = string

section \<open>The loops over the characters\<close>

text \<open>\<open>while(*s == _separator) ++s\<close>, and \<open>while(*s != '\0' && *s != _separator) ++s\<close>.\<close>

function skip_sep :: "path \<Rightarrow> nat \<Rightarrow> nat" where
  "skip_sep p i = (if char_at p i = CHR ''/'' then skip_sep p (Suc i) else i)"
  by pat_completeness auto
termination
  by (relation "measure (\<lambda>(p, i). length p - i)") (auto simp: char_at_def split: if_splits)

function skip_name :: "path \<Rightarrow> nat \<Rightarrow> nat" where
  "skip_name p i =
     (if char_at p i \<noteq> CHR 0x00 \<and> char_at p i \<noteq> CHR ''/'' then skip_name p (Suc i) else i)"
  by pat_completeness auto
termination
  by (relation "measure (\<lambda>(p, i). length p - i)") (auto simp: char_at_def split: if_splits)

declare skip_sep.simps [simp del] skip_name.simps [simp del]

text \<open>\<open>while(*s != c && s != begin) --s\<close>, and \<open>while(*s == _separator && s != begin) --s\<close>.\<close>

fun back_to :: "char \<Rightarrow> path \<Rightarrow> nat \<Rightarrow> nat" where
  "back_to c p 0 = 0"
| "back_to c p (Suc i) = (if char_at p (Suc i) \<noteq> c then back_to c p i else Suc i)"

fun back_sep :: "path \<Rightarrow> nat \<Rightarrow> nat" where
  "back_sep p 0 = 0"
| "back_sep p (Suc i) = (if char_at p (Suc i) = CHR ''/'' then back_sep p i else Suc i)"

text \<open>\<open>path{s}\<close> from a pointer: up to the NUL character.\<close>

definition from_cstr :: "path \<Rightarrow> nat \<Rightarrow> path" where
  "from_cstr p i = takeWhile (\<lambda>c. c \<noteq> CHR 0x00) (drop i p)"


section \<open>Modifiers\<close>

text \<open>
  \<open>operator/=\<close> with another path object. It reads \<open>front()\<close> of the right path before it
  tests whether that is empty; the read gives the NUL character.
\<close>

definition path_append :: "path \<Rightarrow> path \<Rightarrow> path" where
  "path_append lhs p =
     (if \<not> (lhs = [] \<or> char_at p 0 = CHR ''/'' \<or> last lhs = CHR ''/'' \<or> p = [])
      then lhs @ ''/'' @ p else lhs @ p)"

definition path_concat :: "path \<Rightarrow> path \<Rightarrow> path" where
  "path_concat lhs p = lhs @ p"

definition path_concat_cstr :: "path \<Rightarrow> path \<Rightarrow> path" where
  "path_concat_cstr lhs ptr = lhs @ from_cstr ptr 0"


section \<open>Decomposition\<close>

definition root_name :: "path \<Rightarrow> path" where
  "root_name p =
     (if p \<noteq> [] then
        (let s = skip_sep p 0
         in if s = 2 then take (skip_name p s) p else [])
      else [])"

definition root_directory :: "path \<Rightarrow> path" where
  "root_directory p =
     (if p \<noteq> [] \<and> p ! 0 = CHR ''/'' then
        (let root = root_name p
         in if root = [] \<or> length root < length p then ''/'' else [])
      else [])"

definition root_path :: "path \<Rightarrow> path" where
  "root_path p = path_append (root_name p) (root_directory p)"

definition relative_path :: "path \<Rightarrow> path" where
  "relative_path p =
     (if p = [] then []
      else if p ! 0 = CHR ''/'' then
        (let s = skip_sep p 0
         in if s = 2 then
              (let s = skip_name p s;
                   s = (if char_at p s = CHR ''/'' then Suc s else s)
               in from_cstr p s)
            else from_cstr p s)
      else p)"

definition parent_path :: "path \<Rightarrow> path" where
  "parent_path p =
     (if p \<noteq> [] then
        (let s = length p - 1
         in if s > 0 then
              (let s = back_to CHR ''/'' p s;
                   sepStart = s;
                   s = back_sep p s
               in if s > 0 then take (s + 1) p
                  else if char_at p s = CHR ''/'' \<and> sepStart - s = 0 then ''/''
                  else [])
            else [])
      else [])"

definition filename :: "path \<Rightarrow> path" where
  "filename p =
     (if p \<noteq> [] then
        (if p = ''/'' then p
         else
           (let s = length p - 1
            in if p ! s = CHR ''/'' then ''.''
               else
                 (let s = back_to CHR ''/'' p s
                  in if char_at p s = CHR ''/'' \<and> s = 1 \<and> char_at p (s - 1) = CHR ''/'' then from_cstr p 0
                     else if char_at p s \<noteq> CHR ''/'' \<and> s = 0 then from_cstr p 0
                     else from_cstr p (s + 1))))
      else [])"

text \<open>The test for the names \<open>.\<close> and \<open>..\<close>, and the last dot of a name.\<close>

definition dots_only :: "path \<Rightarrow> bool" where
  "dots_only fn \<longleftrightarrow>
     (let s = length fn - 1
      in s = 0 \<and> char_at fn s = CHR ''.'' \<or>
         s = 1 \<and> char_at fn s = CHR ''.'' \<and> char_at fn (s - 1) = CHR ''.'')"

definition stem :: "path \<Rightarrow> path" where
  "stem p =
     (let fn = filename p
      in if fn \<noteq> [] then
           (if dots_only fn then []
            else
              (let s = back_to CHR ''.'' fn (length fn - 1)
               in if char_at fn s = CHR ''.'' then take s fn else []))
         else [])"

definition extension :: "path \<Rightarrow> path" where
  "extension p =
     (let fn = filename p
      in if fn \<noteq> [] then
           (if dots_only fn then []
            else
              (let s = back_to CHR ''.'' fn (length fn - 1)
               in if char_at fn s = CHR ''.'' then from_cstr fn s else []))
         else [])"

definition has_root_path :: "path \<Rightarrow> bool" where
  "has_root_path p \<longleftrightarrow> root_path p \<noteq> []"

definition has_root_name :: "path \<Rightarrow> bool" where
  "has_root_name p \<longleftrightarrow> root_name p \<noteq> []"

definition has_root_directory :: "path \<Rightarrow> bool" where
  "has_root_directory p \<longleftrightarrow> root_directory p \<noteq> []"

definition has_relative_path :: "path \<Rightarrow> bool" where
  "has_relative_path p \<longleftrightarrow> relative_path p \<noteq> []"

definition has_parent_path :: "path \<Rightarrow> bool" where
  "has_parent_path p \<longleftrightarrow> parent_path p \<noteq> []"

definition has_filename :: "path \<Rightarrow> bool" where
  "has_filename p \<longleftrightarrow> filename p \<noteq> []"

definition has_stem :: "path \<Rightarrow> bool" where
  "has_stem p \<longleftrightarrow> stem p \<noteq> []"

definition has_extension :: "path \<Rightarrow> bool" where
  "has_extension p \<longleftrightarrow> extension p \<noteq> []"

definition is_absolute :: "path \<Rightarrow> bool" where
  "is_absolute p \<longleftrightarrow> has_root_directory p"

definition is_relative :: "path \<Rightarrow> bool" where
  "is_relative p \<longleftrightarrow> \<not> is_absolute p"

definition remove_filename :: "path \<Rightarrow> path" where
  "remove_filename p = (if has_filename p then parent_path p else p)"

definition replace_filename :: "path \<Rightarrow> path \<Rightarrow> path" where
  "replace_filename p replacement = path_append (remove_filename p) replacement"

definition replace_extension :: "path \<Rightarrow> path \<Rightarrow> path" where
  "replace_extension p replacement =
     (let p = (if has_extension p then take (length p - length (extension p)) p else p)
      in if replacement \<noteq> []
         then path_concat (if replacement ! 0 \<noteq> CHR ''.'' then path_concat p ''.'' else p) replacement
         else p)"


section \<open>The iterator\<close>

text \<open>\<open>it_pos\<close> is \<open>None\<close> at \<open>npos\<close>. Iterators are compared within one path.\<close>

record path_iterator =
  it_element :: path
  it_path :: path
  it_pos :: "nat option"

definition path_begin :: "path \<Rightarrow> path_iterator" where
  "path_begin p =
     (if p = [] then \<lparr>it_element = [], it_path = p, it_pos = None\<rparr>
      else
        (let s = skip_sep p 0
         in if s = 1 \<or> s > 2 then \<lparr>it_element = ''/'', it_path = p, it_pos = Some 1\<rparr>
            else
              (let s = skip_name p s
               in \<lparr>it_element = take s p, it_path = p, it_pos = Some s\<rparr>)))"

definition path_end :: "path \<Rightarrow> path_iterator" where
  "path_end p = \<lparr>it_element = [], it_path = p, it_pos = None\<rparr>"

definition iterator_eq :: "path_iterator \<Rightarrow> path_iterator \<Rightarrow> bool" where
  "iterator_eq a b \<longleftrightarrow> it_path a = it_path b \<and> it_pos a = it_pos b"

text \<open>\<open>operator++\<close>; beyond the end it has no defined result.\<close>

definition path_incr :: "path_iterator \<Rightarrow> path_iterator option" where
  "path_incr it =
     (case it_pos it of
        None \<Rightarrow> None
      | Some i \<Rightarrow>
          (let p = it_path it
           in if char_at p i = CHR 0x00 then Some (it\<lparr>it_pos := None\<rparr>)
              else
                (let s = skip_sep p i
                 in if char_at p s = CHR 0x00 then Some (it\<lparr>it_element := ''.'', it_pos := Some s\<rparr>)
                    else
                      (let e = skip_name p s
                       in Some (it\<lparr>it_element := take (e - s) (drop s p), it_pos := Some e\<rparr>)))))"

text \<open>
  \<open>operator--\<close>. \<open>None\<close> is the exception of \<open>at\<close> on an empty path and a step in front of the
  string.
\<close>

definition path_decr :: "path_iterator \<Rightarrow> path_iterator option" where
  "path_decr it =
     (let p = it_path it;
          at_end = (it_pos it = None);
          pos = (case it_pos it of None \<Rightarrow> length p | Some i \<Rightarrow> i);
          element = (if at_end then [] else it_element it)
      in if at_end \<and> p = [] then None
         else if at_end \<and> p ! (pos - 1) = CHR ''/'' then
           Some (if pos > 1 then it\<lparr>it_element := ''.'', it_pos := Some pos\<rparr>
                 else it\<lparr>it_element := ''/'', it_pos := Some 1\<rparr>)
         else
           (let s = pos - length element
            in if s = 0 then None
               else
                 (let s = back_sep p (s - 1);
                      e = s + 1
                  in if s = 0 then Some (it\<lparr>it_element := ''/'', it_pos := Some 1\<rparr>)
                     else
                       (let s = back_to CHR ''/'' p s;
                            tmp = (if char_at p s = CHR ''/'' then s + 1 else s);
                            s = back_sep p s;
                            tmp = (if tmp - s = 2 \<and> s = 0 then s else tmp)
                        in Some (it\<lparr>it_element := take (e - tmp) (drop tmp p), it_pos := Some e\<rparr>)))))"


text \<open>The range from \<open>begin()\<close> to \<open>end()\<close>, as a range-based for loop runs over it.\<close>

lemma char_at_simps [simp]:
  "i < length s \<Longrightarrow> char_at s i = s ! i" "length s \<le> i \<Longrightarrow> char_at s i = CHR 0x00"
  by (simp_all add: char_at_def)

lemma skip_sep_eq: "skip_sep p i = i + length (takeWhile (\<lambda>c. c = CHR ''/'') (drop i p))"
proof (induction p i rule: skip_sep.induct)
  case (1 p i)
  show ?case
  proof (cases "char_at p i = CHR ''/''")
    case True
    then have i: "i < length p" "p ! i = CHR ''/''" by (auto simp: char_at_def split: if_splits)
    then have "drop i p = CHR ''/'' # drop (Suc i) p" by (metis Cons_nth_drop_Suc)
    with 1 True show ?thesis by (subst skip_sep.simps) simp
  next
    case False
    then have "takeWhile (\<lambda>c. c = CHR ''/'') (drop i p) = []"
      by (cases "i < length p") (simp_all add: Cons_nth_drop_Suc [symmetric])
    with False show ?thesis by (subst skip_sep.simps) simp
  qed
qed

lemma skip_name_eq: "skip_name p i = i + length (takeWhile (\<lambda>c. c \<noteq> CHR 0x00 \<and> c \<noteq> CHR ''/'') (drop i p))"
proof (induction p i rule: skip_name.induct)
  case (1 p i)
  show ?case
  proof (cases "char_at p i \<noteq> CHR 0x00 \<and> char_at p i \<noteq> CHR ''/''")
    case True
    then have i: "i < length p" "p ! i \<noteq> CHR 0x00" "p ! i \<noteq> CHR ''/''" by (auto simp: char_at_def split: if_splits)
    then have "drop i p = p ! i # drop (Suc i) p" by (simp add: Cons_nth_drop_Suc)
    with 1 True i show ?thesis by (subst skip_name.simps) simp
  next
    case False
    then have "takeWhile (\<lambda>c. c \<noteq> CHR 0x00 \<and> c \<noteq> CHR ''/'') (drop i p) = []"
      by (cases "i < length p") (auto simp: Cons_nth_drop_Suc [symmetric])
    then show ?thesis unfolding skip_name.simps [of p i] if_not_P [OF False] by simp
  qed
qed

lemma skip_bounds: "i \<le> skip_sep p i" "i \<le> skip_name p i"
  by (simp_all add: skip_sep_eq skip_name_eq)

lemma skip_name_length: "skip_name p i \<le> max i (length p)"
  using length_takeWhile_le [of "\<lambda>c. c \<noteq> CHR 0x00 \<and> c \<noteq> CHR ''/''" "drop i p"]
  unfolding skip_name_eq max_def by (simp, linarith)

lemma skip_name_moves: "char_at p i \<noteq> CHR 0x00 \<Longrightarrow> char_at p i \<noteq> CHR ''/'' \<Longrightarrow> i < skip_name p i"
  by (subst skip_name.simps) (simp add: Suc_le_lessD skip_bounds)

lemma skip_sep_stop: "char_at p (skip_sep p i) \<noteq> CHR ''/''"
  by (induction p i rule: skip_sep.induct) (subst skip_sep.simps, simp)

lemma path_incr_moves:
  assumes "path_incr it = Some it'" "it_pos it = Some i" "it_pos it' = Some j"
  shows "i < j \<and> i < length (it_path it) \<and> it_path it' = it_path it"
proof -
  let ?p = "it_path it" and ?s = "skip_sep (it_path it) i"
  have i: "char_at ?p i \<noteq> CHR 0x00" using assms by (auto simp: path_incr_def)
  then have len: "i < length ?p" by (cases "i < length ?p") simp_all
  show ?thesis
  proof (cases "char_at ?p ?s = CHR 0x00")
    case True
    then have "?s \<noteq> i" using i by metis
    with True assms i len show ?thesis using skip_bounds(1) [of i ?p] by (auto simp: path_incr_def Let_def)
  next
    case False
    from skip_name_moves [OF False skip_sep_stop] have "i < skip_name ?p ?s"
      using skip_bounds(1) [of i ?p] by simp
    with False assms i len show ?thesis by (auto simp: path_incr_def Let_def)
  qed
qed

function elements_from :: "path_iterator \<Rightarrow> path list" where
  "elements_from it =
     (if it_pos it = None then []
      else it_element it # (case path_incr it of None \<Rightarrow> [] | Some it' \<Rightarrow> elements_from it'))"
  by pat_completeness auto
termination
proof (relation "measure (\<lambda>it. case it_pos it of None \<Rightarrow> 0 | Some i \<Rightarrow> Suc (length (it_path it) - i))", goal_cases)
  case (2 it it')
  then obtain i where i: "it_pos it = Some i" by auto
  show ?case
  proof (cases "it_pos it'")
    case (Some j)
    from path_incr_moves [OF _ i Some] 2 show ?thesis using i Some by auto
  qed (simp add: i)
qed simp

declare elements_from.simps [simp del]

definition path_elements :: "path \<Rightarrow> path list" where
  "path_elements p = elements_from (path_begin p)"


section \<open>Paths made of names\<close>

definition plain_name :: "string \<Rightarrow> bool" where
  "plain_name n \<longleftrightarrow> n \<noteq> [] \<and> CHR ''/'' \<notin> set n \<and> CHR 0x00 \<notin> set n"

definition slashed :: "string list \<Rightarrow> path" where
  "slashed ns = concat (map (\<lambda>n. CHR ''/'' # n) ns)"

definition path_of :: "bool \<Rightarrow> string list \<Rightarrow> path" where
  "path_of absolute ns = (if absolute then ''/'' else []) @ join ns ''/''"

lemma join_slashed: "join (n # ns) ''/'' = n @ slashed ns"
  by (induction ns arbitrary: n) (simp_all add: slashed_def)

lemma slashed_first: "slashed ns = [] \<or> hd (slashed ns) = CHR ''/''"
  by (cases ns) (simp_all add: slashed_def)

lemma plain_name_char: "plain_name n \<Longrightarrow> c \<in> set n \<Longrightarrow> c \<noteq> CHR ''/'' \<and> c \<noteq> CHR 0x00"
  by (auto simp: plain_name_def)

lemma plain_name_hd: "plain_name n \<Longrightarrow> n \<noteq> [] \<and> hd n \<noteq> CHR ''/'' \<and> hd n \<noteq> CHR 0x00"
  using plain_name_char [of n "hd n"] by (auto simp: plain_name_def)

lemma skip_name_plain:
  assumes "plain_name n" "r = [] \<or> hd r = CHR ''/''"
  shows "skip_name (a @ n @ r) (length a) = length a + length n"
proof -
  have "takeWhile (\<lambda>c. c \<noteq> CHR 0x00 \<and> c \<noteq> CHR ''/'') (n @ r) =
      n @ takeWhile (\<lambda>c. c \<noteq> CHR 0x00 \<and> c \<noteq> CHR ''/'') r"
    using plain_name_char [OF assms(1)] by (intro takeWhile_append2) blast
  also have "takeWhile (\<lambda>c. c \<noteq> CHR 0x00 \<and> c \<noteq> CHR ''/'') r = []" using assms(2) by (cases r) auto
  finally show ?thesis by (simp add: skip_name_eq)
qed

lemma skip_sep_plain:
  assumes "plain_name n"
  shows "skip_sep (a @ n @ r) (length a) = length a" "skip_sep (a @ CHR ''/'' # n @ r) (length a) = Suc (length a)"
  using plain_name_hd [OF assms] by (cases n; simp add: skip_sep_eq)+

text \<open>One step of the iterator, over the separator in front of a name or without one.\<close>

lemma path_incr_name:
  assumes "plain_name n" "r = [] \<or> hd r = CHR ''/''" "sep = ''/'' \<or> sep = []"
    "p = a @ sep @ n @ r" "it_path it = p" "it_pos it = Some (length a)"
  shows "path_incr it = Some (it\<lparr>it_element := n, it_pos := Some (length (a @ sep @ n))\<rparr>)"
proof -
  have h: "n \<noteq> []" "hd n \<noteq> CHR 0x00" using plain_name_hd [OF assms(1)] by simp_all
  have sep: "skip_sep p (length a) = length (a @ sep)"
    using assms(3,4) skip_sep_plain [OF assms(1)] by auto
  have name: "skip_name p (length (a @ sep)) = length (a @ sep) + length n"
    using skip_name_plain [OF assms(1,2), of "a @ sep"] assms(4) by simp
  have "char_at p (length a) \<noteq> CHR 0x00" "char_at p (length (a @ sep)) \<noteq> CHR 0x00"
    using assms(3,4) h by (cases n; auto simp: nth_append)+
  then show ?thesis using sep name assms(4-6) by (simp add: path_incr_def)
qed

lemma elements_from_names:
  "(\<And>n. n \<in> set ns \<Longrightarrow> plain_name n) \<Longrightarrow> p = a @ slashed ns \<Longrightarrow> it_path it = p \<Longrightarrow>
   it_pos it = Some (length a) \<Longrightarrow> elements_from it = it_element it # ns"
proof (induction ns arbitrary: a it)
  case Nil
  then have "path_incr it = Some (it\<lparr>it_pos := None\<rparr>)" by (simp add: path_incr_def slashed_def)
  with Nil show ?case by (simp add: elements_from.simps [of it] elements_from.simps [of "it\<lparr>it_pos := None\<rparr>"])
next
  case (Cons n ns)
  have n: "plain_name n" using Cons.prems(1) by simp
  have p: "p = a @ ''/'' @ n @ slashed ns" using Cons.prems(2) by (simp add: slashed_def)
  let ?it = "it\<lparr>it_element := n, it_pos := Some (length (a @ ''/'' @ n))\<rparr>"
  have "path_incr it = Some ?it"
    by (rule path_incr_name [OF n slashed_first _ p Cons.prems(3,4)]) simp
  moreover have "elements_from ?it = it_element ?it # ns"
    using Cons.prems(1,3) p by (intro Cons.IH [of "a @ ''/'' @ n"]) auto
  ultimately show ?case using Cons.prems(4) by (simp add: elements_from.simps [of it])
qed

lemma path_elements_names:
  assumes "\<And>n. n \<in> set ns \<Longrightarrow> plain_name n" "ns \<noteq> [] \<or> absolute"
  shows "path_elements (path_of absolute ns) = (if absolute then [''/''] else []) @ ns"
proof (cases ns)
  case Nil
  then have "path_begin ''/'' = \<lparr>it_element = ''/'', it_path = ''/'', it_pos = Some 1\<rparr>"
    by (simp add: path_begin_def skip_sep_eq)
  with Nil assms(2) show ?thesis
    by (simp add: path_elements_def path_of_def elements_from.simps path_incr_def Let_def)
next
  case (Cons n ns')
  have n: "plain_name n" using assms(1) Cons by simp
  have plain: "\<And>m. m \<in> set ns' \<Longrightarrow> plain_name m" using assms(1) Cons by simp
  have ne: "n \<noteq> []" using n by (simp add: plain_name_def)
  show ?thesis
  proof (cases absolute)
    case False
    let ?p = "n @ slashed ns'"
    have "skip_sep ?p 0 = 0" "skip_name ?p 0 = length n"
      using skip_sep_plain(1) [OF n, of "[]"] skip_name_plain [OF n slashed_first, of "[]"] by simp_all
    then have "path_begin ?p = \<lparr>it_element = n, it_path = ?p, it_pos = Some (length n)\<rparr>"
      using ne by (simp add: path_begin_def)
    then show ?thesis using False Cons
      by (simp add: path_elements_def path_of_def join_slashed elements_from_names [OF plain refl])
  next
    case True
    let ?p = "''/'' @ n @ slashed ns'"
    have "skip_sep ?p 0 = 1" using skip_sep_plain(2) [OF n, of "[]"] by simp
    then have b: "path_begin ?p = \<lparr>it_element = ''/'', it_path = ?p, it_pos = Some 1\<rparr>"
      by (simp add: path_begin_def)
    let ?it = "\<lparr>it_element = n, it_path = ?p, it_pos = Some (length (''/'' @ n))\<rparr>"
    have "path_incr (path_begin ?p) = Some ?it"
      using path_incr_name [OF n slashed_first [of ns'], where sep = "[]" and a = "''/''" and p = ?p and it = "path_begin ?p"]
      unfolding b by simp
    moreover have "elements_from ?it = n # ns'"
      using elements_from_names [where ns = ns' and p = ?p and a = "''/'' @ n" and it = ?it] plain by simp
    ultimately have "elements_from (path_begin ?p) = ''/'' # n # ns'"
      unfolding elements_from.simps [of "path_begin ?p"] using b by simp
    then show ?thesis using True Cons by (simp add: path_elements_def path_of_def join_slashed)
  qed
qed


text \<open>Appending the elements gives the path back, as \<open>create_directories\<close> does it.\<close>

lemma append_name: "plain_name n \<Longrightarrow> path_append p n = (if p = [] \<or> last p = CHR ''/'' then p @ n else p @ ''/'' @ n)"
  using plain_name_hd [of n] by (cases n) (auto simp: path_append_def)

lemma append_names:
  "(\<And>n. n \<in> set ns \<Longrightarrow> plain_name n) \<Longrightarrow> p \<noteq> [] \<Longrightarrow> last p \<noteq> CHR ''/'' \<Longrightarrow>
   foldl path_append p ns = p @ slashed ns"
proof (induction ns arbitrary: p)
  case (Cons n ns)
  have n: "plain_name n" using Cons.prems(1) by simp
  have "last n \<noteq> CHR ''/''" using plain_name_char [OF n] n by (auto simp: plain_name_def)
  then have "foldl path_append (p @ ''/'' @ n) ns = (p @ ''/'' @ n) @ slashed ns"
    using Cons.prems n by (intro Cons.IH) (auto simp: plain_name_def)
  then show ?case using Cons.prems append_name [OF n, of p] by (simp add: slashed_def)
qed (simp add: slashed_def)

lemma append_elements:
  assumes "\<And>n. n \<in> set ns \<Longrightarrow> plain_name n" "ns \<noteq> [] \<or> absolute"
  shows "foldl path_append [] (path_elements (path_of absolute ns)) = path_of absolute ns"
proof (cases ns)
  case Nil
  then have "path_elements ''/'' = [''/'']" using path_elements_names [of "[]" True] by (simp add: path_of_def)
  with Nil assms(2) show ?thesis by (simp add: path_append_def path_of_def)
next
  case (Cons n ns')
  have n: "plain_name n" using assms(1) Cons by simp
  have l: "n \<noteq> []" "last n \<noteq> CHR ''/''" using plain_name_char [OF n] n by (auto simp: plain_name_def)
  have "foldl path_append (path_append (if absolute then ''/'' else []) n) ns' =
      (if absolute then ''/'' else []) @ n @ slashed ns'"
    using append_names [of ns' "path_append (if absolute then ''/'' else []) n"] assms(1) Cons l
      append_name [OF n, of "if absolute then ''/'' else []"] by simp
  moreover have "path_append [] ''/'' = ''/''" by (simp add: path_append_def)
  moreover have e: "path_elements (path_of absolute ns) = (if absolute then [''/''] else []) @ ns"
    using assms by (intro path_elements_names) auto
  ultimately show ?thesis
    using e by (cases absolute) (simp_all add: Cons path_of_def join_slashed)
qed


section \<open>Parent and filename\<close>

lemma back_to_found: "char_at p i = c \<Longrightarrow> back_to c p i = i"
  by (cases i) auto

lemma back_to_skip: "(\<And>k. k < j \<Longrightarrow> char_at p (i + Suc k) \<noteq> c) \<Longrightarrow> back_to c p (i + j) = back_to c p i"
proof (induction j)
  case (Suc j)
  have "char_at p (Suc (i + j)) \<noteq> c" using Suc.prems [of j] by simp
  then show ?case using Suc by simp
qed simp

text \<open>The last separator of a path that ends in a name.\<close>

lemma back_to_name:
  assumes "c \<notin> set n" "n \<noteq> []"
  shows "back_to c (p @ c # n) (length (p @ c # n) - 1) = length p"
proof -
  have "back_to c (p @ c # n) (length p + length n) = back_to c (p @ c # n) (length p)"
  proof (rule back_to_skip)
    fix k assume "k < length n"
    then show "char_at (p @ c # n) (length p + Suc k) \<noteq> c"
      using assms(1) by (auto simp: nth_append)
  qed
  moreover have "back_to c (p @ c # n) (length p) = length p" by (rule back_to_found) simp
  ultimately show ?thesis by simp
qed

lemma back_to_none:
  assumes "c \<notin> set n" "n \<noteq> []"
  shows "back_to c n (length n - 1) = 0"
proof -
  have "back_to c n (0 + (length n - 1)) = back_to c n 0"
    by (rule back_to_skip) (use assms in \<open>auto dest: nth_mem\<close>)
  then show ?thesis by simp
qed

lemma from_cstr_suffix: "CHR 0x00 \<notin> set n \<Longrightarrow> from_cstr (p @ n) (length p) = n"
  by (auto simp: from_cstr_def takeWhile_eq_all_conv)

lemma parent_of_append:
  assumes "plain_name n" "p \<noteq> []" "last p \<noteq> CHR ''/''"
  shows "parent_path (path_append p n) = (if length p = 1 then [] else p)"
proof -
  let ?q = "p @ CHR ''/'' # n"
  have q: "path_append p n = ?q" using append_name [OF assms(1)] assms(2,3) by simp
  have n: "CHR ''/'' \<notin> set n" "n \<noteq> []" using assms(1) by (simp_all add: plain_name_def)
  obtain m where m: "length p = Suc m" using assms(2) by (cases "length p") auto
  have "char_at ?q m \<noteq> CHR ''/''"
    using assms(2,3) m by (simp add: nth_append last_conv_nth)
  then have stop: "back_sep ?q m = m" by (cases m) auto
  have sep: "back_sep ?q (length p) = m" using stop m by (simp add: nth_append)
  have bk: "back_to CHR ''/'' ?q (length ?q - 1) = length p" by (rule back_to_name [OF n])
  have len: "length ?q - 1 > 0" using n by simp
  show ?thesis
    unfolding q parent_path_def Let_def bk sep
    using len m \<open>char_at ?q m \<noteq> CHR ''/''\<close> by simp
qed

lemma filename_of_append:
  assumes "plain_name n" "p \<noteq> []" "last p \<noteq> CHR ''/''"
  shows "filename (path_append p n) = n"
proof -
  let ?q = "p @ CHR ''/'' # n"
  have q: "path_append p n = ?q" using append_name [OF assms(1)] assms(2,3) by simp
  have n: "CHR ''/'' \<notin> set n" "n \<noteq> []" "CHR 0x00 \<notin> set n" using assms(1) by (simp_all add: plain_name_def)
  have bk: "back_to CHR ''/'' ?q (length ?q - 1) = length p" by (rule back_to_name [OF n(1,2)])
  have "last n \<noteq> CHR ''/''" using last_in_set [OF n(2)] n(1) by metis
  then have "last ?q \<noteq> CHR ''/''" using n(2) by simp
  then have l: "?q ! (length ?q - 1) \<noteq> CHR ''/''" by (simp add: last_conv_nth)
  have c: "\<not> (length p = 1 \<and> char_at ?q (length p - 1) = CHR ''/'')"
    using assms(2,3) by (auto simp: nth_append last_conv_nth)
  have f: "from_cstr ?q (length p + 1) = n"
    using from_cstr_suffix [of n "p @ ''/''"] n(3) by simp
  have ne: "?q \<noteq> ''/''" "?q \<noteq> []" using assms(2) by (cases p; simp)+
  have s: "char_at ?q (length p) = CHR ''/''" by simp
  show ?thesis unfolding q filename_def Let_def bk using l c f ne s by auto
qed


section \<open>Stem and extension\<close>

lemma stem_extension:
  assumes "filename p = a @ CHR ''.'' # b" "CHR ''.'' \<notin> set b" "CHR 0x00 \<notin> set b"
    "filename p \<noteq> ''.''" "filename p \<noteq> ''..''"
  shows "stem p = a \<and> extension p = CHR ''.'' # b"
proof -
  let ?f = "a @ CHR ''.'' # b"
  have bk: "back_to CHR ''.'' ?f (length ?f - 1) = length a"
  proof (cases "b = []")
    case True
    then show ?thesis by (intro trans [OF back_to_found]) simp_all
  next
    case False
    with assms(2) show ?thesis by (rule back_to_name)
  qed
  have "\<not> dots_only ?f"
  proof
    assume d: "dots_only ?f"
    show False
    proof (cases "length ?f - 1 = 0")
      case True
      with assms(1,4) show False by auto
    next
      case False
      with d show False using assms(1,2,5) by (cases a; cases b) (auto simp: dots_only_def Let_def)
    qed
  qed
  moreover have "from_cstr ?f (length a) = CHR ''.'' # b" using assms(3) by (intro from_cstr_suffix) simp
  ultimately show ?thesis using bk by (simp add: stem_def extension_def assms(1) Let_def)
qed

text \<open>A name without a dot has neither.\<close>

lemma stem_no_dot:
  assumes "CHR ''.'' \<notin> set (filename p)"
  shows "stem p = [] \<and> extension p = []"
proof (cases "filename p = []")
  case False
  have "filename p ! 0 \<noteq> CHR ''.''" using assms nth_mem [of 0 "filename p"] False by (metis length_greater_0_conv)
  then show ?thesis using back_to_none [OF assms False] by (simp add: stem_def extension_def Let_def)
qed (simp add: stem_def extension_def)

end
