(* ===== verification/Filesystem.thy ===== *)
theory Filesystem
  imports Paths "HOL-Library.Word" "HOL-Library.Monad_Syntax"
begin

text \<open>
  src/acatl/filesystem.h and filesystem.cpp, the functions that combine paths and inspect
  file types: \<open>absolute\<close> and the predicates on \<open>file_status\<close>. The working directory that the
  default argument of \<open>absolute\<close> asks for is a parameter.
\<close>

section \<open>File types and permissions\<close>

datatype file_type =
    FT_none | FT_not_found | FT_regular | FT_directory | FT_symlink | FT_block | FT_character
  | FT_fifo | FT_socket | FT_unknown

type_synonym perms = "32 word"

record file_status =
  fs_type :: file_type
  fs_perms :: perms

definition perms_mask :: perms where "perms_mask = 0xFFF"
definition perms_unknown :: perms where "perms_unknown = 0xFFFF"

definition file_status_new :: file_status where
  "file_status_new = \<lparr>fs_type = FT_none, fs_perms = perms_unknown\<rparr>"

definition file_status_eq :: "file_status \<Rightarrow> file_status \<Rightarrow> bool" where
  "file_status_eq lhs rhs \<longleftrightarrow> fs_type lhs = fs_type rhs \<and> fs_perms lhs = fs_perms rhs"

definition is_block_file :: "file_status \<Rightarrow> bool" where "is_block_file s \<longleftrightarrow> fs_type s = FT_block"
definition is_character_file :: "file_status \<Rightarrow> bool" where "is_character_file s \<longleftrightarrow> fs_type s = FT_character"
definition is_directory :: "file_status \<Rightarrow> bool" where "is_directory s \<longleftrightarrow> fs_type s = FT_directory"
definition is_fifo :: "file_status \<Rightarrow> bool" where "is_fifo s \<longleftrightarrow> fs_type s = FT_fifo"
definition is_regular_file :: "file_status \<Rightarrow> bool" where "is_regular_file s \<longleftrightarrow> fs_type s = FT_regular"
definition is_socket :: "file_status \<Rightarrow> bool" where "is_socket s \<longleftrightarrow> fs_type s = FT_socket"
definition is_symlink :: "file_status \<Rightarrow> bool" where "is_symlink s \<longleftrightarrow> fs_type s = FT_symlink"
definition status_known :: "file_status \<Rightarrow> bool" where "status_known s \<longleftrightarrow> fs_type s \<noteq> FT_none"

definition exists_status :: "file_status \<Rightarrow> bool" where
  "exists_status s \<longleftrightarrow> status_known s \<and> fs_type s \<noteq> FT_not_found"

definition is_other :: "file_status \<Rightarrow> bool" where
  "is_other s \<longleftrightarrow> exists_status s \<and> \<not> is_regular_file s \<and> \<not> is_directory s \<and> \<not> is_symlink s"


section \<open>absolute\<close>

text \<open>
  The recursion need not end: for a relative base it asks for \<open>absolute(base)\<close>, whose base is
  the working directory.
\<close>

partial_function (option) absolute :: "path \<Rightarrow> path \<Rightarrow> path \<Rightarrow> path option" where
  "absolute current_path p base =
     (if has_root_directory p then
        (if has_root_name p then Some p
         else if has_root_name base then Some (path_append (root_name base) p)
         else Some p)
      else if has_root_name p then
        do {
          a \<leftarrow> absolute current_path base current_path;
          a' \<leftarrow> absolute current_path base current_path;
          Some (path_append (path_append (path_append (root_name p) (root_directory a)) (relative_path a'))
            (relative_path p))
        }
      else do {
        a \<leftarrow> absolute current_path base current_path;
        Some (path_append a p)
      })"

text \<open>Paths without NUL characters, by their leading separators.\<close>

definition slashes :: "path \<Rightarrow> nat" where
  "slashes p = length (takeWhile (\<lambda>c. c = CHR ''/'') p)"

lemma skip_sep_slashes: "skip_sep p 0 = slashes p"
  by (simp add: skip_sep_eq slashes_def)

lemma slashes_pos: "0 < slashes p \<longleftrightarrow> p \<noteq> [] \<and> hd p = CHR ''/''"
  by (cases p) (simp_all add: slashes_def)

lemma root_name_Nil: "root_name p = [] \<longleftrightarrow> slashes p \<noteq> 2"
proof -
  have "p \<noteq> [] \<Longrightarrow> skip_name p 2 \<noteq> 0" using skip_bounds(2) [of 2 p] by linarith
  then show ?thesis by (auto simp: root_name_def skip_sep_slashes Let_def slashes_def)
qed

lemma has_root_name_iff: "has_root_name p \<longleftrightarrow> slashes p = 2"
  by (simp add: has_root_name_def root_name_Nil)

text \<open>What follows the two separators of a root name, and the name.\<close>

lemma root_name_cases:
  assumes "slashes p = 2" "CHR 0x00 \<notin> set p"
  obtains n r where "p = ''//'' @ n @ r" "CHR ''/'' \<notin> set n" "r = [] \<or> hd r = CHR ''/''" "n = [] \<longrightarrow> r = []"
    "root_name p = ''//'' @ n"
proof -
  let ?P = "\<lambda>c. c \<noteq> CHR 0x00 \<and> c \<noteq> CHR ''/''"
  have p: "p = takeWhile (\<lambda>c. c = CHR ''/'') p @ dropWhile (\<lambda>c. c = CHR ''/'') p" by simp
  let ?t = "dropWhile (\<lambda>c. c = CHR ''/'') p"
  have "takeWhile (\<lambda>c. c = CHR ''/'') p = replicate 2 CHR ''/''"
    using assms(1) by (intro replicate_eqI) (auto simp: slashes_def dest: set_takeWhileD)
  then have two: "takeWhile (\<lambda>c. c = CHR ''/'') p = ''//''" by (simp add: numeral_2_eq_2)
  define n where "n = takeWhile ?P ?t"
  define r where "r = dropWhile ?P ?t"
  have t: "?t = n @ r" by (simp add: n_def r_def)
  have pq: "p = ''//'' @ n @ r" using p two t by simp
  have nn: "CHR ''/'' \<notin> set n" by (auto simp: n_def dest: set_takeWhileD)
  have rr: "r = [] \<or> hd r = CHR ''/''"
  proof (cases r)
    case (Cons c s)
    have "\<not> ?P (hd (dropWhile ?P ?t))" by (rule hd_dropWhile) (use Cons in \<open>simp add: r_def\<close>)
    then have "\<not> ?P (hd r)" by (simp add: r_def)
    moreover have "hd r \<noteq> CHR 0x00" using assms(2) pq Cons by auto
    ultimately show ?thesis by simp
  qed simp
  have nr: "n = [] \<longrightarrow> r = []"
  proof
    assume "n = []"
    show "r = []"
    proof (cases r)
      case (Cons c s)
      then have "?t \<noteq> []" using t by simp
      then have "hd ?t \<noteq> CHR ''/''" by (rule hd_dropWhile)
      with t \<open>n = []\<close> Cons rr show ?thesis by simp
    qed
  qed
  have "drop 2 p = ?t" using pq t by simp
  then have "skip_name p 2 = 2 + length n" unfolding skip_name_eq n_def by simp
  then have "root_name p = take (2 + length n) p"
    using assms(1) by (auto simp: root_name_def skip_sep_slashes Let_def slashes_def)
  then have "root_name p = ''//'' @ n" using pq by simp
  with pq nn rr nr show thesis by (rule that)
qed


lemma slashes_append: "slashes (p @ q) = (if slashes p = length p then slashes p + slashes q else slashes p)"
  by (induction p) (auto simp: slashes_def)

lemma slashes_le: "slashes p \<le> length p"
  by (simp add: slashes_def length_takeWhile_le)

lemma slashes_name: "CHR ''/'' \<notin> set n \<Longrightarrow> n \<noteq> [] \<Longrightarrow> slashes (''//'' @ n @ r) = 2"
  by (cases n) (auto simp: slashes_def)

lemma root_name_prefix:
  assumes "plain_name n" "r = [] \<or> hd r = CHR ''/''"
  shows "root_name (''//'' @ n @ r) = ''//'' @ n"
proof -
  have "skip_name (''//'' @ n @ r) 2 = 2 + length n" using skip_name_plain [OF assms, of "''//''"]
    by (simp add: numeral_2_eq_2)
  moreover have "slashes (''//'' @ n @ r) = 2" using assms(1) by (intro slashes_name) (simp_all add: plain_name_def)
  ultimately show ?thesis by (simp add: root_name_def skip_sep_slashes Let_def)
qed

lemma has_root_directory_other: "slashes p \<noteq> 2 \<Longrightarrow> has_root_directory p \<longleftrightarrow> 0 < slashes p"
  by (cases p) (auto simp: has_root_directory_def root_directory_def root_name_Nil slashes_pos Let_def)

lemma has_root_directory_name:
  "plain_name n \<Longrightarrow> r = [] \<or> hd r = CHR ''/'' \<Longrightarrow> has_root_directory (''//'' @ n @ r) \<longleftrightarrow> r \<noteq> []"
  using root_name_prefix [of n r] by (auto simp: has_root_directory_def root_directory_def Let_def)

lemma net_path:
  assumes "CHR ''/'' \<notin> set n" "CHR 0x00 \<notin> set n" "x \<noteq> []" "hd x = CHR ''/''"
  shows "has_root_directory ((''//'' @ n) @ x)"
proof (cases "n = []")
  case True
  have "0 < slashes x" using assms(3,4) by (simp add: slashes_pos)
  then have "slashes (''//'' @ x) > 2" by (simp add: slashes_def)
  with True show ?thesis by (simp add: has_root_directory_other)
next
  case False
  with assms have "plain_name n" by (simp add: plain_name_def)
  with assms(3,4) show ?thesis using has_root_directory_name [of n x] by simp
qed

text \<open>What is appended to an absolute path leaves it absolute.\<close>

lemma root_directory_append:
  assumes "has_root_directory q" "CHR 0x00 \<notin> set q" "q = ''/'' \<Longrightarrow> x = [] \<or> hd x \<noteq> CHR ''/''"
  shows "has_root_directory (q @ x)"
proof (cases "slashes q = 2")
  case True
  from root_name_cases [OF True assms(2)] obtain n r where q: "q = ''//'' @ n @ r" "CHR ''/'' \<notin> set n"
    "r = [] \<or> hd r = CHR ''/''" "n = [] \<longrightarrow> r = []" "root_name q = ''//'' @ n" by blast
  have "r \<noteq> []"
    using assms(1) q(1,5) by (auto simp: has_root_directory_def root_directory_def split: if_splits)
  with q have n: "plain_name n" using assms(2) by (simp add: plain_name_def)
  have "hd (r @ x) = CHR ''/''" using q(3) \<open>r \<noteq> []\<close> by simp
  with \<open>r \<noteq> []\<close> have "has_root_directory (''//'' @ n @ (r @ x))"
    using has_root_directory_name [OF n, of "r @ x"] by simp
  then show ?thesis using q(1) by simp
next
  case False
  then have pos: "0 < slashes q" using assms(1) by (simp add: has_root_directory_other)
  have "slashes (q @ x) \<noteq> 2"
  proof
    assume two: "slashes (q @ x) = 2"
    with False have all: "slashes q = length q" "slashes q + slashes x = 2"
      by (auto simp: slashes_append split: if_splits)
    with False pos have "length q = 1" "slashes x = 1" by arith+
    moreover obtain c where "q = [c]" using \<open>length q = 1\<close> by (cases q) auto
    ultimately have "q = ''/''" "x \<noteq> []" "hd x = CHR ''/''"
      using pos slashes_pos [of q] slashes_pos [of x] by auto
    with assms(3) show False by blast
  qed
  moreover have "0 < slashes (q @ x)" using pos by (auto simp: slashes_append)
  ultimately show ?thesis by (simp add: has_root_directory_other)
qed

lemma path_append_cases:
  "path_append q p = q @ p \<or> path_append q p = q @ CHR ''/'' # p \<and> last q \<noteq> CHR ''/'' \<and> q \<noteq> []"
  by (auto simp: path_append_def)

lemma path_append_absolute:
  assumes "has_root_directory q" "CHR 0x00 \<notin> set q" "q = ''/'' \<Longrightarrow> p = [] \<or> hd p \<noteq> CHR ''/''"
  shows "has_root_directory (path_append q p)"
  using path_append_cases [of q p]
proof
  assume "path_append q p = q @ p"
  with root_directory_append [OF assms] show ?thesis by simp
next
  assume q: "path_append q p = q @ CHR ''/'' # p \<and> last q \<noteq> CHR ''/'' \<and> q \<noteq> []"
  then have "q \<noteq> ''/''" by auto
  then have "has_root_directory (q @ CHR ''/'' # p)" using root_directory_append [OF assms(1,2)] by blast
  with q show ?thesis by simp
qed

lemma path_append_no_nul:
  "CHR 0x00 \<notin> set q \<Longrightarrow> CHR 0x00 \<notin> set p \<Longrightarrow> CHR 0x00 \<notin> set (path_append q p)"
  by (auto simp: path_append_def)

lemma parts_no_nul:
  assumes "CHR 0x00 \<notin> set p"
  shows "CHR 0x00 \<notin> set (root_name p)" "CHR 0x00 \<notin> set (root_directory p)" "CHR 0x00 \<notin> set (relative_path p)"
proof -
  show "CHR 0x00 \<notin> set (root_name p)" using assms by (auto simp: root_name_def Let_def dest: in_set_takeD)
  show "CHR 0x00 \<notin> set (root_directory p)" by (simp add: root_directory_def Let_def)
  show "CHR 0x00 \<notin> set (relative_path p)"
    using assms by (auto simp: relative_path_def Let_def from_cstr_def dest!: set_takeWhileD dest: in_set_dropD)
qed

text \<open>One call of \<open>absolute\<close>, given what it does with its base.\<close>

lemma absolute_step:
  assumes nul: "CHR 0x00 \<notin> set p" "CHR 0x00 \<notin> set base"
    and a: "\<not> has_root_directory p \<Longrightarrow>
      \<exists>a. absolute cwd base cwd = Some a \<and> has_root_directory a \<and> CHR 0x00 \<notin> set a"
  shows "\<exists>q. absolute cwd p base = Some q \<and> has_root_directory q \<and> CHR 0x00 \<notin> set q"
proof (cases "has_root_directory p")
  case True
  show ?thesis
  proof (cases "\<not> has_root_name p \<and> has_root_name base")
    case False
    with True nul(1) show ?thesis by (subst (1) absolute.simps) auto
  next
    case net: True
    then have "slashes base = 2" by (simp add: has_root_name_iff)
    from root_name_cases [OF this nul(2)] obtain n where n: "CHR ''/'' \<notin> set n" "root_name base = ''//'' @ n"
      by metis
    have p: "p \<noteq> []" "hd p = CHR ''/''"
      using True net slashes_pos [of p] by (simp_all add: has_root_directory_other has_root_name_iff)
    have nn: "CHR 0x00 \<notin> set n" using parts_no_nul(1) [OF nul(2)] n(2) by simp
    have eq: "path_append (root_name base) p = (''//'' @ n) @ p"
      using p n(2) by (cases p) (auto simp: path_append_def)
    have "absolute cwd p base = Some (path_append (root_name base) p)"
      using True net by (subst absolute.simps) simp
    then show ?thesis using net_path [OF n(1) nn p] nn nul(1) unfolding eq by auto
  qed
next
  case False
  from a [OF this] obtain b where b: "absolute cwd base cwd = Some b" "has_root_directory b" "CHR 0x00 \<notin> set b"
    by blast
  show ?thesis
  proof (cases "has_root_name p")
    case True
    then have "slashes p = 2" by (simp add: has_root_name_iff)
    from root_name_cases [OF this nul(1)] obtain n where n: "CHR ''/'' \<notin> set n" "root_name p = ''//'' @ n"
      by metis
    have nn: "CHR 0x00 \<notin> set n" using parts_no_nul(1) [OF nul(1)] n(2) by simp
    have dir: "root_directory b = ''/''"
      using b(2) by (auto simp: has_root_directory_def root_directory_def Let_def split: if_splits)
    let ?q = "path_append (root_name p) (root_directory b)"
    have q: "?q = (''//'' @ n) @ ''/''" using n(2) dir by (simp add: path_append_def)
    have q1: "has_root_directory ?q" unfolding q by (rule net_path [OF n(1) nn]) simp_all
    have q2: "CHR 0x00 \<notin> set ?q" using nn unfolding q by simp
    let ?r = "path_append ?q (relative_path b)"
    have "?q \<noteq> ''/''" using q by simp
    then have r: "has_root_directory ?r" "CHR 0x00 \<notin> set ?r"
      using path_append_absolute [OF q1 q2] path_append_no_nul [OF q2 parts_no_nul(3) [OF b(3)]] by blast+
    have "?r \<noteq> ''/''" using path_append_cases [of ?q "relative_path b"] q by auto
    then have s: "has_root_directory (path_append ?r (relative_path p))"
      using path_append_absolute [OF r] by blast
    have "absolute cwd p base = Some (path_append ?r (relative_path p))"
      using False True b(1) by (subst absolute.simps) simp
    then show ?thesis using s path_append_no_nul [OF r(2) parts_no_nul(3) [OF nul(1)]] by blast
  next
    case name: False
    have "slashes p = 0" using False name has_root_directory_other [of p] by (simp add: has_root_name_iff)
    then have "p = [] \<or> hd p \<noteq> CHR ''/''" using slashes_pos [of p] by auto
    then have "has_root_directory (path_append b p)" using path_append_absolute [OF b(2,3)] by blast
    moreover have "absolute cwd p base = Some (path_append b p)"
      using False name b(1) by (subst absolute.simps) simp
    ultimately show ?thesis using path_append_no_nul [OF b(3) nul(1)] by blast
  qed
qed

lemma absolute_terminates:
  assumes "has_root_directory cwd" "CHR 0x00 \<notin> set cwd" "CHR 0x00 \<notin> set base" "CHR 0x00 \<notin> set p"
  shows "\<exists>q. absolute cwd p base = Some q \<and> is_absolute q"
proof -
  have c: "\<exists>q. absolute cwd cwd cwd = Some q \<and> has_root_directory q \<and> CHR 0x00 \<notin> set q"
    by (rule absolute_step) (use assms in simp_all)
  have b: "\<exists>q. absolute cwd base cwd = Some q \<and> has_root_directory q \<and> CHR 0x00 \<notin> set q"
    by (rule absolute_step [OF assms(3,2) c])
  from absolute_step [OF assms(4,3) b] show ?thesis by (auto simp: is_absolute_def)
qed

text \<open>With a working directory that is not absolute, the recursion does not end.\<close>

lemma absolute_diverges:
  assumes "\<not> has_root_directory cwd"
  shows "absolute cwd cwd cwd = None"
proof -
  have "w = cwd \<longrightarrow> p = cwd \<longrightarrow> base \<noteq> cwd" if "absolute w p base = Some r" for w p base r
    by (rule absolute.raw_induct [where P = "\<lambda>w p base r. w = cwd \<longrightarrow> p = cwd \<longrightarrow> base \<noteq> cwd", OF _ that])
      (use assms in \<open>auto split: if_splits bind_splits\<close>)
  then show ?thesis by (cases "absolute cwd cwd cwd") auto
qed

end
