(* ===== verification/System_Calls.thy ===== *)
theory System_Calls
  imports Filesystem
begin

text \<open>
  The operating system below src/acatl/detail/posix/filesystem.cpp, and the form of the functions
  that call it. The system calls are the fields of a record over an arbitrary type of states
  of the system: they are parameters of every definition. A function of the code is an action on
  the \<open>std::error_code\<close> its caller passes and on the state of the system. It returns a value or
  ends abruptly: by an exception, by \<open>std::terminate\<close> (an exception leaves a \<open>noexcept\<close>
  function or a destructor), in undefined behaviour, or not within the fuel that bounds the loops
  over directory streams.
\<close>

unbundle bit_operations_syntax

section \<open>Error codes and exceptions\<close>

text \<open>The values of \<open>errno\<close> that the code tests, and all others by their numbers.\<close>

datatype errno = ENOENT | ENOTDIR | EACCES | EOVERFLOW | EEXIST | Errno nat

datatype errc =
    not_a_directory | permission_denied | invalid_argument | filename_too_long
  | no_such_file_or_directory

datatype error_code = Cleared | System errno | Generic errc

text \<open>\<open>ec == std::errc::permission_denied\<close> also holds for the system's \<open>EACCES\<close>.\<close>

definition is_permission_denied :: "error_code \<Rightarrow> bool" where
  "is_permission_denied ec \<longleftrightarrow> ec = Generic permission_denied \<or> ec = System EACCES"

record filesystem_error =
  fe_what :: string
  fe_path1 :: path
  fe_path2 :: path
  fe_code :: error_code

datatype abrupt = Throw filesystem_error | Terminate | Undefined | Unfinished

datatype 'a outcome = Value 'a | Abrupt abrupt


section \<open>Actions\<close>

type_synonym ('w, 'a) action = "error_code \<times> 'w \<Rightarrow> 'a outcome \<times> error_code \<times> 'w"

definition ret :: "'a \<Rightarrow> ('w, 'a) action" where
  "ret x = (\<lambda>s. (Value x, s))"

definition and_then :: "('w, 'a) action \<Rightarrow> ('a \<Rightarrow> ('w, 'b) action) \<Rightarrow> ('w, 'b) action" where
  "and_then m f = (\<lambda>s. case m s of
     (Value x, s') \<Rightarrow> f x s'
   | (Abrupt a, s') \<Rightarrow> (Abrupt a, s'))"

definition ends :: "abrupt \<Rightarrow> ('w, 'a) action" where
  "ends a = (\<lambda>s. (Abrupt a, s))"

definition get_ec :: "('w, error_code) action" where
  "get_ec = (\<lambda>(ec, w). (Value ec, ec, w))"

definition set_ec :: "error_code \<Rightarrow> ('w, unit) action" where
  "set_ec e = (\<lambda>(ec, w). (Value (), e, w))"

text \<open>A system call that only looks at the state, and one that may change it.\<close>

definition looks :: "('w \<Rightarrow> 'a) \<Rightarrow> ('w, 'a) action" where
  "looks f = (\<lambda>(ec, w). (Value (f w), ec, w))"

definition calls :: "('w \<Rightarrow> 'a \<times> 'w) \<Rightarrow> ('w, 'a) action" where
  "calls f = (\<lambda>(ec, w). case f w of (x, w') \<Rightarrow> (Value x, ec, w'))"

text \<open>A block with a local \<open>std::error_code ec\<close>; its last value is part of the result.\<close>

definition local_ec :: "('w, 'a) action \<Rightarrow> ('w, 'a \<times> error_code) action" where
  "local_ec m = (\<lambda>(ec, w). case m (Cleared, w) of
     (Value x, ec', w') \<Rightarrow> (Value (x, ec'), ec, w')
   | (Abrupt a, _, w') \<Rightarrow> (Abrupt a, ec, w'))"

definition noexcept :: "('w, 'a) action \<Rightarrow> ('w, 'a) action" where
  "noexcept m = (\<lambda>s. case m s of
     (Abrupt (Throw e), s') \<Rightarrow> (Abrupt Terminate, s')
   | r \<Rightarrow> r)"

text \<open>The destructor of a local object, when its block is left and when an exception passes.\<close>

definition finally_do :: "('w, 'a) action \<Rightarrow> ('w, unit) action \<Rightarrow> ('w, 'a) action" where
  "finally_do m d = (\<lambda>s. case m s of
     (Value x, s') \<Rightarrow> and_then d (\<lambda>_. ret x) s'
   | (Abrupt (Throw e), s') \<Rightarrow> and_then d (\<lambda>_. ends (Throw e)) s'
   | (Abrupt a, s') \<Rightarrow> (Abrupt a, s'))"

definition on_throw :: "('w, 'a) action \<Rightarrow> ('w, unit) action \<Rightarrow> ('w, 'a) action" where
  "on_throw m d = (\<lambda>s. case m s of
     (Abrupt (Throw e), s') \<Rightarrow> and_then d (\<lambda>_. ends (Throw e)) s'
   | r \<Rightarrow> r)"

text \<open>The overloads without an \<open>error_code\<close>: a local one, and an exception if it is set.\<close>

definition throw_error :: "string \<Rightarrow> path \<Rightarrow> path \<Rightarrow> error_code \<Rightarrow> ('w, 'a) action" where
  "throw_error what p1 p2 ec =
     ends (Throw \<lparr>fe_what = what, fe_path1 = p1, fe_path2 = p2, fe_code = ec\<rparr>)"

definition throwing :: "string \<Rightarrow> path \<Rightarrow> path \<Rightarrow> ('w, 'a) action \<Rightarrow> ('w, 'a) action" where
  "throwing what p1 p2 m =
     and_then (local_ec m) (\<lambda>(x, ec).
       if ec \<noteq> Cleared then throw_error what p1 p2 ec else ret x)"

lemma and_then_assoc: "and_then (and_then m f) g = and_then m (\<lambda>x. and_then (f x) g)"
  by (auto simp: and_then_def split: prod.splits outcome.splits)

lemma ret_and_then [simp]: "and_then (ret x) f = f x"
  by (simp add: and_then_def ret_def)

lemma and_then_ret [simp]: "and_then m ret = m"
  by (auto simp: and_then_def ret_def split: prod.splits outcome.splits)

lemma ends_and_then [simp]: "and_then (ends a) f = ends a"
  by (simp add: and_then_def ends_def)

text \<open>Running the actions.\<close>

lemma run_simps:
  "ret x s = (Value x, s)" "ends a s = (Abrupt a, s)" "get_ec (ec, w) = (Value ec, ec, w)"
  "set_ec e (ec, w) = (Value (), e, w)" "looks f (ec, w) = (Value (f w), ec, w)"
  by (simp_all add: ret_def ends_def get_ec_def set_ec_def looks_def)

lemma run_and_then:
  "m s = (Value x, s') \<Longrightarrow> and_then m f s = f x s'"
  "m s = (Abrupt a, s') \<Longrightarrow> and_then m f s = (Abrupt a, s')"
  by (simp_all add: and_then_def)

lemma run_calls: "f w = (x, w') \<Longrightarrow> calls f (ec, w) = (Value x, ec, w')"
  by (simp add: calls_def)

lemma run_local_ec:
  "m (Cleared, w) = (Value x, ec', w') \<Longrightarrow> local_ec m (ec, w) = (Value (x, ec'), ec, w')"
  "m (Cleared, w) = (Abrupt a, ec', w') \<Longrightarrow> local_ec m (ec, w) = (Abrupt a, ec, w')"
  by (simp_all add: local_ec_def)


section \<open>The system calls\<close>

type_synonym mode_t = "32 word"
type_synonym uintmax = "64 word"

text \<open>\<open>struct stat\<close>, the members that the code reads.\<close>

record stat =
  st_mode :: mode_t
  st_dev :: uintmax
  st_ino :: uintmax
  st_size :: uintmax

type_synonym dir_stream = nat

record 'w os =
  sc_stat :: "path \<Rightarrow> 'w \<Rightarrow> errno + stat"
  sc_lstat :: "path \<Rightarrow> 'w \<Rightarrow> errno + stat"
  sc_getcwd :: "'w \<Rightarrow> errno + path"
  sc_realpath :: "path \<Rightarrow> 'w \<Rightarrow> errno + path"
  sc_readlink :: "path \<Rightarrow> nat \<Rightarrow> 'w \<Rightarrow> errno + string"
  sc_getenv :: "string \<Rightarrow> 'w \<Rightarrow> string option"
  sc_chdir :: "path \<Rightarrow> 'w \<Rightarrow> errno option \<times> 'w"
  sc_mkdir :: "path \<Rightarrow> mode_t \<Rightarrow> 'w \<Rightarrow> errno option \<times> 'w"
  sc_chmod :: "path \<Rightarrow> mode_t \<Rightarrow> 'w \<Rightarrow> errno option \<times> 'w"
  sc_symlink :: "path \<Rightarrow> path \<Rightarrow> 'w \<Rightarrow> errno option \<times> 'w"
  sc_remove :: "path \<Rightarrow> 'w \<Rightarrow> errno option \<times> 'w"
  sc_mkdtemp :: "string \<Rightarrow> 'w \<Rightarrow> (errno + path) \<times> 'w"
  sc_opendir :: "path \<Rightarrow> 'w \<Rightarrow> (errno + dir_stream) \<times> 'w"
  sc_readdir :: "dir_stream \<Rightarrow> 'w \<Rightarrow> (errno + string option) \<times> 'w"
  sc_closedir :: "dir_stream \<Rightarrow> 'w \<Rightarrow> 'w"

text \<open>What the calls get of a path: \<open>c_str()\<close>, which ends at a NUL character.\<close>

definition c_str :: "path \<Rightarrow> path" where
  "c_str p = from_cstr p 0"

lemma c_str_plain [simp]: "CHR 0x00 \<notin> set p \<Longrightarrow> c_str p = p"
  by (auto simp: c_str_def from_cstr_def takeWhile_eq_all_conv)

text \<open>\<open>if(::call(...) == -1) { ec.assign(errno, std::system_category()); }\<close>\<close>

definition call_or_assign :: "('w \<Rightarrow> errno option \<times> 'w) \<Rightarrow> ('w, bool) action" where
  "call_or_assign f =
     and_then (calls f) (\<lambda>e. case e of
       None \<Rightarrow> ret True
     | Some n \<Rightarrow> and_then (set_ec (System n)) (\<lambda>_. ret False))"


section \<open>File status\<close>

text \<open>The macros \<open>S_ISREG\<close> and so on, with the numbers that Linux and the BSDs share.\<close>

definition S_IFMT :: mode_t where "S_IFMT = 0xF000"

definition file_type_of_mode :: "mode_t \<Rightarrow> file_type" where
  "file_type_of_mode mode =
     (let t = mode AND S_IFMT in
      if t = 0x8000 then FT_regular
      else if t = 0x4000 then FT_directory
      else if t = 0x6000 then FT_block
      else if t = 0x2000 then FT_character
      else if t = 0x1000 then FT_fifo
      else if t = 0xC000 then FT_socket
      else if t = 0xA000 then FT_symlink
      else FT_unknown)"

definition setStatus :: "file_status \<Rightarrow> stat \<Rightarrow> file_status" where
  "setStatus st buffer =
     st\<lparr>fs_type := file_type_of_mode (st_mode buffer),
        fs_perms := st_mode buffer AND perms_mask\<rparr>"

definition type_of_errno :: "errno \<Rightarrow> file_type" where
  "type_of_errno n =
     (if n = ENOENT \<or> n = ENOTDIR then FT_not_found
      else if n = EACCES \<or> n = EOVERFLOW then FT_unknown
      else FT_none)"

definition status_of_call :: "errno + stat \<Rightarrow> ('w, file_status) action" where
  "status_of_call r =
     (case r of
        Inl n \<Rightarrow>
          and_then (set_ec (System n)) (\<lambda>_.
          ret (file_status_new\<lparr>fs_type := type_of_errno n, fs_perms := perms_unknown\<rparr>))
      | Inr buffer \<Rightarrow>
          and_then (set_ec Cleared) (\<lambda>_.
          ret (setStatus file_status_new buffer)))"

definition status_ec :: "'w os \<Rightarrow> path \<Rightarrow> ('w, file_status) action" where
  "status_ec os p = and_then (looks (sc_stat os (c_str p))) status_of_call"

definition symlink_status_ec :: "'w os \<Rightarrow> path \<Rightarrow> ('w, file_status) action" where
  "symlink_status_ec os p = and_then (looks (sc_lstat os (c_str p))) status_of_call"

definition status_path :: "'w os \<Rightarrow> path \<Rightarrow> ('w, file_status) action" where
  "status_path os p =
     and_then (local_ec (status_ec os p)) (\<lambda>(st, ec).
       if fs_type st = FT_none then throw_error ''Cannot get status of path'' p [] ec else ret st)"

definition symlink_status_path :: "'w os \<Rightarrow> path \<Rightarrow> ('w, file_status) action" where
  "symlink_status_path os p =
     and_then (local_ec (symlink_status_ec os p)) (\<lambda>(st, ec).
       if fs_type st = FT_none then throw_error ''Cannot get status of path'' p [] ec else ret st)"

end
