(* ===== verification/File_Operations.thy ===== *)
theory File_Operations
  imports System_Calls
begin

text \<open>
  src/acatl/filesystem.cpp and src/acatl/detail/posix/filesystem.cpp: the functions that ask the
  operating system, apart from the directory iterators and what is built on them. An overload
  without an \<open>error_code\<close> has the name of the function, one with an \<open>error_code\<close> ends in
  \<open>_ec\<close>.
\<close>

unbundle bit_operations_syntax

section \<open>Predicates on paths\<close>

definition is_block_file_path :: "'w os \<Rightarrow> path \<Rightarrow> ('w, bool) action" where
  "is_block_file_path os p = and_then (status_path os p) (\<lambda>s. ret (is_block_file s))"

definition is_block_file_ec :: "'w os \<Rightarrow> path \<Rightarrow> ('w, bool) action" where
  "is_block_file_ec os p = and_then (status_ec os p) (\<lambda>s. ret (is_block_file s))"

definition is_character_file_path :: "'w os \<Rightarrow> path \<Rightarrow> ('w, bool) action" where
  "is_character_file_path os p = and_then (status_path os p) (\<lambda>s. ret (is_character_file s))"

definition is_character_file_ec :: "'w os \<Rightarrow> path \<Rightarrow> ('w, bool) action" where
  "is_character_file_ec os p = and_then (status_ec os p) (\<lambda>s. ret (is_character_file s))"

definition is_directory_path :: "'w os \<Rightarrow> path \<Rightarrow> ('w, bool) action" where
  "is_directory_path os p = and_then (status_path os p) (\<lambda>s. ret (is_directory s))"

definition is_directory_ec :: "'w os \<Rightarrow> path \<Rightarrow> ('w, bool) action" where
  "is_directory_ec os p = and_then (status_ec os p) (\<lambda>s. ret (is_directory s))"

definition is_fifo_path :: "'w os \<Rightarrow> path \<Rightarrow> ('w, bool) action" where
  "is_fifo_path os p = and_then (status_path os p) (\<lambda>s. ret (is_fifo s))"

definition is_fifo_ec :: "'w os \<Rightarrow> path \<Rightarrow> ('w, bool) action" where
  "is_fifo_ec os p = and_then (status_ec os p) (\<lambda>s. ret (is_fifo s))"

definition is_other_path :: "'w os \<Rightarrow> path \<Rightarrow> ('w, bool) action" where
  "is_other_path os p = and_then (status_path os p) (\<lambda>s. ret (is_other s))"

definition is_other_ec :: "'w os \<Rightarrow> path \<Rightarrow> ('w, bool) action" where
  "is_other_ec os p = and_then (status_ec os p) (\<lambda>s. ret (is_other s))"

definition is_regular_file_path :: "'w os \<Rightarrow> path \<Rightarrow> ('w, bool) action" where
  "is_regular_file_path os p = and_then (status_path os p) (\<lambda>s. ret (is_regular_file s))"

definition is_regular_file_ec :: "'w os \<Rightarrow> path \<Rightarrow> ('w, bool) action" where
  "is_regular_file_ec os p = and_then (status_ec os p) (\<lambda>s. ret (is_regular_file s))"

definition is_socket_path :: "'w os \<Rightarrow> path \<Rightarrow> ('w, bool) action" where
  "is_socket_path os p = and_then (status_path os p) (\<lambda>s. ret (is_socket s))"

definition is_socket_ec :: "'w os \<Rightarrow> path \<Rightarrow> ('w, bool) action" where
  "is_socket_ec os p = and_then (status_ec os p) (\<lambda>s. ret (is_socket s))"

definition is_symlink_path :: "'w os \<Rightarrow> path \<Rightarrow> ('w, bool) action" where
  "is_symlink_path os p = and_then (symlink_status_path os p) (\<lambda>s. ret (is_symlink s))"

definition is_symlink_ec :: "'w os \<Rightarrow> path \<Rightarrow> ('w, bool) action" where
  "is_symlink_ec os p = and_then (symlink_status_ec os p) (\<lambda>s. ret (is_symlink s))"

definition exists_ec :: "'w os \<Rightarrow> path \<Rightarrow> ('w, bool) action" where
  "exists_ec os p =
     and_then (status_ec os p) (\<lambda>fs.
     and_then get_ec (\<lambda>ec.
     and_then (if ec \<noteq> Cleared \<and> status_known fs then set_ec Cleared else ret ()) (\<lambda>_.
     ret (exists_status fs))))"

definition exists_path :: "'w os \<Rightarrow> path \<Rightarrow> ('w, bool) action" where
  "exists_path os p =
     and_then (local_ec (exists_ec os p)) (\<lambda>(there, ec).
       if \<not> there
       then (if ec \<noteq> Cleared then throw_error ''Path does not exist'' p [] ec
             else throw_error ''Cannot validate path'' p [] ec)
       else ret True)"

definition file_size_ec :: "'w os \<Rightarrow> path \<Rightarrow> ('w, uintmax) action" where
  "file_size_ec os p =
     and_then (looks (sc_stat os (c_str p))) (\<lambda>r. case r of
       Inl n \<Rightarrow> and_then (set_ec (System n)) (\<lambda>_. ret (- 1))
     | Inr buffer \<Rightarrow>
         and_then (status_of_call (Inr buffer)) (\<lambda>fs.
         and_then get_ec (\<lambda>ec.
           if ec \<noteq> Cleared then ret (- 1)
           else if \<not> exists_status fs \<or> \<not> is_regular_file fs then ret (- 1)
           else ret (st_size buffer))))"

definition file_size_path :: "'w os \<Rightarrow> path \<Rightarrow> ('w, uintmax) action" where
  "file_size_path os p = throwing ''Cannot determine file size'' p [] (file_size_ec os p)"

definition equivalent_ec :: "'w os \<Rightarrow> path \<Rightarrow> path \<Rightarrow> ('w, bool) action" where
  "equivalent_ec os p1 p2 =
     and_then (looks (sc_stat os (c_str p1))) (\<lambda>r. case r of
       Inl n \<Rightarrow> and_then (set_ec (System n)) (\<lambda>_. ret False)
     | Inr buffer \<Rightarrow>
         and_then (status_of_call (Inr buffer)) (\<lambda>s1.
         and_then get_ec (\<lambda>ec.
         if ec \<noteq> Cleared then ret False
         else
           and_then (looks (sc_stat os (c_str p2))) (\<lambda>r. case r of
             Inl n \<Rightarrow> and_then (set_ec (System n)) (\<lambda>_. ret False)
           | Inr buffer2 \<Rightarrow>
               and_then (status_of_call (Inr buffer2)) (\<lambda>s2.
               and_then get_ec (\<lambda>ec.
               if ec \<noteq> Cleared then ret False
               else
                 and_then (if \<not> exists_status s1 \<and> \<not> exists_status s2 \<or> is_other s1 \<and> is_other s2
                           then set_ec (Generic invalid_argument) else ret ()) (\<lambda>_.
                 ret (file_status_eq s1 s2 \<and> st_dev buffer = st_dev buffer2
                      \<and> st_ino buffer = st_ino buffer2))))))))"

definition equivalent_path :: "'w os \<Rightarrow> path \<Rightarrow> path \<Rightarrow> ('w, bool) action" where
  "equivalent_path os p1 p2 =
     throwing ''Cannot determine if paths are equivalent'' p1 p2 (equivalent_ec os p1 p2)"


section \<open>The working directory\<close>

definition current_path_ec :: "'w os \<Rightarrow> ('w, path) action" where
  "current_path_ec os =
     and_then (looks (sc_getcwd os)) (\<lambda>r. case r of
       Inl n \<Rightarrow> and_then (set_ec (System n)) (\<lambda>_. ret [])
     | Inr buf \<Rightarrow>
         (let p = c_str buf in
          if char_at p 0 = CHR ''(''
          then and_then (set_ec (Generic permission_denied)) (\<lambda>_. ret [])
          else and_then (set_ec Cleared) (\<lambda>_. ret p)))"

definition current_path :: "'w os \<Rightarrow> ('w, path) action" where
  "current_path os = throwing ''Cannot determine current path'' [] [] (current_path_ec os)"

definition set_current_path_ec :: "'w os \<Rightarrow> path \<Rightarrow> ('w, unit) action" where
  "set_current_path_ec os p =
     and_then (calls (sc_chdir os (c_str p))) (\<lambda>e. case e of
       Some n \<Rightarrow> set_ec (System n)
     | None \<Rightarrow> set_ec Cleared)"

definition set_current_path :: "'w os \<Rightarrow> path \<Rightarrow> ('w, unit) action" where
  "set_current_path os p = throwing ''Cannot set current path'' p [] (set_current_path_ec os p)"

text \<open>
  \<open>absolute\<close>: the default argument \<open>current_path()\<close> is asked for whenever a relative path or
  base needs it; it does not change, so that all calls of it give the same.
\<close>

definition absolute_action :: "'w os \<Rightarrow> path \<Rightarrow> path \<Rightarrow> ('w, path) action" where
  "absolute_action os p base =
     and_then (if has_root_directory p then ret [] else current_path os) (\<lambda>cwd.
       case absolute cwd p base of None \<Rightarrow> ends Unfinished | Some q \<Rightarrow> ret q)"

definition canonical_base_ec :: "'w os \<Rightarrow> path \<Rightarrow> path \<Rightarrow> ('w, path) action" where
  "canonical_base_ec os p base =
     and_then (absolute_action os p base) (\<lambda>q.
     and_then (looks (sc_realpath os (c_str q))) (\<lambda>r. case r of
       Inl n \<Rightarrow> and_then (set_ec (System n)) (\<lambda>_. ret [])
     | Inr buf \<Rightarrow> ret (c_str buf)))"

definition canonical_ec :: "'w os \<Rightarrow> path \<Rightarrow> ('w, path) action" where
  "canonical_ec os p = and_then (current_path os) (canonical_base_ec os p)"

definition canonical_path :: "'w os \<Rightarrow> path \<Rightarrow> path \<Rightarrow> ('w, path) action" where
  "canonical_path os p base =
     throwing ''Cannot produce canonical path'' p [] (canonical_base_ec os p base)"

definition system_complete_ec :: "'w os \<Rightarrow> path \<Rightarrow> ('w, path) action" where
  "system_complete_ec os p = and_then (current_path_ec os) (absolute_action os p)"

definition system_complete :: "'w os \<Rightarrow> path \<Rightarrow> ('w, path) action" where
  "system_complete os p = throwing ''Cannot complete path'' p [] (system_complete_ec os p)"


section \<open>Creating directories and links\<close>

definition perms_all :: perms where "perms_all = 0x1FF"

definition make_directory :: "'w os \<Rightarrow> path \<Rightarrow> mode_t \<Rightarrow> ('w, bool) action" where
  "make_directory os p mode =
     and_then (calls (sc_mkdir os (c_str p) mode)) (\<lambda>e. case e of
       None \<Rightarrow> ret True
     | Some n \<Rightarrow> if n \<noteq> EEXIST then and_then (set_ec (System n)) (\<lambda>_. ret False) else ret True)"

definition create_directory_ec :: "'w os \<Rightarrow> path \<Rightarrow> ('w, bool) action" where
  "create_directory_ec os p = noexcept (
     if p = [] then and_then (set_ec (Generic not_a_directory)) (\<lambda>_. ret False)
     else
       and_then (is_directory_path os (parent_path p)) (\<lambda>parent.
       if \<not> parent then and_then (set_ec (Generic not_a_directory)) (\<lambda>_. ret False)
       else
         and_then (local_ec (status_ec os p)) (\<lambda>(s, statusec).
         if exists_status s \<and> \<not> is_directory s
         then and_then (set_ec (Generic not_a_directory)) (\<lambda>_. ret False)
         else make_directory os p perms_all)))"

definition create_directory_like_ec :: "'w os \<Rightarrow> path \<Rightarrow> path \<Rightarrow> ('w, bool) action" where
  "create_directory_like_ec os p existing_p = noexcept (
     if p = [] then and_then (set_ec (Generic not_a_directory)) (\<lambda>_. ret False)
     else
       and_then (is_directory_path os (parent_path p)) (\<lambda>parent.
       if \<not> parent then and_then (set_ec (Generic not_a_directory)) (\<lambda>_. ret False)
       else
         and_then (status_path os p) (\<lambda>s.
         if exists_status s \<and> \<not> is_directory s
         then and_then (set_ec (Generic not_a_directory)) (\<lambda>_. ret False)
         else
           and_then (looks (sc_stat os (c_str existing_p))) (\<lambda>r. case r of
             Inl n \<Rightarrow> and_then (set_ec (System n)) (\<lambda>_. ret False)
           | Inr attributes_stat \<Rightarrow> make_directory os p (st_mode attributes_stat)))))"

text \<open>The throwing overloads look at the result, not at the error code.\<close>

definition throwing_if_false :: "string \<Rightarrow> path \<Rightarrow> ('w, bool) action \<Rightarrow> ('w, bool) action" where
  "throwing_if_false what p m =
     and_then (local_ec m) (\<lambda>(ok, ec). if \<not> ok then throw_error what p [] ec else ret True)"

definition create_directory :: "'w os \<Rightarrow> path \<Rightarrow> ('w, bool) action" where
  "create_directory os p = throwing_if_false ''Cannot create directory'' p (create_directory_ec os p)"

definition create_directory_like :: "'w os \<Rightarrow> path \<Rightarrow> path \<Rightarrow> ('w, bool) action" where
  "create_directory_like os p existing_p =
     throwing_if_false ''Cannot create directory'' p (create_directory_like_ec os p existing_p)"

text \<open>The loop over the elements of a path; \<open>status(dir, ec1)\<close> has an error code of its own.\<close>

fun create_each :: "'w os \<Rightarrow> path \<Rightarrow> path list \<Rightarrow> ('w, bool) action" where
  "create_each os dir [] = ret True"
| "create_each os dir (entry # entries) =
     (let dir = path_append dir entry in
      and_then (local_ec (status_ec os dir)) (\<lambda>(s, ec1).
        if exists_status s
        then (if \<not> is_directory s
              then and_then (set_ec (Generic not_a_directory)) (\<lambda>_. ret False)
              else create_each os dir entries)
        else
          and_then (create_directory_ec os dir) (\<lambda>ok.
            if \<not> ok then ret False else create_each os dir entries)))"

definition create_directories_ec :: "'w os \<Rightarrow> path \<Rightarrow> ('w, bool) action" where
  "create_directories_ec os p = noexcept (
     if p = [] then and_then (set_ec (Generic not_a_directory)) (\<lambda>_. ret False)
     else create_each os [] (path_elements p))"

definition create_directories :: "'w os \<Rightarrow> path \<Rightarrow> ('w, bool) action" where
  "create_directories os p =
     throwing_if_false ''Cannot create directory'' p (create_directories_ec os p)"

definition create_symlink_ec :: "'w os \<Rightarrow> path \<Rightarrow> path \<Rightarrow> ('w, unit) action" where
  "create_symlink_ec os to new_symlink =
     and_then (call_or_assign (sc_symlink os (c_str to) (c_str new_symlink))) (\<lambda>_. ret ())"

definition create_symlink :: "'w os \<Rightarrow> path \<Rightarrow> path \<Rightarrow> ('w, unit) action" where
  "create_symlink os to new_symlink =
     throwing ''Cannot create symlink'' to new_symlink (create_symlink_ec os to new_symlink)"

definition PATH_MAX :: nat where "PATH_MAX = 4096"

text \<open>\<open>readlink\<close> writes no more than the size of the buffer.\<close>

definition read_symlink_ec :: "'w os \<Rightarrow> path \<Rightarrow> ('w, path) action" where
  "read_symlink_ec os p =
     and_then (looks (sc_lstat os (c_str p))) (\<lambda>r. case r of
       Inl n \<Rightarrow> and_then (set_ec (System n)) (\<lambda>_. ret [])
     | Inr sb \<Rightarrow>
         (let bufsize = (if st_size sb = 0 then PATH_MAX else unat (st_size sb + 1)) in
          and_then (looks (sc_readlink os (c_str p) bufsize)) (\<lambda>r. case r of
            Inl n \<Rightarrow> and_then (set_ec (System n)) (\<lambda>_. ret [])
          | Inr linkname \<Rightarrow>
              if length linkname \<ge> bufsize
              then and_then (set_ec (Generic filename_too_long)) (\<lambda>_. ret [])
              else ret (c_str linkname))))"

definition read_symlink :: "'w os \<Rightarrow> path \<Rightarrow> ('w, path) action" where
  "read_symlink os p = throwing ''Cannot read symlink'' p [] (read_symlink_ec os p)"


section \<open>Permissions and removal\<close>

definition add_perms :: perms where "add_perms = 0x10000"
definition remove_perms :: perms where "remove_perms = 0x20000"
definition symlink_nofollow :: perms where "symlink_nofollow = 0x40000"

definition new_perms :: "perms \<Rightarrow> perms \<Rightarrow> perms" where
  "new_perms prms old =
     (if prms AND add_perms \<noteq> 0 then old OR (prms AND perms_mask)
      else old AND NOT (prms AND perms_mask))"

definition permissions_ec :: "'w os \<Rightarrow> path \<Rightarrow> perms \<Rightarrow> ('w, unit) action" where
  "permissions_ec os p prms =
     (if \<not> (prms AND add_perms \<noteq> 0 \<and> prms AND remove_perms \<noteq> 0) then ret ()
      else
        (let nofollow = prms AND symlink_nofollow \<noteq> 0 in
         and_then (if nofollow then read_symlink_ec os p else ret p) (\<lambda>f.
         and_then get_ec (\<lambda>ec.
         if nofollow \<and> ec \<noteq> Cleared then ret ()
         else
           and_then (if nofollow then symlink_status_path os p else status_path os p) (\<lambda>s.
           and_then (call_or_assign (sc_chmod os (c_str f) (new_perms prms (fs_perms s)))) (\<lambda>_.
           ret ()))))))"

definition permissions :: "'w os \<Rightarrow> path \<Rightarrow> perms \<Rightarrow> ('w, unit) action" where
  "permissions os p prms = throwing ''Cannot set permissions on path'' p [] (permissions_ec os p prms)"

definition remove_ec :: "'w os \<Rightarrow> path \<Rightarrow> ('w, bool) action" where
  "remove_ec os p =
     and_then (symlink_status_ec os p) (\<lambda>s.
       if exists_status s then call_or_assign (sc_remove os (c_str p)) else ret False)"

definition remove_path :: "'w os \<Rightarrow> path \<Rightarrow> ('w, bool) action" where
  "remove_path os p = throwing_if_false ''Cannot remove path'' p (remove_ec os p)"


section \<open>Temporary directories\<close>

text \<open>\<open>(value = getenv("TMPDIR")) || (value = getenv("TMP")) || ...\<close>\<close>

fun first_env :: "'w os \<Rightarrow> string list \<Rightarrow> 'w \<Rightarrow> string option" where
  "first_env os [] w = None"
| "first_env os (name # names) w =
     (case sc_getenv os name w of Some v \<Rightarrow> Some v | None \<Rightarrow> first_env os names w)"

definition temp_directory_path_ec :: "'w os \<Rightarrow> ('w, path) action" where
  "temp_directory_path_ec os =
     and_then (looks (first_env os [''TMPDIR'', ''TMP'', ''TEMP'', ''TEMPDIR''])) (\<lambda>value.
       (let p = (case value of Some v \<Rightarrow> c_str v | None \<Rightarrow> ''/tmp'') in
        and_then (if p = [] then ret True
                  else and_then (is_directory_ec os p) (\<lambda>d. ret (\<not> d))) (\<lambda>bad.
        and_then (if bad then set_ec (Generic not_a_directory) else ret ()) (\<lambda>_.
        ret p))))"

definition temp_directory_path :: "'w os \<Rightarrow> ('w, path) action" where
  "temp_directory_path os = throwing ''Cannot deduce temporary path'' [] [] (temp_directory_path_ec os)"

text \<open>
  \<open>strncpy\<close> into a buffer of \<open>PATH_MAX\<close> bytes writes no NUL character if the template is as long
  as that, and \<open>path{tmpDir}\<close> of a null pointer is undefined.
\<close>

definition unique_temp_directory_path_ec :: "'w os \<Rightarrow> ('w, path) action" where
  "unique_temp_directory_path_ec os =
     and_then (temp_directory_path_ec os) (\<lambda>p.
     and_then get_ec (\<lambda>ec.
     if ec \<noteq> Cleared then ret []
     else
       (let tmpl = c_str (path_append p ''acatl_XXXXXX'') in
        if length tmpl \<ge> PATH_MAX then ends Undefined
        else
          and_then (calls (sc_mkdtemp os tmpl)) (\<lambda>r. case r of
            Inl n \<Rightarrow> and_then (set_ec (System n)) (\<lambda>_. ends Undefined)
          | Inr tmpDir \<Rightarrow> ret (c_str tmpDir)))))"

definition unique_temp_directory_path :: "'w os \<Rightarrow> ('w, path) action" where
  "unique_temp_directory_path os =
     throwing ''Cannot create temporary directory'' [] [] (unique_temp_directory_path_ec os)"


section \<open>What the functions do\<close>

lemmas action_defs = and_then_def ret_def ends_def get_ec_def set_ec_def looks_def calls_def local_ec_def

text \<open>Directories and missing files, as \<open>stat\<close> and \<open>lstat\<close> report them.\<close>

definition directory_at :: "'w os \<Rightarrow> 'w \<Rightarrow> path \<Rightarrow> bool" where
  "directory_at os w p \<longleftrightarrow>
     (case sc_stat os p w of Inl n \<Rightarrow> False | Inr st \<Rightarrow> file_type_of_mode (st_mode st) = FT_directory)"

definition absent_at :: "'w os \<Rightarrow> 'w \<Rightarrow> path \<Rightarrow> bool" where
  "absent_at os w p \<longleftrightarrow> sc_stat os p w = Inl ENOENT \<and> sc_lstat os p w = Inl ENOENT"

lemma status_of_call_run:
  "status_of_call (Inr st) (ec, w) = (Value (setStatus file_status_new st), Cleared, w)"
  "status_of_call (Inl n) (ec, w) =
     (Value \<lparr>fs_type = type_of_errno n, fs_perms = perms_unknown\<rparr>, System n, w)"
  by (simp_all add: status_of_call_def action_defs file_status_new_def)

lemma status_ec_run:
  "status_ec os p (ec, w) = status_of_call (sc_stat os (c_str p) w) (ec, w)"
  "symlink_status_ec os p (ec, w) = status_of_call (sc_lstat os (c_str p) w) (ec, w)"
  by (simp_all add: status_ec_def symlink_status_ec_def and_then_def looks_def)

lemma status_of_call_keeps: "snd (snd (status_of_call r (ec, w))) = w"
  by (cases r) (simp_all add: status_of_call_run)

text \<open>\<open>is_directory(path)\<close>: an answer, or an exception if \<open>stat\<close> fails in an unusual way.\<close>

lemma is_directory_path_run:
  "is_directory_path os p (ec, w) =
     (case sc_stat os (c_str p) w of
        Inr st \<Rightarrow> (Value (file_type_of_mode (st_mode st) = FT_directory), ec, w)
      | Inl n \<Rightarrow>
          (if type_of_errno n = FT_none
           then (Abrupt (Throw \<lparr>fe_what = ''Cannot get status of path'', fe_path1 = p, fe_path2 = [],
                                fe_code = System n\<rparr>), ec, w)
           else (Value False, ec, w)))"
proof (cases "sc_stat os (c_str p) w")
  case (Inl n)
  then show ?thesis
    by (simp add: is_directory_path_def status_path_def and_then_def local_ec_def status_ec_run
        status_of_call_run throw_error_def ends_def ret_def is_directory_def type_of_errno_def)
next
  case (Inr st)
  have "file_type_of_mode m \<noteq> FT_none" for m by (simp add: file_type_of_mode_def Let_def)
  with Inr show ?thesis
    by (simp add: is_directory_path_def status_path_def and_then_def local_ec_def status_ec_run
        status_of_call_run throw_error_def ends_def ret_def is_directory_def setStatus_def)
qed

lemma is_directory_path_at:
  "CHR 0x00 \<notin> set p \<Longrightarrow> directory_at os w p \<Longrightarrow> is_directory_path os p (ec, w) = (Value True, ec, w)"
  by (simp add: is_directory_path_run directory_at_def split: sum.splits)

lemma status_at:
  assumes "CHR 0x00 \<notin> set p"
  shows "directory_at os w p \<Longrightarrow>
      \<exists>s. status_ec os p (ec, w) = (Value s, Cleared, w) \<and> exists_status s \<and> is_directory s"
    "absent_at os w p \<Longrightarrow>
      \<exists>s. status_ec os p (ec, w) = (Value s, System ENOENT, w) \<and> \<not> exists_status s"
  using assms
  by (auto simp: status_ec_run status_of_call_run directory_at_def absent_at_def is_directory_def
      exists_status_def status_known_def setStatus_def type_of_errno_def split: sum.splits)

text \<open>\<open>create_directory\<close>.\<close>

lemma create_directory_makes:
  assumes "CHR 0x00 \<notin> set p" "CHR 0x00 \<notin> set (parent_path p)" "p \<noteq> []"
    and "directory_at os w (parent_path p)" "absent_at os w p" "sc_mkdir os p perms_all w = (None, w')"
  shows "create_directory_ec os p (ec, w) = (Value True, ec, w')"
proof -
  from status_at(2) [OF assms(1,5)] obtain s
    where s: "status_ec os p (Cleared, w) = (Value s, System ENOENT, w)" "\<not> exists_status s" by blast
  show ?thesis using assms s
    by (simp add: create_directory_ec_def noexcept_def and_then_def is_directory_path_at local_ec_def
        make_directory_def calls_def ret_def)
qed

lemma create_directory_no_parent:
  assumes "p \<noteq> []" "sc_stat os (c_str (parent_path p)) w = Inl n" "type_of_errno n \<noteq> FT_none"
  shows "create_directory_ec os p (ec, w) = (Value False, Generic not_a_directory, w)"
  using assms
  by (simp add: create_directory_ec_def noexcept_def and_then_def is_directory_path_run set_ec_def ret_def)

lemma create_directory_terminates:
  assumes "p \<noteq> []" "sc_stat os (c_str (parent_path p)) w = Inl n" "type_of_errno n = FT_none"
  shows "create_directory_ec os p (ec, w) = (Abrupt Terminate, ec, w)"
  using assms by (simp add: create_directory_ec_def noexcept_def and_then_def is_directory_path_run)

text \<open>
  \<open>create_directories\<close> on an absolute path. What it relies on: \<open>mkdir\<close> of a missing name in a
  directory makes an empty directory there and leaves all directories in place. The hypothesis
  \<open>valid\<close> stands for the states in which the process may write.
\<close>

definition entry_name :: "string \<Rightarrow> bool" where
  "entry_name n \<longleftrightarrow> plain_name n \<and> n \<noteq> ''.'' \<and> n \<noteq> ''..''"

definition makes_directories :: "'w os \<Rightarrow> ('w \<Rightarrow> bool) \<Rightarrow> bool" where
  "makes_directories os valid \<longleftrightarrow>
     (\<forall>w ns n. valid w \<and> (\<forall>m \<in> set (ns @ [n]). entry_name m)
        \<and> directory_at os w (path_of True ns) \<and> absent_at os w (path_of True (ns @ [n])) \<longrightarrow>
        (\<exists>w'. sc_mkdir os (path_of True (ns @ [n])) perms_all w = (None, w') \<and> valid w'
           \<and> directory_at os w' (path_of True (ns @ [n]))
           \<and> (\<forall>q. directory_at os w q \<longrightarrow> directory_at os w' q)
           \<and> (\<forall>ms. ms \<noteq> [] \<and> (\<forall>m \<in> set ms. entry_name m) \<longrightarrow>
                 absent_at os w' (path_of True (ns @ n # ms)))))"

lemma parent_path_single:
  assumes "plain_name n"
  shows "parent_path n = []"
proof -
  have n: "CHR ''/'' \<notin> set n" "n \<noteq> []" "hd n \<noteq> CHR ''/''"
    using assms plain_name_hd [OF assms] by (simp_all add: plain_name_def)
  have "back_to CHR ''/'' n (length n - 1) = 0" by (rule back_to_none [OF n(1,2)])
  moreover have "n ! 0 \<noteq> CHR ''/''" using n(2,3) by (simp add: hd_conv_nth)
  ultimately show ?thesis by (simp add: parent_path_def Let_def)
qed

lemma parent_path_root:
  assumes "plain_name n"
  shows "parent_path (CHR ''/'' # n) = ''/''"
proof -
  have n: "CHR ''/'' \<notin> set n" "n \<noteq> []" using assms by (simp_all add: plain_name_def)
  have "back_to CHR ''/'' (CHR ''/'' # n) (length n) = 0" using back_to_name [OF n, of "[]"] by simp
  with n(2) show ?thesis by (simp add: parent_path_def Let_def)
qed

lemma last_slashed:
  "p \<noteq> [] \<Longrightarrow> last p \<noteq> CHR ''/'' \<Longrightarrow> \<forall>m \<in> set ns. plain_name m \<Longrightarrow> last (p @ slashed ns) \<noteq> CHR ''/''"
proof (induction ns arbitrary: p)
  case (Cons m ms)
  then have m: "m \<noteq> []" "last m \<noteq> CHR ''/''" using plain_name_char [of m "last m"] by (auto simp: plain_name_def)
  then have "last ((p @ CHR ''/'' # m) @ slashed ms) \<noteq> CHR ''/''" using Cons by (intro Cons.IH) simp_all
  then show ?case by (simp add: slashed_def)
qed (simp add: slashed_def)

lemma makes_directoriesD:
  assumes "makes_directories os valid" "valid w" "\<forall>m \<in> set (ns @ [n]). entry_name m"
    "directory_at os w (path_of True ns)" "absent_at os w (path_of True (ns @ [n]))"
  obtains w' where "sc_mkdir os (path_of True (ns @ [n])) perms_all w = (None, w')" "valid w'"
    "directory_at os w' (path_of True (ns @ [n]))" "\<And>q. directory_at os w q \<Longrightarrow> directory_at os w' q"
    "\<And>ms. ms \<noteq> [] \<Longrightarrow> \<forall>m \<in> set ms. entry_name m \<Longrightarrow> absent_at os w' (path_of True (ns @ n # ms))"
proof -
  have "\<exists>w'. sc_mkdir os (path_of True (ns @ [n])) perms_all w = (None, w') \<and> valid w'
      \<and> directory_at os w' (path_of True (ns @ [n]))
      \<and> (\<forall>q. directory_at os w q \<longrightarrow> directory_at os w' q)
      \<and> (\<forall>ms. ms \<noteq> [] \<and> (\<forall>m \<in> set ms. entry_name m) \<longrightarrow> absent_at os w' (path_of True (ns @ n # ms)))"
    using assms unfolding makes_directories_def by (elim allE [of _ w] allE [of _ ns] allE [of _ n] impE) blast+
  then show thesis using that by blast
qed

lemma rooted_no_nul: "\<forall>n \<in> set ns. entry_name n \<Longrightarrow> CHR 0x00 \<notin> set (path_of True ns)"
proof (cases ns)
  case (Cons n ns')
  assume "\<forall>n \<in> set ns. entry_name n"
  then show ?thesis using Cons by (auto simp: path_of_def join_slashed slashed_def entry_name_def plain_name_def)
qed (simp add: path_of_def)

lemma rooted_snoc:
  assumes "\<forall>m \<in> set (ns @ [n]). entry_name m"
  shows "path_of True (ns @ [n]) = path_append (path_of True ns) n"
    "parent_path (path_of True (ns @ [n])) = path_of True ns"
proof -
  have n: "plain_name n" and ns: "\<And>m. m \<in> set ns \<Longrightarrow> plain_name m"
    using assms by (simp_all add: entry_name_def)
  have "path_of True (ns @ [n]) = path_append (path_of True ns) n \<and>
      parent_path (path_of True (ns @ [n])) = path_of True ns"
  proof (cases ns)
    case Nil
    then show ?thesis using n parent_path_root [OF n] by (simp add: path_of_def append_name)
  next
    case (Cons m ms)
    have m: "plain_name m" using ns Cons by simp
    then have l: "m \<noteq> []" "last m \<noteq> CHR ''/''"
      using plain_name_char [of m "last m"] by (auto simp: plain_name_def)
    have p: "path_of True ns = (CHR ''/'' # m) @ slashed ms" using Cons by (simp add: path_of_def join_slashed)
    have "last ((CHR ''/'' # m) @ slashed ms) \<noteq> CHR ''/''"
      using ns Cons l by (intro last_slashed) simp_all
    with l have "last (path_of True ns) \<noteq> CHR ''/'' \<and> length (path_of True ns) \<noteq> 1 \<and> path_of True ns \<noteq> []"
      unfolding p by simp
    moreover have "path_of True (ns @ [n]) = path_of True ns @ CHR ''/'' # n"
      using Cons by (simp add: path_of_def join_slashed slashed_def)
    ultimately show ?thesis using n parent_of_append [OF n, of "path_of True ns"] by (simp add: append_name)
  qed
  then show "path_of True (ns @ [n]) = path_append (path_of True ns) n"
    "parent_path (path_of True (ns @ [n])) = path_of True ns" by blast+
qed

text \<open>The loop, behind the directories \<open>ds\<close> that it has been through.\<close>

lemma create_each_makes:
  assumes "makes_directories os valid"
  shows "valid w \<Longrightarrow> \<forall>n \<in> set (ds @ ns). entry_name n \<Longrightarrow> directory_at os w (path_of True ds) \<Longrightarrow>
    (\<And>k. 0 < k \<Longrightarrow> k \<le> length ns \<Longrightarrow>
       (if k \<le> j then directory_at os w (path_of True (ds @ take k ns))
        else absent_at os w (path_of True (ds @ take k ns)))) \<Longrightarrow>
    \<exists>w'. create_each os (path_of True ds) ns (ec, w) = (Value True, ec, w') \<and> valid w'
      \<and> (\<forall>k \<le> length ns. directory_at os w' (path_of True (ds @ take k ns)))
      \<and> (\<forall>q. directory_at os w q \<longrightarrow> directory_at os w' q)"
proof (induction ns arbitrary: ds j w)
  case Nil
  then show ?case by (simp add: ret_def)
next
  case (Cons n ns)
  let ?dir = "path_of True (ds @ [n])"
  have en: "\<forall>m \<in> set (ds @ [n]). entry_name m" using Cons.prems(2) by simp
  have app: "path_append (path_of True ds) n = ?dir" using rooted_snoc(1) [OF en] by simp
  have nul: "CHR 0x00 \<notin> set ?dir" by (rule rooted_no_nul [OF en])
  have en': "\<forall>m \<in> set ((ds @ [n]) @ ns). entry_name m" using Cons.prems(2) by simp
  have first: "if 1 \<le> j then directory_at os w ?dir else absent_at os w ?dir"
    using Cons.prems(4) [of 1] by (auto split: if_splits)
  have next_: "if k \<le> j - 1 then directory_at os w (path_of True ((ds @ [n]) @ take k ns))
      else absent_at os w (path_of True ((ds @ [n]) @ take k ns))" if "0 < k" "k \<le> length ns" for k
    using Cons.prems(4) [of "Suc k"] that by (cases "k \<le> j - 1"; cases j) auto
  show ?case
  proof (cases "1 \<le> j")
    case True
    with first have d: "directory_at os w ?dir" by simp
    from status_at(1) [OF nul d] obtain s where
      s: "status_ec os ?dir (Cleared, w) = (Value s, Cleared, w)" "exists_status s" "is_directory s" by blast
    have "create_each os (path_of True ds) (n # ns) (ec, w) = create_each os ?dir ns (ec, w)"
      using s by (simp add: app Let_def and_then_def local_ec_def)
    moreover from Cons.IH [OF Cons.prems(1) en' d next_] obtain w' where
      "create_each os ?dir ns (ec, w) = (Value True, ec, w')" "valid w'"
      "\<forall>k \<le> length ns. directory_at os w' (path_of True ((ds @ [n]) @ take k ns))"
      "\<forall>q. directory_at os w q \<longrightarrow> directory_at os w' q" by blast
    ultimately show ?thesis using Cons.prems(3) by (auto simp: take_Cons' dest: spec [of _ "_ - 1"])
  next
    case False
    then have j: "j = 0" by simp
    with first have a: "absent_at os w ?dir" by simp
    from makes_directoriesD [OF assms Cons.prems(1) en Cons.prems(3) a] obtain w1 where
      w1: "sc_mkdir os ?dir perms_all w = (None, w1)" "valid w1" "directory_at os w1 ?dir"
        "\<And>q. directory_at os w q \<Longrightarrow> directory_at os w1 q"
        "\<And>ms. ms \<noteq> [] \<Longrightarrow> \<forall>m \<in> set ms. entry_name m \<Longrightarrow> absent_at os w1 (path_of True (ds @ n # ms))"
      by blast
    from status_at(2) [OF nul a] obtain s where
      s: "status_ec os ?dir (Cleared, w) = (Value s, System ENOENT, w)" "\<not> exists_status s" by blast
    have p: "parent_path ?dir = path_of True ds" by (rule rooted_snoc(2) [OF en])
    have nulp: "CHR 0x00 \<notin> set (parent_path ?dir)" unfolding p by (rule rooted_no_nul) (use en in simp)
    have "?dir \<noteq> []" by (simp add: path_of_def)
    from create_directory_makes [OF nul nulp this _ a w1(1)] Cons.prems(3)
    have cd: "create_directory_ec os ?dir (ec, w) = (Value True, ec, w1)" for ec by (simp add: p)
    have "create_each os (path_of True ds) (n # ns) (ec, w) = create_each os ?dir ns (ec, w1)"
      using s cd by (simp add: app Let_def and_then_def local_ec_def)
    moreover have "if k \<le> 0 then directory_at os w1 (path_of True ((ds @ [n]) @ take k ns))
      else absent_at os w1 (path_of True ((ds @ [n]) @ take k ns))" if "0 < k" "k \<le> length ns" for k
    proof -
      have "\<forall>m \<in> set (take k ns). entry_name m" using en' in_set_takeD by fastforce
      moreover have "take k ns \<noteq> []" using that by (cases ns) auto
      ultimately show ?thesis using w1(5) [of "take k ns"] that by auto
    qed
    from Cons.IH [OF w1(2) en' w1(3) this] obtain w' where
      "create_each os ?dir ns (ec, w1) = (Value True, ec, w')" "valid w'"
      "\<forall>k \<le> length ns. directory_at os w' (path_of True ((ds @ [n]) @ take k ns))"
      "\<forall>q. directory_at os w1 q \<longrightarrow> directory_at os w' q" by blast
    ultimately show ?thesis using Cons.prems(3) w1(4) by (auto simp: take_Cons' dest: spec [of _ "_ - 1"])
  qed
qed

lemma create_directories_absolute:
  assumes "makes_directories os valid" "valid w" "\<forall>n \<in> set (ds @ ns). entry_name n"
    and "\<And>k. k \<le> length ds \<Longrightarrow> directory_at os w (path_of True (take k ds))"
    and "\<And>k. 0 < k \<Longrightarrow> k \<le> length ns \<Longrightarrow> absent_at os w (path_of True (ds @ take k ns))"
  shows "\<exists>w'. create_directories_ec os (path_of True (ds @ ns)) (ec, w) = (Value True, ec, w')
    \<and> (\<forall>k \<le> length (ds @ ns). directory_at os w' (path_of True (take k (ds @ ns))))"
proof -
  let ?all = "ds @ ns"
  have root: "directory_at os w (path_of True [])" using assms(4) [of 0] by simp
  have before: "if k \<le> length ds then directory_at os w (path_of True ([] @ take k ?all))
      else absent_at os w (path_of True ([] @ take k ?all))" if "0 < k" "k \<le> length ?all" for k
  proof (cases "k \<le> length ds")
    case True
    then show ?thesis using assms(4) [of k] by simp
  next
    case False
    then show ?thesis using assms(5) [of "k - length ds"] that by simp
  qed
  have names: "\<forall>n \<in> set ([] @ ?all). entry_name n" using assms(3) by simp
  from create_each_makes [OF assms(1,2) names root before, of ec] obtain w' where
    w': "create_each os (path_of True []) ?all (ec, w) = (Value True, ec, w')"
      "\<forall>k \<le> length ?all. directory_at os w' (path_of True ([] @ take k ?all))" by blast
  have els: "path_elements (path_of True ?all) = ''/'' # ?all"
    using path_elements_names [of ?all True] assms(3) by (simp add: entry_name_def)
  have sl: "path_append [] ''/'' = path_of True []" by (simp add: path_append_def path_of_def)
  have "CHR 0x00 \<notin> set (path_of True [])" by (simp add: path_of_def)
  from status_at(1) [OF this root] obtain s where
    s: "status_ec os (path_of True []) (Cleared, w) = (Value s, Cleared, w)" "exists_status s" "is_directory s"
    by blast
  have "create_each os [] (''/'' # ?all) (ec, w) = create_each os (path_of True []) ?all (ec, w)"
    using s by (simp add: sl Let_def and_then_def local_ec_def)
  moreover have "path_of True ?all \<noteq> []" by (simp add: path_of_def)
  ultimately have "create_directories_ec os (path_of True ?all) (ec, w) = (Value True, ec, w')"
    using w'(1) by (simp add: create_directories_ec_def noexcept_def els)
  with w'(2) show ?thesis by simp
qed

text \<open>A relative path whose first name is missing: its parent path is empty, and no directory.\<close>

lemma create_directory_relative:
  assumes "plain_name n" "sc_stat os [] w = Inl ENOENT"
  shows "create_directory_ec os n (ec, w) = (Value False, Generic not_a_directory, w)"
  using assms create_directory_no_parent [of n os w ENOENT ec] plain_name_hd [of n]
  by (simp add: parent_path_single type_of_errno_def)

lemma create_directories_relative:
  assumes "\<forall>m \<in> set (n # ns). entry_name m" "absent_at os w n" "sc_stat os [] w = Inl ENOENT"
  shows "create_directories_ec os (path_of False (n # ns)) (ec, w) =
    (Value False, Generic not_a_directory, w)"
proof -
  have n: "plain_name n" using assms(1) by (simp add: entry_name_def)
  have els: "path_elements (path_of False (n # ns)) = n # ns"
    by (subst path_elements_names) (use assms(1) in \<open>auto simp: entry_name_def\<close>)
  have "CHR 0x00 \<notin> set n" using n by (simp add: plain_name_def)
  from status_at(2) [OF this assms(2)] obtain s where
    s: "status_ec os n (Cleared, w) = (Value s, System ENOENT, w)" "\<not> exists_status s" by blast
  have "path_of False (n # ns) \<noteq> []" using n by (simp add: path_of_def join_slashed plain_name_def)
  moreover have "path_append [] n = n" by (simp add: path_append_def)
  ultimately show ?thesis using s create_directory_relative [OF n assms(3)]
    by (simp add: create_directories_ec_def noexcept_def els Let_def and_then_def local_ec_def ret_def)
qed

text \<open>\<open>exists\<close> without an error code, and \<open>permissions\<close>.\<close>

lemma exists_ec_run:
  "exists_ec os p (ec, w) =
     (let r = sc_stat os (c_str p) w;
          s = (case r of Inl n \<Rightarrow> type_of_errno n | Inr st \<Rightarrow> file_type_of_mode (st_mode st))
      in (Value (s \<noteq> FT_none \<and> s \<noteq> FT_not_found),
          (case r of Inl n \<Rightarrow> if s = FT_none then System n else Cleared | Inr st \<Rightarrow> Cleared), w))"
  by (cases "sc_stat os (c_str p) w")
    (simp_all add: exists_ec_def and_then_def status_ec_run status_of_call_run get_ec_def set_ec_def
      ret_def exists_status_def status_known_def setStatus_def Let_def)

lemma exists_path_run:
  "exists_path os p (ec, w) =
     (case fst (exists_ec os p (Cleared, w)) of
        Value True \<Rightarrow> (Value True, ec, w)
      | _ \<Rightarrow> (Abrupt (Throw \<lparr>fe_what = if fst (snd (exists_ec os p (Cleared, w))) = Cleared
                                       then ''Cannot validate path'' else ''Path does not exist'',
                             fe_path1 = p, fe_path2 = [],
                             fe_code = fst (snd (exists_ec os p (Cleared, w)))\<rparr>), ec, w))"
  by (auto simp: exists_path_def and_then_def local_ec_def exists_ec_run Let_def throw_error_def ends_def
      ret_def split: sum.splits)

lemma and_then_elim:
  assumes "and_then m f s = (r, s')"
  obtains a where "m s = (Abrupt a, s')" "r = Abrupt a"
  | x t where "m s = (Value x, t)" "f x t = (r, s')"
  using assms by (auto simp: and_then_def split: prod.splits outcome.splits)

lemma permissions_needs_both:
  assumes "prms AND add_perms = 0 \<or> prms AND remove_perms = 0"
  shows "permissions_ec os p prms s = (Value (), s)"
  using assms by (auto simp: permissions_ec_def ret_def)

lemma call_or_assign_effect: "snd (snd (call_or_assign f (ec, w))) = snd (f w)"
  by (auto simp: call_or_assign_def and_then_def calls_def ret_def set_ec_def split: option.splits prod.splits)

lemma read_symlink_effect: "snd (snd (read_symlink_ec os p (ec, w))) = w"
  by (auto simp: read_symlink_ec_def and_then_def looks_def set_ec_def ret_def Let_def
      split: sum.splits)

lemma status_path_effect:
  "snd (snd (status_path os p (ec, w))) = w" "snd (snd (symlink_status_path os p (ec, w))) = w"
  by (auto simp: status_path_def symlink_status_path_def and_then_def local_ec_def status_ec_run
      throw_error_def ends_def ret_def status_of_call_def set_ec_def split: sum.splits)

definition reported_perms :: "errno + stat \<Rightarrow> perms" where
  "reported_perms r = (case r of Inl n \<Rightarrow> perms_unknown | Inr st \<Rightarrow> st_mode st AND perms_mask)"

lemma status_path_perms:
  "status_path os p (ec, w) = (Value x, t) \<Longrightarrow> fs_perms x = reported_perms (sc_stat os (c_str p) w)"
  "symlink_status_path os p (ec, w) = (Value x, t) \<Longrightarrow> fs_perms x = reported_perms (sc_lstat os (c_str p) w)"
  by (auto simp: status_path_def symlink_status_path_def and_then_def local_ec_def status_ec_run
      status_of_call_run reported_perms_def setStatus_def throw_error_def ends_def ret_def
      split: sum.splits if_splits)

lemma permissions_adds:
  assumes "permissions_ec os p prms (ec, w) = (r, ec', w')"
  shows "w' = w \<or> (prms AND add_perms \<noteq> 0 \<and> prms AND remove_perms \<noteq> 0 \<and>
    (\<exists>f. w' = snd (sc_chmod os f (reported_perms
       ((if prms AND symlink_nofollow \<noteq> 0 then sc_lstat os (c_str p) w else sc_stat os (c_str p) w))
       OR (prms AND perms_mask)) w)))"
proof (cases "prms AND add_perms \<noteq> 0 \<and> prms AND remove_perms \<noteq> 0")
  case False
  then show ?thesis using assms permissions_needs_both [of prms os p "(ec, w)"] by auto
next
  case True
  define link where "link = (if prms AND symlink_nofollow \<noteq> 0 then read_symlink_ec os p else ret p)"
  define st where "st = (if prms AND symlink_nofollow \<noteq> 0 then symlink_status_path os p else status_path os p)"
  have link: "snd (snd (link t)) = snd t" for t
    by (cases t) (simp add: link_def read_symlink_effect ret_def)
  have st: "snd (snd (st t)) = snd t" for t
    by (cases t) (simp add: st_def status_path_effect)
  define chmod where "chmod f s = call_or_assign (sc_chmod os (c_str f) (new_perms prms (fs_perms s)))" for f and s :: file_status
  have chmod: "snd (snd (chmod f s t)) = snd (sc_chmod os (c_str f) (new_perms prms (fs_perms s)) (snd t))" for f s t
    by (cases t) (simp add: chmod_def call_or_assign_effect)
  have "permissions_ec os p prms (ec, w) = and_then link (\<lambda>f. and_then get_ec (\<lambda>e.
      if prms AND symlink_nofollow \<noteq> 0 \<and> e \<noteq> Cleared then ret ()
      else and_then st (\<lambda>s. and_then (chmod f s) (\<lambda>_. ret ())))) (ec, w)"
    unfolding permissions_ec_def Let_def link_def st_def chmod_def using True
    by (cases "prms AND symlink_nofollow = 0") simp_all
  then have run: "(r, ec', w') = and_then link (\<lambda>f. and_then get_ec (\<lambda>e.
      if prms AND symlink_nofollow \<noteq> 0 \<and> e \<noteq> Cleared then ret ()
      else and_then st (\<lambda>s. and_then (chmod f s) (\<lambda>_. ret ())))) (ec, w)"
    using assms by simp
  define r' where "r' = (if prms AND symlink_nofollow \<noteq> 0 then sc_lstat os (c_str p) w else sc_stat os (c_str p) w)"
  obtain lo e where lo: "link (ec, w) = (lo, e, w)" using link [of "(ec, w)"] by (metis prod.collapse snd_conv)
  obtain so e' where so: "st (e, w) = (so, e', w)" using st [of "(e, w)"] by (metis prod.collapse snd_conv)
  have "w' = w \<or> (\<exists>f. w' = snd (sc_chmod os (c_str f) (new_perms prms (reported_perms r')) w))"
  proof (cases lo)
    case (Abrupt a)
    with run lo show ?thesis by (simp add: and_then_def)
  next
    case f: (Value f)
    show ?thesis
    proof (cases so)
      case (Abrupt a)
      with run lo so f show ?thesis by (simp add: and_then_def get_ec_def ret_def split: if_splits)
    next
      case (Value x)
      then have "w' = w \<or> w' = snd (snd (chmod f x (e', w)))"
        using run lo so f
        by (auto simp: and_then_def get_ec_def ret_def split: if_splits prod.splits outcome.splits)
      moreover have "fs_perms x = reported_perms r'"
        using so Value status_path_perms [of os p e w x] by (auto simp: st_def r'_def split: if_splits)
      ultimately show ?thesis using chmod [of f x "(e', w)"] by auto
    qed
  qed
  then show ?thesis using True unfolding r'_def by (auto simp: new_perms_def)
qed

end
