(* ===== verification/Directory_Iterator.thy ===== *)
theory Directory_Iterator
  imports File_Operations
begin

text \<open>
  src/acatl/detail/posix/filesystem.cpp: \<open>directory_iterator\<close>, \<open>recursive_directory_iterator\<close> and
  the functions of src/acatl/filesystem.cpp that are built on them: \<open>is_empty\<close>, \<open>remove_all\<close> and
  \<open>TemporaryDirectoryGuard\<close>. The system may go on giving entries or errors for ever; the fuel
  bounds the number of calls of \<open>readdir\<close> in one loop and the depth of \<open>remove_all\<close>. An iterator
  is the value of its \<open>impl\<close>: copies of an iterator share it, but the modelled functions have one
  owner for each.
\<close>

unbundle bit_operations_syntax

section \<open>directory_iterator\<close>

type_synonym directory_options = "8 word"

definition follow_directory_symlink :: directory_options where "follow_directory_symlink = 1"
definition skip_permission_denied :: directory_options where "skip_permission_denied = 2"

record dir_impl =
  di_path :: path
  di_dir :: "dir_stream option"
  di_options :: directory_options
  di_entry :: path

definition dir_impl_new :: dir_impl where
  "dir_impl_new = \<lparr>di_path = [], di_dir = None, di_options = 0, di_entry = []\<rparr>"

definition isEnd :: "dir_impl \<Rightarrow> bool" where
  "isEnd it \<longleftrightarrow> di_dir it = None"

definition dir_impl_eq :: "dir_impl \<Rightarrow> dir_impl \<Rightarrow> bool" where
  "dir_impl_eq a b \<longleftrightarrow> di_dir a = di_dir b"

definition dir_close :: "'w os \<Rightarrow> dir_impl \<Rightarrow> ('w, dir_impl) action" where
  "dir_close os it =
     (case di_dir it of
        None \<Rightarrow> ret it
      | Some d \<Rightarrow>
          and_then (calls (\<lambda>w. ((), sc_closedir os d w))) (\<lambda>_. ret (it\<lparr>di_dir := None\<rparr>)))"

definition dir_destroy :: "'w os \<Rightarrow> dir_impl \<Rightarrow> ('w, unit) action" where
  "dir_destroy os it = and_then (dir_close os it) (\<lambda>_. ret ())"

text \<open>On an error the stream stays open and the entry is the one before.\<close>

definition internalReaddir :: "'w os \<Rightarrow> dir_impl \<Rightarrow> ('w, bool \<times> dir_impl) action" where
  "internalReaddir os it =
     (case di_dir it of
        None \<Rightarrow> ends Undefined
      | Some d \<Rightarrow>
          and_then (calls (sc_readdir os d)) (\<lambda>res. case res of
            Inl n \<Rightarrow> and_then (set_ec (System n)) (\<lambda>_. ret (True, it))
          | Inr None \<Rightarrow>
              and_then (set_ec Cleared) (\<lambda>_.
              and_then (dir_close os it) (\<lambda>it. ret (True, it)))
          | Inr (Some d_name) \<Rightarrow>
              if d_name = ''.'' \<or> d_name = ''..'' then ret (False, it)
              else ret (True, it\<lparr>di_entry := path_append (di_path it) d_name\<rparr>)))"

fun readdir :: "nat \<Rightarrow> 'w os \<Rightarrow> dir_impl \<Rightarrow> ('w, dir_impl) action" where
  "readdir 0 os it = ends Unfinished"
| "readdir (Suc fuel) os it =
     and_then (internalReaddir os it) (\<lambda>(done, it).
       if \<not> done then readdir fuel os it else ret it)"

definition dir_open :: "nat \<Rightarrow> 'w os \<Rightarrow> path \<Rightarrow> dir_impl \<Rightarrow> ('w, dir_impl) action" where
  "dir_open fuel os p it =
     and_then (calls (sc_opendir os (c_str p))) (\<lambda>r. case r of
       Inl n \<Rightarrow> and_then (set_ec (System n)) (\<lambda>_. ret (it\<lparr>di_dir := None\<rparr>))
     | Inr d \<Rightarrow> readdir fuel os (it\<lparr>di_dir := Some d\<rparr>))"

text \<open>The constructors with an error code, and those that throw.\<close>

definition dir_iter_ec :: "nat \<Rightarrow> 'w os \<Rightarrow> path \<Rightarrow> directory_options \<Rightarrow> ('w, dir_impl) action" where
  "dir_iter_ec fuel os p options =
     dir_open fuel os p (dir_impl_new\<lparr>di_path := p, di_options := options\<rparr>)"

definition dir_iter :: "nat \<Rightarrow> 'w os \<Rightarrow> path \<Rightarrow> ('w, dir_impl) action" where
  "dir_iter fuel os p =
     throwing ''Cannot open path'' p [] (dir_open fuel os p (dir_impl_new\<lparr>di_path := p\<rparr>))"

definition dir_iter_options :: "nat \<Rightarrow> 'w os \<Rightarrow> path \<Rightarrow> directory_options \<Rightarrow> ('w, dir_impl) action" where
  "dir_iter_options fuel os p options =
     and_then (local_ec (dir_open fuel os p (dir_impl_new\<lparr>di_path := p, di_options := options\<rparr>)))
       (\<lambda>(it, ec).
         if ec \<noteq> Cleared then
           (if options AND skip_permission_denied \<noteq> 0 \<and> is_permission_denied ec
            then dir_close os it
            else throw_error ''Cannot open path'' p [] ec)
         else ret it)"

text \<open>\<open>operator++\<close> drops the error, \<open>increment\<close> passes it on.\<close>

definition dir_increment :: "nat \<Rightarrow> 'w os \<Rightarrow> dir_impl \<Rightarrow> ('w, dir_impl) action" where
  "dir_increment fuel os it = and_then (local_ec (readdir fuel os it)) (\<lambda>(it, ec). ret it)"

definition dir_increment_ec :: "nat \<Rightarrow> 'w os \<Rightarrow> dir_impl \<Rightarrow> ('w, dir_impl) action" where
  "dir_increment_ec fuel os it = readdir fuel os it"


section \<open>is_empty and remove_all\<close>

definition is_empty_ec :: "nat \<Rightarrow> 'w os \<Rightarrow> path \<Rightarrow> ('w, bool) action" where
  "is_empty_ec fuel os p = noexcept (
     and_then (status_ec os p) (\<lambda>s.
     and_then get_ec (\<lambda>ec.
     if ec \<noteq> Cleared then ret False
     else if is_directory s then
       and_then (dir_iter_ec fuel os p 0) (\<lambda>itr.
       finally_do
         (and_then get_ec (\<lambda>ec.
            if ec \<noteq> Cleared then ret False else ret (dir_impl_eq itr dir_impl_new)))
         (dir_destroy os itr))
     else
       and_then (file_size_ec os p) (\<lambda>sz.
       and_then get_ec (\<lambda>ec.
       if ec \<noteq> Cleared then ret False else ret (sz = 0))))))"

definition is_empty_path :: "nat \<Rightarrow> 'w os \<Rightarrow> path \<Rightarrow> ('w, bool) action" where
  "is_empty_path fuel os p =
     throwing ''Cannot determine status of path'' p [] (is_empty_ec fuel os p)"

fun remove_all_ec :: "nat \<Rightarrow> 'w os \<Rightarrow> path \<Rightarrow> ('w, uintmax) action"
  and remove_entries :: "nat \<Rightarrow> 'w os \<Rightarrow> dir_impl \<Rightarrow> uintmax \<Rightarrow> ('w, uintmax \<times> dir_impl) action" where
  "remove_all_ec 0 os p = ends Unfinished"
| "remove_all_ec (Suc fuel) os p =
     and_then (symlink_status_ec os p) (\<lambda>s.
     if exists_status s then
       and_then (is_directory_path os p) (\<lambda>d.
       if d then
         and_then (dir_iter fuel os p) (\<lambda>iter.
         and_then (remove_entries fuel os iter 0) (\<lambda>(removed, iter).
         finally_do
           (and_then (remove_ec os p) (\<lambda>ok. ret (if \<not> ok then - 1 else removed + 1)))
           (dir_destroy os iter)))
       else and_then (remove_ec os p) (\<lambda>ok. ret (if ok then 1 else 0)))
     else ret 0)"
| "remove_entries 0 os iter removed = ends Unfinished"
| "remove_entries (Suc fuel) os iter removed =
     (if dir_impl_eq iter dir_impl_new then ret (removed, iter)
      else
        and_then (on_throw (remove_all_ec fuel os (di_entry iter)) (dir_destroy os iter)) (\<lambda>n.
        and_then get_ec (\<lambda>ec.
        if ec \<noteq> Cleared then ret (- 1, iter)
        else
          and_then (dir_increment fuel os iter) (\<lambda>iter.
          remove_entries fuel os iter (removed + n)))))"

definition remove_all :: "nat \<Rightarrow> 'w os \<Rightarrow> path \<Rightarrow> ('w, uintmax) action" where
  "remove_all fuel os p = throwing ''Cannot remove path'' p [] (remove_all_ec fuel os p)"


section \<open>TemporaryDirectoryGuard\<close>

definition TemporaryDirectoryGuard_new :: "'w os \<Rightarrow> ('w, path) action" where
  "TemporaryDirectoryGuard_new os = unique_temp_directory_path os"

text \<open>A destructor does not throw.\<close>

definition TemporaryDirectoryGuard_destroy :: "nat \<Rightarrow> 'w os \<Rightarrow> path \<Rightarrow> ('w, unit) action" where
  "TemporaryDirectoryGuard_destroy fuel os p = noexcept (
     and_then (local_ec (
       and_then (current_path os) (\<lambda>cwd.
       and_then (equivalent_ec os cwd p) (\<lambda>inside.
       and_then (if inside then set_current_path os ''..'' else ret ()) (\<lambda>_.
       and_then get_ec (\<lambda>ec.
       if ec = Cleared then and_then (remove_all_ec fuel os p) (\<lambda>_. ret ()) else ret ()))))))
     (\<lambda>_. ret ()))"


section \<open>recursive_directory_iterator\<close>

text \<open>The stack of iterators, its top first.\<close>

record rec_impl =
  ri_stack :: "dir_impl list"
  ri_options :: directory_options
  ri_recursionPending :: bool

definition rec_impl_new :: rec_impl where
  "rec_impl_new = \<lparr>ri_stack = [], ri_options = 0, ri_recursionPending = True\<rparr>"

definition rec_open ::
    "nat \<Rightarrow> 'w os \<Rightarrow> path \<Rightarrow> directory_options \<Rightarrow> rec_impl \<Rightarrow> ('w, rec_impl) action" where
  "rec_open fuel os p options r =
     and_then (dir_iter_ec fuel os p options) (\<lambda>iter.
     and_then get_ec (\<lambda>ec.
     if ec = Cleared
     then ret (if dir_impl_eq iter dir_impl_new then r else r\<lparr>ri_stack := iter # ri_stack r\<rparr>)
     else and_then (dir_destroy os iter) (\<lambda>_. ret r)))"

definition rec_iter_ec ::
    "nat \<Rightarrow> 'w os \<Rightarrow> path \<Rightarrow> directory_options \<Rightarrow> ('w, rec_impl) action" where
  "rec_iter_ec fuel os p options = rec_open fuel os p options (rec_impl_new\<lparr>ri_options := options\<rparr>)"

text \<open>The constructors without an error code drop it and do not throw.\<close>

definition rec_iter :: "nat \<Rightarrow> 'w os \<Rightarrow> path \<Rightarrow> directory_options \<Rightarrow> ('w, rec_impl) action" where
  "rec_iter fuel os p options =
     and_then (local_ec (rec_iter_ec fuel os p options)) (\<lambda>(r, ec). ret r)"

function findNextEntry :: "nat \<Rightarrow> 'w os \<Rightarrow> dir_impl list \<Rightarrow> ('w, dir_impl list) action" where
  "findNextEntry fuel os [] = ends Undefined"
| "findNextEntry fuel os (it # its) =
     (if dir_impl_eq it dir_impl_new then
        (case its of
           [] \<Rightarrow> ret []
         | upper # rest \<Rightarrow>
             and_then (if \<not> dir_impl_eq upper dir_impl_new then dir_increment fuel os upper else ret upper)
               (\<lambda>upper. findNextEntry fuel os (upper # rest)))
      else ret (it # its))"
  by pat_completeness auto
termination by (relation "measure (\<lambda>(fuel, os, its). length its)") auto

definition wants_recursion :: "'w os \<Rightarrow> dir_impl \<Rightarrow> rec_impl \<Rightarrow> ('w, bool) action" where
  "wants_recursion os upper r =
     (if \<not> ri_recursionPending r then ret False
      else
        and_then (local_ec (status_ec os (di_entry upper))) (\<lambda>(s, ec).
        if \<not> is_directory s then ret False
        else
          and_then (local_ec (symlink_status_ec os (di_entry upper))) (\<lambda>(s, ec).
          ret (\<not> is_symlink s \<or> ri_options r AND follow_directory_symlink \<noteq> 0))))"

definition rec_increment_ec :: "nat \<Rightarrow> 'w os \<Rightarrow> rec_impl \<Rightarrow> ('w, rec_impl) action" where
  "rec_increment_ec fuel os r =
     (case ri_stack r of
        [] \<Rightarrow> ret r
      | upper # rest \<Rightarrow>
          and_then (wants_recursion os upper r) (\<lambda>down.
          if down then
            and_then (dir_iter_ec fuel os (di_entry upper) 0) (\<lambda>iter.
            and_then get_ec (\<lambda>ec.
            if ec = Cleared then
              and_then (findNextEntry fuel os (iter # upper # rest)) (\<lambda>its. ret (r\<lparr>ri_stack := its\<rparr>))
            else and_then (dir_destroy os iter) (\<lambda>_. ret r)))
          else
            and_then (dir_increment fuel os upper) (\<lambda>upper.
            and_then (findNextEntry fuel os (upper # rest)) (\<lambda>its. ret (r\<lparr>ri_stack := its\<rparr>)))))"

definition rec_increment :: "nat \<Rightarrow> 'w os \<Rightarrow> rec_impl \<Rightarrow> ('w, rec_impl) action" where
  "rec_increment fuel os r =
     throwing ''Cannot increment iterator'' [] [] (rec_increment_ec fuel os r)"

definition rec_depth :: "rec_impl \<Rightarrow> nat" where
  "rec_depth r = length (ri_stack r)"

definition rec_deref :: "rec_impl \<Rightarrow> ('w, path) action" where
  "rec_deref r =
     (case ri_stack r of
        [] \<Rightarrow> throw_error ''Trying to dereference an end recursive directory iterator'' [] []
               (Generic no_such_file_or_directory)
      | upper # rest \<Rightarrow> ret (di_entry upper))"

definition rec_pop :: "'w os \<Rightarrow> rec_impl \<Rightarrow> ('w, rec_impl) action" where
  "rec_pop os r =
     (case ri_stack r of
        [] \<Rightarrow> ret rec_impl_new
      | upper # rest \<Rightarrow> and_then (dir_destroy os upper) (\<lambda>_. ret (r\<lparr>ri_stack := rest\<rparr>)))"

definition disable_recursion_pending :: "rec_impl \<Rightarrow> rec_impl" where
  "disable_recursion_pending r = r\<lparr>ri_recursionPending := False\<rparr>"


section \<open>A directory that may not be opened\<close>

lemma rec_increment_stalls:
  assumes "ri_stack r = upper # rest" "ri_recursionPending r"
    and "directory_at os w (c_str (di_entry upper))"
    and "sc_lstat os (c_str (di_entry upper)) w = Inr ls" "file_type_of_mode (st_mode ls) \<noteq> FT_symlink"
    and "sc_opendir os (c_str (di_entry upper)) w = (Inl n, w)"
  shows "rec_increment_ec fuel os r (ec, w) = (Value r, System n, w)"
proof -
  obtain st where st: "sc_stat os (c_str (di_entry upper)) w = Inr st" "file_type_of_mode (st_mode st) = FT_directory"
    using assms(3) by (auto simp: directory_at_def split: sum.splits)
  have "wants_recursion os upper r (ec, w) = (Value True, ec, w)"
    using assms(2,4,5) st
    by (simp add: wants_recursion_def and_then_def local_ec_def status_ec_run status_of_call_run
        is_directory_def is_symlink_def setStatus_def ret_def)
  moreover have "dir_iter_ec fuel os (di_entry upper) 0 (ec, w) =
      (Value (dir_impl_new\<lparr>di_path := di_entry upper, di_options := 0, di_dir := None\<rparr>), System n, w)"
    using assms(6) by (simp add: dir_iter_ec_def dir_open_def and_then_def calls_def set_ec_def ret_def)
  ultimately show ?thesis using assms(1)
    by (simp add: rec_increment_ec_def and_then_def get_ec_def dir_destroy_def dir_close_def ret_def)
qed

end
