(* ===== verification/File_Removal.thy ===== *)
theory File_Removal
  imports Directory_Iterator "HOL-Library.AList"
begin

text \<open>
  What \<open>remove_all\<close> does to a tree of files. The system is described by what it shows of the
  files below a base path: a tree, and for every open directory stream the names it has yet to
  give.
\<close>

section \<open>Trees of files\<close>

text \<open>
  A leaf is anything that \<open>stat\<close> does not report as a directory. The flag of a directory says that
  its name is a symbolic link to it.
\<close>

datatype ftree = Leaf | Node bool "(string \<times> ftree) list"

primrec files_in :: "ftree \<Rightarrow> nat" where
  "files_in Leaf = 1"
| "files_in (Node l cs) = 1 + sum_list (map snd (map (map_prod (\<lambda>n. n) files_in) cs))"

text \<open>Enough fuel for the recursion and the loops.\<close>

primrec removal_cost :: "ftree \<Rightarrow> nat" where
  "removal_cost Leaf = 1"
| "removal_cost (Node l cs) = 5 + length cs + sum_list (map snd (map (map_prod (\<lambda>n. n) removal_cost) cs))"

fun subtree :: "ftree \<Rightarrow> string list \<Rightarrow> ftree option" where
  "subtree t [] = Some t"
| "subtree Leaf (n # ns) = None"
| "subtree (Node l cs) (n # ns) = (case map_of cs n of None \<Rightarrow> None | Some t \<Rightarrow> subtree t ns)"

fun without :: "ftree \<Rightarrow> string list \<Rightarrow> ftree option" where
  "without t [] = None"
| "without Leaf (n # ns) = Some Leaf"
| "without (Node l cs) (n # ns) =
     Some (Node l (case map_of cs n of
       None \<Rightarrow> cs
     | Some t \<Rightarrow> (case without t ns of
         None \<Rightarrow> AList.delete n cs
       | Some t' \<Rightarrow> AList.update n t' cs)))"

primrec names_ok :: "ftree \<Rightarrow> bool" where
  "names_ok Leaf = True"
| "names_ok (Node l cs) =
     (distinct (map fst cs) \<and> list_all entry_name (map fst cs)
      \<and> list_all snd (map (map_prod (\<lambda>n. n) names_ok) cs))"

lemma node_sums:
  "files_in (Node l cs) = 1 + sum_list (map (files_in \<circ> snd) cs)"
  "removal_cost (Node l cs) = 5 + length cs + sum_list (map (removal_cost \<circ> snd) cs)"
  by (simp_all add: comp_def)

declare files_in.simps(2) [simp del] removal_cost.simps(2) [simp del]

lemma names_ok_Node:
  "names_ok (Node l cs) \<longleftrightarrow> distinct (map fst cs) \<and> (\<forall>(n, t) \<in> set cs. entry_name n \<and> names_ok t)"
  by (auto simp: list_all_iff)

declare names_ok.simps(2) [simp del]

lemma sum_delete:
  fixes f :: "ftree \<Rightarrow> nat"
  assumes "distinct (map fst cs)" "map_of cs n = Some t"
  shows "sum_list (map (f \<circ> snd) cs) = f t + sum_list (map (f \<circ> snd) (AList.delete n cs))"
    "length cs = Suc (length (AList.delete n cs))"
proof -
  have "sum_list (map (f \<circ> snd) cs) = f t + sum_list (map (f \<circ> snd) (AList.delete n cs)) \<and>
      length cs = Suc (length (AList.delete n cs))"
    using assms
  proof (induction cs)
    case (Cons c cs)
    show ?case
    proof (cases "fst c = n")
      case True
      then have "AList.delete n cs = cs" using Cons.prems(1) by (intro AList.delete_id) (simp add: True [symmetric])
      with True Cons.prems(2) show ?thesis by (cases c) auto
    next
      case False
      with Cons show ?thesis by (cases c) auto
    qed
  qed simp
  then show "sum_list (map (f \<circ> snd) cs) = f t + sum_list (map (f \<circ> snd) (AList.delete n cs))"
    "length cs = Suc (length (AList.delete n cs))" by simp_all
qed

text \<open>Cutting an entry out of a directory, and the directory afterwards.\<close>

lemma without_entry:
  assumes "subtree T ns = Some (Node l cs)" "map_of cs n = Some t"
  shows "\<exists>T'. without T (ns @ [n]) = Some T' \<and> subtree T' ns = Some (Node l (AList.delete n cs)) \<and> without T' ns = without T ns"
  using assms
proof (induction T ns rule: subtree.induct)
  case (1 t)
  then show ?case by simp
next
  case (3 l' cs' m ns)
  then obtain u where u: "map_of cs' m = Some u" "subtree u ns = Some (Node l cs)"
    by (auto split: option.splits)
  from 3(1) [OF this(1) this(2) 3(3)] obtain T' where
    T': "without u (ns @ [n]) = Some T'" "subtree T' ns = Some (Node l (AList.delete n cs))" "without T' ns = without u ns"
    by blast
  have "AList.delete m (AList.update m T' cs') = AList.delete m cs'" by (simp add: AList.delete_update_same)
  moreover have "AList.update m t (AList.update m T' cs') = AList.update m t cs'" for t by simp
  ultimately show ?case using u T' by (auto simp: update_conv' split: option.splits)
qed simp

lemma subtree_snoc:
  "subtree T ns = Some (Node l cs) \<Longrightarrow> subtree T (ns @ [n]) = map_of cs n"
  by (induction T ns rule: subtree.induct) (auto split: option.splits)

lemma names_ok_subtree:
  "names_ok T \<Longrightarrow> subtree T ns = Some t \<Longrightarrow> names_ok t \<and> (\<forall>n \<in> set ns. entry_name n)"
  by (induction T ns rule: subtree.induct)
    (auto simp: names_ok_Node split: option.splits dest!: map_of_SomeD)


section \<open>The system\<close>

text \<open>
  \<open>sees w T S\<close>: in state \<open>w\<close> the files below the base path are \<open>T\<close> (none if nothing is there), and
  the open directory streams have the names \<open>S\<close> to give. The laws are those of a file system that
  nobody else uses, in which no two names lead to the same directory, and where the process may
  do what it asks for.
\<close>

type_synonym streams = "dir_stream \<rightharpoonup> string list"

definition shows_kind :: "'w os \<Rightarrow> 'w \<Rightarrow> path \<Rightarrow> ftree \<Rightarrow> bool" where
  "shows_kind os w p t \<longleftrightarrow>
     (\<exists>ls. sc_lstat os p w = Inr ls) \<and>
     (case t of
        Leaf \<Rightarrow> \<not> directory_at os w p \<and> (\<forall>n. sc_stat os p w = Inl n \<longrightarrow> type_of_errno n \<noteq> FT_none)
      | Node l cs \<Rightarrow> directory_at os w p)"

definition plain_entries :: "string list \<Rightarrow> string list" where
  "plain_entries xs = filter (\<lambda>n. n \<noteq> ''.'' \<and> n \<noteq> ''..'') xs"

definition removable :: "ftree \<Rightarrow> bool" where
  "removable t \<longleftrightarrow> (case t of Leaf \<Rightarrow> True | Node l cs \<Rightarrow> cs = [])"

definition kind_law ::
    "'w os \<Rightarrow> path \<Rightarrow> ('w \<Rightarrow> ftree option \<Rightarrow> streams \<Rightarrow> bool) \<Rightarrow> bool" where
  "kind_law os base sees \<longleftrightarrow>
     (\<forall>w T S ns t. sees w (Some T) S \<and> subtree T ns = Some t \<longrightarrow>
        names_ok T \<and> shows_kind os w (base @ slashed ns) t)"

definition remove_law ::
    "'w os \<Rightarrow> path \<Rightarrow> ('w \<Rightarrow> ftree option \<Rightarrow> streams \<Rightarrow> bool) \<Rightarrow> bool" where
  "remove_law os base sees \<longleftrightarrow>
     (\<forall>w T S ns t. sees w (Some T) S \<and> subtree T ns = Some t \<and> removable t \<longrightarrow>
        (\<exists>w'. sc_remove os (base @ slashed ns) w = (None, w') \<and> sees w' (without T ns) S))"

definition opendir_law ::
    "'w os \<Rightarrow> path \<Rightarrow> ('w \<Rightarrow> ftree option \<Rightarrow> streams \<Rightarrow> bool) \<Rightarrow> bool" where
  "opendir_law os base sees \<longleftrightarrow>
     (\<forall>w T S ns l cs. sees w (Some T) S \<and> subtree T ns = Some (Node l cs) \<longrightarrow>
        (\<exists>d xs w'. sc_opendir os (base @ slashed ns) w = (Inr d, w') \<and> S d = None
          \<and> distinct xs \<and> set (plain_entries xs) = fst ` set cs \<and> sees w' (Some T) (S(d \<mapsto> xs))))"

definition readdir_law ::
    "'w os \<Rightarrow> ('w \<Rightarrow> ftree option \<Rightarrow> streams \<Rightarrow> bool) \<Rightarrow> bool" where
  "readdir_law os sees \<longleftrightarrow>
     (\<forall>w T S d n xs. sees w (Some T) S \<and> S d = Some (n # xs) \<longrightarrow>
        (\<exists>w'. sc_readdir os d w = (Inr (Some n), w') \<and> sees w' (Some T) (S(d \<mapsto> xs)))) \<and>
     (\<forall>w T S d. sees w (Some T) S \<and> S d = Some [] \<longrightarrow>
        (\<exists>w'. sc_readdir os d w = (Inr None, w') \<and> sees (sc_closedir os d w') (Some T) (S(d := None))))"

definition file_system_laws ::
    "'w os \<Rightarrow> path \<Rightarrow> ('w \<Rightarrow> ftree option \<Rightarrow> streams \<Rightarrow> bool) \<Rightarrow> bool" where
  "file_system_laws os base sees \<longleftrightarrow>
     kind_law os base sees \<and> remove_law os base sees \<and> opendir_law os base sees \<and> readdir_law os sees"

lemma law_kind:
  "file_system_laws os base sees \<Longrightarrow> sees w (Some T) S \<Longrightarrow> subtree T ns = Some t \<Longrightarrow>
   names_ok T \<and> shows_kind os w (base @ slashed ns) t"
  unfolding file_system_laws_def kind_law_def by blast

lemma law_remove:
  "file_system_laws os base sees \<Longrightarrow> sees w (Some T) S \<Longrightarrow> subtree T ns = Some t \<Longrightarrow> removable t \<Longrightarrow>
   \<exists>w'. sc_remove os (base @ slashed ns) w = (None, w') \<and> sees w' (without T ns) S"
  unfolding file_system_laws_def remove_law_def by blast

lemma law_opendir:
  "file_system_laws os base sees \<Longrightarrow> sees w (Some T) S \<Longrightarrow> subtree T ns = Some (Node l cs) \<Longrightarrow>
   \<exists>d xs w'. sc_opendir os (base @ slashed ns) w = (Inr d, w') \<and> S d = None
     \<and> distinct xs \<and> set (plain_entries xs) = fst ` set cs \<and> sees w' (Some T) (S(d \<mapsto> xs))"
  unfolding file_system_laws_def opendir_law_def by blast

lemma law_readdir:
  "file_system_laws os base sees \<Longrightarrow> sees w (Some T) S \<Longrightarrow> S d = Some (n # xs) \<Longrightarrow>
   \<exists>w'. sc_readdir os d w = (Inr (Some n), w') \<and> sees w' (Some T) (S(d \<mapsto> xs))"
  "file_system_laws os base sees \<Longrightarrow> sees w (Some T) S \<Longrightarrow> S d = Some [] \<Longrightarrow>
   \<exists>w'. sc_readdir os d w = (Inr None, w') \<and> sees (sc_closedir os d w') (Some T) (S(d := None))"
  unfolding file_system_laws_def readdir_law_def by blast+


section \<open>One call\<close>

text \<open>\<open>readdir\<close> skips the two special names and stops at the next entry or at the end.\<close>

definition at_entry :: "dir_impl \<Rightarrow> string list \<Rightarrow> dir_impl" where
  "at_entry it xs = (case xs of
     [] \<Rightarrow> it\<lparr>di_dir := None\<rparr>
   | n # xs \<Rightarrow> it\<lparr>di_entry := path_append (di_path it) n\<rparr>)"

definition left_in :: "string list option \<Rightarrow> string list \<Rightarrow> bool" where
  "left_in nx xs \<longleftrightarrow>
     (case plain_entries xs of
        [] \<Rightarrow> nx = None
      | n # es \<Rightarrow> (\<exists>ys. nx = Some ys \<and> plain_entries ys = es \<and> (distinct xs \<longrightarrow> distinct ys)))"

lemma readdir_run:
  assumes laws: "file_system_laws os base sees"
  shows "sees w (Some T) S \<Longrightarrow> S d = Some xs \<Longrightarrow> di_dir it = Some d \<Longrightarrow>
    length (filter (\<lambda>n. n = ''.'' \<or> n = ''..'') xs) < fuel \<Longrightarrow>
    \<exists>w' nx. readdir fuel os it (Cleared, w) = (Value (at_entry it (plain_entries xs)), Cleared, w')
      \<and> sees w' (Some T) (S(d := nx)) \<and> left_in nx xs"
proof (induction xs arbitrary: w S fuel)
  case Nil
  then obtain f where f: "fuel = Suc f" by (cases fuel) auto
  from law_readdir(2) [OF laws Nil(1,2)] obtain w' where
    "sc_readdir os d w = (Inr None, w')" "sees (sc_closedir os d w') (Some T) (S(d := None))" by blast
  moreover from this(1) f Nil(3) have "readdir fuel os it (Cleared, w) =
      (Value (at_entry it (plain_entries [])), Cleared, sc_closedir os d w')"
    by (simp add: internalReaddir_def dir_close_def action_defs plain_entries_def at_entry_def)
  moreover have "left_in None []" by (simp add: left_in_def plain_entries_def)
  ultimately show ?case by blast
next
  case (Cons x xs)
  then obtain f where f: "fuel = Suc f" by (cases fuel) auto
  from law_readdir(1) [OF laws Cons.prems(1,2)] obtain w1 where
    w1: "sc_readdir os d w = (Inr (Some x), w1)" "sees w1 (Some T) (S(d \<mapsto> xs))" by blast
  show ?case
  proof (cases "x = ''.'' \<or> x = ''..''")
    case True
    then have "readdir fuel os it (Cleared, w) = readdir f os it (Cleared, w1)"
      using w1(1) f Cons.prems(3) by (auto simp: internalReaddir_def action_defs)
    moreover have "plain_entries (x # xs) = plain_entries xs" using True by (auto simp: plain_entries_def)
    moreover have "length (filter (\<lambda>n. n = ''.'' \<or> n = ''..'') xs) < f" using True Cons.prems(4) f by auto
    from Cons.IH [OF w1(2) _ Cons.prems(3) this] obtain w' nx where
      "readdir f os it (Cleared, w1) = (Value (at_entry it (plain_entries xs)), Cleared, w')"
      "sees w' (Some T) (S(d := nx))" "left_in nx xs" unfolding fun_upd_upd fun_upd_same by blast
    moreover have "left_in nx (x # xs)" if "left_in nx xs" for nx
      using that True by (auto simp: left_in_def plain_entries_def split: list.splits)
    ultimately show ?thesis by metis
  next
    case False
    then have p: "plain_entries (x # xs) = x # plain_entries xs" by (simp add: plain_entries_def)
    have "readdir fuel os it (Cleared, w) = (Value (at_entry it (plain_entries (x # xs))), Cleared, w1)"
      using False w1(1) f Cons.prems(3) by (auto simp: internalReaddir_def action_defs p at_entry_def)
    moreover have "left_in (Some xs) (x # xs)" by (simp add: left_in_def p)
    ultimately show ?thesis using w1(2) by blast
  qed
qed

lemma few_dots: "distinct xs \<Longrightarrow> length (filter (\<lambda>n. n = ''.'' \<or> n = ''..'') xs) < 3"
proof -
  assume "distinct xs"
  then have "length (filter (\<lambda>n. n = ''.'' \<or> n = ''..'') xs) =
      card (set (filter (\<lambda>n. n = ''.'' \<or> n = ''..'') xs))" 
    by (intro distinct_card [symmetric]) simp
  also have "\<dots> \<le> card {''.'', ''..''}" by (intro card_mono) auto
  also have "\<dots> < 3" by simp
  finally show ?thesis .
qed

lemma symlink_status_exists:
  assumes "CHR 0x00 \<notin> set p" "sc_lstat os p w = Inr ls"
  shows "\<exists>s. symlink_status_ec os p (ec, w) = (Value s, Cleared, w) \<and> exists_status s"
proof -
  have "file_type_of_mode m \<noteq> FT_none \<and> file_type_of_mode m \<noteq> FT_not_found" for m
    by (simp add: file_type_of_mode_def Let_def)
  then show ?thesis using assms
    by (simp add: status_ec_run status_of_call_run exists_status_def status_known_def setStatus_def)
qed

lemma remove_ec_run:
  assumes "CHR 0x00 \<notin> set p" "sc_lstat os p w = Inr ls" "sc_remove os p w = (None, w')"
  shows "remove_ec os p (ec, w) = (Value True, Cleared, w')"
proof -
  from symlink_status_exists [OF assms(1,2)] obtain s where
    "symlink_status_ec os p (ec, w) = (Value s, Cleared, w)" "exists_status s" by blast
  with assms(1,3) show ?thesis
    by (simp add: remove_ec_def and_then_def call_or_assign_def calls_def ret_def)
qed

lemma is_directory_leaf:
  assumes "CHR 0x00 \<notin> set p" "shows_kind os w p Leaf"
  shows "is_directory_path os p (ec, w) = (Value False, ec, w)"
  using assms by (auto simp: is_directory_path_run shows_kind_def directory_at_def split: sum.splits)


section \<open>remove_all\<close>

definition removes_tree ::
    "'w os \<Rightarrow> path \<Rightarrow> ('w \<Rightarrow> ftree option \<Rightarrow> streams \<Rightarrow> bool) \<Rightarrow> ftree \<Rightarrow> bool" where
  "removes_tree os base sees t \<longleftrightarrow>
     (\<forall>ns T S w fuel ec. sees w (Some T) S \<and> subtree T ns = Some t \<and> removal_cost t \<le> fuel \<longrightarrow>
        (\<exists>w'. remove_all_ec fuel os (base @ slashed ns) (ec, w) =
             (Value (of_nat (files_in t)), Cleared, w') \<and> sees w' (without T ns) S))"

lemma removes_treeD:
  assumes "removes_tree os base sees t" "sees w (Some T) S" "subtree T ns = Some t" "removal_cost t \<le> fuel"
  obtains w' where "remove_all_ec fuel os (base @ slashed ns) (ec, w) =
      (Value (of_nat (files_in t)), Cleared, w')" "sees w' (without T ns) S"
  using assms unfolding removes_tree_def by blast

lemma removal_cost_pos: "0 < removal_cost t"
  by (cases t) (simp_all add: node_sums)

lemma below_no_nul:
  assumes "CHR 0x00 \<notin> set base" "\<forall>n \<in> set ns. entry_name n"
  shows "CHR 0x00 \<notin> set (base @ slashed ns)"
  using assms by (induction ns) (auto simp: slashed_def entry_name_def plain_name_def)

lemma append_below:
  assumes "base \<noteq> []" "last base \<noteq> CHR ''/''" "\<forall>m \<in> set (ns @ [n]). entry_name m"
  shows "path_append (base @ slashed ns) n = base @ slashed (ns @ [n])"
proof -
  have "\<forall>m \<in> set ns. plain_name m" using assms(3) by (simp add: entry_name_def)
  from last_slashed [OF assms(1,2) this] have "last (base @ slashed ns) \<noteq> CHR ''/''" .
  moreover have "plain_name n" using assms(3) by (simp add: entry_name_def)
  ultimately show ?thesis using assms(1) by (simp add: append_name slashed_def)
qed

text \<open>The loop over the entries: all of them are removed, and the stream is closed.\<close>

definition iterating :: "dir_impl \<Rightarrow> dir_stream \<Rightarrow> streams \<Rightarrow> string list \<Rightarrow> bool" where
  "iterating it d S es \<longleftrightarrow>
     (case es of
        [] \<Rightarrow> di_dir it = None \<and> S d = None
      | n # es' \<Rightarrow> di_dir it = Some d \<and> di_entry it = path_append (di_path it) n
          \<and> (\<exists>xs. S d = Some xs \<and> plain_entries xs = es' \<and> distinct xs))"

lemma readdir_iterates:
  assumes "file_system_laws os base sees" "sees w (Some T) S" "S d = Some xs" "distinct xs"
    "di_dir it = Some d" "3 \<le> fuel"
  shows "\<exists>it' w' S'. readdir fuel os it (Cleared, w) = (Value it', Cleared, w') \<and> sees w' (Some T) S'
    \<and> iterating it' d S' (plain_entries xs) \<and> S'(d := None) = S(d := None) \<and> di_path it' = di_path it"
proof -
  have "length (filter (\<lambda>n. n = ''.'' \<or> n = ''..'') xs) < fuel" using few_dots [OF assms(4)] assms(6) by simp
  from readdir_run [OF assms(1,2,3,5) this] obtain w' nx where
    r: "readdir fuel os it (Cleared, w) = (Value (at_entry it (plain_entries xs)), Cleared, w')"
      "sees w' (Some T) (S(d := nx))" "left_in nx xs" by blast
  let ?it = "at_entry it (plain_entries xs)" and ?S = "S(d := nx)"
  have "iterating ?it d ?S (plain_entries xs) \<and> di_path ?it = di_path it"
    using r(3) assms(4,5) by (cases "plain_entries xs") (auto simp: iterating_def at_entry_def left_in_def)
  with r(1,2) show ?thesis
    by (intro exI [of _ ?it] exI [of _ w'] exI [of _ ?S]) simp
qed

lemma delete_names: "fst ` set (AList.delete n cs) = fst ` set cs - {n}"
  by (auto simp: AList.delete_eq image_iff)

lemma remove_entries_run:
  assumes laws: "file_system_laws os base sees" and base: "base \<noteq> []" "last base \<noteq> CHR ''/''"
  shows "(\<And>c. c \<in> set cs \<Longrightarrow> removes_tree os base sees (snd c)) \<Longrightarrow>
    sees w (Some T) S \<Longrightarrow> subtree T ns = Some (Node l cs) \<Longrightarrow> di_path it = base @ slashed ns \<Longrightarrow>
    iterating it d S es \<Longrightarrow> distinct es \<Longrightarrow> set es = fst ` set cs \<Longrightarrow>
    4 + length es + sum_list (map (removal_cost \<circ> snd) cs) \<le> fuel \<Longrightarrow>
    \<exists>it' w' T'. remove_entries fuel os it removed (Cleared, w) =
        (Value (removed + of_nat (sum_list (map (files_in \<circ> snd) cs)), it'), Cleared, w')
      \<and> di_dir it' = None \<and> sees w' (Some T') (S(d := None))
      \<and> subtree T' ns = Some (Node l []) \<and> without T' ns = without T ns"
proof (induction es arbitrary: cs w T S it removed fuel)
  case Nil
  then have "cs = []" "di_dir it = None" "S(d := None) = S"
    by (auto simp: iterating_def)
  moreover obtain f where "fuel = Suc f" using Nil(8) by (cases fuel) auto
  ultimately show ?case using Nil(2,3)
    by (intro exI [of _ it] exI [of _ w] exI [of _ T]) (simp add: dir_impl_eq_def dir_impl_new_def ret_def)
next
  case (Cons n es)
  obtain f where f: "fuel = Suc f" using Cons.prems(8) by (cases fuel) auto
  have ok: "names_ok (Node l cs)" "\<forall>m \<in> set ns. entry_name m"
    using law_kind [OF laws Cons.prems(2,3)] names_ok_subtree [OF _ Cons.prems(3)] by blast+
  then have dc: "distinct (map fst cs)" by (simp add: names_ok_Node)
  obtain c where c: "map_of cs n = Some c" "(n, c) \<in> set cs"
    using Cons.prems(7) dc by (auto simp: map_of_eq_None_iff dest: map_of_is_SomeI) (metis insertI1 imageE map_of_is_SomeI prod.collapse)
  have names: "\<forall>m \<in> set (ns @ [n]). entry_name m" using ok c(2) by (auto simp: names_ok_Node)
  have st: "subtree T (ns @ [n]) = Some c" using subtree_snoc [OF Cons.prems(3)] c(1) by simp
  note sums = sum_delete [OF dc c(1)]
  have cost: "removal_cost c \<le> f" "4 + length es + sum_list (map (removal_cost \<circ> snd) (AList.delete n cs)) \<le> f"
    using Cons.prems(8) sums(1) [of removal_cost] removal_cost_pos [of c] unfolding f list.size by linarith+
  from Cons.prems(1) [OF c(2)] have "removes_tree os base sees c" by simp
  from removes_treeD [OF this Cons.prems(2) st cost(1)] obtain w1 where
    w1: "remove_all_ec f os (base @ slashed (ns @ [n])) (Cleared, w) = (Value (of_nat (files_in c)), Cleared, w1)"
      "sees w1 (without T (ns @ [n])) S" by blast
  from without_entry [OF Cons.prems(3) c(1)] obtain T1 where
    T1: "without T (ns @ [n]) = Some T1" "subtree T1 ns = Some (Node l (AList.delete n cs))" "without T1 ns = without T ns"
    by blast
  have it: "di_dir it = Some d" "di_entry it = base @ slashed (ns @ [n])"
    using Cons.prems(4,5) append_below [OF base names] by (auto simp: iterating_def)
  from Cons.prems(5) obtain xs where xs: "S d = Some xs" "plain_entries xs = es" "distinct xs"
    by (auto simp: iterating_def)
  have "sees w1 (Some T1) S" "3 \<le> f" using w1(2) T1(1) cost(2) by simp_all
  from readdir_iterates [OF laws this(1) xs(1,3) it(1) this(2)] xs(2) obtain it2 w2 S2 where
    r: "readdir f os it (Cleared, w1) = (Value it2, Cleared, w2)" "sees w2 (Some T1) S2"
      "iterating it2 d S2 es" "S2(d := None) = S(d := None)" "di_path it2 = di_path it" by auto
  have "remove_entries fuel os it removed (Cleared, w) =
      remove_entries f os it2 (removed + of_nat (files_in c)) (Cleared, w2)"
    using f it w1(1) r(1)
    by (simp add: dir_impl_eq_def dir_impl_new_def and_then_def on_throw_def get_ec_def dir_increment_def
        local_ec_def ret_def)
  moreover have "\<exists>it' w' T'. remove_entries f os it2 (removed + of_nat (files_in c)) (Cleared, w2) =
        (Value ((removed + of_nat (files_in c)) + of_nat (sum_list (map (files_in \<circ> snd) (AList.delete n cs))), it'), Cleared, w')
      \<and> di_dir it' = None \<and> sees w' (Some T') (S2(d := None))
      \<and> subtree T' ns = Some (Node l []) \<and> without T' ns = without T1 ns"
  proof (rule Cons.IH [OF _ r(2) T1(2) _ r(3) _ _ cost(2)])
    show "removes_tree os base sees (snd c')" if "c' \<in> set (AList.delete n cs)" for c'
      using that Cons.prems(1) by (auto simp: AList.delete_eq)
    show "di_path it2 = base @ slashed ns" using r(5) Cons.prems(4) by simp
    show "distinct es" using Cons.prems(6) by simp
    show "set es = fst ` set (AList.delete n cs)"
      using Cons.prems(6,7) unfolding delete_names by auto
  qed
  moreover have "(removed + of_nat (files_in c)) + of_nat (sum_list (map (files_in \<circ> snd) (AList.delete n cs))) =
      removed + of_nat (sum_list (map (files_in \<circ> snd) cs))"
    unfolding sums(1) [of files_in] of_nat_add by (rule add.assoc)
  ultimately show ?case unfolding r(4) T1(3) by metis
qed

text \<open>Every tree is removed, with all that its links lead to.\<close>

lemma remove_all_run:
  assumes laws: "file_system_laws os base sees"
    and base: "base \<noteq> []" "last base \<noteq> CHR ''/''" "CHR 0x00 \<notin> set base"
  shows "removes_tree os base sees t"
proof (induction t)
  case Leaf
  show ?case unfolding removes_tree_def
  proof (intro allI impI, elim conjE)
    fix ns T S w fuel ec
    assume w: "sees w (Some T) S" "subtree T ns = Some Leaf" and "removal_cost Leaf \<le> fuel"
    then obtain f where f: "fuel = Suc f" by (cases fuel) auto
    let ?p = "base @ slashed ns"
    have k: "names_ok T" "shows_kind os w ?p Leaf" using law_kind [OF laws w] by simp_all
    then have nul: "CHR 0x00 \<notin> set ?p" using names_ok_subtree [OF k(1) w(2)] below_no_nul [OF base(3)] by blast
    from k(2) obtain ls where ls: "sc_lstat os ?p w = Inr ls" by (auto simp: shows_kind_def)
    from law_remove [OF laws w] obtain w' where
      w': "sc_remove os ?p w = (None, w')" "sees w' (without T ns) S" by (auto simp: removable_def)
    from symlink_status_exists [OF nul ls] obtain s where
      s: "symlink_status_ec os ?p (ec, w) = (Value s, Cleared, w)" "exists_status s" by blast
    have "remove_all_ec fuel os ?p (ec, w) = (Value 1, Cleared, w')"
      using f s is_directory_leaf [OF nul k(2)] remove_ec_run [OF nul ls w'(1)]
      by (simp add: and_then_def ret_def)
    with w'(2) show "\<exists>w'. remove_all_ec fuel os ?p (ec, w) = (Value (of_nat (files_in Leaf)), Cleared, w')
        \<and> sees w' (without T ns) S" by simp
  qed
next
  case (Node l cs)
  have IH: "removes_tree os base sees (snd c)" if "c \<in> set cs" for c
    using Node [OF that] by (cases c) simp
  show ?case unfolding removes_tree_def
  proof (intro allI impI, elim conjE)
    fix ns T S w fuel ec
    assume w: "sees w (Some T) S" "subtree T ns = Some (Node l cs)" and cost: "removal_cost (Node l cs) \<le> fuel"
    then obtain f where f: "fuel = Suc f" by (cases fuel) (auto simp: node_sums)
    with cost have cf: "4 + length cs + sum_list (map (removal_cost \<circ> snd) cs) \<le> f" "3 \<le> f"
      by (simp_all add: node_sums)
    let ?p = "base @ slashed ns"
    have k: "names_ok T" "shows_kind os w ?p (Node l cs)" using law_kind [OF laws w] by simp_all
    then have nul: "CHR 0x00 \<notin> set ?p" using names_ok_subtree [OF k(1) w(2)] below_no_nul [OF base(3)] by blast
    from k(2) obtain ls where ls: "sc_lstat os ?p w = Inr ls" and dir: "directory_at os w ?p"
      by (auto simp: shows_kind_def)
    from symlink_status_exists [OF nul ls] obtain s where
      s: "symlink_status_ec os ?p (ec, w) = (Value s, Cleared, w)" "exists_status s" by blast
    from law_opendir [OF laws w] obtain d xs w1 where
      o: "sc_opendir os ?p w = (Inr d, w1)" "S d = None" "distinct xs"
        "set (plain_entries xs) = fst ` set cs" "sees w1 (Some T) (S(d \<mapsto> xs))" by blast
    let ?it = "dir_impl_new\<lparr>di_path := ?p, di_dir := Some d\<rparr>"
    have "di_dir ?it = Some d" "di_path ?it = ?p" "(S(d \<mapsto> xs)) d = Some xs" by simp_all
    from readdir_iterates [OF laws o(5) this(3) o(3) this(1) cf(2)] this(2) obtain it w2 S2 where
      r: "readdir f os ?it (Cleared, w1) = (Value it, Cleared, w2)" "sees w2 (Some T) S2"
        "iterating it d S2 (plain_entries xs)" "S2(d := None) = (S(d \<mapsto> xs))(d := None)" "di_path it = ?p"
      by metis
    have iter: "dir_iter f os ?p (Cleared, w) = (Value it, Cleared, w2)"
      using o(1) r(1) nul
      by (simp add: dir_iter_def throwing_def dir_open_def and_then_def local_ec_def calls_def ret_def)
    have dp: "distinct (plain_entries xs)" using o(3) by (simp add: plain_entries_def)
    have len: "length (plain_entries xs) = length cs"
    proof -
      have "names_ok (Node l cs)" using names_ok_subtree [OF k(1) w(2)] by simp
      then have "distinct (map fst cs)" by (simp add: names_ok_Node)
      then have "length cs = card (fst ` set cs)" using distinct_card [of "map fst cs"] by simp
      then show ?thesis using o(4) distinct_card [OF dp] by simp
    qed
    have "4 + length (plain_entries xs) + sum_list (map (removal_cost \<circ> snd) cs) \<le> f" using cf(1) len by simp
    from remove_entries_run [OF laws base(1,2) IH r(2) w(2) r(5) r(3) dp o(4) this, of 0]
    obtain it' w3 T3 where
      e: "remove_entries f os it 0 (Cleared, w2) =
            (Value (of_nat (sum_list (map (files_in \<circ> snd) cs)), it'), Cleared, w3)"
        "di_dir it' = None" "sees w3 (Some T3) (S2(d := None))"
        "subtree T3 ns = Some (Node l [])" "without T3 ns = without T ns"
      unfolding add_0 by blast
    have S: "S2(d := None) = S" using r(4) o(2) by (simp add: fun_upd_idem)
    have "shows_kind os w3 ?p (Node l [])" using law_kind [OF laws e(3,4)] by simp
    then obtain ls3 where ls3: "sc_lstat os ?p w3 = Inr ls3" by (auto simp: shows_kind_def)
    have "removable (Node l [])" by (simp add: removable_def)
    from law_remove [OF laws e(3,4) this] obtain w' where
      w': "sc_remove os ?p w3 = (None, w')" "sees w' (without T3 ns) (S2(d := None))" by blast
    have "remove_all_ec fuel os ?p (ec, w) =
        (Value (of_nat (sum_list (map (files_in \<circ> snd) cs)) + 1), Cleared, w')"
      using f s is_directory_path_at [OF nul dir] iter e(1,2) remove_ec_run [OF nul ls3 w'(1)]
      by (simp add: and_then_def finally_do_def dir_destroy_def dir_close_def ret_def)
    then show "\<exists>w'. remove_all_ec fuel os ?p (ec, w) =
        (Value (of_nat (files_in (Node l cs))), Cleared, w') \<and> sees w' (without T ns) S"
      using w'(2) e(5) S by (simp add: node_sums add.commute)
  qed
qed

end
