(* ===== verification/Sample_Systems.thy ===== *)
theory Sample_Systems
  imports File_Removal
begin

text \<open>
  Two small systems that satisfy the hypotheses on the system calls: one that keeps a tree of
  files and one that keeps a set of directories. They show that the hypotheses can hold.
\<close>

section \<open>A system on which every call fails\<close>

definition stat_of_mode :: "mode_t \<Rightarrow> stat" where
  "stat_of_mode m = \<lparr>st_mode = m, st_dev = 1, st_ino = 1, st_size = 0\<rparr>"

definition inert_os :: "'w os" where
  "inert_os =
     \<lparr>sc_stat = (\<lambda>p w. Inl ENOENT), sc_lstat = (\<lambda>p w. Inl ENOENT), sc_getcwd = (\<lambda>w. Inl EACCES),
      sc_realpath = (\<lambda>p w. Inl EACCES), sc_readlink = (\<lambda>p k w. Inl EACCES), sc_getenv = (\<lambda>n w. None),
      sc_chdir = (\<lambda>p w. (Some EACCES, w)), sc_mkdir = (\<lambda>p m w. (Some EACCES, w)),
      sc_chmod = (\<lambda>p m w. (Some EACCES, w)), sc_symlink = (\<lambda>p q w. (Some EACCES, w)),
      sc_remove = (\<lambda>p w. (Some EACCES, w)), sc_mkdtemp = (\<lambda>t w. (Inl EACCES, w)),
      sc_opendir = (\<lambda>p w. (Inl EACCES, w)), sc_readdir = (\<lambda>d w. (Inl EACCES, w)),
      sc_closedir = (\<lambda>d w. w)\<rparr>"


section \<open>A system that keeps one tree\<close>

definition sample_base :: path where "sample_base = ''/t''"

record tree_world =
  tw_tree :: "ftree option"
  tw_next :: nat
  tw_streams :: streams

primrec all_names :: "ftree \<Rightarrow> string list list" where
  "all_names Leaf = [[]]"
| "all_names (Node l cs) = [] # concat (map (\<lambda>(n, nss). map (\<lambda>ns. n # ns) nss) (map (map_prod (\<lambda>n. n) all_names) cs))"

definition locate :: "tree_world \<Rightarrow> path \<Rightarrow> (string list \<times> ftree) option" where
  "locate w p =
     (case tw_tree w of
        None \<Rightarrow> None
      | Some T \<Rightarrow>
          (case find (\<lambda>ns. sample_base @ slashed ns = p) (all_names T) of
             None \<Rightarrow> None
           | Some ns \<Rightarrow> map_option (Pair ns) (subtree T ns)))"

definition tree_os :: "tree_world os" where
  "tree_os = inert_os
     \<lparr>sc_stat := (\<lambda>p w. case locate w p of
        None \<Rightarrow> Inl ENOENT
      | Some (ns, Leaf) \<Rightarrow> Inr (stat_of_mode 0x8000)
      | Some (ns, Node l cs) \<Rightarrow> Inr (stat_of_mode 0x4000)),
      sc_lstat := (\<lambda>p w. case locate w p of
        None \<Rightarrow> Inl ENOENT
      | Some (ns, Leaf) \<Rightarrow> Inr (stat_of_mode 0x8000)
      | Some (ns, Node l cs) \<Rightarrow> Inr (stat_of_mode (if l then 0xA000 else 0x4000))),
      sc_remove := (\<lambda>p w. case locate w p of
        None \<Rightarrow> (Some ENOENT, w)
      | Some (ns, t) \<Rightarrow>
          (if removable t then (None, w\<lparr>tw_tree := (case tw_tree w of None \<Rightarrow> None | Some T \<Rightarrow> without T ns)\<rparr>)
           else (Some EEXIST, w))),
      sc_opendir := (\<lambda>p w. case locate w p of
        Some (ns, Node l cs) \<Rightarrow>
          (Inr (tw_next w), w\<lparr>tw_next := tw_next w + 1,
             tw_streams := (tw_streams w)(tw_next w \<mapsto> ''.'' # ''..'' # map fst cs)\<rparr>)
      | _ \<Rightarrow> (Inl ENOTDIR, w)),
      sc_readdir := (\<lambda>d w. case tw_streams w d of
        Some (n # ns) \<Rightarrow> (Inr (Some n), w\<lparr>tw_streams := (tw_streams w)(d \<mapsto> ns)\<rparr>)
      | _ \<Rightarrow> (Inr None, w)),
      sc_closedir := (\<lambda>d w. w\<lparr>tw_streams := (tw_streams w)(d := None)\<rparr>)\<rparr>"

definition tree_sees :: "tree_world \<Rightarrow> ftree option \<Rightarrow> streams \<Rightarrow> bool" where
  "tree_sees w T S \<longleftrightarrow> tw_tree w = T \<and> tw_streams w = S \<and> (\<forall>t. T = Some t \<longrightarrow> names_ok t)
     \<and> (\<forall>d. tw_next w \<le> d \<longrightarrow> S d = None)"

lemma all_names_Node:
  "ns \<in> set (all_names (Node l cs)) \<longleftrightarrow>
     ns = [] \<or> (\<exists>n t ms. ns = n # ms \<and> (n, t) \<in> set cs \<and> ms \<in> set (all_names t))"
  by (auto simp: image_iff)

declare all_names.simps(2) [simp del]

lemma all_names_subtree: "subtree T ns = Some t \<Longrightarrow> ns \<in> set (all_names T)"
proof (induction T ns rule: subtree.induct)
  case (1 t)
  show ?case by (cases t) (simp_all add: all_names_Node)
next
  case (3 l cs n ns)
  then obtain u where "map_of cs n = Some u" "subtree u ns = Some t" by (auto split: option.splits)
  with 3 show ?case by (auto simp: all_names_Node dest: map_of_SomeD)
qed simp

lemma all_names_ok: "names_ok T \<Longrightarrow> ns \<in> set (all_names T) \<Longrightarrow> \<forall>n \<in> set ns. plain_name n"
proof (induction T arbitrary: ns)
  case (Node l cs)
  show ?case
  proof (cases ns)
    case (Cons n ms)
    with Node.prems(2) obtain t where t: "(n, t) \<in> set cs" "ms \<in> set (all_names t)"
      by (auto simp: all_names_Node)
    with Node.prems(1) have "entry_name n" "names_ok t" by (auto simp: names_ok_Node)
    with Node.IH [OF t(1) _ this(2) t(2)] Cons show ?thesis by (simp add: entry_name_def)
  qed simp
qed simp

lemma slashed_inj:
  "\<forall>n \<in> set ns. plain_name n \<Longrightarrow> \<forall>n \<in> set ms. plain_name n \<Longrightarrow> slashed ns = slashed ms \<Longrightarrow> ns = ms"
proof (induction ns arbitrary: ms)
  case Nil
  then show ?case by (cases ms) (simp_all add: slashed_def)
next
  case (Cons n ns)
  then obtain m ms' where ms: "ms = m # ms'" by (cases ms) (auto simp: slashed_def)
  let ?P = "\<lambda>c. c \<noteq> CHR ''/''"
  have take: "takeWhile ?P (a @ slashed as) = a" if "plain_name a" for a as
  proof -
    have "takeWhile ?P (a @ slashed as) = a @ takeWhile ?P (slashed as)"
      by (rule takeWhile_append2) (use that in \<open>auto simp: plain_name_def\<close>)
    also have "takeWhile ?P (slashed as) = []" by (cases as) (simp_all add: slashed_def)
    finally show ?thesis by simp
  qed
  have eq: "n @ slashed ns = m @ slashed ms'" using Cons.prems(3) ms by (simp add: slashed_def)
  have p: "plain_name n" "plain_name m" using Cons.prems(1,2) ms by simp_all
  have "n = takeWhile ?P (n @ slashed ns)" using take [OF p(1)] by simp
  also have "\<dots> = m" unfolding eq by (rule take [OF p(2)])
  finally have nm: "n = m" .
  then have "slashed ns = slashed ms'" using eq by simp
  then have "ns = ms'" by (rule Cons.IH [rotated 2]) (use Cons.prems(1,2) ms in simp_all)
  with nm ms show ?case by simp
qed

lemma locate_run:
  assumes "tree_sees w (Some T) S" "subtree T ns = Some t"
  shows "locate w (sample_base @ slashed ns) = Some (ns, t)"
proof -
  have T: "tw_tree w = Some T" "names_ok T" using assms(1) by (simp_all add: tree_sees_def)
  have ns: "ns \<in> set (all_names T)" by (rule all_names_subtree [OF assms(2)])
  let ?f = "find (\<lambda>ms. sample_base @ slashed ms = sample_base @ slashed ns) (all_names T)"
  have "?f = Some ns"
  proof (cases ?f)
    case None
    then have "\<forall>ms \<in> set (all_names T). slashed ms \<noteq> slashed ns" by (simp add: find_None_iff)
    with ns show ?thesis by blast
  next
    case (Some ms)
    then obtain i where "i < length (all_names T)" "ms = all_names T ! i" "slashed ms = slashed ns"
      by (auto simp: find_Some_iff)
    then have "ms \<in> set (all_names T)" "slashed ms = slashed ns" by simp_all
    then have "ms = ns" using slashed_inj [of ms ns] all_names_ok [OF T(2)] ns by blast
    with Some show ?thesis by simp
  qed
  with T(1) assms(2) show ?thesis by (simp add: locate_def)
qed

lemma set_update_subset: "set (AList.update k v al) \<subseteq> insert (k, v) (set al)"
  by (induction al) auto

lemma names_ok_without: "names_ok T \<Longrightarrow> without T ns = Some T' \<Longrightarrow> names_ok T'"
proof (induction T ns arbitrary: T' rule: subtree.induct)
  case (3 l cs n ns)
  have d: "distinct (map fst cs)" "\<And>k t. (k, t) \<in> set cs \<Longrightarrow> entry_name k \<and> names_ok t"
    using 3(2) by (auto simp: names_ok_Node)
  show ?case
  proof (cases "map_of cs n")
    case None
    with 3 show ?thesis by simp
  next
    case (Some t)
    then have t: "names_ok t" "entry_name n" using d(2) by (auto dest!: map_of_SomeD)
    show ?thesis
    proof (cases "without t ns")
      case None
      with 3(3) Some have "T' = Node l (AList.delete n cs)" by simp
      then show ?thesis using d AList.distinct_delete [OF d(1)] by (auto simp: names_ok_Node AList.delete_eq)
    next
      case u: (Some u)
      have "names_ok u" by (rule 3(1) [OF Some t(1) u])
      moreover have "T' = Node l (AList.update n u cs)" using 3(3) Some u by simp
      ultimately show ?thesis
        using d t(2) AList.distinct_update [OF d(1)] set_update_subset [of n u cs]
        by (auto simp: names_ok_Node)
    qed
  qed
qed simp_all

lemma tree_os_laws: "file_system_laws tree_os sample_base tree_sees"
proof -
  have "kind_law tree_os sample_base tree_sees"
    unfolding kind_law_def
  proof (intro allI impI, elim conjE)
    fix w T S ns t
    assume w: "tree_sees w (Some T) S" "subtree T ns = Some t"
    then have "names_ok T" by (simp add: tree_sees_def)
    moreover have "shows_kind tree_os w (sample_base @ slashed ns) t"
      using locate_run [OF w]
      by (cases t) (simp_all add: shows_kind_def tree_os_def inert_os_def directory_at_def file_type_of_mode_def
          S_IFMT_def stat_of_mode_def)
    ultimately show "names_ok T \<and> shows_kind tree_os w (sample_base @ slashed ns) t" by blast
  qed
  moreover have "remove_law tree_os sample_base tree_sees"
    unfolding remove_law_def
  proof (intro allI impI, elim conjE)
    fix w T S ns t
    assume w: "tree_sees w (Some T) S" "subtree T ns = Some t" "removable t"
    let ?w = "w\<lparr>tw_tree := without T ns\<rparr>"
    have "sc_remove tree_os (sample_base @ slashed ns) w = (None, ?w)"
      using w(3) locate_run [OF w(1,2)] w(1) [unfolded tree_sees_def] by (simp add: tree_os_def inert_os_def)
    moreover have "tree_sees ?w (without T ns) S"
      using w(1) by (auto simp: tree_sees_def intro: names_ok_without)
    ultimately show "\<exists>w'. sc_remove tree_os (sample_base @ slashed ns) w = (None, w') \<and>
        tree_sees w' (without T ns) S" by blast
  qed
  moreover have "opendir_law tree_os sample_base tree_sees"
    unfolding opendir_law_def
  proof (intro allI impI, elim conjE)
    fix w T S ns l cs
    assume w: "tree_sees w (Some T) S" "subtree T ns = Some (Node l cs)"
    have ok: "names_ok (Node l cs)" using w names_ok_subtree by (auto simp: tree_sees_def)
    let ?xs = "''.'' # ''..'' # map fst cs" and ?d = "tw_next w"
    let ?w = "w\<lparr>tw_next := ?d + 1, tw_streams := (tw_streams w)(?d \<mapsto> ?xs)\<rparr>"
    have "sc_opendir tree_os (sample_base @ slashed ns) w = (Inr ?d, ?w)"
      using locate_run [OF w] by (simp add: tree_os_def inert_os_def)
    moreover have "S ?d = None" "tree_sees ?w (Some T) (S(?d \<mapsto> ?xs))"
      using w(1) by (auto simp: tree_sees_def)
    moreover have "distinct ?xs" using ok by (auto simp: names_ok_Node entry_name_def)
    moreover have "set (plain_entries ?xs) = fst ` set cs"
      using ok by (auto simp: names_ok_Node entry_name_def plain_entries_def)
    ultimately show "\<exists>d xs w'. sc_opendir tree_os (sample_base @ slashed ns) w = (Inr d, w') \<and> S d = None
        \<and> distinct xs \<and> set (plain_entries xs) = fst ` set cs \<and> tree_sees w' (Some T) (S(d \<mapsto> xs))"
      by blast
  qed
  moreover have "readdir_law tree_os tree_sees"
    by (auto simp: readdir_law_def tree_os_def inert_os_def tree_sees_def)
  ultimately show ?thesis by (simp add: file_system_laws_def)
qed


section \<open>A system of directories\<close>

text \<open>The state is the set of the directories that exist.\<close>

definition dirs_os :: "path set os" where
  "dirs_os = inert_os
     \<lparr>sc_stat := (\<lambda>p W. if p \<in> W then Inr (stat_of_mode 0x4000) else Inl ENOENT),
      sc_lstat := (\<lambda>p W. if p \<in> W then Inr (stat_of_mode 0x4000) else Inl ENOENT),
      sc_mkdir := (\<lambda>p m W. (None, insert p W))\<rparr>"

definition dirs_valid :: "path set \<Rightarrow> bool" where
  "dirs_valid W \<longleftrightarrow> ''/'' \<in> W \<and>
     (\<forall>ns n. (\<forall>m \<in> set (ns @ [n]). entry_name m) \<and> path_of True (ns @ [n]) \<in> W \<longrightarrow> path_of True ns \<in> W)"

lemma dirs_at:
  "directory_at dirs_os W p \<longleftrightarrow> p \<in> W" "absent_at dirs_os W p \<longleftrightarrow> p \<notin> W"
  by (simp_all add: directory_at_def absent_at_def dirs_os_def stat_of_mode_def file_type_of_mode_def S_IFMT_def)

lemma rooted_slashed: "ns \<noteq> [] \<Longrightarrow> path_of True ns = slashed ns"
  by (cases ns) (simp_all add: path_of_def join_slashed slashed_def)

lemma rooted_inj:
  assumes "\<forall>m \<in> set ns. entry_name m" "\<forall>m \<in> set ms. entry_name m" "ns \<noteq> []" "ms \<noteq> []"
  shows "path_of True ns = path_of True ms \<longleftrightarrow> ns = ms"
  using assms slashed_inj [of ns ms] by (auto simp: rooted_slashed entry_name_def)

lemma dirs_valid_prefix:
  "dirs_valid W \<Longrightarrow> \<forall>m \<in> set (ns @ ms). entry_name m \<Longrightarrow> path_of True (ns @ ms) \<in> W \<Longrightarrow> path_of True ns \<in> W"
proof (induction ms rule: rev_induct)
  case (snoc m ms)
  have "path_of True ((ns @ ms) @ [m]) \<in> W" "\<forall>k \<in> set ((ns @ ms) @ [m]). entry_name k"
    using snoc.prems(2,3) by simp_all
  then have "path_of True (ns @ ms) \<in> W" using snoc.prems(1) unfolding dirs_valid_def by blast
  with snoc show ?case by simp
qed simp

lemma dirs_os_laws: "makes_directories dirs_os dirs_valid"
  unfolding makes_directories_def dirs_at
proof (intro allI impI, elim conjE)
  fix W ns n
  assume W: "dirs_valid W" "\<forall>m \<in> set (ns @ [n]). entry_name m" "path_of True ns \<in> W"
    "path_of True (ns @ [n]) \<notin> W"
  let ?p = "path_of True (ns @ [n])"
  have "dirs_valid (insert ?p W)"
    unfolding dirs_valid_def
  proof (intro conjI allI impI)
    show "''/'' \<in> insert ?p W" using W(1) by (simp add: dirs_valid_def)
    fix ms m
    assume "(\<forall>k \<in> set (ms @ [m]). entry_name k) \<and> path_of True (ms @ [m]) \<in> insert ?p W"
    then have m: "\<forall>k \<in> set (ms @ [m]). entry_name k" "path_of True (ms @ [m]) \<in> insert ?p W" by simp_all
    show "path_of True ms \<in> insert ?p W"
    proof (cases "path_of True (ms @ [m]) = ?p")
      case True
      then have "ms = ns" using rooted_inj [OF m(1) W(2)] by simp
      with W(3) show ?thesis by simp
    next
      case False
      then have "path_of True (ms @ [m]) \<in> W" using m(2) by simp
      with W(1) m(1) have "path_of True ms \<in> W" unfolding dirs_valid_def by blast
      then show ?thesis by simp
    qed
  qed
  moreover have "path_of True (ns @ n # ms) \<notin> insert ?p W" if "ms \<noteq> []" "\<forall>m \<in> set ms. entry_name m" for ms
  proof -
    have e: "\<forall>m \<in> set (ns @ n # ms). entry_name m" using that W(2) by auto
    have "path_of True (ns @ n # ms) \<noteq> ?p" using rooted_inj [OF e W(2)] that(1) by simp
    moreover have "path_of True (ns @ n # ms) \<notin> W"
      using dirs_valid_prefix [OF W(1), of "ns @ [n]" ms] e W(4) by auto
    ultimately show ?thesis by simp
  qed
  moreover have "sc_mkdir dirs_os ?p perms_all W = (None, insert ?p W)" by (simp add: dirs_os_def)
  ultimately show "\<exists>w'. sc_mkdir dirs_os ?p perms_all W = (None, w') \<and> dirs_valid w' \<and> ?p \<in> w'
      \<and> (\<forall>q. q \<in> W \<longrightarrow> q \<in> w')
      \<and> (\<forall>ms. ms \<noteq> [] \<and> (\<forall>m \<in> set ms. entry_name m) \<longrightarrow> path_of True (ns @ n # ms) \<notin> w')"
    by blast
qed


section \<open>A system whose directories may not be opened\<close>

definition locked_os :: "unit os" where
  "locked_os = inert_os
     \<lparr>sc_stat := (\<lambda>p w. Inr (stat_of_mode 0x4000)), sc_lstat := (\<lambda>p w. Inr (stat_of_mode 0x4000))\<rparr>"

end
