(* ===== verification/Lexer.thy ===== *)
theory Lexer
  imports Prelude "HOL-Library.Monad_Syntax"
begin

text \<open>
  src/acatl/lexer.h and lexer.cpp: the lexer that tries its definitions in order at the current
  position. Regular expressions are those of the standard library: the constructor of
  \<open>std::regex\<close> and \<open>regex_search\<close> on the rest of the input are parameters. Positions are
  indices into the input.
\<close>

section \<open>Tokens and definitions\<close>

definition UNDEFINED :: int where "UNDEFINED = -1"
definition WHITESPACE :: int where "WHITESPACE = -2"
definition NEWLINE :: int where "NEWLINE = -3"
definition EOI :: int where "EOI = -4"

record Token =
  tk_name :: string
  tk_token :: int
  tk_value :: string
  tk_lineCount :: u32
  tk_charCount :: u16

definition Token_new :: Token where
  "Token_new = \<lparr>tk_name = [], tk_token = UNDEFINED, tk_value = [], tk_lineCount = 0, tk_charCount = 0\<rparr>"

record 'r TokenDefinition =
  td_name :: string
  td_rx :: 'r
  td_token :: int

text \<open>\<open>std::smatch\<close>: where the match begins and its groups, the whole match first.\<close>

record smatch =
  sm_position :: nat
  sm_groups :: "string list"

definition sm_length :: "smatch \<Rightarrow> nat" where
  "sm_length m = length (sm_groups m ! 0)"

type_synonym 'r search = "'r \<Rightarrow> string \<Rightarrow> smatch option"


section \<open>The lexer\<close>

text \<open>The callback may change the token it inspects; without one it is absent.\<close>

record 'r Lexer =
  lx_definitions :: "'r TokenDefinition list"
  lx_callback :: "(Token \<Rightarrow> Token) option"
  lx_input :: string
  lx_pos :: nat
  lx_lineCount :: u32
  lx_lineStart :: nat

text \<open>\<open>std::regex(r)\<close> throws on a bad expression (None).\<close>

definition addDefinition ::
    "(string \<Rightarrow> 'r option) \<Rightarrow> string \<Rightarrow> string \<Rightarrow> int \<Rightarrow> 'r Lexer \<Rightarrow> 'r Lexer option" where
  "addDefinition regex name r token L =
     do {
       rx \<leftarrow> regex r;
       Some (L\<lparr>lx_definitions :=
         lx_definitions L @ [\<lparr>td_name = name, td_rx = rx, td_token = token\<rparr>]\<rparr>)
     }"

definition newline_expression :: string where
  "newline_expression = [CHR 0x5C, CHR ''r'', CHR ''|'', CHR 0x5C, CHR ''n'']"

definition whitespace_expression :: string where
  "whitespace_expression =
     [CHR ''['', CHR '' '', CHR 0x5C, CHR ''t'', CHR 0x5C, CHR ''f'', CHR '']'', CHR ''+'']"

definition Lexer_new :: "(string \<Rightarrow> 'r option) \<Rightarrow> (Token \<Rightarrow> Token) option \<Rightarrow> 'r Lexer option" where
  "Lexer_new regex callback =
     do {
       L \<leftarrow> addDefinition regex ''newline'' newline_expression NEWLINE
         \<lparr>lx_definitions = [], lx_callback = callback, lx_input = [], lx_pos = 0,
          lx_lineCount = 1, lx_lineStart = 0\<rparr>;
       addDefinition regex ''whitespace'' whitespace_expression WHITESPACE L
     }"

definition setInput :: "string \<Rightarrow> 'r Lexer \<Rightarrow> 'r Lexer" where
  "setInput input L = L\<lparr>lx_input := input, lx_pos := 0, lx_lineCount := 1, lx_lineStart := 0\<rparr>"

text \<open>The first definition whose leftmost match begins at the current position.\<close>

fun first_match ::
    "'r search \<Rightarrow> string \<Rightarrow> 'r TokenDefinition list \<Rightarrow> ('r TokenDefinition \<times> smatch) option" where
  "first_match search s [] = None"
| "first_match search s (r # rs) =
     (case search (td_rx r) s of
        None \<Rightarrow> first_match search s rs
      | Some m \<Rightarrow> if sm_position m = 0 then Some (r, m) else first_match search s rs)"

definition matched_token :: "'r Lexer \<Rightarrow> 'r TokenDefinition \<Rightarrow> smatch \<Rightarrow> Token" where
  "matched_token L r m =
     \<lparr>tk_name = td_name r, tk_token = td_token r,
      tk_value = (if length (sm_groups m) > 1 then sm_groups m ! 1 else sm_groups m ! 0),
      tk_lineCount = lx_lineCount L,
      tk_charCount = of_nat (lx_pos L - lx_lineStart L) + 1\<rparr>"

text \<open>The characters that the expression for newlines matches one at a time.\<close>

definition is_newline :: "char \<Rightarrow> bool" where
  "is_newline c \<longleftrightarrow> c = CHR 0x0D \<or> c = CHR 0x0A"

definition newlines :: "string \<Rightarrow> nat" where
  "newlines s = length (filter is_newline s)"

definition count_lines :: "Token \<Rightarrow> 'r Lexer \<Rightarrow> 'r Lexer" where
  "count_lines token L =
     L\<lparr>lx_lineCount := lx_lineCount L + of_nat (newlines (tk_value token)),
       lx_lineStart := (if newlines (tk_value token) = 0 then lx_lineStart L else lx_pos L)\<rparr>"

definition inspected :: "'r Lexer \<Rightarrow> Token \<Rightarrow> Token" where
  "inspected L token = (case lx_callback L of None \<Rightarrow> token | Some callback \<Rightarrow> callback token)"

text \<open>The exception names the line and the column.\<close>

datatype lexer_exception = LexicalAnalysisException u32 nat

text \<open>
  A definition for blanks that matches the empty string recurses for ever: the value is None.
\<close>

partial_function (option) lexer_next ::
    "'r search \<Rightarrow> 'r Lexer \<Rightarrow> ((lexer_exception + Token) \<times> 'r Lexer) option" where
  "lexer_next search L =
     (if lx_pos L < length (lx_input L) then
        (case first_match search (drop (lx_pos L) (lx_input L)) (lx_definitions L) of
           None \<Rightarrow> Some (Inl (LexicalAnalysisException (lx_lineCount L) (lx_pos L - lx_lineStart L + 1)), L)
         | Some rm \<Rightarrow>
             (let token = matched_token L (fst rm) (snd rm);
                  L1 = L\<lparr>lx_pos := lx_pos L + sm_length (snd rm)\<rparr>
              in if tk_token token = WHITESPACE then lexer_next search L1
                 else if tk_token token = NEWLINE
                 then lexer_next search (L1\<lparr>lx_lineCount := lx_lineCount L1 + 1, lx_lineStart := lx_pos L1\<rparr>)
                 else (let L2 = count_lines token L1 in Some (Inr (inspected L2 token), L2))))
      else Some (Inr (Token_new\<lparr>tk_token := EOI\<rparr>), L))"


section \<open>What next does\<close>

text \<open>The laws of \<open>regex_search\<close>: a match is a part of the text, and it has a group.\<close>

definition search_laws :: "'r search \<Rightarrow> bool" where
  "search_laws search \<longleftrightarrow>
     (\<forall>rx s m. search rx s = Some m \<longrightarrow> sm_groups m \<noteq> [] \<and>
        (\<exists>rest. drop (sm_position m) s = sm_groups m ! 0 @ rest))"

definition is_blank_token :: "int \<Rightarrow> bool" where
  "is_blank_token t \<longleftrightarrow> t = WHITESPACE \<or> t = NEWLINE"

text \<open>No definition of blanks matches the empty string.\<close>

definition blanks_progress :: "'r search \<Rightarrow> 'r TokenDefinition list \<Rightarrow> bool" where
  "blanks_progress search ds \<longleftrightarrow>
     (\<forall>r \<in> set ds. \<forall>s m. is_blank_token (td_token r) \<and> search (td_rx r) s = Some m \<and> sm_position m = 0
        \<longrightarrow> sm_groups m ! 0 \<noteq> [])"

lemma first_match_Some:
  assumes "search_laws search" "first_match search s ds = Some (r, m)"
  shows "r \<in> set ds \<and> search (td_rx r) s = Some m \<and> sm_position m = 0
    \<and> (\<exists>rest. s = sm_groups m ! 0 @ rest)"
  using assms(2)
proof (induction ds)
  case (Cons d ds)
  show ?case
  proof (cases "first_match search s ds = Some (r, m)")
    case True
    with Cons.IH show ?thesis by simp
  next
    case False
    with Cons.prems have m: "search (td_rx d) s = Some m" "sm_position m = 0" "r = d"
      by (auto split: option.splits if_splits)
    then have "\<exists>rest. drop (sm_position m) s = sm_groups m ! 0 @ rest"
      using assms(1) unfolding search_laws_def by blast
    with m show ?thesis by simp
  qed
qed simp

text \<open>One step over blanks.\<close>

inductive blank_step :: "'r search \<Rightarrow> 'r Lexer \<Rightarrow> string \<Rightarrow> 'r Lexer \<Rightarrow> bool" for search where
  whitespace: "blank_step search L (sm_groups m ! 0) (L\<lparr>lx_pos := lx_pos L + sm_length m\<rparr>)"
    if "lx_pos L < length (lx_input L)"
      "first_match search (drop (lx_pos L) (lx_input L)) (lx_definitions L) = Some (r, m)"
      "td_token r = WHITESPACE"
| newline: "blank_step search L (sm_groups m ! 0)
      (L\<lparr>lx_pos := lx_pos L + sm_length m, lx_lineCount := lx_lineCount L + 1,
         lx_lineStart := lx_pos L + sm_length m\<rparr>)"
    if "lx_pos L < length (lx_input L)"
      "first_match search (drop (lx_pos L) (lx_input L)) (lx_definitions L) = Some (r, m)"
      "td_token r = NEWLINE"

inductive_cases blank_stepE: "blank_step search L s L'"

lemma blank_step_next: "blank_step search L s L' \<Longrightarrow> lexer_next search L = lexer_next search L'"
  by (elim blank_stepE)
    (subst (1) lexer_next.simps, simp add: matched_token_def WHITESPACE_def NEWLINE_def Let_def)+

lemma blank_step_moves:
  assumes "search_laws search" "blank_step search L s L'"
  shows "lx_input L' = lx_input L \<and> lx_definitions L' = lx_definitions L \<and> lx_callback L' = lx_callback L
    \<and> lx_pos L' = lx_pos L + length s \<and> drop (lx_pos L) (lx_input L) = s @ drop (lx_pos L') (lx_input L')
    \<and> (blanks_progress search (lx_definitions L) \<longrightarrow> s \<noteq> [])"
proof -
  from assms(2) obtain r m where m: "first_match search (drop (lx_pos L) (lx_input L)) (lx_definitions L) = Some (r, m)"
    "is_blank_token (td_token r)" "s = sm_groups m ! 0" "lx_pos L' = lx_pos L + sm_length m"
    "lx_input L' = lx_input L \<and> lx_definitions L' = lx_definitions L \<and> lx_callback L' = lx_callback L"
    by (elim blank_stepE) (auto simp: is_blank_token_def)
  from first_match_Some [OF assms(1) m(1)] obtain rest where
    f: "r \<in> set (lx_definitions L)" "search (td_rx r) (drop (lx_pos L) (lx_input L)) = Some m" "sm_position m = 0"
      "drop (lx_pos L) (lx_input L) = s @ rest" using m(3) by auto
  have "drop (lx_pos L + length s) (lx_input L) = drop (length s) (drop (lx_pos L) (lx_input L))"
    by (simp add: add.commute)
  also have "\<dots> = rest" unfolding f(4) by simp
  finally have "rest = drop (lx_pos L + length s) (lx_input L)" ..
  with f m show ?thesis by (auto simp: sm_length_def blanks_progress_def)
qed

inductive blanks :: "'r search \<Rightarrow> 'r Lexer \<Rightarrow> string \<Rightarrow> 'r Lexer \<Rightarrow> bool" for search where
  none: "blanks search L [] L"
| some: "blanks search L (s @ t) L''" if "blank_step search L s L'" "blanks search L' t L''"

lemma blanks_next: "blanks search L t L' \<Longrightarrow> lexer_next search L = lexer_next search L'"
  by (induction rule: blanks.induct) (simp_all add: blank_step_next)

lemma blanks_moves:
  assumes "search_laws search"
  shows "blanks search L t L' \<Longrightarrow> lx_input L' = lx_input L \<and> lx_definitions L' = lx_definitions L
    \<and> lx_callback L' = lx_callback L \<and> lx_pos L' = lx_pos L + length t
    \<and> drop (lx_pos L) (lx_input L) = t @ drop (lx_pos L') (lx_input L')"
  by (induction rule: blanks.induct) (auto dest: blank_step_moves [OF assms])

definition no_blank :: "'r search \<Rightarrow> 'r Lexer \<Rightarrow> bool" where
  "no_blank search L \<longleftrightarrow> (\<forall>s L'. \<not> blank_step search L s L')"

lemma blanks_end:
  assumes "search_laws search"
  shows "blanks_progress search (lx_definitions L) \<Longrightarrow> \<exists>t L'. blanks search L t L' \<and> no_blank search L'"
proof (induction "length (lx_input L) - lx_pos L" arbitrary: L rule: less_induct)
  case less
  show ?case
  proof (cases "no_blank search L")
    case True
    then show ?thesis using blanks.none by blast
  next
    case False
    then obtain s L' where st: "blank_step search L s L'" by (auto simp: no_blank_def)
    note mv = blank_step_moves [OF assms st]
    have "lx_pos L < length (lx_input L)" using st by (elim blank_stepE) auto
    then have "length (lx_input L') - lx_pos L' < length (lx_input L) - lx_pos L"
      using mv less.prems by (cases s) auto
    from less.hyps [OF this] mv less.prems obtain t L'' where "blanks search L' t L''" "no_blank search L''" by auto
    with st show ?thesis using blanks.some by blast
  qed
qed

text \<open>The last step: the end of the input, no match, or a token.\<close>

definition stops ::
    "'r search \<Rightarrow> 'r Lexer \<Rightarrow> string \<Rightarrow> lexer_exception + Token \<Rightarrow> 'r Lexer \<Rightarrow> bool" where
  "stops search L text r L' \<longleftrightarrow>
     (let rest = drop (lx_pos L) (lx_input L); found = first_match search rest (lx_definitions L)
      in if rest = [] then r = Inr (Token_new\<lparr>tk_token := EOI\<rparr>) \<and> text = [] \<and> L' = L
         else
           (case found of
              None \<Rightarrow>
                r = Inl (LexicalAnalysisException (lx_lineCount L) (lx_pos L - lx_lineStart L + 1))
                \<and> text = [] \<and> L' = L
            | Some (d, m) \<Rightarrow>
                \<not> is_blank_token (td_token d) \<and> text = sm_groups m ! 0
                \<and> r = Inr (inspected L (matched_token L d m))
                \<and> L' = count_lines (matched_token L d m) (L\<lparr>lx_pos := lx_pos L + length text\<rparr>)))"

lemma no_blank_stops:
  assumes "no_blank search L"
  shows "\<exists>text r L'. lexer_next search L = Some (r, L') \<and> stops search L text r L'"
proof (cases "lx_pos L < length (lx_input L)")
  case False
  then show ?thesis by (subst lexer_next.simps) (simp add: stops_def)
next
  case more: True
  let ?f = "first_match search (drop (lx_pos L) (lx_input L)) (lx_definitions L)"
  show ?thesis
  proof (cases ?f)
    case None
    with more show ?thesis by (subst lexer_next.simps) (simp add: stops_def)
  next
    case (Some dm)
    obtain d m where dm: "dm = (d, m)" by (cases dm)
    have "td_token d \<noteq> WHITESPACE" "td_token d \<noteq> NEWLINE"
      using assms more Some blank_step.whitespace [OF more, of search d m] blank_step.newline [OF more, of search d m]
      by (auto simp: no_blank_def dm)
    with more Some show ?thesis
      by (subst lexer_next.simps)
        (simp add: stops_def dm Let_def matched_token_def is_blank_token_def sm_length_def inspected_def
          count_lines_def)
  qed
qed

lemma next_result:
  assumes "search_laws search" "blanks_progress search (lx_definitions L)"
  shows "\<exists>skipped L1 text r L'. blanks search L skipped L1 \<and> lexer_next search L = Some (r, L')
    \<and> stops search L1 text r L'"
proof -
  from blanks_end [OF assms] obtain t L1 where b: "blanks search L t L1" "no_blank search L1" by blast
  from no_blank_stops [OF b(2)] blanks_next [OF b(1)] b(1) show ?thesis by metis
qed

lemma stops_moves:
  assumes "search_laws search" "stops search L text r L'"
  shows "lx_input L' = lx_input L \<and> lx_definitions L' = lx_definitions L \<and> lx_pos L' = lx_pos L + length text
    \<and> drop (lx_pos L) (lx_input L) = text @ drop (lx_pos L') (lx_input L')"
proof (cases "drop (lx_pos L) (lx_input L) = []")
  case True
  with assms(2) show ?thesis by (auto simp: stops_def)
next
  case more: False
  show ?thesis
  proof (cases "first_match search (drop (lx_pos L) (lx_input L)) (lx_definitions L)")
    case None
    with more assms(2) show ?thesis by (auto simp: stops_def)
  next
    case (Some dm)
    obtain d m where dm: "dm = (d, m)" by (cases dm)
    from first_match_Some [OF assms(1) Some [unfolded dm]] obtain rest where
      rest: "drop (lx_pos L) (lx_input L) = sm_groups m ! 0 @ rest" by blast
    then have "drop (lx_pos L + length (sm_groups m ! 0)) (lx_input L) = rest"
      by (metis add.commute append_eq_conv_conj drop_drop)
    with more Some assms(2) rest show ?thesis by (auto simp: stops_def dm count_lines_def Let_def)
  qed
qed


section \<open>Lines\<close>

text \<open>
  What the definitions must satisfy for the lines to be counted right: a newline token has one
  newline, whitespace has none, and the value of another token keeps those of its match.
\<close>

definition line_laws :: "'r search \<Rightarrow> 'r TokenDefinition list \<Rightarrow> bool" where
  "line_laws search ds \<longleftrightarrow>
     (\<forall>r \<in> set ds. \<forall>s m. search (td_rx r) s = Some m \<and> sm_position m = 0 \<longrightarrow>
        newlines (sm_groups m ! 0) =
          (if td_token r = NEWLINE then 1 else if td_token r = WHITESPACE then 0
           else newlines (if length (sm_groups m) > 1 then sm_groups m ! 1 else sm_groups m ! 0)))"

definition lines_ok :: "'r Lexer \<Rightarrow> bool" where
  "lines_ok L \<longleftrightarrow> lx_lineStart L \<le> lx_pos L \<and> lx_pos L \<le> length (lx_input L)
     \<and> lx_lineCount L = 1 + of_nat (newlines (take (lx_pos L) (lx_input L)))"

lemma newlines_append [simp]: "newlines (s @ t) = newlines s + newlines t"
  by (simp add: newlines_def)

lemma drop_prefix_length:
  assumes "drop p s = t @ u" "p \<le> length s"
  shows "p + length t \<le> length s"
proof -
  have "length s - p = length t + length u" using arg_cong [OF assms(1), of length] by simp
  with assms(2) show ?thesis by arith
qed

lemma take_further:
  assumes "drop p s = t @ drop (p + length t) s"
  shows "take (p + length t) s = take p s @ t"
  by (metis append_eq_conv_conj assms take_add)

lemma line_lawsD:
  assumes "search_laws search" "line_laws search ds" "first_match search s ds = Some (r, m)"
  shows "newlines (sm_groups m ! 0) =
    (if td_token r = NEWLINE then 1 else if td_token r = WHITESPACE then 0
     else newlines (if length (sm_groups m) > 1 then sm_groups m ! 1 else sm_groups m ! 0))"
  using first_match_Some [OF assms(1,3)] assms(2) unfolding line_laws_def by blast

lemma blank_step_lines:
  assumes "search_laws search" "line_laws search (lx_definitions L)" "lines_ok L" "blank_step search L s L'"
  shows "lines_ok L'"
proof -
  note mv = blank_step_moves [OF assms(1,4)]
  then have tk: "take (lx_pos L') (lx_input L') = take (lx_pos L) (lx_input L) @ s"
    using take_further [of "lx_pos L" "lx_input L" s] by simp
  have len: "lx_pos L' \<le> length (lx_input L')"
    using mv assms(3) drop_prefix_length [of "lx_pos L" "lx_input L" s] by (simp add: lines_ok_def)
  from assms(4) show ?thesis
  proof cases
    case (whitespace m r)
    then have "newlines s = 0" using line_lawsD [OF assms(1,2) whitespace(4)] by (simp add: NEWLINE_def WHITESPACE_def)
    with tk len assms(3) whitespace show ?thesis by (simp add: lines_ok_def)
  next
    case (newline m r)
    then have "newlines s = 1" using line_lawsD [OF assms(1,2) newline(4)] by simp
    with tk len assms(3) newline show ?thesis by (simp add: lines_ok_def)
  qed
qed

lemma blanks_lines:
  assumes "search_laws search"
  shows "blanks search L t L' \<Longrightarrow> line_laws search (lx_definitions L) \<Longrightarrow> lines_ok L \<Longrightarrow> lines_ok L'"
proof (induction rule: blanks.induct)
  case (some L s L' t L'')
  then show ?case using blank_step_moves [OF assms some(1)] blank_step_lines [OF assms _ _ some(1)] by simp
qed

lemma stops_lines:
  assumes "search_laws search" "line_laws search (lx_definitions L)" "lines_ok L" "stops search L text r L'"
  shows "lines_ok L'"
proof -
  note mv = stops_moves [OF assms(1,4)]
  then have tk: "take (lx_pos L') (lx_input L') = take (lx_pos L) (lx_input L) @ text"
    using take_further [of "lx_pos L" "lx_input L" "text"] by simp
  have len: "lx_pos L' \<le> length (lx_input L')"
    using mv assms(3) drop_prefix_length [of "lx_pos L" "lx_input L" "text"] by (simp add: lines_ok_def)
  show ?thesis
  proof (cases "L' = L")
    case False
    with assms(4) obtain d m where
      f: "first_match search (drop (lx_pos L) (lx_input L)) (lx_definitions L) = Some (d, m)"
        "\<not> is_blank_token (td_token d)" "text = sm_groups m ! 0"
        "L' = count_lines (matched_token L d m) (L\<lparr>lx_pos := lx_pos L + length text\<rparr>)"
      by (auto simp: stops_def Let_def split: if_splits option.splits)
    have "newlines text = newlines (tk_value (matched_token L d m))"
      using line_lawsD [OF assms(1,2) f(1)] f(2,3) by (simp add: is_blank_token_def matched_token_def)
    with f(4) tk len assms(3) mv show ?thesis by (auto simp: lines_ok_def count_lines_def)
  qed (use assms(3) in simp)
qed


section \<open>A small search\<close>

text \<open>Expressions that are a set of characters, once or repeated.\<close>

definition class_search :: "(string \<times> bool) search" where
  "class_search = (\<lambda>(cs, many) s.
     (let rest = dropWhile (\<lambda>c. c \<notin> set cs) s
      in if rest = [] then None
         else Some \<lparr>sm_position = length (takeWhile (\<lambda>c. c \<notin> set cs) s),
                    sm_groups = [if many then takeWhile (\<lambda>c. c \<in> set cs) rest else [hd rest]]\<rparr>))"

definition class_regex :: "string \<Rightarrow> (string \<times> bool) option" where
  "class_regex r =
     (if r = newline_expression then Some ([CHR 0x0D, CHR 0x0A], False)
      else if r = whitespace_expression then Some ([CHR '' '', CHR 0x09, CHR 0x0C], True)
      else if r = ''[a-z]+'' then Some (''abcdefghijklmnopqrstuvwxyz'', True)
      else None)"

definition sample_definitions :: "(string \<times> bool) TokenDefinition list" where
  "sample_definitions =
     [\<lparr>td_name = ''newline'', td_rx = ([CHR 0x0D, CHR 0x0A], False), td_token = NEWLINE\<rparr>,
      \<lparr>td_name = ''whitespace'', td_rx = ([CHR '' '', CHR 0x09, CHR 0x0C], True), td_token = WHITESPACE\<rparr>,
      \<lparr>td_name = ''word'', td_rx = (''abcdefghijklmnopqrstuvwxyz'', True), td_token = 1\<rparr>]"

definition sample_lexer :: "string \<Rightarrow> (string \<times> bool) Lexer option" where
  "sample_lexer input =
     do {
       L \<leftarrow> Lexer_new class_regex None;
       L \<leftarrow> addDefinition class_regex ''word'' ''[a-z]+'' 1 L;
       Some (setInput input L)
     }"

lemma class_search_Some:
  assumes "class_search (cs, many) s = Some m"
  obtains r rest where "drop (sm_position m) s = r @ rest" "sm_groups m = [r]" "r \<noteq> []" "set r \<subseteq> set cs"
    "\<not> many \<longrightarrow> length r = 1"
proof -
  define t where "t = dropWhile (\<lambda>c. c \<notin> set cs) s"
  have t: "t \<noteq> []" "m = \<lparr>sm_position = length (takeWhile (\<lambda>c. c \<notin> set cs) s),
      sm_groups = [if many then takeWhile (\<lambda>c. c \<in> set cs) t else [hd t]]\<rparr>"
    using assms by (auto simp: class_search_def t_def Let_def split: if_splits)
  have d: "drop (sm_position m) s = t" unfolding t(2) t_def by (simp add: dropWhile_eq_drop)
  have h: "hd t \<in> set cs" using t(1) hd_dropWhile [of "\<lambda>c. c \<notin> set cs" s] by (simp add: t_def)
  let ?r = "if many then takeWhile (\<lambda>c. c \<in> set cs) t else [hd t]"
  have "t = ?r @ (if many then dropWhile (\<lambda>c. c \<in> set cs) t else tl t)" using t(1) by simp
  moreover have "?r \<noteq> []" using h t(1) by (cases t) simp_all
  moreover have "set ?r \<subseteq> set cs" using h by (auto dest: set_takeWhileD)
  ultimately show thesis using that d t(2) by simp
qed

lemma class_search_laws: "search_laws class_search"
  unfolding search_laws_def by (auto elim!: class_search_Some)

lemma sample_laws:
  "blanks_progress class_search sample_definitions" "line_laws class_search sample_definitions"
proof -
  show "blanks_progress class_search sample_definitions"
    unfolding blanks_progress_def sample_definitions_def by (auto elim!: class_search_Some)
  have n: "newlines r = length r" if "set r \<subseteq> {CHR 0x0D, CHR 0x0A}" for r
    using that by (induction r) (auto simp: newlines_def is_newline_def)
  have w: "newlines r = 0" if "set r \<subseteq> {CHR '' '', CHR 0x09, CHR 0x0C}" for r
    using that by (induction r) (auto simp: newlines_def is_newline_def)
  show "line_laws class_search sample_definitions"
    unfolding line_laws_def sample_definitions_def
    by (auto simp: NEWLINE_def WHITESPACE_def n w elim!: class_search_Some)
qed

lemma sample_lexer_def': "sample_lexer input = Some
    \<lparr>lx_definitions = sample_definitions, lx_callback = None, lx_input = input, lx_pos = 0,
     lx_lineCount = 1, lx_lineStart = 0\<rparr>"
  by (simp add: sample_lexer_def Lexer_new_def addDefinition_def class_regex_def setInput_def
      sample_definitions_def newline_expression_def whitespace_expression_def)

end
