(* ===== verification/Command_Line.thy ===== *)
theory Command_Line
  imports Strings "HOL-Library.Word" "HOL-Library.Monad_Syntax"
begin

text \<open>
  src/acatl_application/command_line_options.h and command_line_options.cpp: options, option groups
  and the command line. The library argtable3 is a parameter: the functions that make an entry of
  its table, check a table and parse the arguments into it. Options are shared objects and each
  points to one entry of one table, so options and entries are kept in stores, and an address that
  is not valid any more gives no value (None).
\<close>

section \<open>Converters\<close>

text \<open>
  The \<open>OptionConverter\<close>s of the integral types: \<open>stoul\<close> and \<open>stoull\<close> with 64 bits, \<open>stoi\<close> with 32
  and \<open>stol\<close> with 64, and a cast to the type that is asked for. Signed results are words too.
\<close>

definition std_signed :: "nat \<Rightarrow> string \<Rightarrow> number_error + int" where
  "std_signed bits s =
     (let s = dropWhile is_space s;
          negative = (s \<noteq> [] \<and> hd s = CHR ''-'');
          s = (if s \<noteq> [] \<and> hd s \<in> {CHR ''+'', CHR ''-''} then tl s else s);
          ds = takeWhile is_digit s;
          v = (if negative then - int (digits_value ds) else int (digits_value ds))
      in if ds = [] then Inl invalid_argument
         else if v < - (2 ^ (bits - 1)) \<or> 2 ^ (bits - 1) \<le> v then Inl out_of_range
         else Inr v)"

definition convert_uint8 :: "string \<Rightarrow> number_error + 8 word" where
  "convert_uint8 s = map_sum (\<lambda>e. e) of_nat (std_stoul s)"

definition convert_uint16 :: "string \<Rightarrow> number_error + 16 word" where
  "convert_uint16 s = map_sum (\<lambda>e. e) of_nat (std_stoul s)"

definition convert_uint32 :: "string \<Rightarrow> number_error + 32 word" where
  "convert_uint32 s = map_sum (\<lambda>e. e) of_nat (std_stoul s)"

definition convert_uint64 :: "string \<Rightarrow> number_error + 64 word" where
  "convert_uint64 s = map_sum (\<lambda>e. e) of_nat (std_stoul s)"

definition convert_int8 :: "string \<Rightarrow> number_error + 8 word" where
  "convert_int8 s = map_sum (\<lambda>e. e) of_int (std_signed 32 s)"

definition convert_int16 :: "string \<Rightarrow> number_error + 16 word" where
  "convert_int16 s = map_sum (\<lambda>e. e) of_int (std_signed 32 s)"

definition convert_int32 :: "string \<Rightarrow> number_error + 32 word" where
  "convert_int32 s = map_sum (\<lambda>e. e) of_int (std_signed 64 s)"

definition convert_int64 :: "string \<Rightarrow> number_error + 64 word" where
  "convert_int64 s = map_sum (\<lambda>e. e) of_nat (std_stoul s)"

definition convert_string :: "string \<Rightarrow> string" where
  "convert_string s = s"


section \<open>The library argtable3\<close>

record arg =
  a_shortopts :: "string option"
  a_longopts :: "string option"
  a_count :: int
  a_sval :: "string list"

record argtable =
  arg_litn :: "string option \<Rightarrow> string option \<Rightarrow> int \<Rightarrow> int \<Rightarrow> string \<Rightarrow> arg"
  arg_strn :: "string option \<Rightarrow> string option \<Rightarrow> string \<Rightarrow> int \<Rightarrow> int \<Rightarrow> string \<Rightarrow> arg"
  arg_nullcheck :: "arg list \<Rightarrow> int"
  arg_parse :: "string list \<Rightarrow> arg list \<Rightarrow> int \<times> arg list"


section \<open>Options\<close>

datatype option_kind = LiteralOption | TypedOption string

record OptionBase =
  ob_kind :: option_kind
  ob_shortOpt :: string
  ob_longOpt :: string
  ob_min :: int
  ob_max :: int
  ob_desc :: string
  ob_arg :: "nat option"

record cl_store =
  cs_options :: "OptionBase list"
  cs_args :: "arg option list"

definition OptionBase_new :: "option_kind \<Rightarrow> string \<Rightarrow> string \<Rightarrow> int \<Rightarrow> int \<Rightarrow> string \<Rightarrow> OptionBase" where
  "OptionBase_new kind shortOpt longOpt mn mx descr =
     \<lparr>ob_kind = kind, ob_shortOpt = shortOpt, ob_longOpt = longOpt, ob_min = mn, ob_max = mx,
      ob_desc = descr, ob_arg = None\<rparr>"

text \<open>The constructors of \<open>Option\<close>: a new object, with 0 and 1 for the omitted bounds.\<close>

definition new_option :: "OptionBase \<Rightarrow> cl_store \<Rightarrow> nat \<times> cl_store" where
  "new_option opt st = (length (cs_options st), st\<lparr>cs_options := cs_options st @ [opt]\<rparr>)"

definition Option_literal_bounds :: "string \<Rightarrow> string \<Rightarrow> int \<Rightarrow> int \<Rightarrow> string \<Rightarrow> cl_store \<Rightarrow> nat \<times> cl_store" where
  "Option_literal_bounds shortOpt longOpt mn mx descr =
     new_option (OptionBase_new LiteralOption shortOpt longOpt mn mx descr)"

definition Option_literal :: "string \<Rightarrow> string \<Rightarrow> string \<Rightarrow> cl_store \<Rightarrow> nat \<times> cl_store" where
  "Option_literal shortOpt longOpt descr =
     new_option (OptionBase_new LiteralOption shortOpt longOpt 0 1 descr)"

definition Option_typed_bounds ::
    "string \<Rightarrow> string \<Rightarrow> string \<Rightarrow> int \<Rightarrow> int \<Rightarrow> string \<Rightarrow> cl_store \<Rightarrow> nat \<times> cl_store" where
  "Option_typed_bounds shortOpt longOpt argument mn mx descr =
     new_option (OptionBase_new (TypedOption argument) shortOpt longOpt mn mx descr)"

definition Option_typed :: "string \<Rightarrow> string \<Rightarrow> string \<Rightarrow> string \<Rightarrow> cl_store \<Rightarrow> nat \<times> cl_store" where
  "Option_typed shortOpt longOpt argument descr =
     new_option (OptionBase_new (TypedOption argument) shortOpt longOpt 0 1 descr)"

text \<open>\<open>_shortOpt.size() ? _shortOpt.c_str() : nullptr\<close>\<close>

definition name_or_null :: "string \<Rightarrow> string option" where
  "name_or_null s = (if s \<noteq> [] then Some s else None)"

definition LiteralOption_entry :: "argtable \<Rightarrow> OptionBase \<Rightarrow> arg" where
  "LiteralOption_entry at opt =
     arg_litn at (name_or_null (ob_shortOpt opt)) (name_or_null (ob_longOpt opt)) (ob_min opt) (ob_max opt)
       (ob_desc opt)"

definition TypedOption_entry :: "argtable \<Rightarrow> string \<Rightarrow> OptionBase \<Rightarrow> arg" where
  "TypedOption_entry at argument opt =
     arg_strn at (name_or_null (ob_shortOpt opt)) (name_or_null (ob_longOpt opt)) argument (ob_min opt)
       (ob_max opt) (ob_desc opt)"

text \<open>The virtual \<open>add\<close>: a new entry, which the option points to from now on.\<close>

definition option_add :: "argtable \<Rightarrow> nat \<Rightarrow> cl_store \<Rightarrow> nat \<times> cl_store" where
  "option_add at i st =
     (let opt = cs_options st ! i;
          entry = (case ob_kind opt of
              LiteralOption \<Rightarrow> LiteralOption_entry at opt
            | TypedOption argument \<Rightarrow> TypedOption_entry at argument opt);
          a = length (cs_args st)
      in (a, st\<lparr>cs_args := cs_args st @ [Some entry],
                cs_options := (cs_options st)[i := opt\<lparr>ob_arg := Some a\<rparr>]\<rparr>))"

text \<open>\<open>_arg->...\<close> and \<open>_hdr->...\<close>\<close>

definition arg_at :: "nat \<Rightarrow> cl_store \<Rightarrow> arg option" where
  "arg_at a st = (if a < length (cs_args st) then cs_args st ! a else None)"

definition option_arg :: "nat \<Rightarrow> cl_store \<Rightarrow> arg option" where
  "option_arg i st = Option.bind (ob_arg (cs_options st ! i)) (\<lambda>a. arg_at a st)"

definition option_count :: "nat \<Rightarrow> cl_store \<Rightarrow> int option" where
  "option_count i st = map_option a_count (option_arg i st)"

datatype bad_option = BadOption string

text \<open>\<open>sval\<close> has room for the maximal number of arguments; a read beyond it is undefined.\<close>

definition TypedOption_value :: "nat \<Rightarrow> int \<Rightarrow> cl_store \<Rightarrow> (bad_option + string) option" where
  "TypedOption_value i idx st =
     do {
       arg \<leftarrow> option_arg i st;
       (if idx > a_count arg then Some (Inl (BadOption ''Index out of range''))
        else if 0 \<le> idx \<and> nat idx < length (a_sval arg) then Some (Inr (a_sval arg ! nat idx))
        else None)
     }"

definition OptionWrapper_value :: "nat \<Rightarrow> int \<Rightarrow> cl_store \<Rightarrow> (bad_option + string) option" where
  "OptionWrapper_value i idx st =
     (case ob_kind (cs_options st ! i) of
        LiteralOption \<Rightarrow> Some (Inl (BadOption ''Option is not of correct type''))
      | TypedOption argument \<Rightarrow> TypedOption_value i idx st)"

definition OptionWrapper_count :: "nat \<Rightarrow> cl_store \<Rightarrow> int option" where
  "OptionWrapper_count i st = option_count i st"


section \<open>Option groups\<close>

text \<open>The entry \<open>arg_end\<close> of a table only collects the messages of \<open>arg_print_errors\<close>.\<close>

record OptionGroup =
  og_name :: string
  og_options :: "nat list"
  og_argtable :: "nat list"

fun add_options :: "argtable \<Rightarrow> nat list \<Rightarrow> cl_store \<Rightarrow> nat list \<times> cl_store" where
  "add_options at [] st = ([], st)"
| "add_options at (i # is) st =
     (case option_add at i st of
        (a, st) \<Rightarrow> (case add_options at is st of (as, st) \<Rightarrow> (a # as, st)))"

definition OptionGroup_new :: "argtable \<Rightarrow> string \<Rightarrow> nat list \<Rightarrow> cl_store \<Rightarrow> OptionGroup \<times> cl_store" where
  "OptionGroup_new at name options st =
     (case add_options at options st of
        (argtable, st) \<Rightarrow> (\<lparr>og_name = name, og_options = options, og_argtable = argtable\<rparr>, st))"

definition OptionGroup_copy :: "argtable \<Rightarrow> OptionGroup \<Rightarrow> cl_store \<Rightarrow> OptionGroup \<times> cl_store" where
  "OptionGroup_copy at rhs st =
     (case add_options at (og_options rhs) st of
        (argtable, st) \<Rightarrow>
          (\<lparr>og_name = og_name rhs, og_options = og_options rhs, og_argtable = argtable\<rparr>, st))"

definition OptionGroup_destroy :: "OptionGroup \<Rightarrow> cl_store \<Rightarrow> cl_store" where
  "OptionGroup_destroy g st = st\<lparr>cs_args := fold (\<lambda>a args. args[a := None]) (og_argtable g) (cs_args st)\<rparr>"

fun read_table :: "nat list \<Rightarrow> cl_store \<Rightarrow> arg list option" where
  "read_table [] st = Some []"
| "read_table (a # as) st =
     do { arg \<leftarrow> arg_at a st; args \<leftarrow> read_table as st; Some (arg # args) }"

fun write_table :: "nat list \<Rightarrow> arg list \<Rightarrow> cl_store \<Rightarrow> cl_store" where
  "write_table (a # as) (arg # args) st =
     write_table as args (st\<lparr>cs_args := (cs_args st)[a := Some arg]\<rparr>)"
| "write_table _ _ st = st"

definition OptionGroup_parse ::
    "argtable \<Rightarrow> string list \<Rightarrow> OptionGroup \<Rightarrow> cl_store \<Rightarrow> (bool \<times> cl_store) option" where
  "OptionGroup_parse at args g st =
     (if args = [] then Some (False, st)
      else do {
        table \<leftarrow> read_table (og_argtable g) st;
        (if arg_nullcheck at table \<noteq> 0 then Some (False, st)
         else
           (case arg_parse at args table of
              (nerrors, table) \<Rightarrow>
                (let st = write_table (og_argtable g) table st
                 in if nerrors > 0 then Some (False, st) else Some (True, st))))
      })"

definition has_name :: "string \<Rightarrow> arg \<Rightarrow> bool" where
  "has_name name arg \<longleftrightarrow> a_longopts arg = Some name \<or> a_shortopts arg = Some name"

definition is_untagged :: "arg \<Rightarrow> bool" where
  "is_untagged arg \<longleftrightarrow> a_longopts arg = None \<and> a_shortopts arg = None"

text \<open>The loops over the options of a group: by name, and by the number among the untagged.\<close>

fun find_named :: "string \<Rightarrow> nat list \<Rightarrow> cl_store \<Rightarrow> nat option option" where
  "find_named name [] st = Some None"
| "find_named name (i # is) st =
     do { arg \<leftarrow> option_arg i st; (if has_name name arg then Some (Some i) else find_named name is st) }"

fun find_untagged :: "int \<Rightarrow> int \<Rightarrow> nat list \<Rightarrow> cl_store \<Rightarrow> nat option option" where
  "find_untagged index tmp [] st = Some None"
| "find_untagged index tmp (i # is) st =
     do {
       arg \<leftarrow> option_arg i st;
       (if is_untagged arg
        then (if tmp = index then Some (Some i) else find_untagged index (tmp + 1) is st)
        else find_untagged index tmp is st)
     }"

fun count_untagged :: "nat list \<Rightarrow> cl_store \<Rightarrow> int option" where
  "count_untagged [] st = Some 0"
| "count_untagged (i # is) st =
     do {
       arg \<leftarrow> option_arg i st;
       n \<leftarrow> count_untagged is st;
       Some (if is_untagged arg then n + 1 else n)
     }"

definition OptionGroup_count :: "OptionGroup \<Rightarrow> string \<Rightarrow> cl_store \<Rightarrow> int option" where
  "OptionGroup_count g name st =
     do { r \<leftarrow> find_named name (og_options g) st;
          (case r of None \<Rightarrow> Some 0 | Some i \<Rightarrow> option_count i st) }"

definition OptionGroup_option :: "OptionGroup \<Rightarrow> string \<Rightarrow> cl_store \<Rightarrow> (bad_option + nat) option" where
  "OptionGroup_option g name st =
     do { r \<leftarrow> find_named name (og_options g) st;
          Some (case r of None \<Rightarrow> Inl (BadOption (''Option '' @ [CHR 0x27] @ name @ [CHR 0x27] @ '' not found''))
                | Some i \<Rightarrow> Inr i) }"

definition OptionGroup_untaggedOptionsCount :: "OptionGroup \<Rightarrow> cl_store \<Rightarrow> int option" where
  "OptionGroup_untaggedOptionsCount g st = count_untagged (og_options g) st"

definition OptionGroup_count_at :: "OptionGroup \<Rightarrow> int \<Rightarrow> cl_store \<Rightarrow> int option" where
  "OptionGroup_count_at g index st =
     do { r \<leftarrow> find_untagged index 0 (og_options g) st;
          (case r of None \<Rightarrow> Some 0 | Some i \<Rightarrow> option_count i st) }"

definition OptionGroup_untaggedOption :: "OptionGroup \<Rightarrow> int \<Rightarrow> cl_store \<Rightarrow> (bad_option + nat) option" where
  "OptionGroup_untaggedOption g index st =
     do { r \<leftarrow> find_untagged index 0 (og_options g) st;
          Some (case r of None \<Rightarrow> Inl (BadOption (''Untagged option with index '' @ [CHR 0x27] @ print_int index @ [CHR 0x27] @ '' not found'')) | Some i \<Rightarrow> Inr i) }"


section \<open>The command line\<close>

record CommandLineOptions =
  cl_program :: string
  cl_options :: "OptionGroup list"
  cl_activeGroup :: "nat option"

fun copy_groups :: "argtable \<Rightarrow> OptionGroup list \<Rightarrow> cl_store \<Rightarrow> OptionGroup list \<times> cl_store" where
  "copy_groups at [] st = ([], st)"
| "copy_groups at (g # gs) st =
     (case OptionGroup_copy at g st of
        (g', st) \<Rightarrow> (case copy_groups at gs st of (gs', st) \<Rightarrow> (g' # gs', st)))"

text \<open>
  \<open>push_back\<close> of a vector of groups: the new group is copied, and if the vector grows, the others
  are copied to the new storage and destroyed in the old one. When it grows is a parameter.
\<close>

definition push_group ::
    "argtable \<Rightarrow> (nat \<Rightarrow> bool) \<Rightarrow> OptionGroup \<Rightarrow> OptionGroup list \<times> cl_store \<Rightarrow> OptionGroup list \<times> cl_store" where
  "push_group at grows g = (\<lambda>(gs, st).
     (case OptionGroup_copy at g st of
        (g', st) \<Rightarrow>
          (if grows (length gs)
           then (case copy_groups at gs st of (gs', st) \<Rightarrow> (gs' @ [g'], fold OptionGroup_destroy gs st))
           else (gs @ [g'], st))))"

definition CommandLineOptions_new ::
    "argtable \<Rightarrow> (nat \<Rightarrow> bool) \<Rightarrow> string \<Rightarrow> OptionGroup list \<Rightarrow> cl_store \<Rightarrow> CommandLineOptions \<times> cl_store" where
  "CommandLineOptions_new at grows program groups st =
     (case fold (push_group at grows) groups ([], st) of
        (gs, st) \<Rightarrow> (\<lparr>cl_program = program, cl_options = gs, cl_activeGroup = None\<rparr>, st))"

fun parse_groups ::
    "argtable \<Rightarrow> string list \<Rightarrow> nat \<Rightarrow> OptionGroup list \<Rightarrow> cl_store \<Rightarrow> (nat option \<times> cl_store) option" where
  "parse_groups at args i [] st = Some (None, st)"
| "parse_groups at args i (g # gs) st =
     do {
       (ok, st) \<leftarrow> OptionGroup_parse at args g st;
       (if ok then Some (Some i, st) else parse_groups at args (Suc i) gs st)
     }"

definition CommandLineOptions_parse ::
    "argtable \<Rightarrow> string list \<Rightarrow> CommandLineOptions \<Rightarrow> cl_store \<Rightarrow> (bool \<times> CommandLineOptions \<times> cl_store) option" where
  "CommandLineOptions_parse at args c st =
     (let c = c\<lparr>cl_activeGroup := None\<rparr>
      in if args = [] then Some (False, c, st)
         else do {
           (active, st) \<leftarrow> parse_groups at args 0 (cl_options c) st;
           Some (active \<noteq> None, c\<lparr>cl_activeGroup := active\<rparr>, st)
         })"

text \<open>The accessors ask the group that was parsed.\<close>

definition in_active_group ::
    "CommandLineOptions \<Rightarrow> (OptionGroup \<Rightarrow> (bad_option + 'a) option) \<Rightarrow> (bad_option + 'a) option" where
  "in_active_group c f =
     (case cl_activeGroup c of
        None \<Rightarrow> Some (Inl (BadOption ''The commandline wasn't parsed or parsed with error''))
      | Some i \<Rightarrow> f (cl_options c ! i))"

definition CommandLineOptions_count :: "CommandLineOptions \<Rightarrow> string \<Rightarrow> cl_store \<Rightarrow> (bad_option + int) option" where
  "CommandLineOptions_count c name st =
     in_active_group c (\<lambda>g. map_option Inr (OptionGroup_count g name st))"

definition CommandLineOptions_count_at :: "CommandLineOptions \<Rightarrow> int \<Rightarrow> cl_store \<Rightarrow> (bad_option + int) option" where
  "CommandLineOptions_count_at c index st =
     in_active_group c (\<lambda>g. map_option Inr (OptionGroup_count_at g index st))"

definition CommandLineOptions_untaggedOptionsCount ::
    "CommandLineOptions \<Rightarrow> cl_store \<Rightarrow> (bad_option + int) option" where
  "CommandLineOptions_untaggedOptionsCount c st =
     in_active_group c (\<lambda>g. map_option Inr (OptionGroup_untaggedOptionsCount g st))"

definition CommandLineOptions_option ::
    "CommandLineOptions \<Rightarrow> string \<Rightarrow> cl_store \<Rightarrow> (bad_option + nat) option" where
  "CommandLineOptions_option c name st = in_active_group c (\<lambda>g. OptionGroup_option g name st)"

definition CommandLineOptions_untaggedOption ::
    "CommandLineOptions \<Rightarrow> int \<Rightarrow> cl_store \<Rightarrow> (bad_option + nat) option" where
  "CommandLineOptions_untaggedOption c index st =
     in_active_group c (\<lambda>g. OptionGroup_untaggedOption g index st)"

definition CommandLineOptions_groupName :: "CommandLineOptions \<Rightarrow> (bad_option + string) option" where
  "CommandLineOptions_groupName c = in_active_group c (\<lambda>g. Some (Inr (og_name g)))"

end
