(* ===== verification/Command_Line_Facts.thy ===== *)
theory Command_Line_Facts
  imports Command_Line
begin

text \<open>
  What the command line promises: after construction every group of the command line owns the
  entries its options point to, if no option is in two groups, and these entries are as the options were
  declared; parsing tries the tables of the groups in their order, and then the counts are those
  that the library stored in the first table that it accepted.
\<close>

section \<open>Groups that own their entries\<close>

definition owns :: "cl_store \<Rightarrow> nat \<Rightarrow> OptionGroup \<Rightarrow> bool" where
  "owns st lo g \<longleftrightarrow>
     distinct (og_argtable g) \<and> length (og_argtable g) = length (og_options g)
     \<and> (\<forall>k < length (og_options g).
          og_options g ! k < length (cs_options st)
          \<and> ob_arg (cs_options st ! (og_options g ! k)) = Some (og_argtable g ! k)
          \<and> lo \<le> og_argtable g ! k \<and> og_argtable g ! k < length (cs_args st)
          \<and> cs_args st ! (og_argtable g ! k) \<noteq> None)"

text \<open>What \<open>add_options\<close> leaves alone.\<close>

definition extends :: "cl_store \<Rightarrow> nat set \<Rightarrow> cl_store \<Rightarrow> bool" where
  "extends st X st' \<longleftrightarrow>
     length (cs_options st') = length (cs_options st) \<and> length (cs_args st) \<le> length (cs_args st')
     \<and> (\<forall>i. i \<notin> X \<longrightarrow> cs_options st' ! i = cs_options st ! i)
     \<and> (\<forall>a < length (cs_args st). cs_args st' ! a = cs_args st ! a)"

lemma extends_refl [simp]: "extends st X st"
  by (simp add: extends_def)

lemma extends_trans: "extends st X st' \<Longrightarrow> extends st' Y st'' \<Longrightarrow> extends st (X \<union> Y) st''"
  by (auto simp: extends_def)

lemma owns_extends:
  assumes "owns st lo g" "extends st X st'" "set (og_options g) \<inter> X = {}"
  shows "owns st' lo g"
proof -
  have "og_options g ! k \<notin> X" if "k < length (og_options g)" for k
    using that assms(3) nth_mem [OF that] by blast
  with assms(1,2) show ?thesis unfolding owns_def extends_def by force
qed

lemma add_options_facts:
  "add_options at is st = (as, st') \<Longrightarrow> distinct is \<Longrightarrow> (\<And>i. i \<in> set is \<Longrightarrow> i < length (cs_options st)) \<Longrightarrow>
   as = [length (cs_args st) ..< length (cs_args st) + length is] \<and> extends st (set is) st'
   \<and> length (cs_args st') = length (cs_args st) + length is
   \<and> (\<forall>k < length is. ob_arg (cs_options st' ! (is ! k)) = Some (length (cs_args st) + k)
        \<and> cs_args st' ! (length (cs_args st) + k) \<noteq> None)"
proof (induction "is" arbitrary: st as)
  case Nil
  then show ?case by simp
next
  case (Cons i "is")
  obtain st1 where st1: "option_add at i st = (length (cs_args st), st1)"
    by (cases "option_add at i st") (auto simp: option_add_def Let_def)
  then have s1: "length (cs_options st1) = length (cs_options st)"
    "length (cs_args st1) = Suc (length (cs_args st))" "cs_args st1 ! length (cs_args st) \<noteq> None"
    "extends st {i} st1"
    "ob_arg (cs_options st1 ! i) = Some (length (cs_args st))"
    using Cons.prems(3) [of i] by (auto simp: option_add_def Let_def extends_def nth_append)
  obtain bs where bs: "add_options at is st1 = (bs, st')" "as = length (cs_args st) # bs"
    using Cons.prems(1) st1 by (auto split: prod.splits)
  have "bs = [length (cs_args st1) ..< length (cs_args st1) + length is] \<and> extends st1 (set is) st'
   \<and> length (cs_args st') = length (cs_args st1) + length is
   \<and> (\<forall>k < length is. ob_arg (cs_options st' ! (is ! k)) = Some (length (cs_args st1) + k)
        \<and> cs_args st' ! (length (cs_args st1) + k) \<noteq> None)"
    by (rule Cons.IH [OF bs(1)]) (use Cons.prems(2,3) s1(1) in auto)
  then have IH: "bs = [length (cs_args st1) ..< length (cs_args st1) + length is]" "extends st1 (set is) st'"
    "length (cs_args st') = length (cs_args st1) + length is"
    "\<And>k. k < length is \<Longrightarrow> ob_arg (cs_options st' ! (is ! k)) = Some (length (cs_args st1) + k)
        \<and> cs_args st' ! (length (cs_args st1) + k) \<noteq> None" by blast+
  have "extends st ({i} \<union> set is) st'" by (rule extends_trans [OF s1(4) IH(2)])
  moreover have "ob_arg (cs_options st' ! ((i # is) ! k)) = Some (length (cs_args st) + k)
      \<and> cs_args st' ! (length (cs_args st) + k) \<noteq> None" if "k < length (i # is)" for k
  proof (cases k)
    case 0
    have "i \<notin> set is" using Cons.prems(2) by simp
    with IH(2) s1 have "cs_options st' ! i = cs_options st1 ! i"
      "cs_args st' ! length (cs_args st) = cs_args st1 ! length (cs_args st)" by (simp_all add: extends_def)
    with 0 s1 show ?thesis by simp
  next
    case (Suc m)
    with that IH(4) [of m] s1(2) show ?thesis by simp
  qed
  moreover have "[length (cs_args st) ..< length (cs_args st) + length (i # is)] =
      length (cs_args st) # [Suc (length (cs_args st)) ..< length (cs_args st) + length (i # is)]"
    by (rule upt_conv_Cons) simp
  ultimately show ?case using bs(2) IH(1,3) s1(2) by simp
qed

definition proper :: "cl_store \<Rightarrow> OptionGroup \<Rightarrow> bool" where
  "proper st g \<longleftrightarrow> distinct (og_options g) \<and> (\<forall>i \<in> set (og_options g). i < length (cs_options st))"

lemma proper_extends: "proper st g \<Longrightarrow> extends st X st' \<Longrightarrow> proper st' g"
  by (simp add: proper_def extends_def)

lemma copy_facts:
  assumes "OptionGroup_copy at g st = (g', st')" "proper st g"
  shows "og_name g' = og_name g \<and> og_options g' = og_options g \<and> extends st (set (og_options g)) st'
    \<and> owns st' (length (cs_args st)) g'"
proof -
  obtain as where as: "add_options at (og_options g) st = (as, st')"
    "g' = \<lparr>og_name = og_name g, og_options = og_options g, og_argtable = as\<rparr>"
    using assms(1) by (auto simp: OptionGroup_copy_def split: prod.splits)
  have "as = [length (cs_args st) ..< length (cs_args st) + length (og_options g)]"
    "extends st (set (og_options g)) st'"
    "length (cs_args st') = length (cs_args st) + length (og_options g)"
    "\<And>k. k < length (og_options g) \<Longrightarrow> ob_arg (cs_options st' ! (og_options g ! k)) = Some (length (cs_args st) + k)
        \<and> cs_args st' ! (length (cs_args st) + k) \<noteq> None"
    using add_options_facts [OF as(1)] assms(2) by (auto simp: proper_def)
  then show ?thesis
    using as(2) proper_extends [OF assms(2)] by (auto simp: owns_def proper_def)
qed

definition options_of :: "OptionGroup list \<Rightarrow> nat set" where
  "options_of gs = (\<Union>g \<in> set gs. set (og_options g))"

lemma options_of_simps [simp]:
  "options_of [] = {}" "options_of (g # gs) = set (og_options g) \<union> options_of gs"
  "options_of (gs @ hs) = options_of gs \<union> options_of hs"
  by (auto simp: options_of_def)

fun disjoint_groups :: "OptionGroup list \<Rightarrow> bool" where
  "disjoint_groups [] \<longleftrightarrow> True"
| "disjoint_groups (g # gs) \<longleftrightarrow> set (og_options g) \<inter> options_of gs = {} \<and> disjoint_groups gs"

definition same_groups :: "OptionGroup list \<Rightarrow> OptionGroup list \<Rightarrow> bool" where
  "same_groups gs hs \<longleftrightarrow> map og_name gs = map og_name hs \<and> map og_options gs = map og_options hs"

lemma same_options: "same_groups gs hs \<Longrightarrow> options_of gs = options_of hs"
proof -
  assume "same_groups gs hs"
  then have "map og_options gs = map og_options hs" by (simp add: same_groups_def)
  then have "set ` set (map og_options gs) = set ` set (map og_options hs)" by simp
  then show ?thesis by (simp add: options_of_def image_image)
qed

lemma copy_groups_facts:
  "copy_groups at gs st = (gs', st') \<Longrightarrow> list_all (proper st) gs \<Longrightarrow> disjoint_groups gs \<Longrightarrow>
   same_groups gs' gs \<and> extends st (options_of gs) st' \<and> list_all (owns st' (length (cs_args st))) gs'"
proof (induction gs arbitrary: st gs')
  case Nil
  then show ?case by (simp add: same_groups_def)
next
  case (Cons g gs)
  obtain g1 st1 where c: "OptionGroup_copy at g st = (g1, st1)" by (cases "OptionGroup_copy at g st")
  obtain gs1 where cs: "copy_groups at gs st1 = (gs1, st')" "gs' = g1 # gs1"
    using Cons.prems(1) c by (auto split: prod.splits)
  have p: "proper st g" using Cons.prems(2) by simp
  note f = copy_facts [OF c p]
  have "list_all (proper st1) gs"
    using Cons.prems(2) f proper_extends by (fastforce simp: list_all_iff)
  from Cons.IH [OF cs(1) this] Cons.prems(3) have IH: "same_groups gs1 gs" "extends st1 (options_of gs) st'"
    "list_all (owns st' (length (cs_args st1))) gs1" by simp_all
  have "owns st' (length (cs_args st)) g1"
    by (rule owns_extends [OF _ IH(2)]) (use f Cons.prems(3) in auto)
  moreover have "owns st' (length (cs_args st)) h" if "owns st' (length (cs_args st1)) h" for h
    using that f by (fastforce simp: owns_def extends_def)
  moreover have "extends st (set (og_options g) \<union> options_of gs) st'"
    using f IH(2) extends_trans by blast
  ultimately show ?case using IH f cs(2) by (auto simp: same_groups_def list_all_iff)
qed

text \<open>Destroying a group with older entries.\<close>

lemma fold_clear:
  "length (fold (\<lambda>a args. args[a := None]) as args) = length args"
  "b \<notin> set as \<Longrightarrow> fold (\<lambda>a args. args[a := None]) as args ! b = args ! b"
  by (induction as arbitrary: args) simp_all

lemma owns_destroy:
  assumes "owns st lo g" "\<And>a. a \<in> set (og_argtable h) \<Longrightarrow> a < lo"
  shows "owns (OptionGroup_destroy h st) lo g"
proof -
  have "og_argtable g ! k \<notin> set (og_argtable h)" if "k < length (og_options g)" for k
    using assms that by (fastforce simp: owns_def)
  with assms(1) show ?thesis by (auto simp: owns_def OptionGroup_destroy_def fold_clear)
qed

lemma destroy_sizes:
  "length (cs_args (OptionGroup_destroy h st)) = length (cs_args st)"
  "cs_options (OptionGroup_destroy h st) = cs_options st"
  by (simp_all add: OptionGroup_destroy_def fold_clear)

lemma owns_destroy_all:
  "owns st lo g \<Longrightarrow> (\<And>h a. h \<in> set hs \<Longrightarrow> a \<in> set (og_argtable h) \<Longrightarrow> a < lo) \<Longrightarrow>
   owns (fold OptionGroup_destroy hs st) lo g"
  by (induction hs arbitrary: st) (auto intro: owns_destroy)

lemma destroy_all_sizes:
  "length (cs_args (fold OptionGroup_destroy hs st)) = length (cs_args st)"
  "cs_options (fold OptionGroup_destroy hs st) = cs_options st"
  by (induction hs arbitrary: st) (simp_all add: destroy_sizes)


section \<open>Construction\<close>

lemma disjoint_append:
  "disjoint_groups (gs @ hs) \<longleftrightarrow> disjoint_groups gs \<and> disjoint_groups hs \<and> options_of gs \<inter> options_of hs = {}"
  by (induction gs) auto

lemma disjoint_same: "same_groups gs hs \<Longrightarrow> disjoint_groups gs \<longleftrightarrow> disjoint_groups hs"
proof (induction gs arbitrary: hs)
  case (Cons g gs)
  then obtain h hs' where hs: "hs = h # hs'" by (cases hs) (auto simp: same_groups_def)
  then have "same_groups gs hs'" "og_options g = og_options h" using Cons.prems by (auto simp: same_groups_def)
  with Cons.IH same_options [of gs hs'] hs show ?case by simp
qed (auto simp: same_groups_def)

lemma proper_same:
  assumes "same_groups gs hs" "list_all (proper st) hs"
  shows "list_all (proper st) gs"
proof -
  have "list_all (\<lambda>os. distinct os \<and> (\<forall>i \<in> set os. i < length (cs_options st))) (map og_options hs)"
    using assms(2) by (simp add: list_all_iff proper_def)
  then have "list_all (\<lambda>os. distinct os \<and> (\<forall>i \<in> set os. i < length (cs_options st))) (map og_options gs)"
    using assms(1) by (simp add: same_groups_def)
  then show ?thesis by (simp add: list_all_iff proper_def)
qed

text \<open>The vector while it is filled: owned entries above \<open>lo\<close>, for the groups pushed so far.\<close>

lemma push_group_facts:
  assumes "push_group at grows g (gs, st) = (gs', st')" "proper st g" "list_all (proper st) gs"
    "disjoint_groups (gs @ [g])" "list_all (owns st lo) gs" "lo \<le> length (cs_args st)"
  shows "same_groups gs' (gs @ [g]) \<and> list_all (owns st' lo) gs' \<and> lo \<le> length (cs_args st')
    \<and> length (cs_options st') = length (cs_options st)"
proof -
  obtain g1 st1 where c: "OptionGroup_copy at g st = (g1, st1)" by (cases "OptionGroup_copy at g st")
  note f = copy_facts [OF c assms(2)]
  have sep: "options_of gs \<inter> set (og_options g) = {}" "disjoint_groups gs"
    using assms(4) by (auto simp: disjoint_append)
  have more: "owns st2 lo h" if "owns st2 (length (cs_args st)) h" for st2 h
    using that assms(6) by (fastforce simp: owns_def)
  show ?thesis
  proof (cases "grows (length gs)")
    case False
    have "list_all (owns st1 lo) gs"
      unfolding list_all_iff
    proof
      fix h assume "h \<in> set gs"
      then show "owns st1 lo h"
        using assms(5) f sep(1) by (intro owns_extends [of st lo h "set (og_options g)" st1])
          (auto simp: list_all_iff options_of_def)
    qed
    with False assms(1) c f assms(6) more [of st1 g1] show ?thesis
      by (auto simp: push_group_def same_groups_def extends_def)
  next
    case True
    obtain gs2 st2 where cs: "copy_groups at gs st1 = (gs2, st2)" by (cases "copy_groups at gs st1")
    have p: "list_all (proper st1) gs"
      using assms(3) f proper_extends by (fastforce simp: list_all_iff)
    note fs = copy_groups_facts [OF cs p sep(2)]
    have st': "st' = fold OptionGroup_destroy gs st2" "gs' = gs2 @ [g1]"
      using assms(1) c cs True by (simp_all add: push_group_def)
    have old: "a < length (cs_args st)" if "h \<in> set gs" "a \<in> set (og_argtable h)" for h a
      using that assms(5) by (fastforce simp: list_all_iff owns_def in_set_conv_nth)
    have g1: "owns st2 (length (cs_args st)) g1"
      by (rule owns_extends [of st1 _ _ "options_of gs"]) (use f fs sep(1) in auto)
    have gs2: "owns st2 (length (cs_args st)) h" if "h \<in> set gs2" for h
    proof -
      have "owns st2 (length (cs_args st1)) h" using fs that by (simp add: list_all_iff)
      then show ?thesis using f by (fastforce simp: owns_def extends_def)
    qed
    have "owns st' lo h" if "h \<in> set gs'" for h
    proof (rule more)
      show "owns st' (length (cs_args st)) h"
        unfolding st'(1) using that g1 gs2 old st'(2) by (intro owns_destroy_all) auto
    qed
    moreover have "same_groups gs' (gs @ [g])" using fs f st'(2) by (simp add: same_groups_def)
    moreover have "lo \<le> length (cs_args st')" "length (cs_options st') = length (cs_options st)"
      using f fs assms(6) by (auto simp: st'(1) destroy_all_sizes extends_def)
    ultimately show ?thesis by (simp add: list_all_iff)
  qed
qed

lemma push_all_facts:
  "fold (push_group at grows) groups (gs, st) = (gs', st') \<Longrightarrow> list_all (proper st) (gs @ groups) \<Longrightarrow>
   disjoint_groups (gs @ groups) \<Longrightarrow> list_all (owns st lo) gs \<Longrightarrow> lo \<le> length (cs_args st) \<Longrightarrow>
   same_groups gs' (gs @ groups) \<and> list_all (owns st' lo) gs'"
proof (induction groups arbitrary: gs st)
  case Nil
  then show ?case by (simp add: same_groups_def)
next
  case (Cons g groups)
  obtain gs1 st1 where p: "push_group at grows g (gs, st) = (gs1, st1)" by (cases "push_group at grows g (gs, st)")
  have "disjoint_groups ((gs @ [g]) @ groups)" using Cons.prems(3) by simp
  then have sep: "disjoint_groups (gs @ [g])" unfolding disjoint_append [of "gs @ [g]"] by simp
  from push_group_facts [OF p _ _ sep Cons.prems(4,5)] Cons.prems(2)
  have f: "same_groups gs1 (gs @ [g])" "list_all (owns st1 lo) gs1" "lo \<le> length (cs_args st1)"
    "length (cs_options st1) = length (cs_options st)" by simp_all
  have same: "same_groups (gs1 @ groups) (gs @ g # groups)" using f(1) by (simp add: same_groups_def)
  have "list_all (proper st1) (gs @ g # groups)" using Cons.prems(2) f(4) by (simp add: list_all_iff proper_def)
  then have "list_all (proper st1) (gs1 @ groups)" by (rule proper_same [OF same])
  moreover have "disjoint_groups (gs1 @ groups)" using disjoint_same [OF same] Cons.prems(3) by simp
  ultimately have "same_groups gs' (gs1 @ groups) \<and> list_all (owns st' lo) gs'"
    using Cons.prems(1) p f(2,3) by (intro Cons.IH [of gs1 st1]) simp_all
  with same show ?case by (simp add: same_groups_def)
qed

text \<open>The groups of the initialiser list are destroyed after the constructor.\<close>

lemma construction:
  assumes "CommandLineOptions_new at grows program groups st = (c, st')"
    "list_all (proper st) groups" "disjoint_groups groups"
    "\<And>g a. g \<in> set groups \<Longrightarrow> a \<in> set (og_argtable g) \<Longrightarrow> a < length (cs_args st)"
  shows "same_groups (cl_options c) groups \<and> cl_activeGroup c = None \<and>
    list_all (owns (fold OptionGroup_destroy groups st') (length (cs_args st))) (cl_options c)"
proof -
  obtain gs where gs: "fold (push_group at grows) groups ([], st) = (gs, st')"
    "c = \<lparr>cl_program = program, cl_options = gs, cl_activeGroup = None\<rparr>"
    using assms(1) by (auto simp: CommandLineOptions_new_def split: prod.splits)
  from push_all_facts [OF gs(1), of "length (cs_args st)"] assms(2,3)
  have "same_groups gs groups \<and> list_all (owns st' (length (cs_args st))) gs" by simp
  moreover have "list_all (owns (fold OptionGroup_destroy groups st') (length (cs_args st))) gs"
    using calculation assms(4) by (auto simp: list_all_iff intro: owns_destroy_all)
  ultimately show ?thesis using gs(2) by simp
qed


section \<open>The entries of the groups\<close>

text \<open>The entry that an option is declared to have: a name that is empty is none.\<close>

definition entry_of :: "argtable \<Rightarrow> OptionBase \<Rightarrow> arg" where
  "entry_of at opt =
     (let short = (if ob_shortOpt opt = [] then None else Some (ob_shortOpt opt));
          long = (if ob_longOpt opt = [] then None else Some (ob_longOpt opt))
      in case ob_kind opt of
           LiteralOption \<Rightarrow> arg_litn at short long (ob_min opt) (ob_max opt) (ob_desc opt)
         | TypedOption argument \<Rightarrow> arg_strn at short long argument (ob_min opt) (ob_max opt) (ob_desc opt))"

lemma entry_of_arg [simp]: "entry_of at (opt\<lparr>ob_arg := x\<rparr>) = entry_of at opt"
  by (cases "ob_kind opt") (simp_all add: entry_of_def Let_def)

lemma option_add_entry:
  "option_add at i st =
     (length (cs_args st), st\<lparr>cs_options := (cs_options st)[i := (cs_options st ! i)\<lparr>ob_arg := Some (length (cs_args st))\<rparr>],
        cs_args := cs_args st @ [Some (entry_of at (cs_options st ! i))]\<rparr>)"
  by (simp add: option_add_def entry_of_def LiteralOption_entry_def TypedOption_entry_def name_or_null_def Let_def
      split: option_kind.split)

text \<open>Options as they were declared, but for the entries they point to; and groups with untouched entries.\<close>

definition like :: "argtable \<Rightarrow> OptionBase list \<Rightarrow> cl_store \<Rightarrow> bool" where
  "like at opts st \<longleftrightarrow> length (cs_options st) = length opts \<and>
     (\<forall>i < length opts. entry_of at (cs_options st ! i) = entry_of at (opts ! i))"

definition fresh :: "argtable \<Rightarrow> OptionBase list \<Rightarrow> cl_store \<Rightarrow> OptionGroup \<Rightarrow> bool" where
  "fresh at opts st g \<longleftrightarrow>
     (\<forall>k < length (og_options g). cs_args st ! (og_argtable g ! k) = Some (entry_of at (opts ! (og_options g ! k))))"

definition tables_of :: "OptionGroup list \<Rightarrow> nat list" where
  "tables_of gs = concat (map og_argtable gs)"

lemma tables_of_simps [simp]:
  "tables_of [] = []" "tables_of (g # gs) = og_argtable g @ tables_of gs" "tables_of (gs @ hs) = tables_of gs @ tables_of hs"
  "set (tables_of gs) = (\<Union>g \<in> set gs. set (og_argtable g))"
  by (simp_all add: tables_of_def)

lemma upt_join: "a \<le> b \<Longrightarrow> b \<le> c \<Longrightarrow> [a..<b] @ [b..<c] = [a..<c]"
  using upt_add_eq_append [of a b "c - b"] by simp

lemma owns_below: "owns st lo g \<Longrightarrow> a \<in> set (og_argtable g) \<Longrightarrow> lo \<le> a \<and> a < length (cs_args st)"
  by (fastforce simp: owns_def in_set_conv_nth)

lemma fresh_extends: "fresh at opts st g \<Longrightarrow> owns st lo g \<Longrightarrow> extends st X st' \<Longrightarrow> fresh at opts st' g"
  by (simp add: fresh_def owns_def extends_def)

lemma fresh_kept:
  assumes "fresh at opts st g" "owns st lo g" "\<And>a. a \<in> set (og_argtable g) \<Longrightarrow> cs_args st' ! a = cs_args st ! a"
  shows "fresh at opts st' g"
  using assms by (simp add: fresh_def owns_def)

lemma destroyed_entries:
  "(\<And>h. h \<in> set hs \<Longrightarrow> a \<notin> set (og_argtable h)) \<Longrightarrow> cs_args (fold OptionGroup_destroy hs st) ! a = cs_args st ! a"
  by (induction hs arbitrary: st) (simp_all add: OptionGroup_destroy_def fold_clear)

lemma add_options_fresh:
  "add_options at is st = (as, st') \<Longrightarrow> distinct is \<Longrightarrow> (\<And>i. i \<in> set is \<Longrightarrow> i < length (cs_options st)) \<Longrightarrow>
   like at opts st \<Longrightarrow>
   like at opts st' \<and> (\<forall>k < length is. cs_args st' ! (length (cs_args st) + k) = Some (entry_of at (opts ! (is ! k))))"
proof (induction "is" arbitrary: st as)
  case (Cons i "is")
  obtain st1 where a: "option_add at i st = (length (cs_args st), st1)" by (simp add: option_add_entry)
  then have st1: "like at opts st1" "length (cs_args st1) = Suc (length (cs_args st))"
    "length (cs_options st1) = length (cs_options st)" "cs_args st1 ! length (cs_args st) = Some (entry_of at (opts ! i))"
    using Cons.prems(3) [of i] Cons.prems(4) by (auto simp: option_add_entry like_def nth_list_update)
  obtain bs where bs: "add_options at is st1 = (bs, st')" using Cons.prems(1) a by (auto split: prod.splits)
  have "\<And>i. i \<in> set is \<Longrightarrow> i < length (cs_options st1)" using Cons.prems(3) st1(3) by simp
  with Cons.IH [OF bs _ _ st1(1)] add_options_facts [OF bs] Cons.prems(2)
  have "like at opts st'" "extends st1 (set is) st'"
    "\<And>k. k < length is \<Longrightarrow> cs_args st' ! (length (cs_args st1) + k) = Some (entry_of at (opts ! (is ! k)))" by simp_all
  moreover from this(2) st1(2,4) have "cs_args st' ! length (cs_args st) = Some (entry_of at (opts ! i))"
    by (simp add: extends_def)
  ultimately show ?case using st1(2) by (auto simp: less_Suc_eq_0_disj)
qed simp

lemma copy_fresh:
  assumes "OptionGroup_copy at g st = (g', st')" "proper st g" "like at opts st"
  shows "like at opts st' \<and> fresh at opts st' g' \<and> og_argtable g' = [length (cs_args st) ..< length (cs_args st')]"
proof -
  obtain as where as: "add_options at (og_options g) st = (as, st')"
    "g' = \<lparr>og_name = og_name g, og_options = og_options g, og_argtable = as\<rparr>"
    using assms(1) by (auto simp: OptionGroup_copy_def split: prod.splits)
  from add_options_facts [OF as(1)] add_options_fresh [OF as(1) _ _ assms(3)] assms(2) as(2)
  show ?thesis by (simp add: proper_def fresh_def)
qed

lemma copy_groups_fresh:
  "copy_groups at gs st = (gs', st') \<Longrightarrow> list_all (proper st) gs \<Longrightarrow> disjoint_groups gs \<Longrightarrow> like at opts st \<Longrightarrow>
   like at opts st' \<and> list_all (fresh at opts st') gs' \<and> length (cs_args st) \<le> length (cs_args st') \<and>
   tables_of gs' = [length (cs_args st) ..< length (cs_args st')]"
proof (induction gs arbitrary: st gs')
  case (Cons g gs)
  obtain g1 st1 where c: "OptionGroup_copy at g st = (g1, st1)" by (cases "OptionGroup_copy at g st")
  obtain gs1 where cs: "copy_groups at gs st1 = (gs1, st')" "gs' = g1 # gs1"
    using Cons.prems(1) c by (auto split: prod.splits)
  have p: "proper st g" using Cons.prems(2) by simp
  note f = copy_facts [OF c p] and n = copy_fresh [OF c p Cons.prems(4)]
  have ps: "list_all (proper st1) gs" using Cons.prems(2) f proper_extends by (fastforce simp: list_all_iff)
  with Cons.IH [OF cs(1)] Cons.prems(3) n
  have IH: "like at opts st'" "list_all (fresh at opts st') gs1" "length (cs_args st1) \<le> length (cs_args st')"
    "tables_of gs1 = [length (cs_args st1) ..< length (cs_args st')]" by simp_all
  have "extends st1 (options_of gs) st'" using copy_groups_facts [OF cs(1) ps] Cons.prems(3) by simp
  with n f have "fresh at opts st' g1" using fresh_extends by blast
  moreover have "length (cs_args st) \<le> length (cs_args st1)" using f by (simp add: extends_def)
  ultimately show ?case using IH n cs(2) by (simp add: upt_join)
qed simp

lemma push_group_fresh:
  assumes "push_group at grows g (gs, st) = (gs', st')" "proper st g" "list_all (proper st) gs"
    "disjoint_groups (gs @ [g])" "list_all (owns st lo) gs" "lo \<le> length (cs_args st)"
    and "like at opts st" "list_all (fresh at opts st) gs" "distinct (tables_of gs)"
  shows "like at opts st' \<and> list_all (fresh at opts st') gs' \<and> distinct (tables_of gs')"
proof -
  obtain g1 st1 where c: "OptionGroup_copy at g st = (g1, st1)" by (cases "OptionGroup_copy at g st")
  note f = copy_facts [OF c assms(2)] and n = copy_fresh [OF c assms(2,7)]
  have old: "a < length (cs_args st)" if "h \<in> set gs" "a \<in> set (og_argtable h)" for h a
    using that assms(5) owns_below by (fastforce simp: list_all_iff)
  show ?thesis
  proof (cases "grows (length gs)")
    case False
    have "list_all (fresh at opts st1) gs"
      using assms(5,8) f fresh_extends by (fastforce simp: list_all_iff)
    moreover have "distinct (tables_of (gs @ [g1]))" using assms(9) n old by fastforce
    ultimately show ?thesis using False assms(1) c n by (auto simp: push_group_def)
  next
    case True
    obtain gs2 st2 where cs: "copy_groups at gs st1 = (gs2, st2)" by (cases "copy_groups at gs st1")
    have p: "list_all (proper st1) gs" using assms(3) f proper_extends by (fastforce simp: list_all_iff)
    have d: "disjoint_groups gs" using assms(4) by (simp add: disjoint_append)
    have n1: "like at opts st1" using n by simp
    note fs = copy_groups_facts [OF cs p d] and ns = copy_groups_fresh [OF cs p d n1]
    have t: "tables_of gs2 = [length (cs_args st1) ..< length (cs_args st2)]" using ns by simp
    have st': "st' = fold OptionGroup_destroy gs st2" "gs' = gs2 @ [g1]"
      using assms(1) c cs True by (simp_all add: push_group_def)
    have l: "length (cs_args st) \<le> length (cs_args st1)" using f by (simp add: extends_def)
    have new: "length (cs_args st) \<le> a" if "h \<in> set gs'" "a \<in> set (og_argtable h)" for h a
    proof -
      have "a \<in> set (tables_of gs2) \<or> a \<in> set (og_argtable g1)" using that st'(2) by auto
      then show ?thesis unfolding t using n l by auto
    qed
    have "fresh at opts st2 g1" using n f fs fresh_extends by blast
    then have "list_all (fresh at opts st2) gs'" using ns n st'(2) by simp
    moreover have "owns st2 (length (cs_args st)) h" if "h \<in> set gs'" for h
    proof (cases "h \<in> set gs2")
      case True
      then have "owns st2 (length (cs_args st1)) h" using fs by (simp add: list_all_iff)
      then show ?thesis using l by (fastforce simp: owns_def)
    next
      case False
      have "options_of gs \<inter> set (og_options g) = {}" using assms(4) by (simp add: disjoint_append)
      with False that st'(2) f fs show ?thesis by (auto intro!: owns_extends [of st1 _ g1 "options_of gs" st2])
    qed
    ultimately have "list_all (fresh at opts st') gs'"
      unfolding list_all_iff st'(1) using new old by (fastforce intro: fresh_kept destroyed_entries)
    moreover have "distinct (tables_of gs')" using t n st'(2) by (simp del: tables_of_simps(4))
    moreover have "like at opts st'" using ns n by (simp add: st'(1) like_def destroy_all_sizes)
    ultimately show ?thesis by blast
  qed
qed

lemma push_all_fresh:
  "fold (push_group at grows) groups (gs, st) = (gs', st') \<Longrightarrow> list_all (proper st) (gs @ groups) \<Longrightarrow>
   disjoint_groups (gs @ groups) \<Longrightarrow> list_all (owns st lo) gs \<Longrightarrow> lo \<le> length (cs_args st) \<Longrightarrow>
   like at opts st \<Longrightarrow> list_all (fresh at opts st) gs \<Longrightarrow> distinct (tables_of gs) \<Longrightarrow>
   list_all (fresh at opts st') gs' \<and> distinct (tables_of gs')"
proof (induction groups arbitrary: gs st)
  case (Cons g groups)
  obtain gs1 st1 where p: "push_group at grows g (gs, st) = (gs1, st1)" by (cases "push_group at grows g (gs, st)")
  have "disjoint_groups ((gs @ [g]) @ groups)" using Cons.prems(3) by simp
  then have sep: "disjoint_groups (gs @ [g])" unfolding disjoint_append [of "gs @ [g]"] by simp
  from push_group_facts [OF p _ _ sep Cons.prems(4,5)] push_group_fresh [OF p _ _ sep Cons.prems(4-8)] Cons.prems(2)
  have f: "same_groups gs1 (gs @ [g])" "list_all (owns st1 lo) gs1" "lo \<le> length (cs_args st1)"
    "length (cs_options st1) = length (cs_options st)" "like at opts st1" "list_all (fresh at opts st1) gs1"
    "distinct (tables_of gs1)" by simp_all
  have same: "same_groups (gs1 @ groups) (gs @ g # groups)" using f(1) by (simp add: same_groups_def)
  have "list_all (proper st1) (gs @ g # groups)" using Cons.prems(2) f(4) by (simp add: list_all_iff proper_def)
  then have "list_all (proper st1) (gs1 @ groups)" by (rule proper_same [OF same])
  moreover have "disjoint_groups (gs1 @ groups)" using disjoint_same [OF same] Cons.prems(3) by simp
  ultimately show ?case using Cons.prems(1) p f by (intro Cons.IH [of gs1 st1]) simp_all
qed simp

lemma construction_fresh:
  assumes "CommandLineOptions_new at grows program groups st = (c, st')"
    "list_all (proper st) groups" "disjoint_groups groups"
    "\<And>g a. g \<in> set groups \<Longrightarrow> a \<in> set (og_argtable g) \<Longrightarrow> a < length (cs_args st)"
  shows "list_all (fresh at (cs_options st) (fold OptionGroup_destroy groups st')) (cl_options c) \<and>
    distinct (tables_of (cl_options c))"
proof -
  obtain gs where gs: "fold (push_group at grows) groups ([], st) = (gs, st')" "cl_options c = gs"
    using assms(1) by (auto simp: CommandLineOptions_new_def split: prod.splits)
  have "like at (cs_options st) st" by (simp add: like_def)
  with push_all_fresh [OF gs(1), of "length (cs_args st)" "cs_options st"] push_all_facts [OF gs(1), of "length (cs_args st)"]
    assms(2,3) have f: "list_all (fresh at (cs_options st) st') gs" "distinct (tables_of gs)"
      "list_all (owns st' (length (cs_args st))) gs" by simp_all
  have "fresh at (cs_options st) (fold OptionGroup_destroy groups st') g" if "g \<in> set gs" for g
  proof -
    have o: "owns st' (length (cs_args st)) g" "fresh at (cs_options st) st' g" using f that by (simp_all add: list_all_iff)
    show ?thesis
      by (rule fresh_kept [OF o(2,1)], rule destroyed_entries) (use assms(4) owns_below [OF o(1)] in fastforce)
  qed
  with f(2) gs(2) show ?thesis by (simp add: list_all_iff)
qed


section \<open>Parsing\<close>

text \<open>The library gives back a table of the same size.\<close>

definition parse_law :: "argtable \<Rightarrow> bool" where
  "parse_law at \<longleftrightarrow> (\<forall>args table. length (snd (arg_parse at args table)) = length table)"

definition shows_table :: "cl_store \<Rightarrow> OptionGroup \<Rightarrow> arg list \<Rightarrow> bool" where
  "shows_table st g table \<longleftrightarrow> length table = length (og_options g)
     \<and> (\<forall>k < length table. option_arg (og_options g ! k) st = Some (table ! k))"

lemma read_table_Some:
  "(\<And>a. a \<in> set as \<Longrightarrow> arg_at a st \<noteq> None) \<Longrightarrow> read_table as st = Some (map (\<lambda>a. the (arg_at a st)) as)"
proof (induction as)
  case (Cons a as)
  obtain y where "arg_at a st = Some y" using Cons.prems [of a] by auto
  with Cons show ?case by simp
qed simp

lemma write_table_facts:
  "length (cs_args (write_table as args st)) = length (cs_args st)"
  "cs_options (write_table as args st) = cs_options st"
  "b \<notin> set as \<Longrightarrow> cs_args (write_table as args st) ! b = cs_args st ! b"
  by (induction as args st rule: write_table.induct) auto

lemma write_table_live:
  "cs_args st ! b \<noteq> None \<Longrightarrow> b < length (cs_args st) \<Longrightarrow> cs_args (write_table as args st) ! b \<noteq> None"
proof (induction as args st rule: write_table.induct)
  case (1 a as arg args st)
  have "(cs_args st)[a := Some arg] ! b \<noteq> None" using 1 by (cases "a = b") simp_all
  with 1 show ?case by simp
qed simp_all

lemma write_table_entry:
  "distinct as \<Longrightarrow> length args = length as \<Longrightarrow> (\<And>a. a \<in> set as \<Longrightarrow> a < length (cs_args st)) \<Longrightarrow>
   k < length as \<Longrightarrow> cs_args (write_table as args st) ! (as ! k) = Some (args ! k)"
proof (induction as args st arbitrary: k rule: write_table.induct)
  case (1 a as arg args st)
  then show ?case
    by (cases k) (auto simp: write_table_facts(3))
qed auto

lemma owns_write: "owns st lo g \<Longrightarrow> owns (write_table as args st) lo g"
  unfolding owns_def write_table_facts(1,2) using write_table_live by blast

lemma owns_entries:
  assumes "owns st lo g"
  shows "\<And>a. a \<in> set (og_argtable g) \<Longrightarrow> a < length (cs_args st) \<and> arg_at a st \<noteq> None"
  using assms by (fastforce simp: owns_def in_set_conv_nth arg_at_def)

lemma written_table:
  assumes "owns st lo g" "length table = length (og_argtable g)"
  shows "shows_table (write_table (og_argtable g) table st) g table"
proof -
  have "cs_args (write_table (og_argtable g) table st) ! (og_argtable g ! k) = Some (table ! k)"
    if "k < length (og_argtable g)" for k
    by (rule write_table_entry) (use assms owns_entries [OF assms(1)] that in \<open>auto simp: owns_def\<close>)
  with assms show ?thesis
    by (auto simp: shows_table_def owns_def option_arg_def arg_at_def write_table_facts(1,2))
qed

lemma group_parse:
  assumes "owns st lo g" "parse_law at" "args \<noteq> []"
  shows "\<exists>table n table'. read_table (og_argtable g) st = Some table \<and> arg_parse at args table = (n, table')
    \<and> (if arg_nullcheck at table \<noteq> 0 then OptionGroup_parse at args g st = Some (False, st)
       else OptionGroup_parse at args g st = Some (n \<le> 0, write_table (og_argtable g) table' st)
         \<and> shows_table (write_table (og_argtable g) table' st) g table')"
proof -
  let ?t = "map (\<lambda>a. the (arg_at a st)) (og_argtable g)"
  have r: "read_table (og_argtable g) st = Some ?t" by (rule read_table_Some) (use owns_entries [OF assms(1)] in blast)
  obtain n t' where p: "arg_parse at args ?t = (n, t')" by (cases "arg_parse at args ?t")
  have "length t' = length (og_argtable g)" using assms(2) p unfolding parse_law_def by (metis length_map snd_conv)
  from written_table [OF assms(1) this] r p assms(3) show ?thesis
    by (auto simp: OptionGroup_parse_def Let_def)
qed

text \<open>Lookups in a table that is shown.\<close>

lemma find_named_shown:
  "length table = length is \<Longrightarrow> (\<And>k. k < length is \<Longrightarrow> option_arg (is ! k) st = Some (table ! k)) \<Longrightarrow>
   case find (has_name name) table of
     None \<Rightarrow> find_named name is st = Some None
   | Some a \<Rightarrow> \<exists>i. find_named name is st = Some (Some i) \<and> i \<in> set is \<and> option_arg i st = Some a"
proof (induction "is" arbitrary: table)
  case (Cons i "is")
  then obtain a t where t: "table = a # t" "length t = length is" by (cases table) auto
  have i: "option_arg i st = Some a" using Cons.prems(2) [of 0] t(1) by simp
  have "\<And>k. k < length is \<Longrightarrow> option_arg (is ! k) st = Some (t ! k)"
    using Cons.prems(2) [of "Suc k" for k] t(1) by simp
  from Cons.IH [OF t(2) this] i t(1) show ?case by (auto split: option.splits)
qed simp

lemma count_shown:
  assumes "shows_table st g table"
  shows "OptionGroup_count g name st = Some (case find (has_name name) table of None \<Rightarrow> 0 | Some a \<Rightarrow> a_count a)"
  using find_named_shown [of table "og_options g" st name] assms
  by (auto simp: shows_table_def OptionGroup_count_def option_count_def split: option.splits)

text \<open>The first table that the library accepts, with its place and as the library leaves it.\<close>

fun first_parsed :: "argtable \<Rightarrow> string list \<Rightarrow> nat \<Rightarrow> arg list list \<Rightarrow> (nat \<times> arg list) option" where
  "first_parsed at args i [] = None"
| "first_parsed at args i (table # tables) =
     (case arg_parse at args table of
        (nerrors, table') \<Rightarrow>
          (if arg_nullcheck at table = 0 \<and> nerrors \<le> 0 then Some (i, table')
           else first_parsed at args (Suc i) tables))"

definition declared_table :: "argtable \<Rightarrow> OptionBase list \<Rightarrow> OptionGroup \<Rightarrow> arg list" where
  "declared_table at opts g = map (\<lambda>i. entry_of at (opts ! i)) (og_options g)"

lemma fresh_table:
  assumes "owns st lo g" "fresh at opts st g" "read_table (og_argtable g) st = Some table"
  shows "table = declared_table at opts g"
proof -
  have "read_table (og_argtable g) st = Some (map (\<lambda>a. the (arg_at a st)) (og_argtable g))"
    by (rule read_table_Some) (use owns_entries [OF assms(1)] in blast)
  moreover have "map (\<lambda>a. the (arg_at a st)) (og_argtable g) = declared_table at opts g"
    by (rule nth_equalityI) (use assms(1,2) in \<open>auto simp: owns_def fresh_def declared_table_def arg_at_def\<close>)
  ultimately show ?thesis using assms(3) by simp
qed

lemma parse_groups_first:
  "list_all (owns st lo) gs \<Longrightarrow> list_all (fresh at opts st) gs \<Longrightarrow> distinct (tables_of gs) \<Longrightarrow> parse_law at \<Longrightarrow> args \<noteq> [] \<Longrightarrow>
   \<exists>st'. parse_groups at args i gs st = Some (map_option fst (first_parsed at args i (map (declared_table at opts) gs)), st') \<and>
     (\<forall>k table. first_parsed at args i (map (declared_table at opts) gs) = Some (k, table) \<longrightarrow>
        i \<le> k \<and> k < i + length gs \<and> shows_table st' (gs ! (k - i)) table)"
proof (induction gs arbitrary: st i)
  case (Cons g gs)
  let ?t = "declared_table at opts g"
  have g: "owns st lo g" "fresh at opts st g" using Cons.prems(1,2) by simp_all
  from group_parse [OF g(1) Cons.prems(4,5)] fresh_table [OF g] obtain n table' where
    p: "arg_parse at args ?t = (n, table')"
      "if arg_nullcheck at ?t \<noteq> 0 then OptionGroup_parse at args g st = Some (False, st)
       else OptionGroup_parse at args g st = Some (n \<le> 0, write_table (og_argtable g) table' st)
         \<and> shows_table (write_table (og_argtable g) table' st) g table'" by blast
  show ?case
  proof (cases "arg_nullcheck at ?t = 0 \<and> n \<le> 0")
    case True
    then show ?thesis using p by auto
  next
    case False
    then obtain st1 where st1: "OptionGroup_parse at args g st = Some (False, st1)"
      "st1 = st \<or> st1 = write_table (og_argtable g) table' st" using p(2) by (auto split: if_splits)
    then have "list_all (owns st1 lo) gs" using Cons.prems(1) by (auto simp: list_all_iff intro: owns_write)
    moreover have "fresh at opts st1 h" if "h \<in> set gs" for h
    proof (rule fresh_kept [of at opts st h lo])
      show "fresh at opts st h" "owns st lo h" using Cons.prems(1,2) that by (simp_all add: list_all_iff)
      show "cs_args st1 ! a = cs_args st ! a" if "a \<in> set (og_argtable h)" for a
      proof -
        have "a \<notin> set (og_argtable g)" using Cons.prems(3) \<open>h \<in> set gs\<close> that by auto
        with st1(2) show ?thesis using write_table_facts(3) by auto
      qed
    qed
    ultimately obtain st' where
      r: "parse_groups at args (Suc i) gs st1 =
          Some (map_option fst (first_parsed at args (Suc i) (map (declared_table at opts) gs)), st')"
        "\<And>k table. first_parsed at args (Suc i) (map (declared_table at opts) gs) = Some (k, table) \<Longrightarrow>
          Suc i \<le> k \<and> k < Suc i + length gs \<and> shows_table st' (gs ! (k - Suc i)) table"
      using Cons.IH [of st1 "Suc i"] Cons.prems(3-5) by (auto simp: list_all_iff)
    have f: "first_parsed at args i (map (declared_table at opts) (g # gs)) =
        first_parsed at args (Suc i) (map (declared_table at opts) gs)" using False p(1) by auto
    show ?thesis unfolding f using st1(1) r by (fastforce simp: nth_Cons')
  qed
qed simp

lemma command_line_first:
  assumes "list_all (owns st lo) (cl_options c)" "list_all (fresh at opts st) (cl_options c)"
    "distinct (tables_of (cl_options c))" "parse_law at"
    and "first = (if args = [] then None else first_parsed at args 0 (map (declared_table at opts) (cl_options c)))"
  shows "\<exists>st'. CommandLineOptions_parse at args c st =
      Some (first \<noteq> None, c\<lparr>cl_activeGroup := map_option fst first\<rparr>, st') \<and>
    (\<forall>k table. first = Some (k, table) \<longrightarrow> k < length (cl_options c) \<and> shows_table st' (cl_options c ! k) table)"
proof (cases "args = []")
  case True
  with assms(5) show ?thesis by (simp add: CommandLineOptions_parse_def Let_def)
next
  case False
  with parse_groups_first [OF assms(1-4) False, of 0] assms(5) show ?thesis
    by (auto simp: CommandLineOptions_parse_def Let_def)
qed

lemma same_tables: "same_groups gs hs \<Longrightarrow> map (declared_table at opts) gs = map (declared_table at opts) hs"
proof -
  assume "same_groups gs hs"
  then have "map (map (\<lambda>i. entry_of at (opts ! i))) (map og_options gs) = map (map (\<lambda>i. entry_of at (opts ! i))) (map og_options hs)"
    by (simp only: same_groups_def)
  moreover have "declared_table at opts = (\<lambda>g. map (\<lambda>i. entry_of at (opts ! i)) (og_options g))"
    by (rule ext) (simp add: declared_table_def)
  ultimately show ?thesis by (simp add: comp_def del: map_eq_conv)
qed


section \<open>An option in two groups, and the values of an option\<close>

lemma owns_entry:
  assumes "owns st lo g" "i \<in> set (og_options g)"
  shows "\<exists>a. a \<in> set (og_argtable g) \<and> ob_arg (cs_options st ! i) = Some a"
  using assms by (fastforce simp: owns_def in_set_conv_nth)

lemma shared_entry:
  assumes "owns st lo g" "owns st lo' h" "i \<in> set (og_options g) \<inter> set (og_options h)"
  shows "set (og_argtable g) \<inter> set (og_argtable h) \<noteq> {}"
  using owns_entry [OF assms(1), of i] owns_entry [OF assms(2), of i] assms(3) by auto

lemma value_cases:
  assumes "option_arg i st = Some arg" "0 \<le> a_count arg"
  shows "TypedOption_value i idx st =
    (if idx < 0 then None
     else if idx \<le> a_count arg then (if nat idx < length (a_sval arg) then Some (Inr (a_sval arg ! nat idx)) else None)
     else Some (Inl (BadOption ''Index out of range'')))"
  using assms by (auto simp: TypedOption_value_def)

lemma copy_table:
  assumes "OptionGroup_copy at g st = (g', st')" "proper st g"
  shows "og_argtable g' = [length (cs_args st) ..< length (cs_args st')]"
proof -
  obtain as where as: "add_options at (og_options g) st = (as, st')" "og_argtable g' = as"
    using assms(1) by (auto simp: OptionGroup_copy_def split: prod.splits)
  then show ?thesis using add_options_facts [OF as(1)] assms(2) by (auto simp: proper_def)
qed

lemma shared_option:
  assumes "CommandLineOptions_new at grows program [g, h] st = (c, st')" "proper st g" "proper st h"
    "i \<in> set (og_options g) \<inter> set (og_options h)"
  shows "\<exists>x \<in> set (cl_options c). \<forall>lo. \<not> owns st' lo x"
proof -
  obtain g1 st1 where c1: "OptionGroup_copy at g st = (g1, st1)" by (cases "OptionGroup_copy at g st")
  note f1 = copy_facts [OF c1 assms(2)]
  have first: "push_group at grows g ([], st) = ([g1], st1)" using c1 by (simp add: push_group_def)
  obtain h2 st2 where c2: "OptionGroup_copy at h st1 = (h2, st2)" by (cases "OptionGroup_copy at h st1")
  have p2: "proper st1 h" using f1 assms(3) proper_extends by blast
  note f2 = copy_facts [OF c2 p2]
  obtain x where x: "cl_options c = [x, h2]" "og_options x = og_options g"
    "set (og_argtable x) \<inter> set (og_argtable h2) = {}"
  proof (cases "grows 1")
    case False
    with first c2 assms(1) have "cl_options c = [g1, h2]"
      by (auto simp: CommandLineOptions_new_def push_group_def)
    moreover have "set (og_argtable g1) \<inter> set (og_argtable h2) = {}"
      using copy_table [OF c1 assms(2)] copy_table [OF c2 p2] by auto
    ultimately show thesis using that f1 by blast
  next
    case True
    obtain g3 st3 where c3: "OptionGroup_copy at g1 st2 = (g3, st3)" by (cases "OptionGroup_copy at g1 st2")
    have "proper st1 g1" using f1 proper_extends [OF assms(2)] by (auto simp: proper_def)
    then have p3: "proper st2 g1" using f2 proper_extends by blast
    note f3 = copy_facts [OF c3 p3]
    have "cl_options c = [g3, h2]"
      using first c2 c3 assms(1) True by (auto simp: CommandLineOptions_new_def push_group_def)
    moreover have "set (og_argtable g3) \<inter> set (og_argtable h2) = {}"
      using copy_table [OF c3 p3] copy_table [OF c2 p2] by auto
    ultimately show thesis using that f1 f3 by metis
  qed
  have "\<not> (owns st' lo x \<and> owns st' lo' h2)" for lo lo'
    using shared_entry [of st' lo x lo' h2 i] x(2,3) f2 assms(4) by auto
  then have "(\<forall>lo. \<not> owns st' lo x) \<or> (\<forall>lo. \<not> owns st' lo h2)" by blast
  with x(1) show ?thesis by auto
qed


section \<open>A small library\<close>

text \<open>A table whose parser counts the arguments that name an entry.\<close>

definition sample_table :: argtable where
  "sample_table =
     \<lparr>arg_litn = (\<lambda>s l mn mx d. \<lparr>a_shortopts = s, a_longopts = l, a_count = 0, a_sval = []\<rparr>),
      arg_strn = (\<lambda>s l t mn mx d. \<lparr>a_shortopts = s, a_longopts = l, a_count = 0, a_sval = replicate (nat mx) []\<rparr>),
      arg_nullcheck = (\<lambda>t. 0),
      arg_parse = (\<lambda>args t. (0, map (\<lambda>a. a\<lparr>a_count := int (length (filter
        (\<lambda>s. map_option (\<lambda>n. ''-'' @ n) (a_shortopts a) = Some s) args))\<rparr>) t))\<rparr>"

lemma sample_table_law: "parse_law sample_table"
  by (simp add: parse_law_def sample_table_def)

end
