(* ===== verification/System_Theorems.thy ===== *)
theory System_Theorems
  imports Sample_Systems Lexer Command_Line_Facts
begin

text \<open>
  The properties of the functions over the operating system, of the lexer and of the command line.
\<close>

section \<open>Files and directories\<close>

text \<open>
  C31. \<open>remove_all\<close> removes a whole tree of files and returns the number of files in it. A name that
  is a symbolic link to a directory counts as a directory: what the link leads to is removed too.
  The hypothesis states the laws of the file system below the base path.
\<close>

theorem remove_all_removes:
  assumes "file_system_laws os base sees" "base \<noteq> []" "last base \<noteq> CHR ''/''" "CHR 0x00 \<notin> set base"
    and "sees w (Some T) S" "removal_cost T \<le> fuel"
  shows "\<exists>w'. remove_all_ec fuel os base (ec, w) = (Value (of_nat (files_in T)), Cleared, w') \<and> sees w' None S"
proof -
  have "removes_tree os base sees T" by (rule remove_all_run [OF assms(1-4)])
  from removes_treeD [OF this assms(5), of "[]" fuel ec] assms(6) show ?thesis by (auto simp: slashed_def)
qed

definition linked_tree :: ftree where
  "linked_tree = Node True [(''a'', Leaf), (''b'', Node False [(''c'', Leaf)])]"

definition linked_world :: tree_world where
  "linked_world = \<lparr>tw_tree = Some linked_tree, tw_next = 0, tw_streams = Map.empty\<rparr>"

theorem remove_all_removes_witness:
  "\<exists>w'. remove_all_ec 30 tree_os sample_base (Cleared, linked_world) = (Value 4, Cleared, w')
     \<and> tree_sees w' None Map.empty"
proof -
  have b: "sample_base \<noteq> []" "last sample_base \<noteq> CHR ''/''" "CHR 0x00 \<notin> set sample_base"
    by (simp_all add: sample_base_def)
  have "names_ok linked_tree"
    by (simp add: linked_tree_def names_ok_Node entry_name_def plain_name_def)
  then have s: "tree_sees linked_world (Some linked_tree) Map.empty"
    by (simp add: linked_world_def tree_sees_def)
  have c: "removal_cost linked_tree \<le> 30" "files_in linked_tree = 4"
    by (simp_all add: linked_tree_def node_sums)
  from remove_all_removes [OF tree_os_laws b s c(1), of Cleared] c(2) show ?thesis by simp
qed

text \<open>
  C32. \<open>create_directories\<close> on an absolute path makes every missing directory on it and leaves the
  error code alone.
\<close>

theorem create_directories_makes:
  assumes "makes_directories os valid" "valid w" "\<forall>n \<in> set (ds @ ns). entry_name n"
    and "\<forall>k \<le> length ds. directory_at os w (path_of True (take k ds))"
    and "\<forall>k. 0 < k \<and> k \<le> length ns \<longrightarrow> absent_at os w (path_of True (ds @ take k ns))"
  shows "\<exists>w'. create_directories_ec os (path_of True (ds @ ns)) (ec, w) = (Value True, ec, w')
    \<and> (\<forall>k \<le> length (ds @ ns). directory_at os w' (path_of True (take k (ds @ ns))))"
  by (rule create_directories_absolute [OF assms(1-3)]) (use assms(4,5) in blast)+

theorem create_directories_makes_witness:
  "\<exists>w'. create_directories_ec dirs_os ''/var/log/acatl'' (Cleared, {''/'', ''/var''}) = (Value True, Cleared, w')
     \<and> directory_at dirs_os w' ''/var/log/acatl''"
proof -
  let ?W = "{''/'', ''/var''} :: path set"
  have e: "\<forall>n \<in> set ([''var''] @ [''log'', ''acatl'']). entry_name n"
    by (simp add: entry_name_def plain_name_def)
  have p: "path_of True ([''var''] @ [''log'', ''acatl'']) = ''/var/log/acatl''"
    "path_of True [''var'', ''log''] = ''/var/log''" "path_of True [''var''] = ''/var''" "path_of True [] = ''/''"
    by (simp_all add: path_of_def)
  have v: "dirs_valid ?W"
    unfolding dirs_valid_def
  proof (intro conjI allI impI)
    show "''/'' \<in> ?W" by simp
    fix ns n
    assume a: "(\<forall>m \<in> set (ns @ [n]). entry_name m) \<and> path_of True (ns @ [n]) \<in> ?W"
    have "path_of True (ns @ [n]) \<noteq> ''/''"
      using a by (cases ns) (auto simp: path_of_def join_slashed entry_name_def plain_name_def)
    then have "path_of True (ns @ [n]) = path_of True [''var'']" using a p(3) by simp
    then have "ns @ [n] = [''var'']"
      using rooted_inj [of "ns @ [n]" "[''var'']"] a by (simp add: entry_name_def plain_name_def)
    then show "path_of True ns \<in> ?W" using p(4) by simp
  qed
  have d: "\<forall>k \<le> length [''var'']. directory_at dirs_os ?W (path_of True (take k [''var'']))"
    using p by (auto simp: dirs_at le_Suc_eq)
  have m: "\<forall>k. 0 < k \<and> k \<le> length [''log'', ''acatl''] \<longrightarrow>
      absent_at dirs_os ?W (path_of True ([''var''] @ take k [''log'', ''acatl'']))"
    using p by (auto simp: dirs_at le_Suc_eq)
  from create_directories_makes [OF dirs_os_laws v e d m, of Cleared] obtain w' where
    w': "create_directories_ec dirs_os (path_of True ([''var''] @ [''log'', ''acatl''])) (Cleared, ?W) = (Value True, Cleared, w')"
      "\<forall>k \<le> length ([''var''] @ [''log'', ''acatl'']). directory_at dirs_os w' (path_of True (take k ([''var''] @ [''log'', ''acatl''])))"
    by blast
  have "directory_at dirs_os w' (path_of True (take 3 ([''var''] @ [''log'', ''acatl''])))"
    using spec [OF w'(2), of 3] by simp
  then show ?thesis using w'(1) unfolding p by (auto simp: p(1) [simplified])
qed

text \<open>
  On a relative path whose first name is missing, \<open>create_directories\<close> and
  \<open>create_directory\<close> always fail with \<open>not_a_directory\<close> and change nothing: they ask for the
  status of the empty parent path, which POSIX answers with \<open>ENOENT\<close>.
\<close>

theorem relative_directory_fails:
  assumes "\<forall>m \<in> set (n # ns). entry_name m" "absent_at os w n" "sc_stat os [] w = Inl ENOENT"
  shows "create_directories_ec os (path_of False (n # ns)) (ec, w) = (Value False, Generic not_a_directory, w)
    \<and> create_directory_ec os n (ec, w) = (Value False, Generic not_a_directory, w)"
  using create_directories_relative [OF assms] create_directory_relative [of n os w] assms(1,3)
  by (simp add: entry_name_def)

theorem relative_directory_fails_witness:
  "create_directories_ec dirs_os ''build/out'' (Cleared, {''/''}) = (Value False, Generic not_a_directory, {''/''})"
proof -
  have e: "\<forall>m \<in> set [''build'', ''out'']. entry_name m" by (simp add: entry_name_def plain_name_def)
  have a: "absent_at dirs_os {''/''} ''build''" by (simp add: dirs_at)
  have b: "sc_stat dirs_os [] {''/''} = Inl ENOENT" by (simp add: dirs_os_def)
  from relative_directory_fails [OF e a b, of Cleared] show ?thesis by (simp add: path_of_def)
qed

text \<open>
  \<open>permissions\<close> never takes a permission away: it does nothing unless both \<open>add_perms\<close> and
  \<open>remove_perms\<close> are set, and then it adds the permissions to those the file has.
\<close>

theorem permissions_only_adds:
  "snd (snd (permissions_ec os p prms (ec, w))) = w \<or>
     (prms AND add_perms \<noteq> 0 \<and> prms AND remove_perms \<noteq> 0 \<and>
       (\<exists>f. snd (snd (permissions_ec os p prms (ec, w))) =
          snd (sc_chmod os f
            (reported_perms (if prms AND symlink_nofollow \<noteq> 0 then sc_lstat os (c_str p) w
                             else sc_stat os (c_str p) w) OR (prms AND perms_mask)) w)))"
proof -
  obtain r ec' w' where run: "permissions_ec os p prms (ec, w) = (r, ec', w')"
    by (cases "permissions_ec os p prms (ec, w)")
  from permissions_adds [OF run] show ?thesis unfolding run by simp
qed

text \<open>
  \<open>recursive_directory_iterator::increment\<close> does not get past a directory that it may not
  open: it reports the error and the iterator stays where it is, every time.
\<close>

theorem unreadable_directory_stalls:
  assumes "ri_stack r = upper # rest" "ri_recursionPending r"
    and "directory_at os w (c_str (di_entry upper))"
    and "sc_lstat os (c_str (di_entry upper)) w = Inr ls" "file_type_of_mode (st_mode ls) \<noteq> FT_symlink"
    and "sc_opendir os (c_str (di_entry upper)) w = (Inl n, w)"
  shows "rec_increment_ec fuel os r (ec, w) = (Value r, System n, w)"
  by (rule rec_increment_stalls [OF assms])

theorem unreadable_directory_stalls_witness:
  "\<exists>r. rec_increment_ec 9 locked_os r (Cleared, ()) = (Value r, System EACCES, ())"
proof -
  let ?r = "\<lparr>ri_stack = [dir_impl_new\<lparr>di_entry := ''/root''\<rparr>], ri_options = 0, ri_recursionPending = True\<rparr>"
  let ?upper = "dir_impl_new\<lparr>di_entry := ''/root''\<rparr>"
  have "ri_stack ?r = ?upper # []" "ri_recursionPending ?r" by simp_all
  moreover have "directory_at locked_os () (c_str (di_entry ?upper))"
    by (simp add: directory_at_def locked_os_def stat_of_mode_def file_type_of_mode_def S_IFMT_def)
  moreover have "sc_lstat locked_os (c_str (di_entry ?upper)) () = Inr (stat_of_mode 0x4000)"
    "file_type_of_mode (st_mode (stat_of_mode 0x4000)) \<noteq> FT_symlink"
    "sc_opendir locked_os (c_str (di_entry ?upper)) () = (Inl EACCES, ())"
    by (simp_all add: locked_os_def inert_os_def stat_of_mode_def file_type_of_mode_def S_IFMT_def)
  ultimately have "rec_increment_ec 9 locked_os ?r (Cleared, ()) = (Value ?r, System EACCES, ())"
    by (rule unreadable_directory_stalls)
  then show ?thesis by blast
qed


section \<open>The lexer\<close>



text \<open>
  The line count of the lexer is one more than the number of newline characters in what it has
  read, if newline tokens are single newlines, whitespace has none and a token's value keeps
  the newlines of its match.
\<close>

theorem lexer_counts_lines:
  assumes "search_laws search" "blanks_progress search (lx_definitions L)"
    "line_laws search (lx_definitions L)" "lines_ok L" "lexer_next search L = Some (r, L')"
  shows "lines_ok L' \<and> lx_lineCount L' = 1 + of_nat (newlines (take (lx_pos L') (lx_input L)))"
proof -
  from next_result [OF assms(1,2)] assms(5) obtain skipped L1 seen where
    n: "blanks search L skipped L1" "stops search L1 seen r L'" by auto
  note mv = blanks_moves [OF assms(1) n(1)]
  have "lines_ok L1" by (rule blanks_lines [OF assms(1) n(1) assms(3,4)])
  then have "lines_ok L'" using stops_lines [OF assms(1) _ _ n(2)] mv assms(3) by simp
  moreover have "lx_input L' = lx_input L" using stops_moves [OF assms(1) n(2)] mv by simp
  ultimately show ?thesis by (simp add: lines_ok_def)
qed

theorem lexer_counts_lines_witness:
  "\<exists>L. sample_lexer [CHR ''a'', CHR 0x0A, CHR ''b''] = Some L \<and>
     (\<exists>r L'. lexer_next class_search L = Some (r, L') \<and> lines_ok L')"
proof -
  let ?L = "the (sample_lexer [CHR ''a'', CHR 0x0A, CHR ''b''])"
  have L: "sample_lexer [CHR ''a'', CHR 0x0A, CHR ''b''] = Some ?L" "lx_definitions ?L = sample_definitions"
    "lines_ok ?L" by (simp_all add: sample_lexer_def' lines_ok_def newlines_def)
  have p: "blanks_progress class_search (lx_definitions ?L)" "line_laws class_search (lx_definitions ?L)"
    using sample_laws L(2) by simp_all
  from next_result [OF class_search_laws p(1)] obtain r L' where n: "lexer_next class_search ?L = Some (r, L')"
    by blast
  from lexer_counts_lines [OF class_search_laws p L(3) n] n L(1) show ?thesis by blast
qed


section \<open>The command line\<close>

text \<open>
  C34. A command line is built from groups that share no options and repeat none, and the groups it was built from are destroyed.
  Parsing then offers to the library, one group after the other, the table of the options as they were declared, in
  the order of the declaration, until the library takes one: none of its entries is null, and there are no errors. This group
  is then the active one, its name is the group name, and \<open>count\<close> is for every name the number that the library
  stored in the first entry of that table with that name, or 0 if there is none. If no group is taken, or there are no arguments,
  parsing fails, and \<open>count\<close> is an error. Options that belong to several groups are not covered:
  \<open>shared_option_lost\<close> shows what becomes of them.
\<close>

theorem command_line_counts_options:
  assumes "CommandLineOptions_new at grows program groups st = (c, st')"
    "list_all (proper st) groups" "disjoint_groups groups"
    "\<forall>g \<in> set groups. \<forall>a \<in> set (og_argtable g). a < length (cs_args st)" "parse_law at"
    and "tables = map (\<lambda>g. map (\<lambda>i. entry_of at (cs_options st ! i)) (og_options g)) groups"
    and "first = (if args = [] then None else first_parsed at args 0 tables)"
  shows "\<exists>c' st''. CommandLineOptions_parse at args c (fold OptionGroup_destroy groups st') = Some (first \<noteq> None, c', st'') \<and>
    cl_activeGroup c' = map_option fst first \<and>
    (\<forall>name. CommandLineOptions_count c' name st'' = Some (case first of
         None \<Rightarrow> Inl (BadOption ''The commandline wasn't parsed or parsed with error'')
       | Some (k, table) \<Rightarrow> Inr (case find (has_name name) table of None \<Rightarrow> 0 | Some a \<Rightarrow> a_count a))) \<and>
    (\<forall>k table. first = Some (k, table) \<longrightarrow> CommandLineOptions_groupName c' = Some (Inr (og_name (groups ! k))))"
proof -
  from construction [OF assms(1-3)] construction_fresh [OF assms(1-3)] assms(4)
  have c: "same_groups (cl_options c) groups"
    "list_all (owns (fold OptionGroup_destroy groups st') (length (cs_args st))) (cl_options c)"
    "list_all (fresh at (cs_options st) (fold OptionGroup_destroy groups st')) (cl_options c)"
    "distinct (tables_of (cl_options c))" by blast+
  have "tables = map (declared_table at (cs_options st)) (cl_options c)"
    unfolding same_tables [OF c(1)] by (simp add: assms(6) declared_table_def)
  from command_line_first [OF c(2-4) assms(5) assms(7) [unfolded this]] obtain st'' where p:
    "CommandLineOptions_parse at args c (fold OptionGroup_destroy groups st') =
      Some (first \<noteq> None, c\<lparr>cl_activeGroup := map_option fst first\<rparr>, st'')"
    "\<And>k table. first = Some (k, table) \<Longrightarrow> k < length (cl_options c) \<and> shows_table st'' (cl_options c ! k) table" by blast
  have "og_name (cl_options c ! k) = og_name (groups ! k)" if "k < length (cl_options c)" for k
    using c(1) that unfolding same_groups_def by (metis nth_map length_map)
  with p count_shown show ?thesis
    by (cases first) (fastforce simp: CommandLineOptions_count_def CommandLineOptions_groupName_def in_active_group_def)+
qed

definition verbose_store :: cl_store where
  "verbose_store = \<lparr>cs_options = [OptionBase_new LiteralOption ''v'' [] 0 1 ''more output''], cs_args = []\<rparr>"

definition verbose_group :: "OptionGroup \<times> cl_store" where
  "verbose_group = OptionGroup_new sample_table ''main'' [0] verbose_store"

lemma verbose_facts:
  "proper (snd verbose_group) (fst verbose_group)" "og_options (fst verbose_group) = [0]"
  "og_argtable (fst verbose_group) = [0]" "length (cs_args (snd verbose_group)) = 1"
  by (simp_all add: verbose_group_def OptionGroup_new_def option_add_def verbose_store_def OptionBase_new_def
      proper_def Let_def)

lemma verbose_parsed:
  "first_parsed sample_table [''prog'', ''-v'', ''-v''] 0
     [map (\<lambda>i. entry_of sample_table (cs_options (snd verbose_group) ! i)) (og_options (fst verbose_group))] =
   Some (0, [\<lparr>a_shortopts = Some ''v'', a_longopts = None, a_count = 2, a_sval = []\<rparr>])"
  by code_simp

theorem command_line_counts_options_witness:
  "\<exists>c st c' st'.
     CommandLineOptions_new sample_table (\<lambda>n. True) ''prog'' [fst verbose_group] (snd verbose_group) = (c, st) \<and>
     CommandLineOptions_parse sample_table [''prog'', ''-v'', ''-v''] c (OptionGroup_destroy (fst verbose_group) st) =
       Some (True, c', st') \<and>
     CommandLineOptions_count c' ''v'' st' = Some (Inr 2) \<and> CommandLineOptions_count c' ''w'' st' = Some (Inr 0)"
proof -
  obtain c st where n:
    "CommandLineOptions_new sample_table (\<lambda>n. True) ''prog'' [fst verbose_group] (snd verbose_group) = (c, st)"
    by (cases "CommandLineOptions_new sample_table (\<lambda>n. True) ''prog'' [fst verbose_group] (snd verbose_group)")
  have g: "list_all (proper (snd verbose_group)) [fst verbose_group]" "disjoint_groups [fst verbose_group]"
    "\<forall>g \<in> set [fst verbose_group]. \<forall>a \<in> set (og_argtable g). a < length (cs_args (snd verbose_group))"
    using verbose_facts by simp_all
  from command_line_counts_options [OF n g sample_table_law refl refl, of "[''prog'', ''-v'', ''-v'']"] verbose_parsed
  obtain c' st' where
    "CommandLineOptions_parse sample_table [''prog'', ''-v'', ''-v''] c (OptionGroup_destroy (fst verbose_group) st) =
       Some (True, c', st')"
    "\<And>name. CommandLineOptions_count c' name st' = Some (Inr (case find (has_name name)
       [\<lparr>a_shortopts = Some ''v'', a_longopts = None, a_count = 2, a_sval = []\<rparr>] of None \<Rightarrow> 0 | Some a \<Rightarrow> a_count a))"
    by auto
  with n show ?thesis by (intro exI [of _ c] exI [of _ st] exI [of _ c'] exI [of _ st']) (simp add: has_name_def)
qed

text \<open>
  If two groups share an option, then in the command line one of them does not own the entries
  its options point to: what is parsed into its table is not what \<open>count\<close> and \<open>value\<close> read.
\<close>

theorem shared_option_lost:
  assumes "CommandLineOptions_new at grows program [g, h] st = (c, st')" "proper st g" "proper st h"
    "i \<in> set (og_options g) \<inter> set (og_options h)"
  shows "\<exists>x \<in> set (cl_options c). \<forall>lo. \<not> owns st' lo x"
  by (rule shared_option [OF assms])

theorem shared_option_lost_witness:
  "\<exists>c st. CommandLineOptions_new sample_table (\<lambda>n. True) ''prog'' [fst verbose_group, fst verbose_group]
       (snd verbose_group) = (c, st) \<and> (\<exists>x \<in> set (cl_options c). \<forall>lo. \<not> owns st lo x)"
proof -
  let ?new = "CommandLineOptions_new sample_table (\<lambda>n. True) ''prog'' [fst verbose_group, fst verbose_group]
    (snd verbose_group)"
  obtain c st where n: "?new = (c, st)" by (cases ?new)
  have "0 \<in> set (og_options (fst verbose_group)) \<inter> set (og_options (fst verbose_group))"
    using verbose_facts(2) by simp
  from shared_option_lost [OF n verbose_facts(1) verbose_facts(1) this] n show ?thesis by blast
qed

end
