(* ===== verification/Thread_Pool.thy ===== *)
theory Thread_Pool
  imports Prelude
begin

text \<open>
  src/acatl/thread_pool.h: the pool, its workers and their queue. A thread is at one of a few places
  of its code, and an event is one thread doing one step. A step of a worker is one use of
  the mutex, of the condition variable or of the shared data, so that the steps of different
  threads can be interleaved in every order that matters. What a caller of \<open>enqueue\<close> does under the
  mutex is one step and its \<open>notify_one\<close> is another; so are the three parts of the destructor.
  A task is a value; that it ran is recorded.
\<close>

section \<open>State\<close>

text \<open>
  The places of a worker: before it takes the mutex, before it evaluates the condition of
  \<open>wait\<close>, before it goes to sleep because the condition was false, asleep, behind \<open>wait\<close>,
  in a task, and behind the loop.
\<close>

datatype 't worker = AtLock | AtCheck | AtSleep | Asleep | AtTake | Running 't | Returned

datatype destructor = Alive | Stopped | Joining | Destroyed

record 't pool =
  tp_workers :: "'t worker list"
  tp_tasks :: "'t list"
  tp_stop :: bool
  tp_mutex :: "nat option"
  tp_notifies :: nat
  tp_destructor :: destructor
  tp_started :: "'t list"
  tp_finished :: "'t list"

datatype 't pool_event =
    Lock nat | Check nat | Sleep nat | Take nat | Finish nat | Wake nat
  | Enqueue 't | Refuse 't | Notify "nat option"
  | Stop | NotifyAll | Join

definition numThreads :: "nat \<Rightarrow> nat \<Rightarrow> nat" where
  "numThreads hardware_concurrency n = (if n = 0 then hardware_concurrency else n)"

definition Threadpool_new :: "nat \<Rightarrow> nat \<Rightarrow> 't pool" where
  "Threadpool_new hardware_concurrency n =
     \<lparr>tp_workers = replicate (numThreads hardware_concurrency n) AtLock, tp_tasks = [], tp_stop = False,
      tp_mutex = None, tp_notifies = 0, tp_destructor = Alive, tp_started = [], tp_finished = []\<rparr>"


section \<open>Steps\<close>

definition worker :: "'t pool \<Rightarrow> nat \<Rightarrow> 't worker option" where
  "worker p i = (if i < length (tp_workers p) then Some (tp_workers p ! i) else None)"

definition move :: "nat \<Rightarrow> 't worker \<Rightarrow> 't pool \<Rightarrow> 't pool" where
  "move i w p = p\<lparr>tp_workers := (tp_workers p)[i := w]\<rparr>"

text \<open>The condition of \<open>_queueCondition.wait\<close>.\<close>

definition wait_over :: "'t pool \<Rightarrow> bool" where
  "wait_over p \<longleftrightarrow> tp_stop p \<or> tp_tasks p \<noteq> []"

fun wake :: "'t worker \<Rightarrow> 't worker" where
  "wake Asleep = AtLock"
| "wake w = w"

text \<open>The steps of a worker. \<open>wait\<close> takes the mutex again and evaluates its condition again.\<close>

fun worker_next :: "nat \<Rightarrow> 't pool \<Rightarrow> 't pool option" where
  "worker_next i p =
     (case worker p i of
        Some AtLock \<Rightarrow> if tp_mutex p = None then Some (move i AtCheck (p\<lparr>tp_mutex := Some i\<rparr>)) else None
      | Some AtCheck \<Rightarrow> Some (move i (if wait_over p then AtTake else AtSleep) p)
      | Some AtSleep \<Rightarrow> Some (move i Asleep (p\<lparr>tp_mutex := None\<rparr>))
      | Some AtTake \<Rightarrow>
          (if tp_stop p \<and> tp_tasks p = [] then Some (move i Returned (p\<lparr>tp_mutex := None\<rparr>))
           else (case tp_tasks p of
               [] \<Rightarrow> Some (move i AtLock (p\<lparr>tp_mutex := None\<rparr>))
             | t # ts \<Rightarrow> Some (move i (Running t)
                 (p\<lparr>tp_mutex := None, tp_tasks := ts, tp_started := tp_started p @ [t]\<rparr>))))
      | Some (Running t) \<Rightarrow> Some (move i AtLock (p\<lparr>tp_finished := tp_finished p @ [t]\<rparr>))
      | _ \<Rightarrow> None)"

definition at :: "'t pool \<Rightarrow> nat \<Rightarrow> 't worker \<Rightarrow> bool" where
  "at p i w \<longleftrightarrow> worker p i = Some w"

text \<open>\<open>enqueue\<close> under the mutex: refused with an exception once the pool is stopped.\<close>

definition enqueue :: "'t \<Rightarrow> 't pool \<Rightarrow> 't pool option" where
  "enqueue t p =
     (if tp_stop p then None else Some (p\<lparr>tp_tasks := tp_tasks p @ [t], tp_notifies := Suc (tp_notifies p)\<rparr>))"

text \<open>\<open>notify_one\<close> wakes some sleeping worker, and none only if none sleeps.\<close>

definition notify_one :: "nat option \<Rightarrow> 't pool \<Rightarrow> 't pool option" where
  "notify_one who p =
     (if tp_notifies p = 0 then None
      else (case who of
          None \<Rightarrow> (if Asleep \<in> set (tp_workers p) then None else Some (p\<lparr>tp_notifies := tp_notifies p - 1\<rparr>))
        | Some i \<Rightarrow> (if at p i Asleep then Some (move i AtLock (p\<lparr>tp_notifies := tp_notifies p - 1\<rparr>)) else None)))"

text \<open>The destructor: \<open>_stop.store(true)\<close> without the mutex, \<open>notify_all\<close>, and the joins.\<close>

definition stop :: "'t pool \<Rightarrow> 't pool option" where
  "stop p = (if tp_destructor p = Alive then Some (p\<lparr>tp_stop := True, tp_destructor := Stopped\<rparr>) else None)"

definition notify_all :: "'t pool \<Rightarrow> 't pool option" where
  "notify_all p =
     (if tp_destructor p = Stopped
      then Some (p\<lparr>tp_workers := map wake (tp_workers p), tp_destructor := Joining\<rparr>) else None)"

definition join :: "'t pool \<Rightarrow> 't pool option" where
  "join p =
     (if tp_destructor p = Joining \<and> list_all (\<lambda>w. w = Returned) (tp_workers p)
      then Some (p\<lparr>tp_destructor := Destroyed\<rparr>) else None)"

fun pool_next :: "'t pool_event \<Rightarrow> 't pool \<Rightarrow> 't pool option" where
  "pool_next (Lock i) p = (if at p i AtLock then worker_next i p else None)"
| "pool_next (Check i) p = (if at p i AtCheck then worker_next i p else None)"
| "pool_next (Sleep i) p = (if at p i AtSleep then worker_next i p else None)"
| "pool_next (Take i) p = (if at p i AtTake then worker_next i p else None)"
| "pool_next (Finish i) p =
     (case worker p i of Some (Running t) \<Rightarrow> worker_next i p | _ \<Rightarrow> None)"
| "pool_next (Wake i) p = (if at p i Asleep then Some (move i AtLock p) else None)"
| "pool_next (Enqueue t) p =
     (if tp_mutex p = None \<and> tp_destructor p \<noteq> Destroyed then enqueue t p else None)"
| "pool_next (Refuse t) p =
     (if tp_mutex p = None \<and> tp_destructor p \<noteq> Destroyed \<and> enqueue t p = None then Some p else None)"
| "pool_next (Notify who) p = notify_one who p"
| "pool_next Stop p = stop p"
| "pool_next NotifyAll p = notify_all p"
| "pool_next Join p = join p"

fun pool_run :: "'t pool_event list \<Rightarrow> 't pool \<Rightarrow> 't pool option" where
  "pool_run [] p = Some p"
| "pool_run (e # es) p = (case pool_next e p of None \<Rightarrow> None | Some p' \<Rightarrow> pool_run es p')"


section \<open>The invariant\<close>

text \<open>What a worker has started and not finished, and the tasks that \<open>enqueue\<close> took.\<close>

fun task_of :: "'t worker \<Rightarrow> 't multiset" where
  "task_of (Running t) = {#t#}"
| "task_of w = {#}"

definition running :: "'t pool \<Rightarrow> 't multiset" where
  "running p = sum_list (map task_of (tp_workers p))"

fun accepted_tasks :: "'t pool_event list \<Rightarrow> 't list" where
  "accepted_tasks [] = []"
| "accepted_tasks (Enqueue t # es) = t # accepted_tasks es"
| "accepted_tasks (e # es) = accepted_tasks es"

fun has_lock :: "'t worker \<Rightarrow> bool" where
  "has_lock w = (w = AtCheck \<or> w = AtSleep \<or> w = AtTake)"

text \<open>
  \<open>lock_inv\<close>: who is in the critical section has the mutex. \<open>sleep_inv\<close>: with tasks in the queue not
  all workers sleep, unless a notification is on its way. \<open>stop_inv\<close>: workers return only
  when nothing is left to do, and never without the destructor.
\<close>

definition mutex_inv :: "'t pool \<Rightarrow> bool" where
  "mutex_inv p \<longleftrightarrow> (\<forall>i w. at p i w \<longrightarrow> (has_lock w \<longleftrightarrow> tp_mutex p = Some i)) \<and>
     (\<forall>i. tp_mutex p = Some i \<longrightarrow> i < length (tp_workers p))"

definition lock_inv :: "'t pool \<Rightarrow> bool" where
  "lock_inv p \<longleftrightarrow> mutex_inv p \<and>
     (\<forall>i. at p i AtSleep \<longrightarrow> tp_tasks p = []) \<and> (\<forall>i. at p i AtTake \<longrightarrow> wait_over p)"

definition sleep_inv :: "'t pool \<Rightarrow> bool" where
  "sleep_inv p \<longleftrightarrow>
     (tp_tasks p \<noteq> [] \<and> tp_workers p \<noteq> [] \<and> (\<forall>i w. at p i w \<longrightarrow> w = Asleep) \<longrightarrow> 0 < tp_notifies p)"

definition stop_inv :: "'t pool \<Rightarrow> bool" where
  "stop_inv p \<longleftrightarrow> (Returned \<in> set (tp_workers p) \<longrightarrow> tp_stop p \<and> tp_tasks p = []) \<and>
     (tp_stop p \<longleftrightarrow> tp_destructor p \<noteq> Alive) \<and>
     (tp_destructor p = Destroyed \<longrightarrow> (\<forall>w \<in> set (tp_workers p). w = Returned))"

definition task_inv :: "'t pool \<Rightarrow> bool" where
  "task_inv p \<longleftrightarrow> mset (tp_started p) = mset (tp_finished p) + running p"

lemma at_less: "at p i w \<Longrightarrow> i < length (tp_workers p) \<and> tp_workers p ! i = w"
  by (simp add: at_def worker_def split: if_splits)

lemma at_nth: "i < length (tp_workers p) \<Longrightarrow> at p i (tp_workers p ! i)"
  by (simp add: at_def worker_def)

lemma at_mem: "at p i w \<Longrightarrow> w \<in> set (tp_workers p)"
  by (auto dest: at_less)

lemma at_det: "at p i w \<Longrightarrow> at p i w' \<Longrightarrow> w = w'"
  by (simp add: at_def)

lemma at_move: "at (move i w p) j v \<longleftrightarrow> (if i = j \<and> i < length (tp_workers p) then v = w else at p j v)"
  by (auto simp: at_def worker_def move_def)

lemma move_fields [simp]:
  "tp_tasks (move i w p) = tp_tasks p" "tp_stop (move i w p) = tp_stop p" "tp_mutex (move i w p) = tp_mutex p"
  "tp_notifies (move i w p) = tp_notifies p" "tp_destructor (move i w p) = tp_destructor p"
  "tp_started (move i w p) = tp_started p" "tp_finished (move i w p) = tp_finished p"
  "length (tp_workers (move i w p)) = length (tp_workers p)"
  "wait_over (move i w p) = wait_over p"
  by (simp_all add: move_def wait_over_def)

text \<open>The events by what they do; the other lemmas are cases over these.\<close>

inductive pool_step :: "'t pool \<Rightarrow> 't pool_event \<Rightarrow> 't pool \<Rightarrow> bool" where
  lock: "at p i AtLock \<Longrightarrow> tp_mutex p = None \<Longrightarrow>
    pool_step p (Lock i) (move i AtCheck (p\<lparr>tp_mutex := Some i\<rparr>))"
| go_on: "at p i AtCheck \<Longrightarrow> wait_over p \<Longrightarrow> pool_step p (Check i) (move i AtTake p)"
| wait: "at p i AtCheck \<Longrightarrow> \<not> wait_over p \<Longrightarrow> pool_step p (Check i) (move i AtSleep p)"
| sleep: "at p i AtSleep \<Longrightarrow> pool_step p (Sleep i) (move i Asleep (p\<lparr>tp_mutex := None\<rparr>))"
| leave: "at p i AtTake \<Longrightarrow> tp_stop p \<Longrightarrow> tp_tasks p = [] \<Longrightarrow>
    pool_step p (Take i) (move i Returned (p\<lparr>tp_mutex := None\<rparr>))"
| skip: "at p i AtTake \<Longrightarrow> \<not> tp_stop p \<Longrightarrow> tp_tasks p = [] \<Longrightarrow>
    pool_step p (Take i) (move i AtLock (p\<lparr>tp_mutex := None\<rparr>))"
| take_task: "at p i AtTake \<Longrightarrow> tp_tasks p = t # ts \<Longrightarrow>
    pool_step p (Take i)
      (move i (Running t) (p\<lparr>tp_mutex := None, tp_tasks := ts, tp_started := tp_started p @ [t]\<rparr>))"
| finish: "at p i (Running t) \<Longrightarrow>
    pool_step p (Finish i) (move i AtLock (p\<lparr>tp_finished := tp_finished p @ [t]\<rparr>))"
| wake_up: "at p i Asleep \<Longrightarrow> pool_step p (Wake i) (move i AtLock p)"
| enqueue: "tp_mutex p = None \<Longrightarrow> tp_destructor p \<noteq> Destroyed \<Longrightarrow> \<not> tp_stop p \<Longrightarrow>
    pool_step p (Enqueue t) (p\<lparr>tp_tasks := tp_tasks p @ [t], tp_notifies := Suc (tp_notifies p)\<rparr>)"
| refuse: "tp_mutex p = None \<Longrightarrow> tp_destructor p \<noteq> Destroyed \<Longrightarrow> tp_stop p \<Longrightarrow> pool_step p (Refuse t) p"
| notify_none: "0 < tp_notifies p \<Longrightarrow> Asleep \<notin> set (tp_workers p) \<Longrightarrow>
    pool_step p (Notify None) (p\<lparr>tp_notifies := tp_notifies p - 1\<rparr>)"
| notify: "0 < tp_notifies p \<Longrightarrow> at p i Asleep \<Longrightarrow>
    pool_step p (Notify (Some i)) (move i AtLock (p\<lparr>tp_notifies := tp_notifies p - 1\<rparr>))"
| stop: "tp_destructor p = Alive \<Longrightarrow> pool_step p Stop (p\<lparr>tp_stop := True, tp_destructor := Stopped\<rparr>)"
| notify_all: "tp_destructor p = Stopped \<Longrightarrow>
    pool_step p NotifyAll (p\<lparr>tp_workers := map wake (tp_workers p), tp_destructor := Joining\<rparr>)"
| join: "tp_destructor p = Joining \<Longrightarrow> \<forall>w \<in> set (tp_workers p). w = Returned \<Longrightarrow>
    pool_step p Join (p\<lparr>tp_destructor := Destroyed\<rparr>)"

lemmas pool_defs = at_def enqueue_def notify_one_def stop_def notify_all_def join_def

lemma pool_next_step: "pool_next e p = Some p' \<longleftrightarrow> pool_step p e p'"
proof
  assume "pool_next e p = Some p'"
  then show "pool_step p e p'"
    by (cases e) (auto simp: pool_defs list_all_iff simp del: One_nat_def split: if_splits worker.splits option.splits list.splits
        intro: pool_step.intros [unfolded at_def])
next
  assume "pool_step p e p'"
  then show "pool_next e p = Some p'"
    by cases (simp_all add: pool_defs list_all_iff)
qed

lemma at_update [simp]:
  "at (p\<lparr>tp_mutex := m\<rparr>) i w = at p i w" "at (p\<lparr>tp_tasks := ts\<rparr>) i w = at p i w"
  "at (p\<lparr>tp_started := ts\<rparr>) i w = at p i w" "at (p\<lparr>tp_finished := ts\<rparr>) i w = at p i w"
  "at (p\<lparr>tp_notifies := n\<rparr>) i w = at p i w" "at (p\<lparr>tp_stop := b\<rparr>) i w = at p i w"
  "at (p\<lparr>tp_destructor := d\<rparr>) i w = at p i w"
  by (simp_all add: at_def worker_def)

lemma at_wake: "at (p\<lparr>tp_workers := map wake (tp_workers p)\<rparr>) i w \<longleftrightarrow> (\<exists>v. at p i v \<and> w = wake v)"
  by (auto simp: at_def worker_def)

lemma has_lock_wake [simp]: "has_lock (wake w) = has_lock w"
  by (cases w) auto

lemma wake_eq [simp]:
  "wake w = AtSleep \<longleftrightarrow> w = AtSleep" "AtSleep = wake w \<longleftrightarrow> w = AtSleep"
  "wake w = AtTake \<longleftrightarrow> w = AtTake" "AtTake = wake w \<longleftrightarrow> w = AtTake"
  "Returned = wake w \<longleftrightarrow> w = Returned" "wake w \<noteq> Asleep"
  by (cases w; auto)+

lemma mutex_invD: "mutex_inv p \<Longrightarrow> at p i w \<Longrightarrow> has_lock w \<longleftrightarrow> tp_mutex p = Some i"
  by (simp add: mutex_inv_def)

lemma lock_invD:
  "lock_inv p \<Longrightarrow> mutex_inv p"
  "lock_inv p \<Longrightarrow> at p i AtSleep \<Longrightarrow> tp_tasks p = []"
  "lock_inv p \<Longrightarrow> at p i AtTake \<Longrightarrow> wait_over p"
  by (auto simp: lock_inv_def)

lemma mutex_inv_unique:
  "mutex_inv p \<Longrightarrow> at p i v \<Longrightarrow> at p j w \<Longrightarrow> has_lock v \<Longrightarrow> has_lock w \<Longrightarrow> i = j"
  by (metis mutex_invD option.inject)

text \<open>A worker takes the mutex, gives it back, or moves without touching it.\<close>

lemma mutex_inv_acquire:
  "mutex_inv p \<Longrightarrow> at p i v \<Longrightarrow> tp_mutex p = None \<Longrightarrow> has_lock w \<Longrightarrow> mutex_inv (move i w (p\<lparr>tp_mutex := Some i\<rparr>))"
  by (auto simp: mutex_inv_def at_move dest: at_less)

lemma mutex_inv_release:
  "mutex_inv p \<Longrightarrow> at p i v \<Longrightarrow> has_lock v \<Longrightarrow> \<not> has_lock w \<Longrightarrow> mutex_inv (move i w (p\<lparr>tp_mutex := None\<rparr>))"
  by (auto simp: mutex_inv_def at_move simp del: has_lock.simps dest: at_less)

lemma mutex_inv_move: "mutex_inv p \<Longrightarrow> at p i v \<Longrightarrow> has_lock v = has_lock w \<Longrightarrow> mutex_inv (move i w p)"
  by (auto simp: mutex_inv_def at_move simp del: has_lock.simps dest: at_less)

lemma mutex_inv_cong:
  "mutex_inv (p\<lparr>tp_tasks := ts\<rparr>) = mutex_inv p" "mutex_inv (p\<lparr>tp_started := ts\<rparr>) = mutex_inv p"
  "mutex_inv (p\<lparr>tp_finished := ts\<rparr>) = mutex_inv p" "mutex_inv (p\<lparr>tp_notifies := n\<rparr>) = mutex_inv p"
  "mutex_inv (p\<lparr>tp_stop := b\<rparr>) = mutex_inv p" "mutex_inv (p\<lparr>tp_destructor := d\<rparr>) = mutex_inv p"
  by (simp_all add: mutex_inv_def)

lemma mutex_inv_eqI:
  "mutex_inv q \<Longrightarrow> tp_workers p = tp_workers q \<Longrightarrow> tp_mutex p = tp_mutex q \<Longrightarrow> mutex_inv p"
  by (simp add: mutex_inv_def at_def worker_def)

lemma mutex_inv_wake: "mutex_inv p \<Longrightarrow> mutex_inv (p\<lparr>tp_workers := map wake (tp_workers p)\<rparr>)"
  by (auto simp: mutex_inv_def at_wake simp del: has_lock.simps)

lemma mutex_inv_step:
  assumes "pool_step p e p'" "mutex_inv p"
  shows "mutex_inv p'"
  using assms
proof (induction rule: pool_step.induct)
  case (take_task p i t ts)
  then have "mutex_inv (move i (Running t) (p\<lparr>tp_mutex := None\<rparr>))"
    by (intro mutex_inv_release [where v = AtTake]) simp_all
  then show ?case by (rule mutex_inv_eqI) (simp_all add: move_def)
next
  case (notify_all p)
  then show ?case by (auto intro: mutex_inv_eqI [OF mutex_inv_wake])
qed (auto simp: mutex_inv_cong intro: mutex_inv_acquire mutex_inv_release mutex_inv_move)

lemma lock_inv_step:
  assumes "pool_step p e p'" "lock_inv p"
  shows "lock_inv p'"
proof -
  have m: "mutex_inv p'" "mutex_inv p" using assms by (auto simp: lock_inv_def intro: mutex_inv_step)
  have "(\<forall>i. at p' i AtSleep \<longrightarrow> tp_tasks p' = []) \<and> (\<forall>i. at p' i AtTake \<longrightarrow> wait_over p')"
    using assms m(2)
  proof (induction rule: pool_step.induct)
    case (take_task p i t ts)
    then have "at p j w \<Longrightarrow> has_lock w \<Longrightarrow> j = i" for j w using mutex_inv_unique [of p i AtTake j w] by simp
    from this [of _ AtSleep] this [of _ AtTake] at_less [OF take_task(1)] show ?case
      by (auto simp: at_move)
  qed (auto simp: lock_inv_def at_move at_wake wait_over_def dest: mutex_invD split: if_splits)
  with m(1) show ?thesis by (simp add: lock_inv_def)
qed

lemma set_move: "set (tp_workers (move i w p)) \<subseteq> insert w (set (tp_workers p))"
  by (simp add: move_def set_update_subset_insert)

lemma stop_inv_moved:
  assumes "stop_inv p" "at p i v" "v \<noteq> Returned" "w \<noteq> Returned"
  shows "stop_inv (move i w p)"
proof -
  have "Returned \<in> set (tp_workers (move i w p)) \<Longrightarrow> Returned \<in> set (tp_workers p)"
    using set_move [of i w p] assms(4) by auto
  moreover have "tp_destructor p \<noteq> Destroyed" using assms at_mem by (fastforce simp: stop_inv_def)
  ultimately show ?thesis using assms(1) by (auto simp: stop_inv_def)
qed

lemma stop_inv_cong [simp]:
  "stop_inv (p\<lparr>tp_mutex := m\<rparr>) = stop_inv p" "stop_inv (p\<lparr>tp_finished := ts\<rparr>) = stop_inv p"
  "stop_inv (p\<lparr>tp_notifies := n\<rparr>) = stop_inv p" "stop_inv (p\<lparr>tp_started := ts\<rparr>) = stop_inv p"
  by (simp_all add: stop_inv_def)

lemma stop_inv_step:
  assumes "pool_step p e p'" "stop_inv p"
  shows "stop_inv p'"
  using assms
proof (induction rule: pool_step.induct)
  case (leave p i)
  then show ?case using at_mem [OF leave(1)] by (auto simp: stop_inv_def)
next
  case (take_task p i t ts)
  have "stop_inv (p\<lparr>tp_tasks := ts\<rparr>)" using take_task(2,3) by (auto simp: stop_inv_def)
  then have "stop_inv (move i (Running t) (p\<lparr>tp_tasks := ts\<rparr>))"
    by (rule stop_inv_moved [where v = AtTake]) (use take_task(1) in simp_all)
  then show ?case by (auto simp: stop_inv_def move_def)
next
  case (notify_all p)
  then show ?case by (auto simp: stop_inv_def)
next
  case (join p)
  then show ?case by (auto simp: stop_inv_def)
qed (auto intro!: stop_inv_moved, auto simp: stop_inv_def)

lemma running_cong [simp]:
  "running (p\<lparr>tp_mutex := m\<rparr>) = running p" "running (p\<lparr>tp_tasks := ts\<rparr>) = running p"
  "running (p\<lparr>tp_started := ts\<rparr>) = running p" "running (p\<lparr>tp_finished := ts\<rparr>) = running p"
  "running (p\<lparr>tp_notifies := n\<rparr>) = running p" "running (p\<lparr>tp_stop := b\<rparr>) = running p"
  "running (p\<lparr>tp_destructor := d\<rparr>) = running p"
  by (simp_all add: running_def)

lemma running_wake: "running (p\<lparr>tp_workers := map wake (tp_workers p)\<rparr>) = running p"
proof -
  have "task_of (wake w) = task_of w" for w :: "'a worker" by (cases w) auto
  then show ?thesis by (simp add: running_def comp_def)
qed

lemma sum_list_replace:
  "i < length xs \<Longrightarrow> sum_list (xs[i := x]) + xs ! i = sum_list xs + (x :: 'a :: comm_monoid_add)"
  by (induction xs arbitrary: i) (auto simp: less_Suc_eq_0_disj ac_simps)

lemma running_move:
  assumes "at p i v"
  shows "running (move i w p) + task_of v = running p + task_of w"
proof -
  let ?ws = "tp_workers p"
  have i: "i < length ?ws" "?ws ! i = v" using at_less [OF assms] by simp_all
  have "sum_list (map task_of (?ws[i := w])) + task_of v = sum_list ((map task_of ?ws)[i := task_of w]) + task_of v"
    by (simp add: map_update)
  also have "\<dots> = sum_list (map task_of ?ws) + task_of w"
    using i sum_list_replace [of i "map task_of ?ws" "task_of w"] by simp
  finally show ?thesis by (simp add: running_def move_def)
qed

lemma task_inv_moved: "task_inv p \<Longrightarrow> at p i v \<Longrightarrow> task_of v = task_of w \<Longrightarrow> task_inv (move i w p)"
  using running_move [of p i v w] by (simp add: task_inv_def)

lemma running_moved [simp]:
  "running (move i w (p\<lparr>tp_finished := ts\<rparr>)) = running (move i w p)"
  "running (move i w (p\<lparr>tp_mutex := m, tp_tasks := us, tp_started := ts\<rparr>)) = running (move i w p)"
  by (simp_all add: running_def move_def)

lemma task_inv_cong [simp]:
  "task_inv (p\<lparr>tp_mutex := m\<rparr>) = task_inv p" "task_inv (p\<lparr>tp_notifies := n\<rparr>) = task_inv p"
  by (simp_all add: task_inv_def)

lemma task_inv_step:
  assumes "pool_step p e p'" "task_inv p"
  shows "task_inv p'"
  using assms
proof (induction rule: pool_step.induct)
  case (finish p i t)
  from running_move [OF finish(1), of AtLock] finish(2) show ?case by (simp add: task_inv_def)
next
  case (take_task p i t ts)
  from running_move [OF take_task(1), of "Running t"] take_task(3) show ?case by (simp add: task_inv_def)
next
  case (notify_all p)
  from running_wake [of p] notify_all show ?case by (simp add: task_inv_def running_def)
qed (auto intro: task_inv_moved, auto simp: task_inv_def)

lemma sleep_inv_moved: "at p i v \<Longrightarrow> w \<noteq> Asleep \<Longrightarrow> sleep_inv (move i w p)"
  by (auto simp: sleep_inv_def at_move dest: at_less)

lemma sleep_inv_step:
  assumes "pool_step p e p'" "lock_inv p" "stop_inv p" "sleep_inv p"
  shows "sleep_inv p'"
  using assms
proof (induction rule: pool_step.induct)
  case (sleep p i)
  then show ?case by (auto simp: sleep_inv_def dest: lock_invD)
next
  case (notify_none p)
  then have "\<not> (tp_workers p \<noteq> [] \<and> (\<forall>i w. at p i w \<longrightarrow> w = Asleep))"
    by (metis at_def length_greater_0_conv nth_mem worker_def notify_none(2))
  then show ?case by (auto simp: sleep_inv_def)
next
  case (notify_all p)
  have "\<not> (\<forall>i w. at (p\<lparr>tp_workers := map wake (tp_workers p)\<rparr>) i w \<longrightarrow> w = Asleep)" if "tp_workers p \<noteq> []"
    using that unfolding at_wake by (metis at_def length_greater_0_conv wake_eq(6) worker_def)
  then show ?case by (auto simp: sleep_inv_def)
qed (auto intro!: sleep_inv_moved, auto simp: sleep_inv_def)


section \<open>Runs\<close>

definition pool_inv :: "'t pool \<Rightarrow> bool" where
  "pool_inv p \<longleftrightarrow> lock_inv p \<and> sleep_inv p \<and> stop_inv p \<and> task_inv p"

lemma running_none: "\<forall>w \<in> set (tp_workers p). task_of w = {#} \<Longrightarrow> running p = {#}"
proof -
  have "\<forall>w \<in> set ws. task_of w = {#} \<Longrightarrow> sum_list (map task_of ws) = {#}" for ws :: "'a worker list"
    by (induction ws) auto
  then show "\<forall>w \<in> set (tp_workers p). task_of w = {#} \<Longrightarrow> running p = {#}" by (simp add: running_def)
qed

lemma pool_inv_new: "pool_inv (Threadpool_new hc n)"
proof -
  have "running (Threadpool_new hc n :: 'a pool) = {#}"
    by (rule running_none) (simp add: Threadpool_new_def)
  then show ?thesis
    by (simp add: pool_inv_def lock_inv_def mutex_inv_def sleep_inv_def stop_inv_def task_inv_def
        Threadpool_new_def at_def worker_def)
qed

lemma pool_inv_step: "pool_step p e p' \<Longrightarrow> pool_inv p \<Longrightarrow> pool_inv p'"
  unfolding pool_inv_def
  using lock_inv_step sleep_inv_step stop_inv_step task_inv_step by blast

lemma queue_step: "pool_step p e p' \<Longrightarrow> tp_started p' @ tp_tasks p' = tp_started p @ tp_tasks p @ accepted_tasks [e]"
  by (induction rule: pool_step.induct) auto

lemma accepted_tasks_append: "accepted_tasks (e # es) = accepted_tasks [e] @ accepted_tasks es"
  by (cases e) auto

lemma pool_run_inv:
  assumes "pool_run es p = Some p'" "pool_inv p"
  shows "pool_inv p' \<and> tp_started p' @ tp_tasks p' = tp_started p @ tp_tasks p @ accepted_tasks es"
  using assms
proof (induction es arbitrary: p)
  case (Cons e es)
  then obtain q where q: "pool_step p e q" "pool_run es q = Some p'"
    by (auto simp: pool_next_step [symmetric] split: option.splits)
  from Cons.IH [OF q(2) pool_inv_step [OF q(1) Cons.prems(2)]] queue_step [OF q(1)] accepted_tasks_append [of e es]
  show ?case by (metis append.assoc)
qed simp

lemma workers_step: "pool_step p e p' \<Longrightarrow> length (tp_workers p') = length (tp_workers p)"
  by (induction rule: pool_step.induct) auto

lemma pool_run_workers: "pool_run es p = Some p' \<Longrightarrow> length (tp_workers p') = length (tp_workers p)"
proof (induction es arbitrary: p)
  case (Cons e es)
  then show ?case using workers_step by (fastforce simp: pool_next_step split: option.splits)
qed simp


section \<open>Progress\<close>

text \<open>
  The events that the pool itself performs, with workers that are not woken without a reason. Each
  of them makes the pool's work less, and while there is work one of them is possible.
\<close>

fun internal :: "'t pool_event \<Rightarrow> bool" where
  "internal (Lock i) = True" | "internal (Check i) = True" | "internal (Sleep i) = True"
| "internal (Take i) = True" | "internal (Finish i) = True" | "internal (Notify w) = True"
| "internal e = False"

fun weight :: "'t worker \<Rightarrow> nat" where
  "weight AtLock = 4"
| "weight AtCheck = 3"
| "weight AtSleep = 2"
| "weight AtTake = 2"
| "weight (Running t) = 5"
| "weight w = 0"

definition work :: "'t pool \<Rightarrow> nat" where
  "work p = 4 * length (tp_tasks p) + 5 * tp_notifies p + sum_list (map weight (tp_workers p))"

lemma weight_update:
  assumes "at p i v"
  shows "sum_list (map weight ((tp_workers p)[i := w])) = sum_list (map weight (tp_workers p)) - weight v + weight w"
    and "weight v \<le> sum_list (map weight (tp_workers p))"
proof -
  have i: "i < length (tp_workers p)" "tp_workers p ! i = v" using at_less [OF assms] by simp_all
  then show "weight v \<le> sum_list (map weight (tp_workers p))"
    by (auto intro!: member_le_sum_list)
  with i sum_list_replace [of i "map weight (tp_workers p)" "weight w"]
  show "sum_list (map weight ((tp_workers p)[i := w])) = sum_list (map weight (tp_workers p)) - weight v + weight w"
    by (simp add: map_update)
qed

lemma work_less:
  assumes "pool_step p e p'" "internal e" "pool_inv p"
  shows "work p' < work p"
  using assms
proof (induction rule: pool_step.induct)
  case (skip p i)
  then show ?case using lock_invD(3) by (auto simp: pool_inv_def wait_over_def)
next
  case (notify p i)
  then show ?case using weight_update(1) [OF notify(2), of AtLock] by (simp add: work_def move_def)
qed (simp_all add: work_def move_def weight_update(1), (drule weight_update(2), simp)+)

lemma worker_progress:
  assumes "lock_inv p" "at p i w" "w \<noteq> Asleep" "w \<noteq> Returned"
  shows "\<exists>e p'. internal e \<and> pool_step p e p'"
proof -
  have go: "\<exists>e p'. internal e \<and> pool_step p e p'" if "at p j v" "v \<notin> {Asleep, Returned, AtLock}" for j v
  proof (cases v)
    case AtCheck
    with that show ?thesis using go_on wait internal.simps(2) by metis
  next
    case AtSleep
    with that show ?thesis using pool_step.sleep internal.simps(3) by metis
  next
    case AtTake
    with that show ?thesis using leave skip take_task internal.simps(4) by (metis neq_Nil_conv)
  next
    case (Running t)
    with that show ?thesis using finish internal.simps(5) by metis
  qed (use that in auto)
  show ?thesis
  proof (cases "w = AtLock")
    case True
    show ?thesis
    proof (cases "tp_mutex p")
      case None
      with True assms show ?thesis using lock internal.simps(1) by metis
    next
      case (Some j)
      then have j: "at p j (tp_workers p ! j)" "has_lock (tp_workers p ! j)"
        using assms(1) at_nth [of j p] by (simp_all add: lock_inv_def mutex_inv_def del: has_lock.simps)
      then show ?thesis using go [OF j(1)] by auto
    qed
  qed (use go assms in auto)
qed

lemma progress:
  assumes "pool_inv p" "tp_workers p \<noteq> []" "tp_tasks p \<noteq> [] \<or> running p \<noteq> {#}"
  shows "\<exists>e p'. internal e \<and> pool_step p e p'"
proof (cases "\<exists>i w. at p i w \<and> w \<noteq> Asleep \<and> w \<noteq> Returned")
  case True
  with assms(1) show ?thesis using worker_progress by (auto simp: pool_inv_def)
next
  case False
  then have a: "at p i w \<Longrightarrow> w = Asleep \<or> w = Returned" for i w by blast
  have w: "w \<in> set (tp_workers p) \<Longrightarrow> w = Asleep \<or> w = Returned" for w
    using a at_nth by (metis in_set_conv_nth)
  then have "running p = {#}" by (intro running_none) fastforce
  then have t: "tp_tasks p \<noteq> []" using assms(3) by simp
  then have "Returned \<notin> set (tp_workers p)" using assms(1) by (auto simp: pool_inv_def stop_inv_def)
  then have s: "at p i w \<Longrightarrow> w = Asleep" for i w using a at_mem by metis
  then have n: "0 < tp_notifies p" using assms(1,2) t by (auto simp: pool_inv_def sleep_inv_def)
  have "at p 0 Asleep" using s [of 0] at_nth [of 0 p] assms(2) by fastforce
  with n show ?thesis using notify internal.simps(6) by metis
qed

text \<open>A run of internal events is no longer than the work there is, and it can go on to the end.\<close>

lemma internal_run_length:
  assumes "pool_run es p = Some p'" "list_all internal es" "pool_inv p"
  shows "length es + work p' \<le> work p"
  using assms
proof (induction es arbitrary: p)
  case (Cons e es)
  then obtain q where q: "pool_step p e q" "pool_run es q = Some p'"
    by (auto simp: pool_next_step [symmetric] split: option.splits)
  from Cons.IH [OF q(2) _ pool_inv_step [OF q(1)]] work_less [OF q(1)] Cons.prems show ?case by simp
qed simp

lemma quiescent:
  assumes "pool_inv p" "tp_workers p \<noteq> []" "\<And>e. internal e \<Longrightarrow> pool_next e p = None"
  shows "tp_tasks p = [] \<and> mset (tp_finished p) = mset (tp_started p)"
proof -
  from progress [OF assms(1,2)] assms(3) have "tp_tasks p = [] \<and> running p = {#}"
    by (metis option.distinct(1) pool_next_step)
  with assms(1) show ?thesis by (simp add: pool_inv_def task_inv_def)
qed

lemma destroyed:
  assumes "pool_inv p" "tp_workers p \<noteq> []" "tp_destructor p = Destroyed"
  shows "tp_tasks p = [] \<and> mset (tp_finished p) = mset (tp_started p)"
proof -
  have r: "\<forall>w \<in> set (tp_workers p). w = Returned" using assms by (auto simp: pool_inv_def stop_inv_def)
  with assms(2) have "Returned \<in> set (tp_workers p)" by (cases "tp_workers p") auto
  then have "tp_tasks p = []" using assms(1) by (auto simp: pool_inv_def stop_inv_def)
  moreover from r have "running p = {#}" by (intro running_none) auto
  ultimately show ?thesis using assms(1) by (simp add: pool_inv_def task_inv_def)
qed

lemma new_run:
  assumes "pool_run es (Threadpool_new hc n) = Some p"
  shows "pool_inv p" "tp_started p @ tp_tasks p = accepted_tasks es"
    "0 < numThreads hc n \<Longrightarrow> tp_workers p \<noteq> []"
proof -
  from pool_run_inv [OF assms pool_inv_new] show "pool_inv p" "tp_started p @ tp_tasks p = accepted_tasks es"
    by (simp_all add: Threadpool_new_def)
  show "tp_workers p \<noteq> []" if "0 < numThreads hc n"
    using pool_run_workers [OF assms] that by (auto simp: Threadpool_new_def)
qed

lemma work_bound:
  assumes "pool_run es (Threadpool_new hc n) = Some p"
  shows "work p \<le> 4 * length (tp_tasks p) + 5 * tp_notifies p + 5 * numThreads hc n"
proof -
  have "weight w \<le> 5" for w :: "'a worker" by (cases w) auto
  then have "sum_list (map weight ws) \<le> 5 * length ws" for ws :: "'a worker list"
    by (induction ws) (auto intro: add_mono)
  from this [of "tp_workers p"] pool_run_workers [OF assms] show ?thesis
    by (simp add: work_def Threadpool_new_def)
qed

lemma internal_accepts: "list_all internal ms \<Longrightarrow> accepted_tasks ms = []"
proof (induction ms)
  case (Cons e ms)
  then show ?case by (cases e) auto
qed simp

lemma settled:
  assumes "pool_run es (Threadpool_new hc n) = Some p" "0 < numThreads hc n"
    and "list_all internal ms" "pool_run ms p = Some q" "\<And>e. internal e \<Longrightarrow> pool_next e q = None"
  shows "tp_tasks q = [] \<and> mset (tp_finished q) = mset (accepted_tasks es)"
proof -
  from pool_run_inv [OF assms(4) new_run(1) [OF assms(1)]] new_run(2) [OF assms(1)]
  have q: "pool_inv q" "tp_started q @ tp_tasks q = accepted_tasks es"
    using internal_accepts [OF assms(3)] by simp_all
  have "tp_workers q \<noteq> []"
    using pool_run_workers [OF assms(4)] new_run(3) [OF assms(1,2)] by auto
  from quiescent [OF q(1) this assms(5)] q(2) show ?thesis by auto
qed

declare pool_run.simps(2) [simp del] pool_next.simps [simp del] worker_next.simps [simp del]

end
