(* ===== verification/Any_Value.thy ===== *)
theory Any_Value
  imports Prelude "HOL-Library.AList"
begin

text \<open>
  acatl/any.h: the class \<open>Any\<close>, which holds a value of any type in a \<open>ValueHolder\<close> that it owns. The state has
  the objects of the class by their names, each with its pointer \<open>_holder\<close>, and the holders on the
  heap. \<open>None\<close> is an operation on an object that does not exist, the construction of one that does, or a holder that
  is used or deleted although it was deleted before.
\<close>

section \<open>Holders\<close>

record 'v any_state =
  as_vars :: "(string \<times> nat option) list"
  as_heap :: "(nat \<times> 'v) list"
  as_next :: nat

definition any_start :: "'v any_state" where
  "any_start = \<lparr>as_vars = [], as_heap = [], as_next = 0\<rparr>"

definition ValueHolder_new :: "'v \<Rightarrow> 'v any_state \<Rightarrow> nat option \<times> 'v any_state" where
  "ValueHolder_new v s =
     (Some (as_next s), s\<lparr>as_heap := (as_next s, v) # as_heap s, as_next := Suc (as_next s)\<rparr>)"

definition ValueHolder_clone :: "nat option \<Rightarrow> 'v any_state \<Rightarrow> (nat option \<times> 'v any_state) option" where
  "ValueHolder_clone holder s =
     (case holder of
        None \<Rightarrow> Some (None, s)
      | Some p \<Rightarrow> map_option (\<lambda>v. ValueHolder_new v s) (map_of (as_heap s) p))"

definition ValueHolder_delete :: "nat option \<Rightarrow> 'v any_state \<Rightarrow> 'v any_state option" where
  "ValueHolder_delete holder s =
     (case holder of
        None \<Rightarrow> Some s
      | Some p \<Rightarrow>
          (case map_of (as_heap s) p of
             None \<Rightarrow> None
           | Some v \<Rightarrow> Some (s\<lparr>as_heap := AList.delete p (as_heap s)\<rparr>)))"


section \<open>Operations\<close>

definition set_holder :: "string \<Rightarrow> nat option \<Rightarrow> 'v any_state \<Rightarrow> 'v any_state" where
  "set_holder x holder s = s\<lparr>as_vars := AList.update x holder (as_vars s)\<rparr>"

definition Any_construct :: "string \<Rightarrow> 'v any_state \<Rightarrow> 'v any_state option" where
  "Any_construct x s = (if map_of (as_vars s) x = None then Some (set_holder x None s) else None)"

definition Any_of :: "string \<Rightarrow> 'v \<Rightarrow> 'v any_state \<Rightarrow> 'v any_state option" where
  "Any_of x v s =
     (if map_of (as_vars s) x = None
      then (case ValueHolder_new v s of (p, s) \<Rightarrow> Some (set_holder x p s)) else None)"

definition Any_copy :: "string \<Rightarrow> string \<Rightarrow> 'v any_state \<Rightarrow> 'v any_state option" where
  "Any_copy x any s =
     (case map_of (as_vars s) any of
        None \<Rightarrow> None
      | Some holder \<Rightarrow>
          (if map_of (as_vars s) x = None
           then map_option (\<lambda>(p, s). set_holder x p s) (ValueHolder_clone holder s) else None))"

definition Any_swap :: "string \<Rightarrow> string \<Rightarrow> 'v any_state \<Rightarrow> 'v any_state option" where
  "Any_swap x any s =
     (case (map_of (as_vars s) x, map_of (as_vars s) any) of
        (Some p, Some q) \<Rightarrow> Some (set_holder any p (set_holder x q s))
      | _ \<Rightarrow> None)"

definition Any_move :: "string \<Rightarrow> string \<Rightarrow> 'v any_state \<Rightarrow> 'v any_state option" where
  "Any_move x any s =
     (if map_of (as_vars s) x = None \<and> x \<noteq> any then Any_swap x any (set_holder x None s) else None)"

definition Any_destroy :: "string \<Rightarrow> 'v any_state \<Rightarrow> 'v any_state option" where
  "Any_destroy x s =
     (case map_of (as_vars s) x of
        None \<Rightarrow> None
      | Some holder \<Rightarrow>
          ValueHolder_delete holder (s\<lparr>as_vars := AList.delete x (as_vars s)\<rparr>))"

text \<open>Both assignments make a temporary, swap it with the object, and destroy what the temporary got.\<close>

definition assign_temporary :: "string \<Rightarrow> nat option \<times> 'v any_state \<Rightarrow> 'v any_state option" where
  "assign_temporary x t =
     (case t of (p, s) \<Rightarrow>
       (case map_of (as_vars s) x of
          None \<Rightarrow> None
        | Some old \<Rightarrow> ValueHolder_delete old (set_holder x p s)))"

definition Any_assign_value :: "string \<Rightarrow> 'v \<Rightarrow> 'v any_state \<Rightarrow> 'v any_state option" where
  "Any_assign_value x v s = assign_temporary x (ValueHolder_new v s)"

definition Any_assign :: "string \<Rightarrow> string \<Rightarrow> 'v any_state \<Rightarrow> 'v any_state option" where
  "Any_assign x any s =
     (case map_of (as_vars s) any of
        None \<Rightarrow> None
      | Some holder \<Rightarrow>
          (case ValueHolder_clone holder s of None \<Rightarrow> None | Some t \<Rightarrow> assign_temporary x t))"

definition Any_move_assign :: "string \<Rightarrow> string \<Rightarrow> 'v any_state \<Rightarrow> 'v any_state option" where
  "Any_move_assign x any s = Any_swap x any s"

definition Any_empty :: "string \<Rightarrow> 'v any_state \<Rightarrow> bool option" where
  "Any_empty x s = map_option (\<lambda>holder. holder = None) (map_of (as_vars s) x)"

text \<open>
  The casts. \<open>typeid\<close> gives the type of a value. The pointer cast yields a value or a null pointer, the other one
  a value or an exception.
\<close>

datatype bad_cast = Has_no_value | Cannot_cast

definition any_cast_pointer :: "('v \<Rightarrow> 'k) \<Rightarrow> 'k \<Rightarrow> string \<Rightarrow> 'v any_state \<Rightarrow> 'v option option" where
  "any_cast_pointer typeid t x s =
     (case map_of (as_vars s) x of
        None \<Rightarrow> None
      | Some None \<Rightarrow> Some None
      | Some (Some p) \<Rightarrow>
          (case map_of (as_heap s) p of
             None \<Rightarrow> None
           | Some v \<Rightarrow> Some (if t \<noteq> typeid v then None else Some v)))"

definition any_cast :: "('v \<Rightarrow> 'k) \<Rightarrow> 'k \<Rightarrow> string \<Rightarrow> 'v any_state \<Rightarrow> (bad_cast + 'v) option" where
  "any_cast typeid t x s =
     (case Any_empty x s of
        None \<Rightarrow> None
      | Some True \<Rightarrow> Some (Inl Has_no_value)
      | Some False \<Rightarrow>
          (case any_cast_pointer typeid t x s of
             None \<Rightarrow> None
           | Some None \<Rightarrow> Some (Inl Cannot_cast)
           | Some (Some v) \<Rightarrow> Some (Inr v)))"

datatype 'v any_operation =
    Default_construct string
  | Construct string 'v
  | Copy_construct string string
  | Move_construct string string
  | Destruct string
  | Swap string string
  | Assign_value string 'v
  | Copy_assign string string
  | Move_assign string string

fun any_next :: "'v any_operation \<Rightarrow> 'v any_state \<Rightarrow> 'v any_state option" where
  "any_next (Default_construct x) s = Any_construct x s"
| "any_next (Construct x v) s = Any_of x v s"
| "any_next (Copy_construct x y) s = Any_copy x y s"
| "any_next (Move_construct x y) s = Any_move x y s"
| "any_next (Destruct x) s = Any_destroy x s"
| "any_next (Swap x y) s = Any_swap x y s"
| "any_next (Assign_value x v) s = Any_assign_value x v s"
| "any_next (Copy_assign x y) s = Any_assign x y s"
| "any_next (Move_assign x y) s = Any_move_assign x y s"

fun any_run :: "'v any_operation list \<Rightarrow> 'v any_state \<Rightarrow> 'v any_state option" where
  "any_run [] s = Some s"
| "any_run (e # es) s = (case any_next e s of None \<Rightarrow> None | Some s \<Rightarrow> any_run es s)"


section \<open>Values\<close>

text \<open>
  What the class promises: every object has no value or a value of its own, and the operations are those on values.
\<close>

type_synonym 'v value_map = "string \<Rightarrow> 'v option option"

fun value_next :: "'v any_operation \<Rightarrow> 'v value_map \<Rightarrow> 'v value_map option" where
  "value_next (Default_construct x) m = (if m x = None then Some (m(x \<mapsto> None)) else None)"
| "value_next (Construct x v) m = (if m x = None then Some (m(x \<mapsto> Some v)) else None)"
| "value_next (Copy_construct x y) m =
     (case m y of None \<Rightarrow> None | Some v \<Rightarrow> if m x = None then Some (m(x \<mapsto> v)) else None)"
| "value_next (Move_construct x y) m =
     (case m y of None \<Rightarrow> None | Some v \<Rightarrow> if m x = None then Some (m(x \<mapsto> v, y \<mapsto> None)) else None)"
| "value_next (Destruct x) m = (if m x = None then None else Some (m(x := None)))"
| "value_next (Swap x y) m =
     (case (m x, m y) of (Some v, Some w) \<Rightarrow> Some (m(x \<mapsto> w, y \<mapsto> v)) | _ \<Rightarrow> None)"
| "value_next (Assign_value x v) m = (if m x = None then None else Some (m(x \<mapsto> Some v)))"
| "value_next (Copy_assign x y) m =
     (case m y of None \<Rightarrow> None | Some v \<Rightarrow> if m x = None then None else Some (m(x \<mapsto> v)))"
| "value_next (Move_assign x y) m =
     (case (m x, m y) of (Some v, Some w) \<Rightarrow> Some (m(x \<mapsto> w, y \<mapsto> v)) | _ \<Rightarrow> None)"

definition held :: "'v any_state \<Rightarrow> 'v value_map" where
  "held s x = map_option (\<lambda>holder. Option.bind holder (map_of (as_heap s))) (map_of (as_vars s) x)"

text \<open>Every holder has exactly one owner.\<close>

definition any_inv :: "'v any_state \<Rightarrow> bool" where
  "any_inv s \<longleftrightarrow>
     (\<forall>x p. map_of (as_vars s) x = Some (Some p) \<longrightarrow> map_of (as_heap s) p \<noteq> None) \<and>
     (\<forall>x y p. map_of (as_vars s) x = Some (Some p) \<longrightarrow> map_of (as_vars s) y = Some (Some p) \<longrightarrow> x = y) \<and>
     (\<forall>p. map_of (as_heap s) p \<noteq> None \<longrightarrow> (\<exists>x. map_of (as_vars s) x = Some (Some p))) \<and>
     (\<forall>p. map_of (as_heap s) p \<noteq> None \<longrightarrow> p < as_next s)"

lemma any_invI:
  assumes "\<And>x p. map_of (as_vars s) x = Some (Some p) \<Longrightarrow> map_of (as_heap s) p \<noteq> None"
    "\<And>x y p. map_of (as_vars s) x = Some (Some p) \<Longrightarrow> map_of (as_vars s) y = Some (Some p) \<Longrightarrow> x = y"
    "\<And>p v. map_of (as_heap s) p = Some v \<Longrightarrow> \<exists>x. map_of (as_vars s) x = Some (Some p)"
    "\<And>p v. map_of (as_heap s) p = Some v \<Longrightarrow> p < as_next s"
  shows "any_inv s"
  using assms unfolding any_inv_def by blast

lemma any_invD:
  assumes "any_inv s"
  shows "map_of (as_vars s) x = Some (Some p) \<Longrightarrow> \<exists>v. map_of (as_heap s) p = Some v"
    "map_of (as_vars s) x = Some (Some p) \<Longrightarrow> map_of (as_vars s) y = Some (Some p) \<Longrightarrow> x = y"
    "map_of (as_heap s) p = Some v \<Longrightarrow> \<exists>x. map_of (as_vars s) x = Some (Some p)"
    "map_of (as_heap s) p = Some v \<Longrightarrow> p < as_next s"
  using assms unfolding any_inv_def by blast+

lemma any_start_inv: "any_inv any_start"
  by (simp add: any_inv_def any_start_def)


lemma vars_set [simp]:
  "map_of (as_vars (set_holder x h s)) = (map_of (as_vars s))(x \<mapsto> h)"
  "as_heap (set_holder x h s) = as_heap s" "as_next (set_holder x h s) = as_next s"
  by (simp_all add: set_holder_def update_conv')

lemma held_cong:
  "map_of (as_vars s) = map_of (as_vars t) \<Longrightarrow> map_of (as_heap s) = map_of (as_heap t) \<Longrightarrow> held s = held t"
  by (rule ext) (simp add: held_def)

lemma held_None [simp]: "held s x = None \<longleftrightarrow> map_of (as_vars s) x = None"
  by (simp add: held_def)

text \<open>A holder is owned, new or about to be deleted: how the steps of an operation act on the values.\<close>

lemma fresh_not_owned:
  assumes "any_inv s"
  shows "map_of (as_heap s) (as_next s) = None" "map_of (as_vars s) x \<noteq> Some (Some (as_next s))"
proof -
  show n: "map_of (as_heap s) (as_next s) = None"
    using any_invD(4) [OF assms, of "as_next s"] by (cases "map_of (as_heap s) (as_next s)") auto
  show "map_of (as_vars s) x \<noteq> Some (Some (as_next s))" using any_invD(1) [OF assms, of x "as_next s"] n by auto
qed

lemma set_None_inv:
  assumes "any_inv s" "map_of (as_vars s) x = None \<or> map_of (as_vars s) x = Some None"
  shows "any_inv (set_holder x None s)" "held (set_holder x None s) = (held s)(x \<mapsto> None)"
proof -
  show "any_inv (set_holder x None s)"
  proof (rule any_invI)
    fix p v assume "map_of (as_heap (set_holder x None s)) p = Some v"
    then obtain y where "map_of (as_vars s) y = Some (Some p)" using any_invD(3) [OF assms(1)] by auto
    then show "\<exists>x'. map_of (as_vars (set_holder x None s)) x' = Some (Some p)"
      using assms(2) by (intro exI [of _ y]) auto
  qed (use any_invD [OF assms(1)] in \<open>force split: if_splits\<close>)+
  show "held (set_holder x None s) = (held s)(x \<mapsto> None)" by (rule ext) (simp add: held_def)
qed

lemma set_new_inv:
  assumes "any_inv s" "ValueHolder_new v s = (h, s')" "map_of (as_vars s) x = None \<or> map_of (as_vars s) x = Some None"
  shows "any_inv (set_holder x h s')" "held (set_holder x h s') = (held s)(x \<mapsto> Some v)"
proof -
  note fresh = fresh_not_owned [OF assms(1)]
  have h: "h = Some (as_next s)" and s': "as_vars s' = as_vars s" "as_heap s' = (as_next s, v) # as_heap s"
    "as_next s' = Suc (as_next s)" using assms(2) by (auto simp: ValueHolder_new_def)
  show "any_inv (set_holder x h s')"
  proof (rule any_invI)
    fix y p assume "map_of (as_vars (set_holder x h s')) y = Some (Some p)"
    then show "map_of (as_heap (set_holder x h s')) p \<noteq> None"
      using any_invD(1) [OF assms(1), of y p] h s' by (auto split: if_splits)
  next
    fix y z p
    assume "map_of (as_vars (set_holder x h s')) y = Some (Some p)" "map_of (as_vars (set_holder x h s')) z = Some (Some p)"
    then show "y = z" using any_invD(2) [OF assms(1), of y p z] fresh(2) h s' by (auto split: if_splits)
  next
    fix p w assume w: "map_of (as_heap (set_holder x h s')) p = Some w"
    show "\<exists>y. map_of (as_vars (set_holder x h s')) y = Some (Some p)"
    proof (cases "p = as_next s")
      case False
      with w s' obtain y where "map_of (as_vars s) y = Some (Some p)" using any_invD(3) [OF assms(1)] by auto
      then show ?thesis using assms(3) s' by (intro exI [of _ y]) auto
    qed (use h in auto)
  next
    fix p w assume "map_of (as_heap (set_holder x h s')) p = Some w"
    then show "p < as_next (set_holder x h s')"
      using any_invD(4) [OF assms(1), of p w] s' by (auto simp: less_Suc_eq split: if_splits)
  qed
  have "y \<noteq> x \<Longrightarrow> held (set_holder x h s') y = held s y" for y
    using fresh(2) [of y] by (cases "map_of (as_vars s) y"; cases "the (map_of (as_vars s) y)") (auto simp: held_def s')
  then show "held (set_holder x h s') = (held s)(x \<mapsto> Some v)" by (intro ext) (auto simp: held_def h s')
qed

lemma held_other:
  assumes "map_of (as_heap t) = (map_of (as_heap s))(p := None)" "map_of (as_vars t) y = map_of (as_vars s) y"
    "map_of (as_vars s) y \<noteq> Some (Some p)"
  shows "held t y = held s y"
  using assms by (cases "map_of (as_vars s) y"; cases "the (map_of (as_vars s) y)") (auto simp: held_def)

lemma drop_owner_inv:
  assumes "any_inv s" "map_of (as_vars s) x = Some (Some p)" "map_of (as_heap t) = (map_of (as_heap s))(p := None)"
    "map_of (as_vars t) = (map_of (as_vars s))(x := r)" "r \<in> {None, Some None}" "as_next t = as_next s"
  shows "any_inv t" "held t = (held s)(x := map_option (\<lambda>_. None) r)"
proof -
  have other: "map_of (as_vars s) y = Some (Some p) \<Longrightarrow> y = x" for y using any_invD(2) [OF assms(1) _ assms(2)] .
  show "any_inv t"
  proof (rule any_invI)
    fix y q assume "map_of (as_vars t) y = Some (Some q)"
    then show "map_of (as_heap t) q \<noteq> None"
      using any_invD(1) [OF assms(1), of y q] other [of y] assms(3-5) by (auto split: if_splits)
  next
    fix y z q assume "map_of (as_vars t) y = Some (Some q)" "map_of (as_vars t) z = Some (Some q)"
    then show "y = z" using any_invD(2) [OF assms(1), of y q z] assms(4,5) by (auto split: if_splits)
  next
    fix q v assume "map_of (as_heap t) q = Some v"
    then have q: "q \<noteq> p" "map_of (as_heap s) q = Some v" using assms(3) by (auto split: if_splits)
    then obtain y where "map_of (as_vars s) y = Some (Some q)" using any_invD(3) [OF assms(1)] by blast
    then show "\<exists>y. map_of (as_vars t) y = Some (Some q)"
      using assms(2,4) q(1) by (intro exI [of _ y]) auto
  next
    fix q v assume "map_of (as_heap t) q = Some v"
    then show "q < as_next t" using any_invD(4) [OF assms(1), of q v] assms(3,6) by (auto split: if_splits)
  qed
  show "held t = (held s)(x := map_option (\<lambda>_. None) r)"
  proof (rule ext)
    fix y
    show "held t y = ((held s)(x := map_option (\<lambda>_. None) r)) y"
    proof (cases "y = x")
      case True
      then show ?thesis using assms(4,5) by (auto simp: held_def)
    next
      case False
      then show ?thesis using held_other [OF assms(3), of y] other [of y] assms(4) by auto
    qed
  qed
qed

lemma ValueHolder_delete_defined:
  assumes "any_inv s" "map_of (as_vars s) x = Some h" "as_heap t = as_heap s"
  obtains t' where "ValueHolder_delete h t = Some t'" "as_vars t' = as_vars t" "as_next t' = as_next t"
    "case h of None \<Rightarrow> t' = t | Some p \<Rightarrow> as_heap t' = AList.delete p (as_heap s)"
proof (cases h)
  case (Some p)
  then obtain v where "map_of (as_heap t) p = Some v" using any_invD(1) [OF assms(1), of x] assms(2,3) by auto
  then show ?thesis using Some assms(3)
    by (intro that [of "t\<lparr>as_heap := AList.delete p (as_heap t)\<rparr>"]) (simp_all add: ValueHolder_delete_def)
qed (use that [of t] in \<open>simp_all add: ValueHolder_delete_def\<close>)

lemma destroy_values:
  assumes "any_inv s" "map_of (as_vars s) x = Some h"
  shows "\<exists>t. Any_destroy x s = Some t \<and> any_inv t \<and> held t = (held s)(x := None)"
proof -
  let ?s = "s\<lparr>as_vars := AList.delete x (as_vars s)\<rparr>"
  obtain t where t: "ValueHolder_delete h ?s = Some t" "as_vars t = as_vars ?s" "as_next t = as_next ?s"
    "case h of None \<Rightarrow> t = ?s | Some p \<Rightarrow> as_heap t = AList.delete p (as_heap s)"
    using ValueHolder_delete_defined [OF assms, of ?s] by auto
  have v: "map_of (as_vars t) = (map_of (as_vars s))(x := None)" using t(2) by (simp add: delete_conv')
  have "any_inv t \<and> held t = (held s)(x := None)"
  proof (cases h)
    case None
    then have h: "map_of (as_vars s) x = Some None" "t = ?s" using assms(2) t(4) by simp_all
    have "any_inv t"
    proof (rule any_invI)
      fix p w assume "map_of (as_heap t) p = Some w"
      then obtain y where y: "map_of (as_vars s) y = Some (Some p)" using any_invD(3) [OF assms(1)] h(2) by auto
      then have "y \<noteq> x" using h(1) by auto
      then show "\<exists>y. map_of (as_vars t) y = Some (Some p)" using y by (intro exI [of _ y]) (simp add: v)
    qed (use any_invD [OF assms(1)] v h(2) in \<open>force split: if_splits\<close>)+
    moreover have "held t = (held s)(x := None)" using h(2) by (intro ext) (simp add: held_def delete_conv')
    ultimately show ?thesis by simp
  next
    case (Some p)
    then have "map_of (as_heap t) = (map_of (as_heap s))(p := None)" using t(4) by (simp add: delete_conv')
    from drop_owner_inv [OF assms(1) _ this v] assms(2) Some t(3) show ?thesis by simp
  qed
  then show ?thesis using t(1) assms(2) by (simp add: Any_destroy_def)
qed

text \<open>The old value of an object is released, and the object takes the pointer of the temporary.\<close>

lemma release_values:
  assumes "any_inv s" "map_of (as_vars s) x = Some h"
  shows "\<exists>t. ValueHolder_delete h (set_holder x None s) = Some t \<and> any_inv t \<and> held t = (held s)(x \<mapsto> None) \<and>
    map_of (as_vars t) x = Some None"
proof -
  let ?s = "set_holder x None s"
  obtain t where t: "ValueHolder_delete h ?s = Some t" "as_vars t = as_vars ?s" "as_next t = as_next ?s"
    "case h of None \<Rightarrow> t = ?s | Some p \<Rightarrow> as_heap t = AList.delete p (as_heap s)"
    using ValueHolder_delete_defined [OF assms, of ?s] by auto
  have v: "map_of (as_vars t) = (map_of (as_vars s))(x := Some None)" using t(2) by simp
  have "any_inv t \<and> held t = (held s)(x \<mapsto> None)"
  proof (cases h)
    case None
    with assms t(4) set_None_inv [of s x] show ?thesis by simp
  next
    case (Some p)
    then have "map_of (as_heap t) = (map_of (as_heap s))(p := None)" using t(4) by (simp add: delete_conv')
    from drop_owner_inv [OF assms(1) _ this v] assms(2) Some t(3) show ?thesis by simp
  qed
  then show ?thesis using t(1) v by simp
qed

lemma assign_new_values:
  assumes "any_inv s" "map_of (as_vars s) x = Some h"
  shows "\<exists>t. assign_temporary x (ValueHolder_new v s) = Some t \<and> any_inv t \<and> held t = (held s)(x \<mapsto> Some v)"
proof -
  from release_values [OF assms] obtain t where
    t: "ValueHolder_delete h (set_holder x None s) = Some t" "any_inv t" "held t = (held s)(x \<mapsto> None)"
      "map_of (as_vars t) x = Some None" by blast
  obtain q t' where n: "ValueHolder_new v t = (q, t')" by (cases "ValueHolder_new v t") auto
  note new = set_new_inv [OF t(2) n, of x]
  have "map_of (as_heap s) p \<noteq> None \<Longrightarrow> p \<noteq> as_next s" for p using fresh_not_owned(1) [OF assms(1)] by auto
  then have "assign_temporary x (ValueHolder_new v s) = Some (set_holder x q t')"
    using t(1) n assms(2)
    by (cases h) (auto simp: assign_temporary_def ValueHolder_new_def ValueHolder_delete_def set_holder_def
        AList.update_last split: option.splits if_splits)
  then show ?thesis using new t(3,4) by auto
qed

lemma assign_none_values:
  assumes "any_inv s" "map_of (as_vars s) x = Some h"
  shows "\<exists>t. assign_temporary x (None, s) = Some t \<and> any_inv t \<and> held t = (held s)(x \<mapsto> None)"
  using release_values [OF assms] assms(2) by (auto simp: assign_temporary_def)

lemma renamed_inv:
  assumes "any_inv s" "\<And>z. map_of (as_vars t) z = map_of (as_vars s) (f z)" "\<And>z. f (f z) = z"
    "as_heap t = as_heap s" "as_next t = as_next s"
  shows "any_inv t"
proof (rule any_invI)
  fix z r assume "map_of (as_vars t) z = Some (Some r)"
  then show "map_of (as_heap t) r \<noteq> None" using any_invD(1) [OF assms(1), of "f z" r] by (simp add: assms(2,4))
next
  fix z w r assume "map_of (as_vars t) z = Some (Some r)" "map_of (as_vars t) w = Some (Some r)"
  then have "f z = f w" using any_invD(2) [OF assms(1), of "f z" r "f w"] by (simp add: assms(2))
  then show "z = w" using assms(3) by metis
next
  fix r v assume "map_of (as_heap t) r = Some v"
  then obtain z where "map_of (as_vars s) z = Some (Some r)" using any_invD(3) [OF assms(1), of r v] by (auto simp: assms(4))
  then show "\<exists>z. map_of (as_vars t) z = Some (Some r)" by (intro exI [of _ "f z"]) (simp add: assms(2,3))
next
  fix r v assume "map_of (as_heap t) r = Some v"
  then show "r < as_next t" using any_invD(4) [OF assms(1), of r v] by (simp add: assms(4,5))
qed

lemma swap_values:
  assumes "any_inv s" "map_of (as_vars s) x = Some p" "map_of (as_vars s) y = Some q"
  shows "\<exists>t. Any_swap x y s = Some t \<and> any_inv t \<and>
    held t = (held s)(x := held s y, y := held s x)"
proof -
  let ?t = "set_holder y p (set_holder x q s)"
  let ?f = "\<lambda>z. if z = x then y else if z = y then x else z"
  have "map_of (as_vars ?t) z = map_of (as_vars s) (?f z)" for z using assms(2,3) by auto
  then have "any_inv ?t" by (rule renamed_inv [OF assms(1)]) simp_all
  moreover have "held ?t = (held s)(x := held s y, y := held s x)"
    using assms(2,3) by (intro ext) (simp add: held_def)
  ultimately show ?thesis using assms(2,3) by (simp add: Any_swap_def)
qed

text \<open>Every operation does to the values what it promises, and fails exactly where it has to.\<close>

lemma any_next_values:
  assumes "any_inv s"
  shows "case value_next e (held s) of
      None \<Rightarrow> any_next e s = None
    | Some m \<Rightarrow> (\<exists>t. any_next e s = Some t \<and> any_inv t \<and> held t = m)"
proof (cases e)
  case (Default_construct x)
  then show ?thesis using set_None_inv [OF assms, of x] by (auto simp: Any_construct_def)
next
  case (Construct x v)
  obtain h t where "ValueHolder_new v s = (h, t)" by (cases "ValueHolder_new v s") auto
  then show ?thesis using Construct set_new_inv [OF assms, of v h t x] by (auto simp: Any_of_def)
next
  case (Copy_construct x y)
  show ?thesis
  proof (cases "map_of (as_vars s) y")
    case (Some h)
    show ?thesis
    proof (cases h)
      case None
      then show ?thesis using Some Copy_construct set_None_inv [OF assms, of x]
        by (auto simp: Any_copy_def ValueHolder_clone_def held_def [of s y])
    next
      case p: (Some p)
      then obtain v where v: "map_of (as_heap s) p = Some v" using any_invD(1) [OF assms] Some by blast
      obtain g t where "ValueHolder_new v s = (g, t)" by (cases "ValueHolder_new v s") auto
      then show ?thesis using p v Some Copy_construct set_new_inv [OF assms, of v g t x]
        by (auto simp: Any_copy_def ValueHolder_clone_def held_def [of s y])
    qed
  qed (simp add: Copy_construct Any_copy_def held_def [of s y])
next
  case (Move_construct x y)
  show ?thesis
  proof (cases "map_of (as_vars s) y")
    case (Some h)
    show ?thesis
    proof (cases "map_of (as_vars s) x")
      case None
      then have ne: "x \<noteq> y" using Some by auto
      have i: "any_inv (set_holder x None s)" "held (set_holder x None s) = (held s)(x \<mapsto> None)"
        using set_None_inv [OF assms, of x] None by simp_all
      have "map_of (as_vars (set_holder x None s)) x = Some None" "map_of (as_vars (set_holder x None s)) y = Some h"
        using ne Some by simp_all
      from swap_values [OF i(1) this] show ?thesis using ne None Some Move_construct i(2)
        by (auto simp: Any_move_def held_def [of s y] fun_upd_twist)
    next
      case (Some g)
      then show ?thesis using Move_construct by (auto simp: Any_move_def held_def split: option.split)
    qed
  qed (simp add: Move_construct Any_move_def Any_swap_def held_def [of s y])
next
  case (Destruct x)
  then show ?thesis using destroy_values [OF assms, of x]
    by (cases "map_of (as_vars s) x") (auto simp: Any_destroy_def)
next
  case (Assign_value x v)
  then show ?thesis using assign_new_values [OF assms, of x _ v]
    by (cases "map_of (as_vars s) x") (auto simp: Any_assign_value_def assign_temporary_def ValueHolder_new_def)
next
  case (Copy_assign x y)
  show ?thesis
  proof (cases "map_of (as_vars s) y")
    case (Some h)
    show ?thesis
    proof (cases h)
      case None
      then show ?thesis using Some Copy_assign assign_none_values [OF assms, of x]
        by (cases "map_of (as_vars s) x")
          (auto simp: Any_assign_def ValueHolder_clone_def assign_temporary_def held_def [of s y])
    next
      case p: (Some p)
      then obtain v where v: "map_of (as_heap s) p = Some v" using any_invD(1) [OF assms] Some by blast
      then show ?thesis using p Some Copy_assign assign_new_values [OF assms, of x _ v]
        by (cases "map_of (as_vars s) x")
          (auto simp: Any_assign_def ValueHolder_clone_def assign_temporary_def ValueHolder_new_def held_def [of s y])
    qed
  qed (simp add: Copy_assign Any_assign_def held_def [of s y])
next
  case (Swap x y)
  then show ?thesis using swap_values [OF assms, of x _ y]
    by (cases "map_of (as_vars s) x"; cases "map_of (as_vars s) y") (auto simp: Any_swap_def held_def)
next
  case (Move_assign x y)
  then show ?thesis using swap_values [OF assms, of x _ y]
    by (cases "map_of (as_vars s) x"; cases "map_of (as_vars s) y") (auto simp: Any_move_assign_def Any_swap_def held_def)
qed

fun value_run :: "'v any_operation list \<Rightarrow> 'v value_map \<Rightarrow> 'v value_map option" where
  "value_run [] m = Some m"
| "value_run (e # es) m = (case value_next e m of None \<Rightarrow> None | Some m \<Rightarrow> value_run es m)"

lemma any_run_values:
  "any_inv s \<Longrightarrow> map_option held (any_run es s) = value_run es (held s)"
proof (induction es arbitrary: s)
  case (Cons e es)
  show ?case
  proof (cases "value_next e (held s)")
    case None
    then show ?thesis using any_next_values [OF Cons.prems, of e] by simp
  next
    case (Some m)
    then obtain t where "any_next e s = Some t" "any_inv t" "held t = m"
      using any_next_values [OF Cons.prems, of e] by auto
    then show ?thesis using Cons.IH [of t] Some by simp
  qed
qed simp

lemma any_run_inv: "any_run es s = Some t \<Longrightarrow> any_inv s \<Longrightarrow> any_inv t"
proof (induction es arbitrary: s)
  case (Cons e es)
  then obtain u where u: "any_next e s = Some u" "any_run es u = Some t" by (auto split: option.splits)
  then have "any_inv u" using any_next_values [OF Cons.prems(2), of e] by (auto split: option.splits)
  then show ?case using Cons.IH u(2) by blast
qed simp

lemma held_start: "held any_start = (\<lambda>x. None)"
  by (rule ext) (simp add: any_start_def)

lemma any_cast_held:
  assumes "any_inv s"
  shows "any_cast typeid t x s =
    (case held s x of
       None \<Rightarrow> None
     | Some None \<Rightarrow> Some (Inl Has_no_value)
     | Some (Some v) \<Rightarrow> Some (if typeid v = t then Inr v else Inl Cannot_cast))"
proof (cases "map_of (as_vars s) x")
  case (Some h)
  then show ?thesis using any_invD(1) [OF assms, of x]
    by (cases h) (auto simp: any_cast_def Any_empty_def any_cast_pointer_def held_def)
qed (simp add: any_cast_def Any_empty_def held_def)

end
