(* ===== verification/Service_Theorems.thy ===== *)
theory Service_Theorems
  imports Thread_Pool Any_Value
begin

text \<open>
  The properties of the thread pool and of the class \<open>Any\<close>.
\<close>

section \<open>The thread pool\<close>

lemmas pool_eval = pool_run.simps(2) pool_next.simps worker_next.simps Threadpool_new_def numThreads_def pool_defs
  worker_def move_def wait_over_def

text \<open>
  C19. Tasks are started in the order in which \<open>enqueue\<close> took them, each at most once, and every task that
  was started has finished or is running, whatever the threads do and in whatever order.
\<close>

theorem tasks_in_order:
  assumes "pool_run es (Threadpool_new hardware_concurrency n) = Some p"
  shows "tp_started p @ tp_tasks p = accepted_tasks es \<and> mset (tp_started p) = mset (tp_finished p) + running p"
  using new_run [OF assms] by (simp add: pool_inv_def task_inv_def)

theorem tasks_in_order_witness:
  "\<exists>p. pool_run [Enqueue (7 :: nat), Lock 0, Check 0, Take 0, Enqueue 8, Finish 0] (Threadpool_new 4 1) = Some p \<and>
     tp_started p @ tp_tasks p = [7, 8]"
proof -
  let ?es = "[Enqueue (7 :: nat), Lock 0, Check 0, Take 0, Enqueue 8, Finish 0]"
  have "\<not> Option.is_none (pool_run ?es (Threadpool_new 4 1))" by (simp add: pool_eval)
  then obtain p where p: "pool_run ?es (Threadpool_new 4 1) = Some p" by (auto simp: Option.is_none_def)
  from tasks_in_order [OF p] p show ?thesis by auto
qed

text \<open>
  C20. No wake-up is lost as long as the pool lives: from every state it can reach, the workers and
  the pending notifications do at most as many more steps as there is work, and where they can do
  no step, the queue is empty and every task that was taken has finished.
\<close>

theorem pool_settles:
  assumes "pool_run es (Threadpool_new hardware_concurrency n) = Some p" "0 < numThreads hardware_concurrency n"
    and "list_all internal ms" "pool_run ms p = Some q"
  shows "length ms \<le> 4 * length (tp_tasks p) + 5 * tp_notifies p + 5 * numThreads hardware_concurrency n \<and>
    ((\<forall>e. internal e \<longrightarrow> pool_next e q = None) \<longrightarrow>
       tp_tasks q = [] \<and> mset (tp_finished q) = mset (accepted_tasks es))"
  using internal_run_length [OF assms(4,3) new_run(1) [OF assms(1)]] work_bound [OF assms(1)] settled [OF assms]
  by auto

lemma idle_pool:
  assumes "tp_notifies p = 0" "\<forall>w \<in> set (tp_workers p). w = Asleep" "internal e"
  shows "pool_next e p = None"
proof -
  have "at p i w \<Longrightarrow> w = Asleep" for i w using at_mem assms(2) by metis
  then show ?thesis using assms(1,3)
    by (cases e) (force simp: pool_next.simps notify_one_def at_def split: option.splits worker.splits)+
qed

theorem pool_settles_witness:
  "\<exists>p q. pool_run [Lock 0, Check 0, Sleep 0, Enqueue (7 :: nat)] (Threadpool_new 4 1) = Some p \<and>
     pool_run [Notify (Some 0), Lock 0, Check 0, Take 0, Finish 0, Lock 0, Check 0, Sleep 0] p = Some q \<and>
     tp_tasks q = [] \<and> mset (tp_finished q) = {#7#}"
proof -
  let ?es = "[Lock 0, Check 0, Sleep 0, Enqueue (7 :: nat)]"
  let ?ms = "[Notify (Some 0), Lock 0, Check 0, Take 0, Finish 0, Lock 0, Check 0, Sleep 0] :: nat pool_event list"
  let ?p = "\<lparr>tp_workers = [Asleep], tp_tasks = [7], tp_stop = False, tp_mutex = None, tp_notifies = 1,
    tp_destructor = Alive, tp_started = [], tp_finished = []\<rparr> :: nat pool"
  let ?q = "?p\<lparr>tp_tasks := [], tp_notifies := 0, tp_started := [7], tp_finished := [7]\<rparr>"
  have p: "pool_run ?es (Threadpool_new 4 1) = Some ?p" by (simp add: pool_eval)
  have q: "pool_run ?ms ?p = Some ?q" by (simp add: pool_eval)
  have n: "0 < numThreads 4 1" "list_all internal ?ms" by (simp_all add: numThreads_def)
  have "\<forall>e. internal e \<longrightarrow> pool_next e ?q = None" using idle_pool [of ?q] by simp
  with pool_settles [OF p n q] have "tp_tasks ?q = [] \<and> mset (tp_finished ?q) = {#7#}" by simp
  with p q show ?thesis by blast
qed

text \<open>
  C21. If the destructor returns, then every task that \<open>enqueue\<close> took has finished.
\<close>

theorem destructor_drains:
  assumes "pool_run es (Threadpool_new hardware_concurrency n) = Some p" "0 < numThreads hardware_concurrency n"
    and "tp_destructor p = Destroyed"
  shows "mset (tp_finished p) = mset (accepted_tasks es) \<and> tp_started p = accepted_tasks es"
  using destroyed [OF new_run(1) [OF assms(1)] new_run(3) [OF assms(1,2)] assms(3)] new_run(2) [OF assms(1)]
  by auto

theorem destructor_drains_witness:
  "\<exists>p. pool_run [Enqueue (7 :: nat), Stop, NotifyAll, Lock 0, Check 0, Take 0, Finish 0, Lock 0, Check 0, Take 0, Join]
      (Threadpool_new 4 1) = Some p \<and> tp_started p = [7]"
proof -
  let ?es = "[Enqueue (7 :: nat), Stop, NotifyAll, Lock 0, Check 0, Take 0, Finish 0, Lock 0, Check 0, Take 0, Join]"
  have "case pool_run ?es (Threadpool_new 4 1) of None \<Rightarrow> False | Some p \<Rightarrow> tp_destructor p = Destroyed"
    by (simp add: pool_eval)
  then obtain p where p: "pool_run ?es (Threadpool_new 4 1) = Some p" "tp_destructor p = Destroyed"
    by (auto split: option.splits)
  have "0 < numThreads 4 1" by (simp add: numThreads_def)
  from destructor_drains [OF p(1) this p(2)] have "tp_started p = [7]" by simp
  with p(1) show ?thesis by blast
qed

text \<open>
  C22. The destructor can hang: it sets \<open>_stop\<close> and notifies without the mutex, and a worker that has found
  the condition false but does not sleep yet misses both. Then no event changes the pool any more,
  unless the worker wakes for no reason.
\<close>

theorem destructor_hangs:
  "\<exists>es p. pool_run es (Threadpool_new hardware_concurrency 1 :: nat pool) = Some p \<and> tp_destructor p = Joining \<and>
     (\<forall>e p'. pool_next e p = Some p' \<longrightarrow> p' = p \<or> (\<exists>i. e = Wake i))"
proof -
  let ?es = "[Lock 0, Check 0, Stop, NotifyAll, Sleep 0] :: nat pool_event list"
  let ?p = "\<lparr>tp_workers = [Asleep], tp_tasks = [], tp_stop = True, tp_mutex = None, tp_notifies = 0,
    tp_destructor = Joining, tp_started = [], tp_finished = []\<rparr> :: nat pool"
  have "pool_run ?es (Threadpool_new hardware_concurrency 1) = Some ?p"
    by (simp add: pool_eval)
  moreover have "p' = ?p \<or> (\<exists>i. e = Wake i)" if "pool_next e ?p = Some p'" for e p'
    using that by (cases e) (auto simp: pool_next.simps pool_defs worker_def split: if_splits option.splits)
  ultimately show ?thesis by (metis pool.select_convs(6))
qed

theorem destructor_hangs_witness:
  "\<exists>es p. pool_run es (Threadpool_new 8 1 :: nat pool) = Some p \<and> tp_destructor p = Joining \<and> pool_next Join p = None"
proof -
  obtain es p where p: "pool_run es (Threadpool_new 8 1 :: nat pool) = Some p" "tp_destructor p = Joining"
      "\<And>e q. pool_next e p = Some q \<Longrightarrow> q = p \<or> (\<exists>i. e = Wake i)"
    using destructor_hangs [of 8] by blast
  have "pool_next Join p = None"
  proof (rule ccontr)
    assume "pool_next Join p \<noteq> None"
    then obtain q where q: "pool_next Join p = Some q" by blast
    with p(3) have "q = p" by blast
    with q have "p\<lparr>tp_destructor := Destroyed\<rparr> = p" by (simp add: pool_next.simps join_def split: if_splits)
    from arg_cong [OF this, of tp_destructor] p(2) show False by simp
  qed
  with p(1,2) show ?thesis by blast
qed


section \<open>Values of any type\<close>

text \<open>
  C23. Objects of the class \<open>Any\<close> are independent values: every sequence of operations, moves and assignments of
  an object to itself included, does to the objects what it would do to values. None of them
  uses or deletes a holder that was deleted before.
\<close>

theorem any_holds_values:
  "map_option held (any_run es any_start) = value_run es (\<lambda>x. None)"
  using any_run_values [OF any_start_inv, of es] by (simp add: held_start)

text \<open>
  C24. \<open>any_cast\<close> returns a value exactly when the object has one of the type that is asked for, and it is that
  value; otherwise it throws, and nothing is ever read at another type.
\<close>

theorem any_cast_types:
  assumes "any_run es any_start = Some s"
  shows "any_cast typeid t x s =
    (case held s x of
       None \<Rightarrow> None
     | Some None \<Rightarrow> Some (Inl Has_no_value)
     | Some (Some v) \<Rightarrow> Some (if typeid v = t then Inr v else Inl Cannot_cast))"
  by (rule any_cast_held [OF any_run_inv [OF assms any_start_inv]])

datatype sample_value = An_int int | A_string string

fun sample_type :: "sample_value \<Rightarrow> string" where
  "sample_type (An_int i) = ''int''"
| "sample_type (A_string s) = ''string''"

definition sample_operations :: "sample_value any_operation list" where
  "sample_operations =
     [Construct ''a'' (An_int 7), Copy_construct ''b'' ''a'', Assign_value ''a'' (A_string ''x''), Copy_assign ''a'' ''a'',
      Move_construct ''c'' ''b'']"

theorem any_cast_types_witness:
  "\<exists>s. any_run sample_operations any_start = Some s \<and>
     any_cast sample_type ''int'' ''c'' s = Some (Inr (An_int 7)) \<and>
     any_cast sample_type ''int'' ''a'' s = Some (Inl Cannot_cast) \<and>
     any_cast sample_type ''int'' ''b'' s = Some (Inl Has_no_value)"
proof -
  have "case any_run sample_operations any_start of None \<Rightarrow> False
    | Some s \<Rightarrow> held s ''c'' = Some (Some (An_int 7)) \<and> held s ''a'' = Some (Some (A_string ''x'')) \<and>
        held s ''b'' = Some None" by code_simp
  then obtain s where "any_run sample_operations any_start = Some s" "held s ''c'' = Some (Some (An_int 7))"
    "held s ''a'' = Some (Some (A_string ''x''))" "held s ''b'' = Some None" by (auto split: option.splits)
  with any_cast_types [of sample_operations s sample_type "''int''"] show ?thesis by simp
qed

end
