(* ===== verification/Http_Types.thy ===== *)
theory Http_Types
  imports Prelude Strings
begin

text \<open>
  src/acatl_network/http_types.h, http_types.cpp, http_errors.h and http_errors.cpp: methods,
  versions, status codes with their texts, and the error category. An enumerator of \<open>HttpStatus\<close> is
  a number of 16 bits; the parser makes such numbers from what it reads, so they need not be among
  the enumerators, and the functions take the number. The numbers and descriptions of the library
  http_parser are parameters.
\<close>

section \<open>Methods and versions\<close>

datatype HttpMethod = Get | Post | Put | Delete | Head | Connect_method | Options | Trace

fun HttpMethod_name :: "HttpMethod \<Rightarrow> string" where
  "HttpMethod_name Get = ''GET''"
| "HttpMethod_name Post = ''POST''"
| "HttpMethod_name Put = ''PUT''"
| "HttpMethod_name Delete = ''DELETE''"
| "HttpMethod_name Head = ''HEAD''"
| "HttpMethod_name Connect_method = ''CONNECT''"
| "HttpMethod_name Options = ''OPTIONS''"
| "HttpMethod_name Trace = ''TRACE''"

datatype HttpVersion = HTTP_1_0 | HTTP_1_1

fun HttpVersion_name :: "HttpVersion \<Rightarrow> string" where
  "HttpVersion_name HTTP_1_0 = ''HTTP/1.0''"
| "HttpVersion_name HTTP_1_1 = ''HTTP/1.1''"


section \<open>Status codes\<close>

type_synonym HttpStatus = u16

abbreviation CONTINUE :: HttpStatus where "CONTINUE \<equiv> 100"
abbreviation SWITCHING_PROTOCOLS :: HttpStatus where "SWITCHING_PROTOCOLS \<equiv> 101"
abbreviation PROCESSING :: HttpStatus where "PROCESSING \<equiv> 102"
abbreviation OK :: HttpStatus where "OK \<equiv> 200"
abbreviation CREATED :: HttpStatus where "CREATED \<equiv> 201"
abbreviation ACCEPTED :: HttpStatus where "ACCEPTED \<equiv> 202"
abbreviation NON_AUTHORITATIVE_INFORMATION :: HttpStatus where "NON_AUTHORITATIVE_INFORMATION \<equiv> 203"
abbreviation NO_CONTENT :: HttpStatus where "NO_CONTENT \<equiv> 204"
abbreviation RESET_CONTENT :: HttpStatus where "RESET_CONTENT \<equiv> 205"
abbreviation PARTIAL_CONTENT :: HttpStatus where "PARTIAL_CONTENT \<equiv> 206"
abbreviation MULTI_STATUS :: HttpStatus where "MULTI_STATUS \<equiv> 207"
abbreviation ALREADY_REPORTED :: HttpStatus where "ALREADY_REPORTED \<equiv> 208"
abbreviation IM_USED :: HttpStatus where "IM_USED \<equiv> 226"
abbreviation MULTIPLE_CHOICES :: HttpStatus where "MULTIPLE_CHOICES \<equiv> 300"
abbreviation MOVED_PERMANENTLY :: HttpStatus where "MOVED_PERMANENTLY \<equiv> 301"
abbreviation FOUND :: HttpStatus where "FOUND \<equiv> 302"
abbreviation SEE_OTHER :: HttpStatus where "SEE_OTHER \<equiv> 303"
abbreviation NOT_MODIFIED :: HttpStatus where "NOT_MODIFIED \<equiv> 304"
abbreviation USE_PROXY :: HttpStatus where "USE_PROXY \<equiv> 305"
abbreviation TEMPORARY_REDIRECT :: HttpStatus where "TEMPORARY_REDIRECT \<equiv> 307"
abbreviation PERMANENT_REDIRECT :: HttpStatus where "PERMANENT_REDIRECT \<equiv> 308"
abbreviation BAD_REQUEST :: HttpStatus where "BAD_REQUEST \<equiv> 400"
abbreviation UNAUTHORIZED :: HttpStatus where "UNAUTHORIZED \<equiv> 401"
abbreviation PAYMENT_REQUIRED :: HttpStatus where "PAYMENT_REQUIRED \<equiv> 402"
abbreviation FORBIDDEN :: HttpStatus where "FORBIDDEN \<equiv> 403"
abbreviation NOT_FOUND :: HttpStatus where "NOT_FOUND \<equiv> 404"
abbreviation METHOD_NOT_ALLOWED :: HttpStatus where "METHOD_NOT_ALLOWED \<equiv> 405"
abbreviation NOT_ACCEPTABLE :: HttpStatus where "NOT_ACCEPTABLE \<equiv> 406"
abbreviation PROXY_AUTHENTICATION_REQUIRED :: HttpStatus where "PROXY_AUTHENTICATION_REQUIRED \<equiv> 407"
abbreviation REQUEST_TIMEOUT :: HttpStatus where "REQUEST_TIMEOUT \<equiv> 408"
abbreviation CONFLICT :: HttpStatus where "CONFLICT \<equiv> 409"
abbreviation GONE :: HttpStatus where "GONE \<equiv> 410"
abbreviation LENGTH_REQUIRED :: HttpStatus where "LENGTH_REQUIRED \<equiv> 411"
abbreviation PRECONDITION_FAILED :: HttpStatus where "PRECONDITION_FAILED \<equiv> 412"
abbreviation PAYLOAD_TOO_LARGE :: HttpStatus where "PAYLOAD_TOO_LARGE \<equiv> 413"
abbreviation URI_TOO_LONG :: HttpStatus where "URI_TOO_LONG \<equiv> 414"
abbreviation UNSUPPORTED_MEDIA_TYPE :: HttpStatus where "UNSUPPORTED_MEDIA_TYPE \<equiv> 415"
abbreviation RANGE_NOT_SATISFIABLE :: HttpStatus where "RANGE_NOT_SATISFIABLE \<equiv> 416"
abbreviation EXPECTATION_FAILED :: HttpStatus where "EXPECTATION_FAILED \<equiv> 417"
abbreviation MISDIRECTED_REQUEST :: HttpStatus where "MISDIRECTED_REQUEST \<equiv> 421"
abbreviation UNPROCESSABLE_ENTITY :: HttpStatus where "UNPROCESSABLE_ENTITY \<equiv> 422"
abbreviation LOCKED :: HttpStatus where "LOCKED \<equiv> 423"
abbreviation FAILED_DEPENDENCY :: HttpStatus where "FAILED_DEPENDENCY \<equiv> 424"
abbreviation UPGRADE_REQUIRED :: HttpStatus where "UPGRADE_REQUIRED \<equiv> 426"
abbreviation PRECONDITION_REQUIRED :: HttpStatus where "PRECONDITION_REQUIRED \<equiv> 428"
abbreviation TOO_MANY_REQUESTS :: HttpStatus where "TOO_MANY_REQUESTS \<equiv> 429"
abbreviation REQUEST_HEADER_FIELDS_TOO_LARGE :: HttpStatus where "REQUEST_HEADER_FIELDS_TOO_LARGE \<equiv> 431"
abbreviation UNAVAILABLE_FOR_LEGAL_REASONS :: HttpStatus where "UNAVAILABLE_FOR_LEGAL_REASONS \<equiv> 451"
abbreviation INTERNAL_SERVER_ERROR :: HttpStatus where "INTERNAL_SERVER_ERROR \<equiv> 500"
abbreviation NOT_IMPLEMENTED :: HttpStatus where "NOT_IMPLEMENTED \<equiv> 501"
abbreviation BAD_GATEWAY :: HttpStatus where "BAD_GATEWAY \<equiv> 502"
abbreviation SERVICE_UNAVAILABLE :: HttpStatus where "SERVICE_UNAVAILABLE \<equiv> 503"
abbreviation GATEWAY_TIMEOUT :: HttpStatus where "GATEWAY_TIMEOUT \<equiv> 504"
abbreviation HTTP_VERSION_NOT_SUPPORTED :: HttpStatus where "HTTP_VERSION_NOT_SUPPORTED \<equiv> 505"
abbreviation VARIANT_ALSO_NEGOTIATES :: HttpStatus where "VARIANT_ALSO_NEGOTIATES \<equiv> 506"
abbreviation INSUFFICIENT_STORAGE :: HttpStatus where "INSUFFICIENT_STORAGE \<equiv> 507"
abbreviation LOOP_DETECTED :: HttpStatus where "LOOP_DETECTED \<equiv> 508"
abbreviation NOT_EXTENDED :: HttpStatus where "NOT_EXTENDED \<equiv> 510"
abbreviation NETWORK_AUTHENTICATION_REQUIRED :: HttpStatus where "NETWORK_AUTHENTICATION_REQUIRED \<equiv> 511"

definition HttpStatus_values :: "HttpStatus list" where
  "HttpStatus_values =
    [CONTINUE, SWITCHING_PROTOCOLS, PROCESSING, OK, CREATED, ACCEPTED, NON_AUTHORITATIVE_INFORMATION,
     NO_CONTENT, RESET_CONTENT, PARTIAL_CONTENT, MULTI_STATUS, ALREADY_REPORTED, IM_USED,
     MULTIPLE_CHOICES, MOVED_PERMANENTLY, FOUND, SEE_OTHER, NOT_MODIFIED, USE_PROXY,
     TEMPORARY_REDIRECT, PERMANENT_REDIRECT, BAD_REQUEST, UNAUTHORIZED, PAYMENT_REQUIRED, FORBIDDEN,
     NOT_FOUND, METHOD_NOT_ALLOWED, NOT_ACCEPTABLE, PROXY_AUTHENTICATION_REQUIRED, REQUEST_TIMEOUT,
     CONFLICT, GONE, LENGTH_REQUIRED, PRECONDITION_FAILED, PAYLOAD_TOO_LARGE, URI_TOO_LONG,
     UNSUPPORTED_MEDIA_TYPE, RANGE_NOT_SATISFIABLE, EXPECTATION_FAILED, MISDIRECTED_REQUEST,
     UNPROCESSABLE_ENTITY, LOCKED, FAILED_DEPENDENCY, UPGRADE_REQUIRED, PRECONDITION_REQUIRED,
     TOO_MANY_REQUESTS, REQUEST_HEADER_FIELDS_TOO_LARGE, UNAVAILABLE_FOR_LEGAL_REASONS,
     INTERNAL_SERVER_ERROR, NOT_IMPLEMENTED, BAD_GATEWAY, SERVICE_UNAVAILABLE, GATEWAY_TIMEOUT,
     HTTP_VERSION_NOT_SUPPORTED, VARIANT_ALSO_NEGOTIATES, INSUFFICIENT_STORAGE, LOOP_DETECTED,
     NOT_EXTENDED, NETWORK_AUTHENTICATION_REQUIRED]"

text \<open>The map that the first call fills. Looking up a number that is not in it adds an empty text.\<close>

definition statusCodeMap :: "(HttpStatus \<times> string) list" where
  "statusCodeMap =
    [(CONTINUE, ''100 Continue''),
(SWITCHING_PROTOCOLS, ''101 Switching Protocols''),
     (PROCESSING, ''102 Processing''),
(OK, ''200 OK''),
(CREATED, ''201 Created''),
     (ACCEPTED, ''202 Accepted''),
     (NON_AUTHORITATIVE_INFORMATION, ''203 Non-Authoritative Information''),
     (NO_CONTENT, ''204 No Content''),
(RESET_CONTENT, ''205 Reset Content''),
     (PARTIAL_CONTENT, ''206 Partial Content''),
(MULTI_STATUS, ''207 Multi-Status''),
     (ALREADY_REPORTED, ''208 Already Reported''),
(IM_USED, ''226 IM Used''),
     (MULTIPLE_CHOICES, ''300 Multiple Choices''),
(MOVED_PERMANENTLY, ''301 Moved Permanently''),
     (FOUND, ''302 Found''),
(SEE_OTHER, ''303 See Other''),
(NOT_MODIFIED, ''304 Not Modified''),
     (USE_PROXY, ''305 Use Proxy''),
(TEMPORARY_REDIRECT, ''307 Temporary Redirect''),
     (PERMANENT_REDIRECT, ''308 Permanent Redirect''),
(BAD_REQUEST, ''400 Bad Request''),
     (UNAUTHORIZED, ''401 Unauthorized''),
(PAYMENT_REQUIRED, ''402 Payment Required''),
     (FORBIDDEN, ''403 Forbidden''),
(NOT_FOUND, ''404 Not Found''),
     (METHOD_NOT_ALLOWED, ''405 Method Not Allowed''),
(NOT_ACCEPTABLE, ''406 Not Acceptable''),
     (PROXY_AUTHENTICATION_REQUIRED, ''407 Proxy Authentication Required''),
     (REQUEST_TIMEOUT, ''408 Request Timeout''),
(CONFLICT, ''409 Conflict''),
(GONE, ''410 Gone''),
     (LENGTH_REQUIRED, ''411 Length Required''),
(PRECONDITION_FAILED, ''412 Precondition Failed''),
     (PAYLOAD_TOO_LARGE, ''413 Payload Too Large''),
(URI_TOO_LONG, ''414 URI Too Long''),
     (UNSUPPORTED_MEDIA_TYPE, ''415 Unsupported Media Type''),
     (RANGE_NOT_SATISFIABLE, ''416 Range Not Satisfiable''),
     (EXPECTATION_FAILED, ''417 Expectation Failed''),
     (MISDIRECTED_REQUEST, ''421 Misdirected Request''),
     (UNPROCESSABLE_ENTITY, ''422 Unprocessable Entity''),
(LOCKED, ''423 Locked''),
     (FAILED_DEPENDENCY, ''424 Failed Dependency''),
(UPGRADE_REQUIRED, ''426 Upgrade Required''),
     (PRECONDITION_REQUIRED, ''428 Precondition Required''),
     (TOO_MANY_REQUESTS, ''429 Too Many Requests''),
     (REQUEST_HEADER_FIELDS_TOO_LARGE, ''431 Request Header Fields Too Large''),
     (UNAVAILABLE_FOR_LEGAL_REASONS, ''451 Unavailable For Legal Reasons''),
     (INTERNAL_SERVER_ERROR, ''500 Internal Server Error''),
     (NOT_IMPLEMENTED, ''501 Not Implemented''),
(BAD_GATEWAY, ''502 Bad Gateway''),
     (SERVICE_UNAVAILABLE, ''503 Service Unavailable''),
(GATEWAY_TIMEOUT, ''504 Gateway Timeout''),
     (HTTP_VERSION_NOT_SUPPORTED, ''505 HTTP Version Not Supported''),
     (VARIANT_ALSO_NEGOTIATES, ''506 Variant Also Negotiates''),
     (INSUFFICIENT_STORAGE, ''507 Insufficient Storage''),
(LOOP_DETECTED, ''508 Loop Detected''),
     (NOT_EXTENDED, ''510 Not Extended''),
     (NETWORK_AUTHENTICATION_REQUIRED, ''511 Network Authentication Required'')]"

definition httpStatusToString :: "u16 \<Rightarrow> string" where
  "httpStatusToString status =
     (case map_of statusCodeMap status of None \<Rightarrow> [] | Some t \<Rightarrow> t)"


section \<open>Errors\<close>

datatype http_error =
    message_begin_cb_error | url_cb_error | header_field_cb_error | header_value_cb_error |
    headers_complete_cb_error | body_cb_error | message_complete_cb_error | status_cb_error |
    chunk_header_cb_error | chunk_complete_cb_error | invalid_eof_state | header_overflow |
    closed_connection | invalid_version | invalid_status | invalid_method | invalid_url |
    invalid_host | invalid_port | invalid_path | invalid_query_string | invalid_fragment |
    lf_expected | invalid_header_token | invalid_content_length | unexpected_content_length |
    invalid_chunk_size | invalid_constant | invalid_internal_state | strict | paused | unknown |
    buffer_overflow | parsing_complete

definition http_errors :: "http_error list" where
  "http_errors =
    [message_begin_cb_error, url_cb_error, header_field_cb_error, header_value_cb_error,
     headers_complete_cb_error, body_cb_error, message_complete_cb_error, status_cb_error,
     chunk_header_cb_error, chunk_complete_cb_error, invalid_eof_state, header_overflow,
     closed_connection, invalid_version, invalid_status, invalid_method, invalid_url, invalid_host,
     invalid_port, invalid_path, invalid_query_string, invalid_fragment, lf_expected,
     invalid_header_token, invalid_content_length, unexpected_content_length, invalid_chunk_size,
     invalid_constant, invalid_internal_state, strict, paused, unknown, buffer_overflow,
     parsing_complete]"

text \<open>The enumerators are numbered from 1.\<close>

fun index_of :: "'a \<Rightarrow> 'a list \<Rightarrow> nat" where
  "index_of x [] = 0"
| "index_of x (y # ys) = (if x = y then 0 else Suc (index_of x ys))"

definition http_error_value :: "http_error \<Rightarrow> nat" where
  "http_error_value e = Suc (index_of e http_errors)"

definition http_error_of :: "nat \<Rightarrow> http_error option" where
  "http_error_of n = (if 1 \<le> n \<and> n \<le> length http_errors then Some (http_errors ! (n - 1)) else None)"

text \<open>The enumerators of the library, by their names, whose descriptions the messages are.\<close>

definition described :: "(http_error \<times> string) list" where
  "described =
    [(message_begin_cb_error, ''HPE_CB_message_begin''), (url_cb_error, ''HPE_CB_url''),
     (header_field_cb_error, ''HPE_CB_header_field''),
     (header_value_cb_error, ''HPE_CB_header_value''),
     (headers_complete_cb_error, ''HPE_CB_headers_complete''), (body_cb_error, ''HPE_CB_body''),
     (message_complete_cb_error, ''HPE_CB_message_complete''), (status_cb_error, ''HPE_CB_status''),
     (chunk_header_cb_error, ''HPE_CB_chunk_header''),
     (chunk_complete_cb_error, ''HPE_CB_chunk_complete''),
     (invalid_eof_state, ''HPE_INVALID_EOF_STATE''), (header_overflow, ''HPE_HEADER_OVERFLOW''),
     (closed_connection, ''HPE_CLOSED_CONNECTION''), (invalid_version, ''HPE_INVALID_VERSION''),
     (invalid_status, ''HPE_INVALID_STATUS''), (invalid_method, ''HPE_INVALID_METHOD''),
     (invalid_url, ''HPE_INVALID_URL''), (invalid_host, ''HPE_INVALID_HOST''),
     (invalid_port, ''HPE_INVALID_PORT''), (invalid_path, ''HPE_INVALID_PATH''),
     (invalid_query_string, ''HPE_INVALID_QUERY_STRING''),
     (invalid_fragment, ''HPE_INVALID_FRAGMENT''), (lf_expected, ''HPE_LF_EXPECTED''),
     (invalid_header_token, ''HPE_INVALID_HEADER_TOKEN''),
     (invalid_content_length, ''HPE_INVALID_CONTENT_LENGTH''),
     (unexpected_content_length, ''HPE_UNEXPECTED_CONTENT_LENGTH''),
     (invalid_chunk_size, ''HPE_INVALID_CHUNK_SIZE''), (invalid_constant, ''HPE_INVALID_CONSTANT''),
     (invalid_internal_state, ''HPE_INVALID_INTERNAL_STATE''), (strict, ''HPE_STRICT''),
     (paused, ''HPE_PAUSED''), (unknown, ''HPE_UNKNOWN'')]"

text \<open>\<open>message\<close> throws for other numbers (None).\<close>

definition http_error_message :: "(string \<Rightarrow> string) \<Rightarrow> nat \<Rightarrow> string option" where
  "http_error_message http_errno_description ev =
     (case http_error_of ev of
        None \<Rightarrow> None
      | Some e \<Rightarrow>
          (case map_of described e of
             Some h \<Rightarrow> Some (http_errno_description h)
           | None \<Rightarrow>
               (if e = buffer_overflow then Some ''buffer overflowed''
                else if e = parsing_complete
                then Some ''parsing was already comlete, reset the parser to continue''
                else None)))"

section \<open>Facts\<close>

lemma digit_chars:
  "char_of (48 :: nat) = CHR ''0''" "char_of (49 :: nat) = CHR ''1''" "char_of (50 :: nat) = CHR ''2''"
  "char_of (51 :: nat) = CHR ''3''" "char_of (52 :: nat) = CHR ''4''" "char_of (53 :: nat) = CHR ''5''"
  "char_of (54 :: nat) = CHR ''6''" "char_of (55 :: nat) = CHR ''7''" "char_of (56 :: nat) = CHR ''8''"
  "char_of (57 :: nat) = CHR ''9''"
  by code_simp+

lemma status_table:
  "map fst statusCodeMap = HttpStatus_values"
  "list_all (\<lambda>(s, t). take 4 t = to_string (unat s) @ '' '') statusCodeMap"
  by (simp_all add: statusCodeMap_def HttpStatus_values_def to_string.simps digit_chars)

lemma status_text:
  assumes "s \<in> set HttpStatus_values"
  shows "take 4 (httpStatusToString s) = to_string (unat s) @ '' ''"
proof -
  from assms status_table(1) obtain t where t: "map_of statusCodeMap s = Some t"
    by (metis list.set_map map_of_eq_None_iff not_None_eq)
  with status_table(2) have "take 4 t = to_string (unat s) @ '' ''"
    by (fastforce simp: list_all_iff dest: map_of_SomeD)
  with t show ?thesis by (simp add: httpStatusToString_def)
qed

lemma error_numbers: "list_all (\<lambda>e. http_error_of (http_error_value e) = Some e) http_errors"
  by code_simp

end
