(* ===== verification/Http_Parser.thy ===== *)
theory Http_Parser
  imports Http_Types Tribool
begin

text \<open>
  src/acatl_network/http_parser.h and http_parser.cpp: the class \<open>HttpParser::Impl\<close> around the C
  library http_parser. The library is a parameter. \<open>http_parser_execute\<close> calls back while it runs and
  goes on depending on the answers, so one run of it is a tree: it finishes with the number
  of bytes that it read and its next state, or it calls back and has a continuation for every answer.
  What the callbacks read from the library's \<open>struct http_parser\<close> is part of the call. The user's
  callbacks are a parameter too: a function of the call and of the user's state.
\<close>

section \<open>The library and the user\<close>

datatype parser_method = HTTP_DELETE | HTTP_GET | HTTP_HEAD | HTTP_POST | HTTP_PUT | HTTP_other nat

datatype parser_call =
    On_message_begin parser_method
  | On_status nat string
  | On_url string
  | On_header_field string
  | On_header_value string
  | On_headers_complete nat nat
  | On_body string
  | On_message_complete bool

datatype 'p run = Finished nat 'p | Calls parser_call "int \<Rightarrow> 'p run"

datatype parser_type = HTTP_REQUEST | HTTP_RESPONSE

record 'p http_library =
  http_parser_init :: "parser_type \<Rightarrow> 'p"
  http_parser_execute :: "'p \<Rightarrow> string \<Rightarrow> 'p run"
  HTTP_PARSER_ERRNO :: "'p \<Rightarrow> nat"

text \<open>\<open>HttpCallbacks\<close>. The status code is absent if the parser passes on one that was never set.\<close>

datatype user_call =
    OnMessageBegin HttpMethod
  | OnStatus "HttpStatus option" string
  | OnUrl string
  | OnHeaderField string
  | OnHeaderValue string
  | OnHeaderComplete HttpVersion
  | OnBody string
  | OnMessageComplete bool

type_synonym 'u callbacks = "user_call \<Rightarrow> 'u \<Rightarrow> int \<times> 'u"


section \<open>State\<close>

datatype ImplState = Start | Status | Url | HeaderField | HeaderValue | Body | Complete

record Impl =
  im_state :: ImplState
  im_statusCode :: "HttpStatus option"
  im_data :: string

record 'p HttpParser = Impl +
  im_parser :: 'p

definition HttpParser_new :: "'p http_library \<Rightarrow> parser_type \<Rightarrow> 'p HttpParser" where
  "HttpParser_new lib type =
     \<lparr>im_state = Start, im_statusCode = None, im_data = [], im_parser = http_parser_init lib type\<rparr>"

definition HttpRequestParser_new :: "'p http_library \<Rightarrow> 'p HttpParser" where
  "HttpRequestParser_new lib = HttpParser_new lib HTTP_REQUEST"

definition HttpResponseParser_new :: "'p http_library \<Rightarrow> 'p HttpParser" where
  "HttpResponseParser_new lib = HttpParser_new lib HTTP_RESPONSE"

definition HttpParser_reset :: "'p HttpParser \<Rightarrow> 'p HttpParser" where
  "HttpParser_reset im = im\<lparr>im_state := Start, im_data := []\<rparr>"


section \<open>Callbacks\<close>

type_synonym ('p, 'u) handler = "'p HttpParser \<times> 'u \<Rightarrow> int \<times> 'p HttpParser \<times> 'u"

definition callCallback :: "'u callbacks \<Rightarrow> string \<Rightarrow> ('p, 'u) handler" where
  "callCallback cb data = (\<lambda>(im, u).
     (case im_state im of
        Url \<Rightarrow> (case cb (OnUrl data) u of (r, u) \<Rightarrow> (r, im, u))
      | HeaderField \<Rightarrow> (case cb (OnHeaderField data) u of (r, u) \<Rightarrow> (r, im, u))
      | HeaderValue \<Rightarrow> (case cb (OnHeaderValue data) u of (r, u) \<Rightarrow> (r, im, u))
      | Start \<Rightarrow> (1, im, u)
      | _ \<Rightarrow> (case cb (OnStatus (im_statusCode im) data) u of (r, u) \<Rightarrow> (r, im, u))))"

fun method_of :: "parser_method \<Rightarrow> HttpMethod option" where
  "method_of HTTP_GET = Some Get"
| "method_of HTTP_POST = Some Post"
| "method_of HTTP_PUT = Some Put"
| "method_of HTTP_DELETE = Some Delete"
| "method_of HTTP_HEAD = Some Head"
| "method_of (HTTP_other n) = None"

definition onMessageBegin :: "'u callbacks \<Rightarrow> parser_method \<Rightarrow> ('p, 'u) handler" where
  "onMessageBegin cb m = (\<lambda>(im, u).
     (case method_of m of
        None \<Rightarrow> (1, im, u)
      | Some m \<Rightarrow> (case cb (OnMessageBegin m) u of (r, u) \<Rightarrow> (r, im, u))))"

definition onStatus :: "nat \<Rightarrow> string \<Rightarrow> ('p, 'u) handler" where
  "onStatus status_code at = (\<lambda>(im, u).
     (0, im\<lparr>im_state := Status, im_statusCode := Some (of_nat status_code), im_data := im_data im @ at\<rparr>, u))"

definition onUrl :: "string \<Rightarrow> ('p, 'u) handler" where
  "onUrl at = (\<lambda>(im, u). (0, im\<lparr>im_state := Url, im_data := im_data im @ at\<rparr>, u))"

text \<open>
  What was collected for the element before is passed on when another element begins. The answer
  of the user is lost if that other element is the name of a header.
\<close>

definition next_element :: "'u callbacks \<Rightarrow> ImplState \<Rightarrow> ('p, 'u) handler" where
  "next_element cb s = (\<lambda>(im, u).
     (if im_state im \<noteq> s
      then (case callCallback cb (im_data im) (im, u) of
              (r, im, u) \<Rightarrow> (r, im\<lparr>im_data := [], im_state := s\<rparr>, u))
      else (0, im, u)))"

definition onHeaderField :: "'u callbacks \<Rightarrow> string \<Rightarrow> ('p, 'u) handler" where
  "onHeaderField cb at = (\<lambda>s.
     (case next_element cb HeaderField s of (_, im, u) \<Rightarrow> (0, im\<lparr>im_data := im_data im @ at\<rparr>, u)))"

definition onHeaderValue :: "'u callbacks \<Rightarrow> string \<Rightarrow> ('p, 'u) handler" where
  "onHeaderValue cb at = (\<lambda>s.
     (case next_element cb HeaderValue s of (r, im, u) \<Rightarrow> (r, im\<lparr>im_data := im_data im @ at\<rparr>, u)))"

definition version_of :: "nat \<Rightarrow> nat \<Rightarrow> HttpVersion option" where
  "version_of major minor =
     (if major = 1 \<and> minor = 0 then Some HTTP_1_0
      else if major = 1 \<and> minor = 1 then Some HTTP_1_1
      else None)"

definition onHeaderComplete :: "'u callbacks \<Rightarrow> nat \<Rightarrow> nat \<Rightarrow> ('p, 'u) handler" where
  "onHeaderComplete cb http_major http_minor = (\<lambda>(im, u).
     (case callCallback cb (im_data im) (im, u) of (r, im, u) \<Rightarrow>
       (let im = im\<lparr>im_data := []\<rparr> in
        (case version_of http_major http_minor of
           None \<Rightarrow> (1, im, u)
         | Some v \<Rightarrow> (case cb (OnHeaderComplete v) u of (_, u) \<Rightarrow> (r, im\<lparr>im_state := Body\<rparr>, u))))))"

definition onBody :: "'u callbacks \<Rightarrow> string \<Rightarrow> ('p, 'u) handler" where
  "onBody cb at = (\<lambda>(im, u). (case cb (OnBody at) u of (r, u) \<Rightarrow> (r, im, u)))"

definition onMessageComplete :: "'u callbacks \<Rightarrow> bool \<Rightarrow> ('p, 'u) handler" where
  "onMessageComplete cb should_keep_alive = (\<lambda>(im, u).
     (case cb (OnMessageComplete (\<not> should_keep_alive)) u of (r, u) \<Rightarrow> (r, im\<lparr>im_state := Complete\<rparr>, u)))"

fun dispatch_call :: "'u callbacks \<Rightarrow> parser_call \<Rightarrow> ('p, 'u) handler" where
  "dispatch_call cb (On_message_begin m) = onMessageBegin cb m"
| "dispatch_call cb (On_status n at) = onStatus n at"
| "dispatch_call cb (On_url at) = onUrl at"
| "dispatch_call cb (On_header_field at) = onHeaderField cb at"
| "dispatch_call cb (On_header_value at) = onHeaderValue cb at"
| "dispatch_call cb (On_headers_complete major minor) = onHeaderComplete cb major minor"
| "dispatch_call cb (On_body at) = onBody cb at"
| "dispatch_call cb (On_message_complete ka) = onMessageComplete cb ka"


section \<open>Parsing\<close>

text \<open>The number of bytes that the library read, and the states behind its run.\<close>

primrec execute :: "'u callbacks \<Rightarrow> 'p run \<Rightarrow> 'p HttpParser \<times> 'u \<Rightarrow> nat \<times> 'p HttpParser \<times> 'u" where
  "execute cb (Finished n p) = (\<lambda>(im, u). (n, im\<lparr>im_parser := p\<rparr>, u))"
| "execute cb (Calls c k) = (\<lambda>s. case dispatch_call cb c s of (r, s') \<Rightarrow> execute cb (k r) s')"

type_synonym http_ec = "nat option"

definition HttpParser_parse ::
    "'p http_library \<Rightarrow> 'u callbacks \<Rightarrow> string \<Rightarrow> nat \<Rightarrow> http_ec \<Rightarrow> 'p HttpParser \<times> 'u \<Rightarrow>
     Tribool \<times> http_ec \<times> 'p HttpParser \<times> 'u" where
  "HttpParser_parse lib cb buffer len ec = (\<lambda>(im, u).
     (if im_state im = Complete
      then (Tribool_of False, Some (http_error_value parsing_complete), im, u)
      else if length buffer < len
      then (Tribool_of False, Some (http_error_value buffer_overflow), im, u)
      else (case execute cb (http_parser_execute lib (im_parser im) (take len buffer)) (im, u) of
         (nread, im, u) \<Rightarrow>
           (if nread \<noteq> len then (Tribool_of False, Some (HTTP_PARSER_ERRNO lib (im_parser im)), im, u)
            else (if im_state im = Complete then Tribool_of True else Tribool_new, None, im, u)))))"


section \<open>Messages in pieces\<close>

text \<open>
  A run of the library that makes the calls \<open>cs\<close> in this order as long as the user agrees, and then
  finishes. The calls of a whole message, each element in any number of pieces, and what
  the user should hear of it. What the library shows for the method when the message begins is part of the
  message: it has read only the beginning of it by then, and need not know the method yet.
\<close>

primrec follows :: "'p run \<Rightarrow> parser_call list \<Rightarrow> nat \<Rightarrow> 'p \<Rightarrow> bool" where
  "follows r [] n p \<longleftrightarrow> r = Finished n p"
| "follows r (c # cs) n p \<longleftrightarrow> (\<exists>k. r = Calls c k \<and> follows (k 0) cs n p)"

type_synonym pieces = "string list"

definition header_calls :: "pieces \<times> pieces \<Rightarrow> parser_call list" where
  "header_calls h = map On_header_field (fst h) @ map On_header_value (snd h)"

definition header_heard :: "pieces \<times> pieces \<Rightarrow> user_call list" where
  "header_heard h = [OnHeaderField (concat (fst h)), OnHeaderValue (concat (snd h))]"

record request =
  rq_begin :: parser_method
  rq_url :: pieces
  rq_headers :: "(pieces \<times> pieces) list"
  rq_version :: HttpVersion
  rq_body :: pieces
  rq_keep_alive :: bool

definition begun_as :: "request \<Rightarrow> HttpMethod" where
  "begun_as q = the (method_of (rq_begin q))"

definition minor_of :: "HttpVersion \<Rightarrow> nat" where
  "minor_of v = (if v = HTTP_1_0 then 0 else 1)"

definition request_calls :: "request \<Rightarrow> parser_call list" where
  "request_calls q =
     On_message_begin (rq_begin q) # map On_url (rq_url q) @
     concat (map header_calls (rq_headers q)) @ [On_headers_complete 1 (minor_of (rq_version q))] @
     map On_body (rq_body q) @ [On_message_complete (rq_keep_alive q)]"

definition request_heard :: "request \<Rightarrow> user_call list" where
  "request_heard q =
     [OnMessageBegin (begun_as q), OnUrl (concat (rq_url q))] @
     concat (map header_heard (rq_headers q)) @ [OnHeaderComplete (rq_version q)] @
     map OnBody (rq_body q) @ [OnMessageComplete (\<not> rq_keep_alive q)]"

definition request_ok :: "request \<Rightarrow> bool" where
  "request_ok q \<longleftrightarrow> method_of (rq_begin q) \<noteq> None \<and> rq_url q \<noteq> [] \<and>
     (\<forall>h \<in> set (rq_headers q). fst h \<noteq> [] \<and> snd h \<noteq> [])"

text \<open>What the user's state becomes.\<close>

definition tell :: "'u callbacks \<Rightarrow> user_call list \<Rightarrow> 'u \<Rightarrow> 'u" where
  "tell cb cs u = fold (\<lambda>c u. snd (cb c u)) cs u"

lemma tell_simps [simp]:
  "tell cb [] u = u" "tell cb (c # cs) u = tell cb cs (snd (cb c u))"
  "tell cb (cs @ ds) u = tell cb ds (tell cb cs u)"
  by (simp_all add: tell_def)

text \<open>
  The calls of a script one after the other, as long as each is answered by 0.
\<close>

fun all_agreed :: "'u callbacks \<Rightarrow> parser_call list \<Rightarrow> 'p HttpParser \<times> 'u \<Rightarrow> ('p HttpParser \<times> 'u) option" where
  "all_agreed cb [] s = Some s"
| "all_agreed cb (c # cs) s = (case dispatch_call cb c s of (r, s') \<Rightarrow> if r = 0 then all_agreed cb cs s' else None)"

lemma all_agreed_append:
  "all_agreed cb (cs @ ds) s = (case all_agreed cb cs s of None \<Rightarrow> None | Some s' \<Rightarrow> all_agreed cb ds s')"
  by (induction cb cs s rule: all_agreed.induct) (auto split: prod.splits)

lemma execute_follows:
  "follows r cs n p \<Longrightarrow> all_agreed cb cs s = Some (im, u) \<Longrightarrow> execute cb r s = (n, im\<lparr>im_parser := p\<rparr>, u)"
proof (induction cs arbitrary: r s)
  case Nil
  then show ?case by (cases s) auto
next
  case (Cons c cs)
  then show ?case by (cases s) (auto split: prod.splits if_splits)
qed

text \<open>Of the state, the parts that the calls touch.\<close>

definition collecting :: "ImplState \<Rightarrow> string \<Rightarrow> 'p HttpParser \<Rightarrow> 'p HttpParser" where
  "collecting s d im = im\<lparr>im_state := s, im_data := d\<rparr>"

lemma collecting_simps [simp]:
  "im_state (collecting s d im) = s" "im_data (collecting s d im) = d"
  "im_parser (collecting s d im) = im_parser im" "im_statusCode (collecting s d im) = im_statusCode im"
  "collecting s d (collecting s' d' im) = collecting s d im"
  "collecting s d im\<lparr>im_state := s'\<rparr> = collecting s' d im"
  "collecting s d im\<lparr>im_data := d'\<rparr> = collecting s d' im"
  by (simp_all add: collecting_def)

lemma collecting_id: "im_state im = s \<Longrightarrow> im_data im = d \<Longrightarrow> collecting s d im = im"
  by (auto simp: collecting_def)

lemma more_url:
  "all_agreed cb (map On_url us) (collecting Url d im, u) = Some (collecting Url (d @ concat us) im, u)"
  by (induction us arbitrary: d) (simp_all add: onUrl_def)

lemma more_field:
  "all_agreed cb (map On_header_field us) (collecting HeaderField d im, u) =
     Some (collecting HeaderField (d @ concat us) im, u)"
  by (induction us arbitrary: d) (simp_all add: onHeaderField_def next_element_def)

lemma more_value:
  "all_agreed cb (map On_header_value us) (collecting HeaderValue d im, u) =
     Some (collecting HeaderValue (d @ concat us) im, u)"
  by (induction us arbitrary: d) (simp_all add: onHeaderValue_def next_element_def)

text \<open>The element that is being collected, as the user will hear it.\<close>

fun pending :: "ImplState \<Rightarrow> string \<Rightarrow> user_call" where
  "pending Url d = OnUrl d"
| "pending HeaderField d = OnHeaderField d"
| "pending HeaderValue d = OnHeaderValue d"
| "pending s d = OnStatus None d"

lemma header_agreed:
  assumes "s \<in> {Url, HeaderValue}" "fst h \<noteq> []" "snd h \<noteq> []"
    and "\<And>u. fst (cb (OnHeaderField (concat (fst h))) u) = 0"
  shows "all_agreed cb (header_calls h) (collecting s d im, u) =
    Some (collecting HeaderValue (concat (snd h)) im, tell cb [pending s d, OnHeaderField (concat (fst h))] u)"
proof -
  obtain f fs where f: "fst h = f # fs" using assms(2) by (cases "fst h") auto
  obtain v vs where v: "snd h = v # vs" using assms(3) by (cases "snd h") auto
  let ?u = "snd (cb (pending s d) u)"
  have "dispatch_call cb (On_header_field f) (collecting s d im, u) = (0, collecting HeaderField f im, ?u)"
    using assms(1) by (auto simp: onHeaderField_def next_element_def callCallback_def split: prod.splits)
  then have 1: "all_agreed cb (map On_header_field (fst h)) (collecting s d im, u) =
      Some (collecting HeaderField (concat (fst h)) im, ?u)"
    using more_field [of cb fs f im ?u] f by simp
  let ?d = "concat (fst h)"
  have "dispatch_call cb (On_header_value v) (collecting HeaderField ?d im, u') =
      (0, collecting HeaderValue v im, snd (cb (OnHeaderField ?d) u'))" for u'
    using assms(4) [of u']
    by (cases "cb (OnHeaderField ?d) u'") (simp add: onHeaderValue_def next_element_def callCallback_def)
  then have 2: "all_agreed cb (map On_header_value (snd h)) (collecting HeaderField ?d im, u') =
      Some (collecting HeaderValue (concat (snd h)) im, snd (cb (OnHeaderField ?d) u'))" for u'
    using more_value [of cb vs v im] v by simp
  show ?thesis by (simp add: header_calls_def all_agreed_append 1 2)
qed

text \<open>
  Behind the headers one element is still pending. Only the names of the headers must have been agreed to.
\<close>

lemma headers_agreed:
  assumes "s \<in> {Url, HeaderValue}" "\<forall>h \<in> set hs. fst h \<noteq> [] \<and> snd h \<noteq> []"
    and "\<And>h u. h \<in> set hs \<Longrightarrow> fst (cb (OnHeaderField (concat (fst h))) u) = 0"
  shows "\<exists>s' d'. s' \<in> {Url, HeaderValue} \<and> pending s' d' = last (pending s d # concat (map header_heard hs)) \<and>
    all_agreed cb (concat (map header_calls hs)) (collecting s d im, u) =
      Some (collecting s' d' im, tell cb (butlast (pending s d # concat (map header_heard hs))) u)"
  using assms
proof (induction hs arbitrary: s d u)
  case Nil
  then show ?case by auto
next
  case (Cons h hs)
  let ?u = "tell cb [pending s d, OnHeaderField (concat (fst h))] u"
  have h: "all_agreed cb (header_calls h) (collecting s d im, u) =
      Some (collecting HeaderValue (concat (snd h)) im, ?u)"
    by (rule header_agreed) (use Cons.prems in auto)
  from Cons.IH [of HeaderValue "concat (snd h)" ?u] Cons.prems obtain s' d' where
    *: "s' \<in> {Url, HeaderValue}"
      "pending s' d' = last (OnHeaderValue (concat (snd h)) # concat (map header_heard hs))"
      "all_agreed cb (concat (map header_calls hs)) (collecting HeaderValue (concat (snd h)) im, ?u) =
        Some (collecting s' d' im, tell cb (butlast (OnHeaderValue (concat (snd h)) # concat (map header_heard hs))) ?u)"
    by auto
  have heard: "header_heard h = [OnHeaderField (concat (fst h)), OnHeaderValue (concat (snd h))]"
    by (simp add: header_heard_def)
  from * h show ?case by (intro exI [of _ s'] exI [of _ d']) (auto simp: all_agreed_append heard)
qed

definition must_agree :: "request \<Rightarrow> user_call list" where
  "must_agree q =
     OnMessageBegin (begun_as q) # map (\<lambda>h. OnHeaderField (concat (fst h))) (rq_headers q) @
     [last (OnUrl (concat (rq_url q)) # concat (map header_heard (rq_headers q)))] @
     map OnBody (rq_body q) @ [OnMessageComplete (\<not> rq_keep_alive q)]"

lemma body_agreed:
  "(\<And>b u. b \<in> set bs \<Longrightarrow> fst (cb (OnBody b) u) = 0) \<Longrightarrow>
   all_agreed cb (map On_body bs) (im, u) = Some (im, tell cb (map OnBody bs) u)"
proof (induction bs arbitrary: u)
  case (Cons b bs)
  then have "fst (cb (OnBody b) u) = 0" by simp
  with Cons show ?case by (cases "cb (OnBody b) u") (simp add: onBody_def)
qed simp

lemma headers_complete_agreed:
  assumes "s \<in> {Url, HeaderValue}" "fst (cb (pending s d) u) = 0"
  shows "dispatch_call cb (On_headers_complete 1 (minor_of v)) (collecting s d im, u) =
    (0, collecting Body [] im, snd (cb (OnHeaderComplete v) (snd (cb (pending s d) u))))"
proof -
  have "version_of 1 (minor_of v) = Some v" by (cases v) (simp_all add: version_of_def minor_of_def)
  moreover obtain u' where "cb (pending s d) u = (0, u')" using assms(2) by (cases "cb (pending s d) u") auto
  ultimately show ?thesis using assms(1)
    by (cases "cb (OnHeaderComplete v) u'") (auto simp: onHeaderComplete_def callCallback_def)
qed

lemma message_begin_agreed:
  assumes "method_of g = Some m" "fst (cb (OnMessageBegin m) u) = 0"
  shows "dispatch_call cb (On_message_begin g) (im, u) = (0, im, snd (cb (OnMessageBegin m) u))"
  using assms by (cases "cb (OnMessageBegin m) u") (simp add: onMessageBegin_def)

lemma message_complete_agreed:
  "fst (cb (OnMessageComplete (\<not> ka)) u) = 0 \<Longrightarrow>
   dispatch_call cb (On_message_complete ka) (collecting s d im, u) =
     (0, collecting Complete d im, snd (cb (OnMessageComplete (\<not> ka)) u))"
  by (cases "cb (OnMessageComplete (\<not> ka)) u") (simp add: onMessageComplete_def)

lemma url_agreed:
  assumes "us \<noteq> []" "im_data im = []"
  shows "all_agreed cb (map On_url us) (im, u) = Some (collecting Url (concat us) im, u)"
proof (cases us)
  case (Cons v vs)
  then show ?thesis using more_url [of cb vs v im u] assms(2) by (simp add: onUrl_def collecting_def)
qed (use assms(1) in simp)

lemma request_agreed:
  assumes "request_ok q" "im_state im = Start" "im_data im = []"
    and "\<And>c u. c \<in> set (must_agree q) \<Longrightarrow> fst (cb c u) = 0"
  shows "all_agreed cb (request_calls q) (im, u) = Some (collecting Complete [] im, tell cb (request_heard q) u)"
proof -
  obtain L where L: "L = OnUrl (concat (rq_url q)) # concat (map header_heard (rq_headers q))" by simp
  have ok: "method_of (rq_begin q) = Some (begun_as q)" "rq_url q \<noteq> []"
    "\<forall>h \<in> set (rq_headers q). fst h \<noteq> [] \<and> snd h \<noteq> []"
    using assms(1) by (auto simp: request_ok_def begun_as_def)
  have must: "fst (cb (OnMessageBegin (begun_as q)) u) = 0" "fst (cb (last L) u) = 0"
    "fst (cb (OnMessageComplete (\<not> rq_keep_alive q)) u) = 0"
    "h \<in> set (rq_headers q) \<Longrightarrow> fst (cb (OnHeaderField (concat (fst h))) u) = 0"
    "b \<in> set (rq_body q) \<Longrightarrow> fst (cb (OnBody b) u) = 0" for u h b
    by (rule assms(4), simp add: must_agree_def L)+
  obtain u1 where u1: "u1 = snd (cb (OnMessageBegin (begun_as q)) u)" by simp
  have 1: "dispatch_call cb (On_message_begin (rq_begin q)) (im, u) = (0, im, u1)"
    unfolding u1 by (intro message_begin_agreed ok(1) must(1))
  note 2 = url_agreed [OF ok(2) assms(3), of cb u1]
  obtain s d where 3: "s \<in> {Url, HeaderValue}" "pending s d = last L"
    "all_agreed cb (concat (map header_calls (rq_headers q))) (collecting Url (concat (rq_url q)) im, u1) =
      Some (collecting s d im, tell cb (butlast L) u1)"
    using headers_agreed [of Url "rq_headers q" cb "concat (rq_url q)" im u1] ok(3) must(4)
    unfolding L by auto
  have "tell cb L u1 = snd (cb (last L) (tell cb (butlast L) u1))"
    unfolding L by (metis append_butlast_last_id list.distinct(1) tell_simps(1,2,3))
  then have 4: "dispatch_call cb (On_headers_complete 1 (minor_of (rq_version q)))
      (collecting s d im, tell cb (butlast L) u1) =
      (0, collecting Body [] im, snd (cb (OnHeaderComplete (rq_version q)) (tell cb L u1)))"
    using headers_complete_agreed [OF 3(1), of cb d] must(2) unfolding 3(2) by simp
  have 5: "all_agreed cb (map On_body (rq_body q)) (collecting Body [] im, u) =
      Some (collecting Body [] im, tell cb (map OnBody (rq_body q)) u)" for u
    by (rule body_agreed) (rule must(5))
  have "all_agreed cb (request_calls q) (im, u) = Some (collecting Complete [] im,
      snd (cb (OnMessageComplete (\<not> rq_keep_alive q)) (tell cb (map OnBody (rq_body q))
        (snd (cb (OnHeaderComplete (rq_version q)) (tell cb L u1))))))"
    by (simp add: request_calls_def all_agreed_append 1 2 3(3) 4 5 message_complete_agreed must(3)
        del: dispatch_call.simps One_nat_def)
  then show ?thesis by (simp add: request_heard_def L u1)
qed


section \<open>Messages in chunks\<close>

text \<open>
  Reading from a connection: chunk after chunk is parsed until the answer is definite. The library reads
  the whole of each chunk and makes the calls that belong to it.
\<close>

fun parse_chunks ::
    "'p http_library \<Rightarrow> 'u callbacks \<Rightarrow> string list \<Rightarrow> http_ec \<Rightarrow> 'p HttpParser \<times> 'u \<Rightarrow>
     Tribool \<times> http_ec \<times> 'p HttpParser \<times> 'u" where
  "parse_chunks lib cb [] ec s = (Tribool_new, ec, s)"
| "parse_chunks lib cb (b # bs) ec s =
     (case HttpParser_parse lib cb b (length b) ec s of
        (r, ec, s) \<Rightarrow> if isIndeterminate r then parse_chunks lib cb bs ec s else (r, ec, s))"

fun library_reads :: "'p http_library \<Rightarrow> 'p \<Rightarrow> string list \<Rightarrow> parser_call list list \<Rightarrow> 'p \<Rightarrow> bool" where
  "library_reads lib p [] css p' \<longleftrightarrow> css = [] \<and> p' = p"
| "library_reads lib p (b # bs) css p' \<longleftrightarrow>
     (\<exists>cs css' p1. css = cs # css' \<and> follows (http_parser_execute lib p b) cs (length b) p1 \<and>
        library_reads lib p1 bs css' p')"

lemma dispatch_parser:
  "dispatch_call cb c (im\<lparr>im_parser := p\<rparr>, u) =
     (case dispatch_call cb c (im, u) of (r, im', u') \<Rightarrow> (r, im'\<lparr>im_parser := p\<rparr>, u'))"
  by (cases c; cases "im_state im")
    (auto simp: onMessageBegin_def onStatus_def onUrl_def onHeaderField_def onHeaderValue_def onHeaderComplete_def
      onBody_def onMessageComplete_def next_element_def callCallback_def Let_def split: prod.splits option.splits)

lemma all_agreed_parser:
  "all_agreed cb cs (im\<lparr>im_parser := p\<rparr>, u) =
     map_option (\<lambda>(im', u'). (im'\<lparr>im_parser := p\<rparr>, u')) (all_agreed cb cs (im, u))"
  by (induction cs arbitrary: im u) (auto simp: dispatch_parser split: prod.splits)

lemma dispatch_complete:
  assumes "dispatch_call cb c (im, u) = (r, im', u')" "im_state im \<noteq> Complete" "\<And>ka. c \<noteq> On_message_complete ka"
  shows "im_state im' \<noteq> Complete"
  using assms
  by (cases c; cases "im_state im")
    (auto simp: onMessageBegin_def onStatus_def onUrl_def onHeaderField_def onHeaderValue_def onHeaderComplete_def
      onBody_def next_element_def callCallback_def Let_def split: prod.splits option.splits if_splits)

lemma all_agreed_complete:
  "all_agreed cb cs (im, u) = Some (im', u') \<Longrightarrow> im_state im \<noteq> Complete \<Longrightarrow>
   (\<forall>ka. On_message_complete ka \<notin> set cs) \<Longrightarrow> im_state im' \<noteq> Complete"
proof (induction cs arbitrary: im u)
  case (Cons c cs)
  obtain r im1 u1 where c: "dispatch_call cb c (im, u) = (r, im1, u1)" by (cases "dispatch_call cb c (im, u)")
  with Cons.prems have "r = 0" "all_agreed cb cs (im1, u1) = Some (im', u')" by (auto split: if_splits)
  moreover have "im_state im1 \<noteq> Complete"
    by (rule dispatch_complete [OF c Cons.prems(2)]) (use Cons.prems(3) in auto)
  ultimately show ?case using Cons.IH Cons.prems(3) by auto
qed simp

lemma parse_follows:
  assumes "follows (http_parser_execute lib (im_parser im) b) cs (length b) p"
    and "all_agreed cb cs (im, u) = Some (im', u')" "im_state im \<noteq> Complete"
  shows "HttpParser_parse lib cb b (length b) ec (im, u) =
    (if im_state im' = Complete then Tribool_of True else Tribool_new, None, im'\<lparr>im_parser := p\<rparr>, u')"
  using execute_follows [OF assms(1,2)] assms(3) by (simp add: HttpParser_parse_def)

lemma chunks_parsed:
  assumes "library_reads lib (im_parser im) chunks css p" "css \<noteq> []" "last css \<noteq> []" "im_state im \<noteq> Complete"
    and "concat css = cs @ [On_message_complete ka]" "\<forall>ka. On_message_complete ka \<notin> set cs"
    and "all_agreed cb (concat css) (im, u) = Some (im', u')" "im_state im' = Complete"
  shows "parse_chunks lib cb chunks ec (im, u) = (Tribool_of True, None, im'\<lparr>im_parser := p\<rparr>, u')"
  using assms
proof (induction chunks arbitrary: im u css cs im' ec)
  case (Cons b bs)
  then obtain c css1 p1 where c: "css = c # css1" "follows (http_parser_execute lib (im_parser im) b) c (length b) p1"
    "library_reads lib p1 bs css1 p" by auto
  then obtain im1 u1 where a: "all_agreed cb c (im, u) = Some (im1, u1)"
    "all_agreed cb (concat css1) (im1, u1) = Some (im', u')"
    using Cons.prems(7) by (auto simp: all_agreed_append split: option.splits)
  note parse = parse_follows [OF c(2) a(1) Cons.prems(4)]
  show ?case
  proof (cases "css1 = []")
    case True
    then have "bs = [] \<and> p1 = p" "im1 = im' \<and> u1 = u'" using c(3) a(2) by (cases bs; auto)+
    then show ?thesis using parse Cons.prems(8) by simp
  next
    case False
    then have l: "last css1 \<noteq> []" using Cons.prems(3) c(1) by simp
    then have "concat css1 \<noteq> []" using False by (metis concat_eq_Nil_conv last_in_set)
    then obtain cs1 where cs1: "cs = c @ cs1" "concat css1 = cs1 @ [On_message_complete ka]"
      using Cons.prems(5) c(1) by (metis append_assoc butlast_append butlast_snoc append_butlast_last_id
        concat.simps(2) last_appendR last_snoc)
    then have n: "im_state im1 \<noteq> Complete" using all_agreed_complete [OF a(1) Cons.prems(4)] Cons.prems(6) by simp
    have "all_agreed cb (concat css1) (im1\<lparr>im_parser := p1\<rparr>, u1) = Some (im'\<lparr>im_parser := p1\<rparr>, u')"
      using a(2) by (simp add: all_agreed_parser)
    from Cons.IH [OF _ False l _ cs1(2) _ this, of None] c(3) n Cons.prems(6,8) cs1(1)
    have "parse_chunks lib cb bs None (im1\<lparr>im_parser := p1\<rparr>, u1) = (Tribool_of True, None, im'\<lparr>im_parser := p\<rparr>, u')"
      by simp
    with parse n show ?thesis by simp
  qed
qed simp

lemma request_calls_end:
  "\<exists>cs. request_calls q = cs @ [On_message_complete (rq_keep_alive q)] \<and> (\<forall>ka. On_message_complete ka \<notin> set cs)"
  unfolding request_calls_def
  by (rule exI [where x = "On_message_begin (rq_begin q) # map On_url (rq_url q) @
      concat (map header_calls (rq_headers q)) @ [On_headers_complete 1 (minor_of (rq_version q))] @
      map On_body (rq_body q)"]) (auto simp: header_calls_def)

lemma request_parsed:
  assumes "request_ok q" "im_state im = Start" "im_data im = []"
    and "\<And>c u. c \<in> set (must_agree q) \<Longrightarrow> fst (cb c u) = 0"
    and "library_reads lib (im_parser im) chunks css p" "concat css = request_calls q" "last css \<noteq> []"
  shows "\<exists>im'. parse_chunks lib cb chunks ec (im, u) = (Tribool_of True, None, im', tell cb (request_heard q) u) \<and>
    im_state im' = Complete"
proof -
  obtain cs where cs: "request_calls q = cs @ [On_message_complete (rq_keep_alive q)]"
    "\<forall>ka. On_message_complete ka \<notin> set cs" using request_calls_end by blast
  have "all_agreed cb (concat css) (im, u) = Some (collecting Complete [] im, tell cb (request_heard q) u)"
    unfolding assms(6) by (rule request_agreed [OF assms(1-4)])
  from chunks_parsed [OF assms(5) _ assms(7) _ _ cs(2) this] assms(2,6) cs(1) show ?thesis by fastforce
qed

end
