(* ===== verification/Http_Url.thy ===== *)
theory Http_Url
  imports Http_Types Numeric_Cast
begin

text \<open>
  src/acatl_network/http_url_parser.h and http_url_parser.cpp. The library's \<open>http_parser_parse_url\<close> is a
  parameter: it says whether the text is a URL and writes into its structure which parts are there and
  where they are. The structure belongs to the parser object and is used again for the next URL.
\<close>

datatype url_field = UF_SCHEMA | UF_HOST | UF_PORT | UF_PATH | UF_QUERY | UF_FRAGMENT | UF_USERINFO

text \<open>\<open>field_set\<close> and \<open>field_data\<close>: the offset and length of each part that is set.\<close>

type_synonym http_parser_url = "url_field \<Rightarrow> (nat \<times> nat) option"

record url_library =
  http_parser_url_init :: http_parser_url
  http_parser_parse_url :: "string \<Rightarrow> bool \<Rightarrow> http_parser_url \<Rightarrow> int \<times> http_parser_url"

record HttpUrl =
  hu_schema :: string
  hu_userInfo :: string
  hu_host :: string
  hu_port :: u16
  hu_path :: string
  hu_query :: string
  hu_fragment :: string

definition HttpUrl_new :: HttpUrl where
  "HttpUrl_new =
     \<lparr>hu_schema = [], hu_userInfo = [], hu_host = [], hu_port = 0, hu_path = [], hu_query = [], hu_fragment = []\<rparr>"

definition HttpUrlParser_new :: "url_library \<Rightarrow> http_parser_url" where
  "HttpUrlParser_new lib = http_parser_url_init lib"

text \<open>\<open>std::string s(url.c_str() + off, len)\<close>, if the part is set.\<close>

definition url_part :: "string \<Rightarrow> http_parser_url \<Rightarrow> url_field \<Rightarrow> string option" where
  "url_part url parts f = map_option (\<lambda>(off, len). take len (drop off url)) (parts f)"

definition assign :: "string option \<Rightarrow> string \<Rightarrow> string" where
  "assign part old = (case part of None \<Rightarrow> old | Some s \<Rightarrow> s)"

datatype url_exception = StoulFailed number_error | BadNumericCast

text \<open>\<open>numeric_cast<Port>(std::stoul(s))\<close>\<close>

definition parse_port :: "string \<Rightarrow> url_exception + u16" where
  "parse_port s =
     (case std_stoul s of
        Inl e \<Rightarrow> Inl (StoulFailed e)
      | Inr n \<Rightarrow>
          (case numeric_cast (uint_kind 64) (uint_kind 16) (int n) of
             None \<Rightarrow> Inl BadNumericCast
           | Some p \<Rightarrow> Inr (of_int p)))"

text \<open>The result or exception, the error code and the structure behind the call.\<close>

definition HttpUrlParser_parse ::
    "url_library \<Rightarrow> string \<Rightarrow> http_error option \<Rightarrow> http_parser_url \<Rightarrow>
     (url_exception + HttpUrl) \<times> http_error option \<times> http_parser_url" where
  "HttpUrlParser_parse lib url ec st =
     (case http_parser_parse_url lib url False st of
        (ret, parts) \<Rightarrow>
          (if ret \<noteq> 0 then (Inr HttpUrl_new, Some invalid_url, parts)
           else
             (let part = url_part url parts;
                  h = HttpUrl_new\<lparr>hu_schema := assign (part UF_SCHEMA) (hu_schema HttpUrl_new)\<rparr>;
                  h = h\<lparr>hu_host := assign (part UF_HOST) (hu_host h)\<rparr>
              in (case (case part UF_PORT of None \<Rightarrow> Inr (hu_port h) | Some s \<Rightarrow> parse_port s) of
                    Inl e \<Rightarrow> (Inl e, ec, parts)
                  | Inr port \<Rightarrow>
                      (let h = h\<lparr>hu_port := port\<rparr>;
                           h = h\<lparr>hu_path := assign (part UF_PATH) (hu_path h)\<rparr>;
                           h = h\<lparr>hu_query := assign (part UF_QUERY) (hu_query h)\<rparr>;
                           h = h\<lparr>hu_fragment := assign (part UF_FRAGMENT) (hu_fragment h)\<rparr>;
                           h = h\<lparr>hu_userInfo := assign (part UF_USERINFO) (hu_userInfo h)\<rparr>
                       in (Inr h, ec, parts))))))"

text \<open>
  What the library promises of a URL that it accepts: the parts lie inside the text, and the port is a
  decimal number of 16 bits.
\<close>

definition url_law :: "url_library \<Rightarrow> bool" where
  "url_law lib \<longleftrightarrow> (\<forall>url st parts. http_parser_parse_url lib url False st = (0, parts) \<longrightarrow>
     (\<forall>f off len. parts f = Some (off, len) \<longrightarrow> off + len \<le> length url) \<and>
     (\<forall>s. url_part url parts UF_PORT = Some s \<longrightarrow> s \<noteq> [] \<and> list_all is_digit s \<and> digits_value s < 2 ^ 16))"

definition part_or_empty :: "string option \<Rightarrow> string" where
  "part_or_empty s = (case s of None \<Rightarrow> [] | Some s \<Rightarrow> s)"

lemma stoul_digits:
  assumes "s \<noteq> []" "list_all is_digit s" "digits_value s < 2 ^ 64"
  shows "std_stoul s = Inr (digits_value s)"
proof -
  obtain c cs where s: "s = c # cs" using assms(1) by (cases s) auto
  then have c: "is_digit c" using assms(2) by simp
  have t: "takeWhile is_digit s = s" using assms(2) by (auto simp: takeWhile_eq_all_conv list_all_iff)
  from is_digit_plain [OF c] s have "dropWhile is_space s = s" "hd s \<notin> {CHR ''+'', CHR ''-''}" by auto
  with assms(1,3) show ?thesis by (simp add: std_stoul_def Let_def t)
qed

lemma parse_port_decimal:
  assumes "s \<noteq> []" "list_all is_digit s" "digits_value s < 2 ^ 16"
  shows "parse_port s = Inr (of_nat (digits_value s))"
proof -
  have "std_stoul s = Inr (digits_value s)" by (rule stoul_digits) (use assms in simp_all)
  moreover have "numeric_cast (uint_kind 64) (uint_kind 16) (int (digits_value s)) = Some (int (digits_value s))"
    using numeric_cast_exact [of "uint_kind 64" 64 "uint_kind 16" 16 "int (digits_value s)"] assms(3)
    by (simp add: uint_kind_def in_kind_def)
  ultimately show ?thesis by (simp add: parse_port_def)
qed

lemma url_parsed:
  assumes "url_law lib" "http_parser_parse_url lib url False st = (0, parts)"
  shows "\<exists>h. HttpUrlParser_parse lib url ec st = (Inr h, ec, parts) \<and>
    hu_schema h = part_or_empty (url_part url parts UF_SCHEMA) \<and>
    hu_userInfo h = part_or_empty (url_part url parts UF_USERINFO) \<and>
    hu_host h = part_or_empty (url_part url parts UF_HOST) \<and>
    hu_path h = part_or_empty (url_part url parts UF_PATH) \<and>
    hu_query h = part_or_empty (url_part url parts UF_QUERY) \<and>
    hu_fragment h = part_or_empty (url_part url parts UF_FRAGMENT) \<and>
    (case url_part url parts UF_PORT of None \<Rightarrow> hu_port h = 0 | Some s \<Rightarrow> unat (hu_port h) = digits_value s)"
proof -
  have law: "\<forall>s. url_part url parts UF_PORT = Some s \<longrightarrow>
      s \<noteq> [] \<and> list_all is_digit s \<and> digits_value s < 2 ^ 16"
    using assms(1)[unfolded url_law_def, rule_format, OF assms(2)] by simp
  obtain p where p: "(case url_part url parts UF_PORT of None \<Rightarrow> Inr 0 | Some s \<Rightarrow> parse_port s) = Inr p"
    "case url_part url parts UF_PORT of None \<Rightarrow> p = 0 | Some s \<Rightarrow> unat p = digits_value s"
  proof (cases "url_part url parts UF_PORT")
    case (Some s)
    with law have s: "s \<noteq> []" "list_all is_digit s" "digits_value s < 2 ^ 16" by simp_all
    with parse_port_decimal [OF s] Some that [of "of_nat (digits_value s)"] show ?thesis
      by (simp add: u16_of_nat_unat)
  qed (use that [of 0] in simp)
  obtain h where h: "HttpUrlParser_parse lib url ec st = (Inr h, ec, parts)"
    "h = \<lparr>hu_schema = part_or_empty (url_part url parts UF_SCHEMA),
      hu_userInfo = part_or_empty (url_part url parts UF_USERINFO),
      hu_host = part_or_empty (url_part url parts UF_HOST), hu_port = p,
      hu_path = part_or_empty (url_part url parts UF_PATH),
      hu_query = part_or_empty (url_part url parts UF_QUERY),
      hu_fragment = part_or_empty (url_part url parts UF_FRAGMENT)\<rparr>"
    using assms(2) p(1)
    by (simp add: HttpUrlParser_parse_def Let_def assign_def part_or_empty_def HttpUrl_new_def
        cong: option.case_cong)
  then have hp: "hu_port h = p" by simp
  show ?thesis
  proof (intro exI [of _ h] conjI)
    show "case url_part url parts UF_PORT of None \<Rightarrow> hu_port h = 0 | Some s \<Rightarrow> unat (hu_port h) = digits_value s"
      unfolding hp by (rule p(2))
  qed (use h in simp_all)
qed

end
