(* ===== verification/Http_Server.thy ===== *)
theory Http_Server
  imports Http_Parser Http_Url File_Operations
begin

text \<open>
  The example server: src/examples/http_server/types.h, mime_types.h and connection.h. A connection is the
  user of its parser, so the connection without its parser is the state that the callbacks
  change. The libraries, the system calls, the reading of a file and the order in which an
  unordered map is walked through are parameters. An asynchronous write remembers what the part of the write buffer
  that it sends held when it was started; the buffer may change before it is sent.
\<close>

section \<open>Requests and responses\<close>

record HttpConfig =
  cf_rootPath :: path
  cf_domain :: string

record HttpRequest =
  hr_method :: HttpMethod
  hr_version :: HttpVersion
  hr_url :: string
  hr_header :: "string \<rightharpoonup> string"

record HttpResponse =
  rs_version :: HttpVersion
  rs_status :: HttpStatus
  rs_header :: "(string \<times> string) list"

definition crlf :: string where
  "crlf = [CHR 0x0D, CHR 0x0A]"

definition response_text :: "((string \<times> string) list \<Rightarrow> (string \<times> string) list) \<Rightarrow> HttpResponse \<Rightarrow> string" where
  "response_text walk response =
     HttpVersion_name (rs_version response) @ '' '' @ httpStatusToString (rs_status response) @ crlf @
     concat (map (\<lambda>(name, val). name @ '': '' @ val @ crlf) (walk (rs_header response))) @ crlf"

definition s_mappings :: "(path \<times> string) list" where
  "s_mappings =
    [(''.txt'', ''text/plain''), (''.xhtml'', ''application/xhtml+xml''), (''.css'', ''text/css''),
     (''.htm'', ''text/html''), (''.html'', ''text/html''), (''.js'', ''text/javascript''),
     (''.gif'', ''image/gif''), (''.jpg'', ''image/jpeg''), (''.png'', ''image/png'')]"

text \<open>Paths are equal if their C strings are, as \<open>strcoll\<close> compares them in the C locale.\<close>

definition path_equal :: "path \<Rightarrow> path \<Rightarrow> bool" where
  "path_equal p q \<longleftrightarrow> c_str p = c_str q"

definition extension_to_type :: "path \<Rightarrow> string" where
  "extension_to_type ext =
     (case find (\<lambda>m. path_equal (fst m) ext) s_mappings of
        Some m \<Rightarrow> snd m
      | None \<Rightarrow> snd (s_mappings ! 0))"


section \<open>Files\<close>

type_synonym 'w file_reader = "path \<Rightarrow> 'w \<Rightarrow> string option"

text \<open>\<open>load_file\<close> of acatl/string_helper.cpp: a stream that cannot be opened gives no text.\<close>

definition load_file_ec :: "'w file_reader \<Rightarrow> path \<Rightarrow> ('w, string) action" where
  "load_file_ec reader filepath =
     and_then (looks (reader filepath)) (\<lambda>r. case r of
       None \<Rightarrow> and_then (set_ec (Generic no_such_file_or_directory)) (\<lambda>_. ret [])
     | Some s \<Rightarrow> ret s)"

text \<open>The status, the text and the type of what a path of a URL names.\<close>

definition serve :: "'w os \<Rightarrow> 'w file_reader \<Rightarrow> HttpConfig \<Rightarrow> path \<Rightarrow> ('w, HttpStatus \<times> string \<times> string option) action" where
  "serve os reader config p =
     and_then (canonical_base_ec os (relative_path p) (cf_rootPath config)) (\<lambda>filePath.
     and_then get_ec (\<lambda>ec.
     and_then (if ec \<noteq> Cleared then ret False else exists_ec os filePath) (\<lambda>there.
       if \<not> there then ret (NOT_FOUND, ''File not found!'', None)
       else
         and_then (load_file_ec reader filePath) (\<lambda>content.
         and_then get_ec (\<lambda>ec.
           if ec \<noteq> Cleared then ret (NOT_FOUND, ''File not found!'', None)
           else ret (OK, content, Some (extension_to_type (extension filePath))))))))"


section \<open>Connections\<close>

record 'w HttpConnection =
  hc_request :: HttpRequest
  hc_iter :: "string option"
  hc_writeBuf :: string
  hc_writes :: "string list"
  hc_world :: 'w
  hc_ended :: "abrupt option"

record 'w environment =
  ev_url_library :: url_library
  ev_os :: "'w os"
  ev_reader :: "'w file_reader"
  ev_walk :: "(string \<times> string) list \<Rightarrow> (string \<times> string) list"
  ev_config :: HttpConfig

definition bufSize :: nat where "bufSize = 1024"

definition HttpConnection_new :: "HttpMethod \<Rightarrow> HttpVersion \<Rightarrow> 'w \<Rightarrow> 'w HttpConnection" where
  "HttpConnection_new some_method some_version w =
     \<lparr>hc_request = \<lparr>hr_method = some_method, hr_version = some_version, hr_url = [], hr_header = Map.empty\<rparr>,
      hc_iter = None, hc_writeBuf = replicate bufSize (CHR 0x00), hc_writes = [], hc_world = w, hc_ended = None\<rparr>"

definition do_write :: "nat \<Rightarrow> 'w HttpConnection \<Rightarrow> 'w HttpConnection" where
  "do_write len c = (if 0 < len then c\<lparr>hc_writes := hc_writes c @ [take len (hc_writeBuf c)]\<rparr> else c)"

text \<open>\<open>resize\<close> if the buffer is too small, and \<open>memcpy\<close> to its beginning.\<close>

definition copy_in :: "string \<Rightarrow> string \<Rightarrow> string" where
  "copy_in r buf = r @ drop (length r) buf"

definition send_text :: "string \<Rightarrow> 'w HttpConnection \<Rightarrow> 'w HttpConnection" where
  "send_text r c = do_write (length r) (c\<lparr>hc_writeBuf := copy_in r (hc_writeBuf c)\<rparr>)"

definition sendResponseHeader :: "'w environment \<Rightarrow> HttpResponse \<Rightarrow> 'w HttpConnection \<Rightarrow> 'w HttpConnection" where
  "sendResponseHeader ev response c = send_text (response_text (ev_walk ev) response) c"

definition connection_header :: "bool \<Rightarrow> (string \<times> string) list" where
  "connection_header closeConnection =
     (if \<not> closeConnection then [(''Connection'', ''keep-alive'')] else [(''Connection'', ''close'')])"

text \<open>
  What \<open>onMessageComplete\<close> finds out before it sends: the status, the text and the type. A URL that the
  library refuses is answered without a text; an exception would have to pass through the C library.
\<close>

definition answer :: "'w environment \<Rightarrow> string \<Rightarrow> ('w, HttpStatus \<times> string \<times> string option) action" where
  "answer ev url =
     (case HttpUrlParser_parse (ev_url_library ev) url None (HttpUrlParser_new (ev_url_library ev)) of
        (Inl e, _) \<Rightarrow> ends Undefined
      | (Inr u, Some e, _) \<Rightarrow> ret (BAD_REQUEST, [], None)
      | (Inr u, None, _) \<Rightarrow> serve (ev_os ev) (ev_reader ev) (ev_config ev) (hu_path u))"

definition response_to :: "HttpVersion \<Rightarrow> bool \<Rightarrow> HttpStatus \<times> string \<times> string option \<Rightarrow> HttpResponse" where
  "response_to version closeConnection = (\<lambda>(status, r, type).
     \<lparr>rs_version = version, rs_status = status,
      rs_header = connection_header closeConnection @
        (case type of None \<Rightarrow> [] | Some t \<Rightarrow> [(''Content-Type'', t)]) @
        [(''Content-Length'', to_string (length r))]\<rparr>)"

definition HttpConnection_onMessageComplete :: "'w environment \<Rightarrow> bool \<Rightarrow> 'w HttpConnection \<Rightarrow> int \<times> 'w HttpConnection" where
  "HttpConnection_onMessageComplete ev closeConnection c =
     (case answer ev (hr_url (hc_request c)) (Cleared, hc_world c) of
        (Abrupt a, _, w) \<Rightarrow> (0, c\<lparr>hc_world := w, hc_ended := Some a\<rparr>)
      | (Value (status, r, type), _, w) \<Rightarrow>
          (0, send_text r
                (sendResponseHeader ev
                  (response_to (hr_version (hc_request c)) closeConnection (status, r, type)) (c\<lparr>hc_world := w\<rparr>))))"

definition change_request :: "(HttpRequest \<Rightarrow> HttpRequest) \<Rightarrow> 'w HttpConnection \<Rightarrow> 'w HttpConnection" where
  "change_request f c = c\<lparr>hc_request := f (hc_request c)\<rparr>"

text \<open>\<open>emplace\<close> keeps the value of a name that is there already; the iterator then points to it.\<close>

definition emplace_header :: "string \<Rightarrow> (string \<rightharpoonup> string) \<Rightarrow> string \<rightharpoonup> string" where
  "emplace_header name m = (if m name = None then m(name \<mapsto> []) else m)"

fun connection_callbacks :: "'w environment \<Rightarrow> 'w HttpConnection callbacks" where
  "connection_callbacks ev (OnMessageBegin m) c =
     (if m \<noteq> Get \<and> m \<noteq> Post then (1, c) else (0, change_request (\<lambda>r. r\<lparr>hr_method := m\<rparr>) c))"
| "connection_callbacks ev (OnStatus s t) c = (0, c)"
| "connection_callbacks ev (OnUrl url) c = (0, change_request (\<lambda>r. r\<lparr>hr_url := url\<rparr>) c)"
| "connection_callbacks ev (OnHeaderField name) c =
     (0, change_request (\<lambda>r. r\<lparr>hr_header := emplace_header name (hr_header r)\<rparr>) (c\<lparr>hc_iter := Some name\<rparr>))"
| "connection_callbacks ev (OnHeaderValue val) c =
     (case hc_iter c of
        None \<Rightarrow> (0, c\<lparr>hc_ended := Some Undefined\<rparr>)
      | Some name \<Rightarrow> (0, change_request (\<lambda>r. r\<lparr>hr_header := (hr_header r)(name \<mapsto> val)\<rparr>) c))"
| "connection_callbacks ev (OnHeaderComplete v) c = (0, change_request (\<lambda>r. r\<lparr>hr_version := v\<rparr>) c)"
| "connection_callbacks ev (OnBody b) c = (0, c)"
| "connection_callbacks ev (OnMessageComplete close) c = HttpConnection_onMessageComplete ev close c"

text \<open>What a connection does with a block that it read: it stops, reads on or waits for its writes.\<close>

datatype reading = Stop_reading | Read_on | Await_writes

definition HttpConnection_handle_read ::
    "'p http_library \<Rightarrow> 'w environment \<Rightarrow> string \<Rightarrow> nat \<Rightarrow> 'p HttpParser \<times> 'w HttpConnection \<Rightarrow>
     reading \<times> 'p HttpParser \<times> 'w HttpConnection" where
  "HttpConnection_handle_read lib ev readBuf len s =
     (case HttpParser_parse lib (connection_callbacks ev) readBuf len None s of
        (r, ec, im, c) \<Rightarrow>
          (if isFalse r then (Stop_reading, im, c)
           else if isIndeterminate r then (Read_on, im, c)
           else (Await_writes, HttpParser_reset im, c)))"

text \<open>The bytes that a write sends if it gets to it when the buffer is as it is now.\<close>

definition bytes_sent :: "nat \<Rightarrow> 'w HttpConnection \<Rightarrow> string" where
  "bytes_sent len c = take len (hc_writeBuf c)"


section \<open>A request and its response\<close>

lemma connection_agrees:
  "(\<forall>m. c = OnMessageBegin m \<longrightarrow> m \<in> {Get, Post}) \<Longrightarrow> fst (connection_callbacks ev c u) = 0"
  by (cases c) (auto simp: HttpConnection_onMessageComplete_def split: option.splits prod.splits outcome.splits)

definition header_map :: "(pieces \<times> pieces) list \<Rightarrow> (string \<rightharpoonup> string) \<Rightarrow> string \<rightharpoonup> string" where
  "header_map hs m = fold (\<lambda>h m. m(concat (fst h) \<mapsto> concat (snd h))) hs m"

lemma tell_header:
  "tell (connection_callbacks ev) (header_heard h) c =
     change_request (\<lambda>r. r\<lparr>hr_header := (hr_header r)(concat (fst h) \<mapsto> concat (snd h))\<rparr>)
       (c\<lparr>hc_iter := Some (concat (fst h))\<rparr>)"
  by (simp add: header_heard_def change_request_def emplace_header_def)

lemma change_request_simps [simp]:
  "hc_request (change_request f c) = f (hc_request c)" "hc_writes (change_request f c) = hc_writes c"
  "hc_writeBuf (change_request f c) = hc_writeBuf c" "hc_world (change_request f c) = hc_world c"
  "hc_ended (change_request f c) = hc_ended c"
  by (simp_all add: change_request_def)

text \<open>Of a connection, all but the iterator.\<close>

lemma tell_headers:
  "\<exists>i. tell (connection_callbacks ev) (concat (map header_heard hs)) c =
     c\<lparr>hc_request := (hc_request c)\<lparr>hr_header := header_map hs (hr_header (hc_request c))\<rparr>, hc_iter := i\<rparr>"
proof (induction hs arbitrary: c)
  case Nil
  show ?case by (rule exI [of _ "hc_iter c"]) (simp add: header_map_def)
next
  case (Cons h hs)
  let ?c = "tell (connection_callbacks ev) (header_heard h) c"
  from Cons.IH [of ?c] obtain i where
    "tell (connection_callbacks ev) (concat (map header_heard hs)) ?c =
       ?c\<lparr>hc_request := (hc_request ?c)\<lparr>hr_header := header_map hs (hr_header (hc_request ?c))\<rparr>, hc_iter := i\<rparr>" by blast
  then show ?case by (intro exI [of _ i]) (simp add: tell_header change_request_def header_map_def)
qed

lemma tell_body: "tell (connection_callbacks ev) (map OnBody bs) c = c"
  by (induction bs) simp_all

definition heard_request :: "request \<Rightarrow> HttpRequest \<Rightarrow> HttpRequest" where
  "heard_request q old =
     old\<lparr>hr_method := begun_as q, hr_url := concat (rq_url q),
         hr_header := header_map (rq_headers q) (hr_header old), hr_version := rq_version q\<rparr>"

lemma tell_request:
  assumes "begun_as q \<in> {Get, Post}"
  shows "\<exists>i. tell (connection_callbacks ev) (request_heard q) c =
    snd (HttpConnection_onMessageComplete ev (\<not> rq_keep_alive q)
      (c\<lparr>hc_iter := i, hc_request := heard_request q (hc_request c)\<rparr>))"
proof -
  let ?c = "change_request (\<lambda>r. r\<lparr>hr_method := begun_as q, hr_url := concat (rq_url q)\<rparr>) c"
  obtain i where i: "tell (connection_callbacks ev) (concat (map header_heard (rq_headers q))) ?c =
      ?c\<lparr>hc_request := (hc_request ?c)\<lparr>hr_header := header_map (rq_headers q) (hr_header (hc_request ?c))\<rparr>, hc_iter := i\<rparr>"
    using tell_headers by blast
  have "tell (connection_callbacks ev) (request_heard q) c =
      snd (HttpConnection_onMessageComplete ev (\<not> rq_keep_alive q)
        (change_request (\<lambda>r. r\<lparr>hr_version := rq_version q\<rparr>)
          (tell (connection_callbacks ev) (concat (map header_heard (rq_headers q))) ?c)))"
    using assms by (auto simp: request_heard_def tell_body change_request_def)
  also have "\<dots> = snd (HttpConnection_onMessageComplete ev (\<not> rq_keep_alive q)
      (c\<lparr>hc_iter := i, hc_request := heard_request q (hc_request c)\<rparr>))"
    unfolding i by (simp add: change_request_def heard_request_def)
  finally show ?thesis by blast
qed

text \<open>The whole exchange: any cutting of the request into blocks leads to the same response.\<close>

lemma exchange:
  assumes "request_ok q" "begun_as q \<in> {Get, Post}" "im_state im = Start" "im_data im = []"
    and "library_reads lib (im_parser im) chunks css p" "concat css = request_calls q" "last css \<noteq> []"
  shows "\<exists>im' i. parse_chunks lib (connection_callbacks ev) chunks ec (im, c) =
      (Tribool_of True, None, im',
       snd (HttpConnection_onMessageComplete ev (\<not> rq_keep_alive q)
         (c\<lparr>hc_iter := i, hc_request := heard_request q (hc_request c)\<rparr>))) \<and> im_state im' = Complete"
proof -
  let ?L = "OnUrl (concat (rq_url q)) # concat (map header_heard (rq_headers q))"
  have "last ?L \<in> set ?L" by (rule last_in_set) simp
  moreover have "OnMessageBegin m \<notin> set ?L" for m by (auto simp: header_heard_def)
  ultimately have "OnMessageBegin m \<noteq> last ?L" for m by metis
  then have "fst (connection_callbacks ev d u) = 0" if "d \<in> set (must_agree q)" for d u
    by (intro connection_agrees) (use that assms(2) in \<open>auto simp: must_agree_def simp del: last.simps\<close>)
  from request_parsed [where cb = "connection_callbacks ev" and ec = ec and u = c, OF assms(1,3,4) this assms(5-7)] obtain im' where
    "parse_chunks lib (connection_callbacks ev) chunks ec (im, c) =
      (Tribool_of True, None, im', tell (connection_callbacks ev) (request_heard q) c)" "im_state im' = Complete"
    by blast
  moreover from tell_request [OF assms(2), of ev c] obtain i where
    "tell (connection_callbacks ev) (request_heard q) c =
      snd (HttpConnection_onMessageComplete ev (\<not> rq_keep_alive q)
        (c\<lparr>hc_iter := i, hc_request := heard_request q (hc_request c)\<rparr>))" by blast
  ultimately show ?thesis by (intro exI [of _ im'] exI [of _ i]) (simp only: simp_thms)
qed

lemma send_text_simps:
  "hc_writes (send_text r c) = hc_writes c @ (if r = [] then [] else [r])"
  "hc_writeBuf (send_text r c) = copy_in r (hc_writeBuf c)"
  by (simp_all add: send_text_def do_write_def copy_in_def)

lemma response_sent:
  assumes "answer ev (hr_url (hc_request c)) (Cleared, hc_world c) = (Value (status, r, type), ec, w)"
  shows "\<exists>c'. HttpConnection_onMessageComplete ev close c = (0, c') \<and>
    hc_writes c' = hc_writes c @
      [response_text (ev_walk ev) (response_to (hr_version (hc_request c)) close (status, r, type))] @
      (if r = [] then [] else [r]) \<and>
    take (length r) (hc_writeBuf c') = r \<and> hc_request c' = hc_request c \<and> hc_world c' = w"
proof -
  have "response_text f x \<noteq> []" for f x by (simp add: response_text_def crlf_def)
  then show ?thesis using assms
    by (simp add: HttpConnection_onMessageComplete_def sendResponseHeader_def send_text_simps copy_in_def)
       (simp add: send_text_def do_write_def)
qed


section \<open>What is served\<close>

lemma current_path_run:
  assumes "sc_getcwd os w = Inr cwd" "slashes cwd = 1" "CHR 0x00 \<notin> set cwd"
  shows "current_path os (ec, w) = (Value cwd, ec, w)"
proof -
  have "cwd \<noteq> []" "cwd ! 0 = CHR ''/''" using assms(2) slashes_pos [of cwd] by (auto simp: hd_conv_nth)
  then have "char_at cwd 0 = CHR ''/''" by (simp add: char_at_def)
  then have "current_path_ec os (Cleared, w) = (Value cwd, Cleared, w)"
    using assms by (simp add: current_path_ec_def and_then_def run_simps)
  then show ?thesis
    by (simp add: current_path_def throwing_def and_then_def run_local_ec ret_def)
qed

lemma upwards_relative:
  assumes "plain_name n"
  shows "relative_path (''/../'' @ n) = ''../'' @ n" "slashes (''../'' @ n) = 0"
  using assms by (auto simp: relative_path_def skip_sep_slashes slashes_def from_cstr_def Let_def plain_name_def
      takeWhile_eq_all_conv)

lemma absolute_below:
  assumes "slashes root = 1" "slashes cwd = 1" "slashes rel = 0"
  shows "absolute cwd rel root = Some (path_append root rel)"
proof -
  have "has_root_directory root" "\<not> has_root_name cwd" "\<not> has_root_name root"
    "\<not> has_root_directory rel" "\<not> has_root_name rel"
    using assms by (simp_all add: has_root_directory_other has_root_name_iff)
  then show ?thesis by (simp add: absolute.simps [of cwd rel] absolute.simps [of cwd root])
qed

lemma serve_upwards:
  assumes "slashes root = 1" "CHR 0x00 \<notin> set root" "last root \<noteq> CHR ''/''" "plain_name n" "cf_rootPath config = root"
    and "sc_getcwd os w = Inr cwd" "slashes cwd = 1" "CHR 0x00 \<notin> set cwd"
    and "sc_realpath os (root @ ''/../'' @ n) w = Inr f" "CHR 0x00 \<notin> set f" "sc_stat os f w = Inr st"
    and "reader f w = Some content" "file_type_of_mode (st_mode st) = FT_regular"
  shows "serve os reader config (''/../'' @ n) (Cleared, w) =
    (Value (OK, content, Some (extension_to_type (extension f))), Cleared, w)"
proof -
  note rel = upwards_relative [OF assms(4)]
  have r: "root \<noteq> []" using assms(1) by (auto simp: slashes_def)
  have "\<not> has_root_directory (''../'' @ n)" using rel(2) has_root_directory_other by simp
  moreover have "path_append root (''../'' @ n) = root @ ''/../'' @ n"
    using r assms(3) by (simp add: path_append_def char_at_def)
  moreover have "c_str (root @ ''/../'' @ n) = root @ ''/../'' @ n"
    using assms(2,4) by (intro c_str_plain) (auto simp: plain_name_def)
  ultimately have "canonical_base_ec os (''../'' @ n) root (Cleared, w) = (Value f, Cleared, w)"
    using absolute_below [OF assms(1,7) rel(2)] current_path_run [OF assms(6-8), of Cleared] assms(9,10)
    by (simp add: canonical_base_ec_def absolute_action_def and_then_def run_simps)
  moreover have "exists_ec os f (Cleared, w) = (Value True, Cleared, w)"
    using assms(10,11,13) by (simp add: exists_ec_run Let_def)
  ultimately show ?thesis
    using assms(5,12) rel(1) by (simp add: serve_def load_file_ec_def and_then_def run_simps)
qed

end
