(* ===== verification/Network_Theorems.thy ===== *)
theory Network_Theorems
  imports Http_Server Sample_Systems
begin

text \<open>
  The properties of the HTTP parser, the URL parser and the example server. First a library whose runs are
  given by a script, a library that takes every text for the path of a URL, and a world with one file.
\<close>

section \<open>Sample libraries\<close>

primrec script_run :: "parser_call list \<Rightarrow> nat \<Rightarrow> 'p \<Rightarrow> 'p run" where
  "script_run [] n p = Finished n p"
| "script_run (c # cs) n p = Calls c (\<lambda>r. if r = 0 then script_run cs n p else Finished 0 p)"

definition script_library :: "parser_call list list \<Rightarrow> parser_call list list http_library" where
  "script_library script =
     \<lparr>http_parser_init = (\<lambda>t. script), http_parser_execute = (\<lambda>p b. script_run (hd p) (length b) (tl p)),
      HTTP_PARSER_ERRNO = (\<lambda>p. 31)\<rparr>"

lemma script_follows: "follows (script_run cs n p) cs n p"
  by (induction cs) auto

lemma script_reads:
  "length bs = length css \<Longrightarrow> library_reads (script_library css0) (css @ p) bs css p"
proof (induction bs arbitrary: css)
  case (Cons b bs)
  then obtain cs css' where "css = cs # css'" by (cases css) auto
  with Cons script_follows show ?case by (auto simp: script_library_def intro!: exI)
qed simp

definition path_library :: url_library where
  "path_library =
     \<lparr>http_parser_url_init = Map.empty,
      http_parser_parse_url = (\<lambda>url connect parts. (0, [UF_PATH \<mapsto> (0, length url)]))\<rparr>"

lemma path_library_law: "url_law path_library"
  by (simp add: url_law_def path_library_def url_part_def)

definition sample_request :: request where
  "sample_request =
     \<lparr>rq_begin = HTTP_GET, rq_url = [''/../'', ''key''], rq_headers = [([''Ho'', ''st''], [''a'', ''cme''])],
      rq_version = HTTP_1_1, rq_body = [], rq_keep_alive = True\<rparr>"

lemma sample_request_ok: "request_ok sample_request"
  by (simp add: request_ok_def sample_request_def)

text \<open>The calls for the sample, split in the middle of the host name.\<close>

definition sample_script :: "parser_call list list" where
  "sample_script = [take 5 (request_calls sample_request), drop 5 (request_calls sample_request)]"

lemma sample_script_facts: "concat sample_script = request_calls sample_request" "last sample_script \<noteq> []"
  by (simp_all add: sample_script_def request_calls_def sample_request_def header_calls_def)

definition key_os :: "unit os" where
  "key_os = inert_os
     \<lparr>sc_getcwd := (\<lambda>w. Inr ''/''),
      sc_realpath := (\<lambda>p w. if p = ''/srv/../key'' then Inr ''/key'' else Inl ENOENT),
      sc_stat := (\<lambda>p w. if p = ''/key'' then Inr (stat_of_mode 0x8000) else Inl ENOENT)\<rparr>"

definition key_reader :: "unit file_reader" where
  "key_reader = (\<lambda>p w. if p = ''/key'' then Some ''secret'' else None)"

definition key_config :: HttpConfig where
  "key_config = \<lparr>cf_rootPath = ''/srv'', cf_domain = ''acme''\<rparr>"

definition key_environment :: "unit environment" where
  "key_environment =
     \<lparr>ev_url_library = path_library, ev_os = key_os, ev_reader = key_reader, ev_walk = (\<lambda>h. h),
      ev_config = key_config\<rparr>"


lemma key_served:
  "serve key_os key_reader key_config ''/../key'' (Cleared, ()) =
     (Value (OK, ''secret'', Some (extension_to_type (extension ''/key''))), Cleared, ())"
proof -
  have "serve key_os key_reader key_config (''/../'' @ ''key'') (Cleared, ()) =
     (Value (OK, ''secret'', Some (extension_to_type (extension ''/key''))), Cleared, ())"
    by (rule serve_upwards [where root = "''/srv''" and cwd = "''/''" and st = "stat_of_mode 0x8000"])
      (simp_all add: slashes_def plain_name_def key_config_def key_os_def key_reader_def stat_of_mode_def
        file_type_of_mode_def S_IFMT_def)
  then show ?thesis by simp
qed

lemma key_answer:
  "answer key_environment ''/../key'' (Cleared, ()) =
     (Value (OK, ''secret'', Some (extension_to_type (extension ''/key''))), Cleared, ())"
proof -
  have "http_parser_parse_url path_library ''/../key'' False Map.empty = (0, [UF_PATH \<mapsto> (0, length ''/../key'')])"
    by (simp add: path_library_def)
  from url_parsed [OF path_library_law this, of None] obtain h where
    "HttpUrlParser_parse path_library ''/../key'' None Map.empty = (Inr h, None, [UF_PATH \<mapsto> (0, length ''/../key'')])"
    "hu_path h = ''/../key''" by (auto simp: part_or_empty_def url_part_def)
  moreover have "HttpUrlParser_new path_library = Map.empty" by (simp add: HttpUrlParser_new_def path_library_def)
  ultimately show ?thesis using key_served by (simp add: answer_def key_environment_def)
qed


section \<open>The HTTP parser\<close>

text \<open>
  C10. However a request is cut into blocks and its elements into pieces: if the library reads all blocks
  and makes the calls of the request, \<open>parse\<close> asks for more until the last block, answers true there, and
  the user has heard, in this order, the method that the library showed when the message began, which need not be that
  of the request, the whole URL, every whole header name with its whole value, the version, the body piece by piece as the
  library delivers it, and the end. It does not matter what the user answers to the URL
  and to the values when another header follows, or to the end of the headers: these answers are lost.
\<close>

theorem request_heard_whole:
  assumes "request_ok q" "im_state im = Start" "im_data im = []"
    and "\<And>c u. c \<in> set (must_agree q) \<Longrightarrow> fst (cb c u) = 0"
    and "library_reads lib (im_parser im) chunks css p" "concat css = request_calls q" "last css \<noteq> []"
  shows "\<exists>im' m. parse_chunks lib cb chunks ec (im, u) = (Tribool_of True, None, im',
      tell cb ([OnMessageBegin m, OnUrl (concat (rq_url q))] @
        concat (map (\<lambda>(names, vals). [OnHeaderField (concat names), OnHeaderValue (concat vals)]) (rq_headers q)) @
        [OnHeaderComplete (rq_version q)] @ map OnBody (rq_body q) @ [OnMessageComplete (\<not> rq_keep_alive q)]) u) \<and>
    method_of (rq_begin q) = Some m \<and> im_state im' = Complete"
proof -
  have "header_heard = (\<lambda>(names, vals). [OnHeaderField (concat names), OnHeaderValue (concat vals)])"
    by (auto simp: header_heard_def)
  moreover have "method_of (rq_begin q) = Some (begun_as q)" using assms(1) by (auto simp: request_ok_def begun_as_def)
  ultimately show ?thesis using request_parsed [OF assms] by (simp add: request_heard_def)
qed

definition log_all_refuse_url :: "user_call list callbacks" where
  "log_all_refuse_url c u = (case c of OnUrl s \<Rightarrow> (1, u @ [c]) | _ \<Rightarrow> (0, u @ [c]))"

theorem request_heard_whole_witness:
  "\<exists>im'. parse_chunks (script_library sample_script) log_all_refuse_url [''GET'', ''HTTP''] None
      (HttpRequestParser_new (script_library sample_script), []) =
    (Tribool_of True, None, im',
     [OnMessageBegin Get, OnUrl ''/../key'', OnHeaderField ''Host'', OnHeaderValue ''acme'', OnHeaderComplete HTTP_1_1,
      OnMessageComplete False])"
proof -
  let ?im = "HttpRequestParser_new (script_library sample_script)"
  have im: "im_state ?im = Start" "im_data ?im = []" "im_parser ?im = sample_script @ []"
    by (simp_all add: HttpRequestParser_new_def HttpParser_new_def script_library_def)
  have a: "fst (log_all_refuse_url c u) = 0" if "c \<in> set (must_agree sample_request)" for c u
    using that by (auto simp: must_agree_def sample_request_def header_heard_def log_all_refuse_url_def begun_as_def)
  have r: "library_reads (script_library sample_script) (im_parser ?im) [''GET'', ''HTTP''] sample_script []"
    unfolding im(3) by (rule script_reads) (simp add: sample_script_def)
  from request_heard_whole [where cb = log_all_refuse_url and ec = None and u = "[]",
      OF sample_request_ok im(1,2) a r sample_script_facts]
  show ?thesis by (auto simp add: sample_request_def log_all_refuse_url_def simp del: parse_chunks.simps)
qed


section \<open>The URL parser\<close>

text \<open>
  For a URL that the library accepts, \<open>parse\<close> returns the parts that the library found, an empty text
  for each that is missing, and the number of the port or 0, and neither throws nor touches the error code.
\<close>

theorem url_taken_apart:
  assumes "url_law lib" "http_parser_parse_url lib url False st = (0, parts)"
  shows "\<exists>h. HttpUrlParser_parse lib url ec st = (Inr h, ec, parts) \<and>
    hu_schema h = part_or_empty (url_part url parts UF_SCHEMA) \<and>
    hu_userInfo h = part_or_empty (url_part url parts UF_USERINFO) \<and>
    hu_host h = part_or_empty (url_part url parts UF_HOST) \<and>
    hu_path h = part_or_empty (url_part url parts UF_PATH) \<and>
    hu_query h = part_or_empty (url_part url parts UF_QUERY) \<and>
    hu_fragment h = part_or_empty (url_part url parts UF_FRAGMENT) \<and>
    (case url_part url parts UF_PORT of None \<Rightarrow> hu_port h = 0 | Some s \<Rightarrow> unat (hu_port h) = digits_value s)"
  by (rule url_parsed [OF assms])

theorem url_taken_apart_witness:
  "\<exists>h. HttpUrlParser_parse path_library ''/index.html'' None Map.empty =
     (Inr h, None, [UF_PATH \<mapsto> (0, length ''/index.html'')]) \<and> hu_path h = ''/index.html''"
proof -
  have "http_parser_parse_url path_library ''/index.html'' False Map.empty = (0, [UF_PATH \<mapsto> (0, length ''/index.html'')])"
    by (simp add: path_library_def)
  from url_taken_apart [OF path_library_law this, of None] show ?thesis
    by (auto simp: part_or_empty_def url_part_def)
qed


section \<open>The example server\<close>

text \<open>
  C25. A request that begins as GET or POST, cut into blocks and pieces in any way, leaves the connection with the
  request that it read, and starts two writes. The first is started with the header of the response: the version of the
  request, the status with its text, and the fields for the connection, the type if a file was found,
  and the length of the text, in the order of the map. The second is started with the text, unless it is empty. Status, type and
  text are those of the answer to the URL. Both writes have the same buffer, which then begins with the text:
  the first sends the header only if it gets to the buffer before the text is copied there.
\<close>

theorem request_answered:
  assumes "request_ok q" "method_of (rq_begin q) = Some m" "m \<in> {Get, Post}" "im_state im = Start" "im_data im = []"
    and "library_reads lib (im_parser im) chunks css p" "concat css = request_calls q" "last css \<noteq> []"
    and "answer ev (concat (rq_url q)) (Cleared, hc_world c) = (Value (status, r, type), ec', w)"
  shows "\<exists>im' c'. parse_chunks lib (connection_callbacks ev) chunks ec (im, c) = (Tribool_of True, None, im', c') \<and>
    hr_method (hc_request c') = m \<and> hr_url (hc_request c') = concat (rq_url q) \<and>
    hr_version (hc_request c') = rq_version q \<and> hc_world c' = w \<and>
    hc_writes c' = hc_writes c @
      [HttpVersion_name (rq_version q) @ '' '' @ httpStatusToString status @ [CHR 0x0D, CHR 0x0A] @
       concat (map (\<lambda>(name, val). name @ '': '' @ val @ [CHR 0x0D, CHR 0x0A])
         (ev_walk ev ([(''Connection'', if rq_keep_alive q then ''keep-alive'' else ''close'')] @
           (case type of None \<Rightarrow> [] | Some t \<Rightarrow> [(''Content-Type'', t)]) @
           [(''Content-Length'', to_string (length r))]))) @ [CHR 0x0D, CHR 0x0A]] @
      (if r = [] then [] else [r]) \<and>
    take (length r) (hc_writeBuf c') = r"
proof -
  have b: "begun_as q = m" using assms(2) by (simp add: begun_as_def)
  from exchange [OF assms(1) _ assms(4-8), of ev ec c] assms(3) b obtain im' i where e:
    "parse_chunks lib (connection_callbacks ev) chunks ec (im, c) =
      (Tribool_of True, None, im', snd (HttpConnection_onMessageComplete ev (\<not> rq_keep_alive q)
         (c\<lparr>hc_iter := i, hc_request := heard_request q (hc_request c)\<rparr>)))" by blast
  let ?c = "c\<lparr>hc_iter := i, hc_request := heard_request q (hc_request c)\<rparr>"
  have "answer ev (hr_url (hc_request ?c)) (Cleared, hc_world ?c) = (Value (status, r, type), ec', w)"
    "hr_version (hc_request ?c) = rq_version q" using assms(9) by (simp_all add: heard_request_def)
  from response_sent [OF this(1), of "\<not> rq_keep_alive q"] this(2) obtain c' where c':
    "HttpConnection_onMessageComplete ev (\<not> rq_keep_alive q) ?c = (0, c')"
    "hc_writes c' = hc_writes c @
      [response_text (ev_walk ev) (response_to (rq_version q) (\<not> rq_keep_alive q) (status, r, type))] @
      (if r = [] then [] else [r])"
    "take (length r) (hc_writeBuf c') = r" "hc_request c' = heard_request q (hc_request c)" "hc_world c' = w" by auto
  have h: "response_text (ev_walk ev) (response_to (rq_version q) (\<not> rq_keep_alive q) (status, r, type)) =
      HttpVersion_name (rq_version q) @ '' '' @ httpStatusToString status @ [CHR 0x0D, CHR 0x0A] @
       concat (map (\<lambda>(name, val). name @ '': '' @ val @ [CHR 0x0D, CHR 0x0A])
         (ev_walk ev ([(''Connection'', if rq_keep_alive q then ''keep-alive'' else ''close'')] @
           (case type of None \<Rightarrow> [] | Some t \<Rightarrow> [(''Content-Type'', t)]) @
           [(''Content-Length'', to_string (length r))]))) @ [CHR 0x0D, CHR 0x0A]"
    by (cases "rq_keep_alive q") (simp_all add: response_text_def response_to_def connection_header_def crlf_def)
  show ?thesis unfolding e c'(1) snd_conv c'(2)[unfolded h] using c'(2-5) b
    by (intro exI [of _ im'] exI [of _ c']) (simp add: heard_request_def h)
qed

theorem request_answered_witness:
  "\<exists>im' c'. parse_chunks (script_library sample_script) (connection_callbacks key_environment) [''GET'', ''HTTP''] None
      (HttpRequestParser_new (script_library sample_script), HttpConnection_new Put HTTP_1_0 ()) =
      (Tribool_of True, None, im', c') \<and>
    hr_url (hc_request c') = ''/../key'' \<and>
    hc_writes c' = [''HTTP/1.1 200 OK'' @ crlf @ ''Connection: keep-alive'' @ crlf @ ''Content-Type: text/plain'' @ crlf @
      ''Content-Length: 6'' @ crlf @ crlf, ''secret'']"
proof -
  let ?im = "HttpRequestParser_new (script_library sample_script)" and ?c = "HttpConnection_new Put HTTP_1_0 ()"
  have im: "im_state ?im = Start" "im_data ?im = []" "im_parser ?im = sample_script @ []"
    by (simp_all add: HttpRequestParser_new_def HttpParser_new_def script_library_def)
  have r: "library_reads (script_library sample_script) (im_parser ?im) [''GET'', ''HTTP''] sample_script []"
    unfolding im(3) by (rule script_reads) (simp add: sample_script_def)
  have m: "method_of (rq_begin sample_request) = Some Get" "concat (rq_url sample_request) = ''/../key''"
    by (simp_all add: sample_request_def)
  have a: "answer key_environment (concat (rq_url sample_request)) (Cleared, hc_world ?c) =
      (Value (OK, ''secret'', Some (extension_to_type (extension ''/key''))), Cleared, ())"
    unfolding m(2) using key_answer by (simp add: HttpConnection_new_def)
  have "hc_writes ?c = []" by (simp add: HttpConnection_new_def)
  moreover have "HttpVersion_name HTTP_1_1 = ''HTTP/1.1''" "httpStatusToString OK = ''200 OK''"
    "to_string (Suc (Suc (Suc (Suc (Suc (Suc 0)))))) = ''6''"
    "extension_to_type (extension ''/key'') = ''text/plain''" by code_simp+
  moreover have "rq_version sample_request = HTTP_1_1" "rq_keep_alive sample_request" "ev_walk key_environment = (\<lambda>h. h)"
    by (simp_all add: sample_request_def key_environment_def)
  ultimately show ?thesis
    using request_answered [OF sample_request_ok m(1) _ im(1,2) r sample_script_facts a, of None] m(2)
    by (auto simp add: crlf_def simp del: parse_chunks.simps)
qed

text \<open>
  Both writes of a response use the same buffer, and the text is copied there without waiting for the
  header: if the write of the header gets to the buffer after \<open>onMessageComplete\<close>, it sends the text instead.
\<close>

theorem header_overwritten:
  assumes "answer ev (hr_url (hc_request c)) (Cleared, hc_world c) = (Value (status, r, type), ec, w)"
    "HttpConnection_onMessageComplete ev close c = (0, c')"
  shows "take (length r) (bytes_sent n c') = take n r"
proof -
  from response_sent [OF assms(1), of close] assms(2) have "take (length r) (hc_writeBuf c') = r" by auto
  then show ?thesis by (metis bytes_sent_def take_take min.commute)
qed

theorem header_overwritten_witness:
  "\<exists>c'. HttpConnection_onMessageComplete key_environment False
      (change_request (\<lambda>r. r\<lparr>hr_url := ''/../key''\<rparr>) (HttpConnection_new Get HTTP_1_1 ())) = (0, c') \<and>
    take (length ''secret'') (bytes_sent 100 c') = take 100 ''secret''"
proof -
  let ?c = "change_request (\<lambda>r. r\<lparr>hr_url := ''/../key''\<rparr>) (HttpConnection_new Get HTTP_1_1 ())"
  have a: "answer key_environment (hr_url (hc_request ?c)) (Cleared, hc_world ?c) =
      (Value (OK, ''secret'', Some (extension_to_type (extension ''/key''))), Cleared, ())"
    using key_answer by (simp add: HttpConnection_new_def)
  obtain c' where c': "HttpConnection_onMessageComplete key_environment False ?c = (0, c')"
    using response_sent [OF a, of False] by blast
  from header_overwritten [OF a c', of 100] c' show ?thesis by blast
qed

text \<open>
  C28. The server does not keep to its document root: for a URL path that begins with \<open>/../\<close> it serves what
  \<open>realpath\<close> finds above the root.
\<close>

theorem serves_above_root:
  assumes "slashes root = 1" "CHR 0x00 \<notin> set root" "last root \<noteq> CHR ''/''" "plain_name n" "cf_rootPath config = root"
    and "sc_getcwd os w = Inr cwd" "slashes cwd = 1" "CHR 0x00 \<notin> set cwd"
    and "sc_realpath os (root @ ''/../'' @ n) w = Inr f" "CHR 0x00 \<notin> set f" "sc_stat os f w = Inr st"
    and "reader f w = Some content" "file_type_of_mode (st_mode st) = FT_regular"
  shows "serve os reader config (''/../'' @ n) (Cleared, w) =
    (Value (OK, content, Some (extension_to_type (extension f))), Cleared, w)"
  by (rule serve_upwards) (rule assms)+

theorem serves_above_root_witness:
  "serve key_os key_reader key_config ''/../key'' (Cleared, ()) =
     (Value (OK, ''secret'', Some (extension_to_type (extension ''/key''))), Cleared, ())"
proof -
  have "serve key_os key_reader key_config (''/../'' @ ''key'') (Cleared, ()) =
     (Value (OK, ''secret'', Some (extension_to_type (extension ''/key''))), Cleared, ())"
    by (rule serves_above_root [where root = "''/srv''" and cwd = "''/''" and st = "stat_of_mode 0x8000"])
      (simp_all add: slashes_def plain_name_def key_config_def key_os_def key_reader_def stat_of_mode_def
        file_type_of_mode_def S_IFMT_def)
  then show ?thesis by simp
qed

end
