(* ===== verification/Date_Helper.thy ===== *)
theory Date_Helper
  imports Prelude "HOL-Library.Signed_Division"
begin

text \<open>
  acatl/date_helper.h. The calendar arithmetic is that of the library date, which is a parameter: conversions between
  a date and the number of its day (\<open>sys_days\<close>), weekdays from Sunday as 0, the last day of a
  month, and the texts of dates.
\<close>

section \<open>The library\<close>

record ymd =
  ymd_year :: int
  ymd_month :: nat
  ymd_day :: nat

record date_library =
  dl_sys_days :: "ymd \<Rightarrow> int"
  dl_ymd :: "int \<Rightarrow> ymd"
  dl_weekday :: "int \<Rightarrow> nat"
  dl_ok :: "ymd \<Rightarrow> bool"
  dl_last_day :: "int \<Rightarrow> nat \<Rightarrow> nat"
  dl_add_months :: "ymd \<Rightarrow> int \<Rightarrow> ymd"
  dl_last_sunday :: "int \<Rightarrow> nat \<Rightarrow> ymd"
  dl_year_text :: "int \<Rightarrow> string"
  dl_month_text :: "nat \<Rightarrow> string"
  dl_day_text :: "nat \<Rightarrow> string"
  dl_format :: "string \<Rightarrow> ymd \<Rightarrow> string"

definition date_of :: "int \<Rightarrow> nat \<Rightarrow> nat \<Rightarrow> ymd" where
  "date_of y m d = \<lparr>ymd_year = y, ymd_month = m, ymd_day = d\<rparr>"


section \<open>The functions\<close>

definition day_of_year :: "date_library \<Rightarrow> ymd \<Rightarrow> int" where
  "day_of_year lib d = (dl_sys_days lib d - dl_sys_days lib (date_of (ymd_year d) 1 1)) + 1"

definition add_days :: "int \<Rightarrow> int \<Rightarrow> int" where
  "add_days d days = d + days"

definition add_months :: "date_library \<Rightarrow> ymd \<Rightarrow> int \<Rightarrow> int" where
  "add_months lib d months =
     (let res = dl_add_months lib d months;
          last = dl_last_day lib (ymd_year res) (ymd_month res);
          res = (if \<not> dl_ok lib res \<and> last < ymd_day res then res\<lparr>ymd_day := last\<rparr> else res)
      in dl_sys_days lib res)"

text \<open>
  Easter, with the integer types of the code: division and remainder round towards zero, and the results are cut to 16
  bits.
\<close>

definition easter_month_day :: "int \<Rightarrow> u16 \<times> u16" where
  "easter_month_day y =
     (let H = of_int ((24 + 19 * (y smod 19)) smod 30) :: u16;
          I = of_int (uint H - uint H sdiv 28) :: u16;
          J = of_int ((y + y sdiv 4 + uint I - 13) smod 7) :: u16;
          L = of_int (uint I - uint J) :: u16;
          EM = of_int (3 + (sint L + 40) sdiv 44) :: u16;
          ED = of_int (sint L + 28 - 31 * (uint EM sdiv 4)) :: u16
      in (EM, ED))"

definition calculateGregorianEaster :: "date_library \<Rightarrow> int \<Rightarrow> int" where
  "calculateGregorianEaster lib year =
     (case easter_month_day year of (EM, ED) \<Rightarrow> dl_sys_days lib (date_of year (unat EM) (unat ED)))"


section \<open>Easter by the Gregorian rule\<close>

text \<open>The rule of Meeus, Jones and Butcher, which holds for every year of the Gregorian calendar.\<close>

definition gregorian_easter :: "int \<Rightarrow> int \<times> int" where
  "gregorian_easter y =
     (let a = y mod 19; b = y div 100; c = y mod 100; d = b div 4; e = b mod 4;
          f = (b + 8) div 25; g = (b - f + 1) div 3;
          h = (19 * a + b - d - g + 15) mod 30; i = c div 4; k = c mod 4;
          l = (32 + 2 * e + 2 * i - h - k) mod 7; m = (a + 11 * h + 22 * l) div 451;
          n = h + l - 7 * m + 114
      in (n div 31, n mod 31 + 1))"

definition same_easter :: "int \<Rightarrow> bool" where
  "same_easter y \<longleftrightarrow> (uint (fst (easter_month_day y)), uint (snd (easter_month_day y))) = gregorian_easter y"

lemma easter_1900: "list_all same_easter [1900..1949]"
  by code_simp

lemma easter_1950: "list_all same_easter [1950..1999]"
  by code_simp

lemma easter_2000: "list_all same_easter [2000..2049]"
  by code_simp

lemma easter_2050: "list_all same_easter [2050..2099]"
  by code_simp

lemma easter_2100: "\<not> list_ex same_easter [2100..2149]"
  by code_simp

lemma easter_2150: "\<not> list_ex same_easter [2150..2199]"
  by code_simp

lemma all_years: "list_all P [l..u] \<Longrightarrow> l \<le> y \<Longrightarrow> y \<le> u \<Longrightarrow> P y"
  by (simp add: list_all_iff)

lemma no_year: "\<not> list_ex P [l..u] \<Longrightarrow> l \<le> y \<Longrightarrow> y \<le> u \<Longrightarrow> \<not> P y"
  by (auto simp: list_ex_iff)

lemma easter_right:
  assumes "1900 \<le> y" "y \<le> 2099"
  shows "same_easter y"
proof -
  consider "y \<le> 1949" | "1950 \<le> y" "y \<le> 1999" | "2000 \<le> y" "y \<le> 2049" | "2050 \<le> y" by linarith
  then show ?thesis
  proof cases
    case 1
    show ?thesis by (rule all_years [OF easter_1900 assms(1) 1])
  next
    case 2
    show ?thesis by (rule all_years [OF easter_1950 2])
  next
    case 3
    show ?thesis by (rule all_years [OF easter_2000 3])
  next
    case 4
    show ?thesis by (rule all_years [OF easter_2050 4 assms(2)])
  qed
qed

lemma easter_wrong:
  assumes "2100 \<le> y" "y \<le> 2199"
  shows "\<not> same_easter y"
proof (cases "y \<le> 2149")
  case True
  show ?thesis by (rule no_year [OF easter_2100 assms(1) True])
next
  case False
  then have "2150 \<le> y" by linarith
  then show ?thesis by (rule no_year [OF easter_2150 _ assms(2)])
qed

end
