(* ===== verification/Calendar.thy ===== *)
theory Calendar
  imports Date_Helper
begin

text \<open>
  src/examples/calendar/main.cpp: the program that prints a month or a year and marks the holidays. What a function
  prints is its result; the options are what \<open>CommandLineOptions\<close> answers. The loops take fuel: a loop over the
  days of a week, and one over the weeks of a month, end only because the library goes on from day to
  day.
\<close>

section \<open>State\<close>

type_synonym holidayType = "string \<times> ymd"

record Calendar =
  cal_showYear :: bool
  cal_currentDate :: ymd
  cal_showHolidays :: bool
  cal_holidays :: "holidayType list"

definition ymd_less :: "ymd \<Rightarrow> ymd \<Rightarrow> bool" where
  "ymd_less a b \<longleftrightarrow> ymd_year a < ymd_year b \<or> ymd_year a = ymd_year b \<and>
     (ymd_month a < ymd_month b \<or> ymd_month a = ymd_month b \<and> ymd_day a < ymd_day b)"

definition fixed_holidays :: "int \<Rightarrow> holidayType list" where
  "fixed_holidays year =
     [(''Neujahr'', date_of year 1 1), (''Heilige Drei Koenige'', date_of year 1 6), (''Erster Mai'', date_of year 5 1),
      (''Mariae Himmelfahrt'', date_of year 8 15), (''Tag der deutschen Einheit'', date_of year 10 3),
      (''Reformationstag'', date_of year 10 31), (''Allerheiligen'', date_of year 11 11),
      (''Erster Weihnachtstag'', date_of year 12 25), (''Zweiter Weihnachtstag'', date_of year 12 26)]"

definition easter_holidays :: "date_library \<Rightarrow> int \<Rightarrow> holidayType list" where
  "easter_holidays lib easter =
     map (\<lambda>(name, days). (name, dl_ymd lib (add_days easter days)))
       [(''Rosenmontag'', - 48), (''Fastnacht'', - 47), (''Aschermittwoch'', - 46), (''Palmsonntag'', - 7),
        (''Karfreitag'', - 2), (''Ostersonntag'', 0), (''Ostermontag'', 1), (''Christi Himmelfahrt'', 39),
        (''Pfingstsonntag'', 49), (''Pfingstmontag'', 50), (''Fronleichnam'', 60)]"

text \<open>
  Holidays may fall on the same day, and \<open>std::sort\<close> may leave such in any order, so the sorting is a parameter.
\<close>

type_synonym holiday_sort = "(holidayType \<Rightarrow> holidayType \<Rightarrow> bool) \<Rightarrow> holidayType list \<Rightarrow> holidayType list"

definition calculateHolidays :: "holiday_sort \<Rightarrow> date_library \<Rightarrow> int \<Rightarrow> holidayType list" where
  "calculateHolidays sorts lib year =
     sorts (\<lambda>lhs rhs. ymd_less (snd lhs) (snd rhs))
       (fixed_holidays year @ easter_holidays lib (calculateGregorianEaster lib year) @
        [(''Sommerzeit-Umstellung'', dl_last_sunday lib year 3), (''Winterzeit-Umstellung'', dl_last_sunday lib year 10)])"

text \<open>\<open>_showYear\<close> has no initial value.\<close>

definition Calendar_new :: "holiday_sort \<Rightarrow> date_library \<Rightarrow> int \<Rightarrow> bool \<Rightarrow> Calendar" where
  "Calendar_new sorts lib today junk =
     \<lparr>cal_showYear = junk, cal_currentDate = dl_ymd lib today, cal_showHolidays = False,
      cal_holidays = calculateHolidays sorts lib (ymd_year (dl_ymd lib today))\<rparr>"

text \<open>The options after a successful parse: how often each was given, and the values of two.\<close>

record calendar_options =
  op_help :: int
  op_j :: int
  op_year :: int
  op_year_value :: int
  op_month :: int
  op_month_value :: nat
  op_holidays :: int

definition setUp :: "calendar_options \<Rightarrow> Calendar \<Rightarrow> bool \<times> Calendar" where
  "setUp options c =
     (if 0 < op_help options then (False, c)
      else
        (let c = (if 0 < op_j options then c\<lparr>cal_showYear := True\<rparr> else c);
             c = (if 0 < op_year options
                  then c\<lparr>cal_showYear := True, cal_currentDate := date_of (op_year_value options) 1 1\<rparr> else c);
             c = (if 0 < op_month options
                  then c\<lparr>cal_currentDate := date_of (ymd_year (cal_currentDate c)) (op_month_value options) 1\<rparr> else c);
             c = (if 0 < op_holidays options then c\<lparr>cal_showHolidays := True\<rparr> else c)
         in (True, c)))"


section \<open>Printing\<close>

definition newline :: string where
  "newline = [CHR 0x0A]"

text \<open>\<open>std::setw(n)\<close> before a blank.\<close>

definition blanks :: "nat \<Rightarrow> string" where
  "blanks n = replicate (max n 1) CHR '' ''"

definition isHoliday :: "Calendar \<Rightarrow> ymd \<Rightarrow> bool" where
  "isHoliday c date \<longleftrightarrow> list_ex (\<lambda>holiday. snd holiday = date) (cal_holidays c)"

definition printDay :: "date_library \<Rightarrow> Calendar \<Rightarrow> ymd \<Rightarrow> string" where
  "printDay lib c date =
     (if cal_showHolidays c \<and> isHoliday c date then ''['' @ dl_day_text lib (ymd_day date) @ '']''
      else blanks 1 @ dl_day_text lib (ymd_day date) @ blanks 1)"

definition printStartOffset :: "nat \<Rightarrow> string" where
  "printStartOffset weekday = (let offset = weekday * 4 in if offset \<noteq> 0 then blanks offset else [])"

definition weekday_of :: "date_library \<Rightarrow> ymd \<Rightarrow> nat" where
  "weekday_of lib date = dl_weekday lib (dl_sys_days lib date)"

definition next_day :: "date_library \<Rightarrow> ymd \<Rightarrow> ymd" where
  "next_day lib date = dl_ymd lib (add_days (dl_sys_days lib date) 1)"

text \<open>
  The loop of \<open>printWeek\<close> and what follows it: whether the month goes on, the new date, and the text.
\<close>

fun week_loop :: "nat \<Rightarrow> date_library \<Rightarrow> Calendar \<Rightarrow> nat \<Rightarrow> ymd \<Rightarrow> nat \<Rightarrow> (bool \<times> ymd \<times> string) option" where
  "week_loop 0 lib c month date weekday = None"
| "week_loop (Suc n) lib c month date weekday =
     (let date' = next_day lib date in
      if weekday = 6 then Some (ymd_month date' = month, date', [])
      else if ymd_month date' \<noteq> month
      then Some (False, date', blanks ((6 - weekday_of lib date') * 4 + 4))
      else map_option (\<lambda>(r, d, t). (r, d, printDay lib c date' @ t))
             (week_loop n lib c month date' (weekday_of lib date')))"

definition printWeek :: "date_library \<Rightarrow> Calendar \<Rightarrow> nat \<Rightarrow> ymd \<Rightarrow> (bool \<times> ymd \<times> string) option" where
  "printWeek lib c month date =
     (if ymd_month date \<noteq> month then Some (False, date, blanks 28)
      else
        (let weekday = weekday_of lib date;
             start = (if ymd_day date = 1 then printStartOffset weekday else [])
         in map_option (\<lambda>(r, d, t). (r, d, start @ printDay lib c date @ t))
              (week_loop 7 lib c month date weekday)))"

fun month_loop :: "nat \<Rightarrow> date_library \<Rightarrow> Calendar \<Rightarrow> nat \<Rightarrow> ymd \<Rightarrow> string option" where
  "month_loop 0 lib c month date = None"
| "month_loop (Suc n) lib c month date =
     (case printWeek lib c month date of
        None \<Rightarrow> None
      | Some (r, date, t) \<Rightarrow>
          (if r then map_option (\<lambda>t'. t @ newline @ t') (month_loop n lib c month date) else Some t))"

definition week_header :: string where
  "week_header = '' So  Mo  Di  Mi  Do  Fr  Sa ''"

definition printHolidays :: "date_library \<Rightarrow> holidayType list \<Rightarrow> string" where
  "printHolidays lib hs = concat (map (\<lambda>(name, date). name @ '': '' @ dl_format lib ''%d.%m.'' date @ newline) hs)"

definition printHolidaysForMonth :: "date_library \<Rightarrow> Calendar \<Rightarrow> nat \<Rightarrow> string" where
  "printHolidaysForMonth lib c month = printHolidays lib (filter (\<lambda>h. ymd_month (snd h) = month) (cal_holidays c))"

definition printAllHolidays :: "date_library \<Rightarrow> Calendar \<Rightarrow> string" where
  "printAllHolidays lib c = printHolidays lib (cal_holidays c)"

definition printSingleMonth :: "date_library \<Rightarrow> Calendar \<Rightarrow> string option" where
  "printSingleMonth lib c =
     (let year = ymd_year (cal_currentDate c); month = ymd_month (cal_currentDate c) in
      map_option (\<lambda>t.
          blanks 9 @ dl_month_text lib month @ '' '' @ dl_year_text lib year @ newline @ newline @
          week_header @ newline @ t @ newline @
          (if cal_showHolidays c then newline @ printHolidaysForMonth lib c month else []))
        (month_loop 31 lib c month (date_of year month 1)))"

text \<open>Three months side by side; each keeps the date it has come to.\<close>

fun three_loop :: "nat \<Rightarrow> date_library \<Rightarrow> Calendar \<Rightarrow> (nat \<times> ymd) list \<Rightarrow> string option" where
  "three_loop 0 lib c months = None"
| "three_loop (Suc n) lib c months =
     (case those (map (\<lambda>(m, d). printWeek lib c m d) months) of
        None \<Rightarrow> None
      | Some rs \<Rightarrow>
          (let line = concat (map (\<lambda>(r, d, t). t @ '' '') (butlast rs)) @ snd (snd (last rs)) @ newline;
               months' = map2 (\<lambda>(m, _) (_, d, _). (m, d)) months rs
           in if list_ex fst rs then map_option (\<lambda>t. line @ t) (three_loop n lib c months') else Some line))"

definition printThreeMonthWeeks :: "date_library \<Rightarrow> Calendar \<Rightarrow> nat \<Rightarrow> (nat \<times> ymd) list \<Rightarrow> string option" where
  "printThreeMonthWeeks lib c startMonthIndex months =
     (let three = take 3 (drop startMonthIndex months) in
      map_option (\<lambda>t.
          blanks 12 @ dl_month_text lib (fst (three ! 0)) @ '' '' @ blanks 25 @
          dl_month_text lib (fst (three ! 1)) @ '' '' @ blanks 25 @ dl_month_text lib (fst (three ! 2)) @
          newline @ newline @
          week_header @ '' '' @ week_header @ '' '' @ week_header @ newline @ t)
        (three_loop 31 lib c three))"

definition months_of :: "date_library \<Rightarrow> int \<Rightarrow> (nat \<times> ymd) list" where
  "months_of lib year =
     (let date = date_of year 1 1 in (1, date) # map (\<lambda>k. (Suc k, dl_add_months lib date (int k))) [1..<12])"

definition printYear :: "date_library \<Rightarrow> Calendar \<Rightarrow> string option" where
  "printYear lib c =
     (let year = ymd_year (cal_currentDate c); months = months_of lib year in
      map_option (\<lambda>ts.
          blanks 40 @ dl_year_text lib year @ newline @ newline @
          concat (map (\<lambda>t. t @ newline) ts) @ newline @
          (if cal_showHolidays c then newline @ printAllHolidays lib c else []))
        (those (map (\<lambda>i. printThreeMonthWeeks lib c i months) [0, 3, 6, 9])))"

definition doRun :: "date_library \<Rightarrow> Calendar \<Rightarrow> string option" where
  "doRun lib c = (if cal_showYear c then printYear lib c else printSingleMonth lib c)"


section \<open>A month on paper\<close>

text \<open>
  What the library documents of one month of \<open>n\<close> days from the day \<open>first\<close> on: its days follow each other and belong to
  the month, the day behind it does not, and weekdays go round; days are printed with two digits.
\<close>

definition month_law :: "date_library \<Rightarrow> int \<Rightarrow> nat \<Rightarrow> nat \<Rightarrow> bool" where
  "month_law lib y m n \<longleftrightarrow>
     (let first = dl_sys_days lib (date_of y m 1) in
      0 < n \<and> n \<le> 31 \<and>
      (\<forall>k<n. dl_sys_days lib (date_of y m (Suc k)) = first + int k) \<and>
      (\<forall>k<n. dl_ymd lib (first + int k) = date_of y m (Suc k)) \<and>
      dl_sys_days lib (dl_ymd lib (first + int n)) = first + int n \<and>
      ymd_month (dl_ymd lib (first + int n)) \<noteq> m \<and>
      (\<forall>k\<le>n. dl_weekday lib (first + int k) = (dl_weekday lib first + k) mod 7) \<and>
      (\<forall>k<n. length (dl_day_text lib (Suc k)) = 2))"

text \<open>The day that is \<open>k\<close> days after the first, its weekday, and its four columns.\<close>

definition month_day :: "date_library \<Rightarrow> int \<Rightarrow> nat \<Rightarrow> nat \<Rightarrow> ymd" where
  "month_day lib y m k = dl_ymd lib (dl_sys_days lib (date_of y m 1) + int k)"

definition month_weekday :: "date_library \<Rightarrow> int \<Rightarrow> nat \<Rightarrow> nat \<Rightarrow> nat" where
  "month_weekday lib y m k = (dl_weekday lib (dl_sys_days lib (date_of y m 1)) + k) mod 7"

definition month_cells :: "date_library \<Rightarrow> Calendar \<Rightarrow> int \<Rightarrow> nat \<Rightarrow> nat list \<Rightarrow> string" where
  "month_cells lib c y m ks = concat (map (\<lambda>k. printDay lib c (date_of y m (Suc k))) ks)"

lemma month_lawD:
  assumes "month_law lib y m n"
  shows "k < n \<Longrightarrow> month_day lib y m k = date_of y m (Suc k)"
    "k \<le> n \<Longrightarrow> weekday_of lib (month_day lib y m k) = month_weekday lib y m k"
    "k < n \<Longrightarrow> next_day lib (month_day lib y m k) = month_day lib y m (Suc k)"
    "k < n \<Longrightarrow> ymd_month (month_day lib y m k) = m" "k < n \<Longrightarrow> ymd_day (month_day lib y m k) = Suc k"
    "ymd_month (month_day lib y m n) \<noteq> m" "0 < n" "n \<le> 31"
    "k < n \<Longrightarrow> length (printDay lib c (date_of y m (Suc k))) = 4"
proof -
  let ?first = "dl_sys_days lib (date_of y m 1)"
  note a = assms [unfolded month_law_def Let_def]
  from a have pos: "0 < n" by (elim conjE)
  from a have most: "n \<le> 31" by (elim conjE)
  from a have sysd: "\<And>k. k < n \<Longrightarrow> dl_sys_days lib (date_of y m (Suc k)) = ?first + int k" by (elim conjE) fast
  from a have back_law: "\<And>k. k < n \<Longrightarrow> dl_ymd lib (?first + int k) = date_of y m (Suc k)" by (elim conjE) fast
  from a have end_law: "dl_sys_days lib (dl_ymd lib (?first + int n)) = ?first + int n" by (elim conjE)
  from a have end_month: "ymd_month (dl_ymd lib (?first + int n)) \<noteq> m" by (elim conjE)
  from a have wd: "\<And>k. k \<le> n \<Longrightarrow> dl_weekday lib (?first + int k) = (dl_weekday lib ?first + k) mod 7" by (elim conjE) fast
  from a have digits: "\<And>k. k < n \<Longrightarrow> length (dl_day_text lib (Suc k)) = 2" by (elim conjE) fast
  show "0 < n" "n \<le> 31" "ymd_month (month_day lib y m n) \<noteq> m"
    using pos most end_month by (simp_all add: month_day_def)
  show d: "month_day lib y m k = date_of y m (Suc k)" if "k < n" using back_law that by (simp add: month_day_def)
  have sys: "dl_sys_days lib (month_day lib y m k) = ?first + int k" if "k \<le> n"
  proof (cases "k = n")
    case True
    then show ?thesis using end_law by (simp only: month_day_def)
  next
    case False
    then have "k < n" using that by simp
    then show ?thesis unfolding month_day_def back_law [OF \<open>k < n\<close>] by (rule sysd)
  qed
  show "weekday_of lib (month_day lib y m k) = month_weekday lib y m k" if "k \<le> n"
    unfolding weekday_of_def sys [OF that] month_weekday_def by (rule wd [OF that])
  show "next_day lib (month_day lib y m k) = month_day lib y m (Suc k)" if "k < n"
    using sys that by (simp add: next_day_def add_days_def month_day_def algebra_simps)
  show "ymd_month (month_day lib y m k) = m" "ymd_day (month_day lib y m k) = Suc k" if "k < n"
    using d [OF that] by (simp_all add: date_of_def)
  show "length (printDay lib c (date_of y m (Suc k))) = 4" if "k < n"
    using digits [OF that] by (simp add: printDay_def date_of_def blanks_def)
qed

lemma month_weekday_less [simp]: "month_weekday lib y m k < 7"
  by (simp add: month_weekday_def)

lemma month_weekday_Suc:
  "month_weekday lib y m (Suc k) = (if month_weekday lib y m k = 6 then 0 else Suc (month_weekday lib y m k))"
  by (simp add: month_weekday_def mod_Suc)

lemma month_cells_simps [simp]:
  "month_cells lib c y m [] = []"
  "month_cells lib c y m (k # ks) = printDay lib c (date_of y m (Suc k)) @ month_cells lib c y m ks"
  "month_cells lib c y m (ks @ ks') = month_cells lib c y m ks @ month_cells lib c y m ks'"
  by (simp_all add: month_cells_def)

lemma month_cells_length:
  assumes "month_law lib y m n" "\<And>k. k \<in> set ks \<Longrightarrow> k < n"
  shows "length (month_cells lib c y m ks) = 4 * length ks"
  using assms(2) by (induction ks) (simp_all add: month_lawD(9) [OF assms(1)])

text \<open>The days after the one just printed, up to Saturday or the end of the month.\<close>

lemma week_loop_days:
  assumes "month_law lib y m n"
  shows "k < n \<Longrightarrow> 6 - month_weekday lib y m k < fuel \<Longrightarrow>
    \<exists>j pad. k \<le> j \<and> j < n \<and>
      week_loop fuel lib c m (month_day lib y m k) (month_weekday lib y m k) =
        Some (Suc j < n, month_day lib y m (Suc j), month_cells lib c y m [Suc k..<Suc j] @ replicate pad CHR '' '') \<and>
      (Suc j < n \<longrightarrow> month_weekday lib y m (Suc j) = 0 \<and> pad = 0) \<and>
      4 * (j - k) + pad = 4 * (6 - month_weekday lib y m k)"
proof (induction fuel arbitrary: k)
  case (Suc fuel)
  note law = month_lawD [OF assms]
  let ?w = "month_weekday lib y m"
  have nxt: "next_day lib (month_day lib y m k) = month_day lib y m (Suc k)" by (rule law(3) [OF Suc.prems(1)])
  have in_month: "ymd_month (month_day lib y m (Suc k)) = m \<longleftrightarrow> Suc k < n"
    using law(4) [of "Suc k"] law(6) Suc.prems(1) by (cases "Suc k = n") auto
  show ?case
  proof (cases "?w k = 6")
    case True
    then show ?thesis using nxt in_month Suc.prems(1) month_weekday_Suc [of lib y m k]
      by (intro exI [of _ k] exI [of _ 0]) (simp add: Let_def)
  next
    case False
    then have w: "?w (Suc k) = Suc (?w k)" "?w k < 6"
      using month_weekday_Suc [of lib y m k] month_weekday_less [of lib y m k] by (simp_all del: month_weekday_less)
    have wd: "weekday_of lib (month_day lib y m (Suc k)) = ?w (Suc k)"
      using law(2) [of "Suc k"] Suc.prems(1) by simp
    show ?thesis
    proof (cases "Suc k < n")
      case False
      then have "week_loop (Suc fuel) lib c m (month_day lib y m k) (?w k) =
          Some (False, month_day lib y m (Suc k), replicate ((6 - ?w k) * 4) CHR '' '')"
        using nxt in_month wd w \<open>?w k \<noteq> 6\<close> by (simp add: Let_def blanks_def)
      then show ?thesis using False Suc.prems(1)
        by (intro exI [of _ k] exI [of _ "(6 - ?w k) * 4"]) simp
    next
      case True
      have "6 - ?w (Suc k) < fuel" using Suc.prems(2) w by simp
      from Suc.IH [OF True this] obtain j pad where
        j: "Suc k \<le> j" "j < n" "week_loop fuel lib c m (month_day lib y m (Suc k)) (?w (Suc k)) =
          Some (Suc j < n, month_day lib y m (Suc j), month_cells lib c y m [Suc (Suc k)..<Suc j] @ replicate pad CHR '' '')"
        and r: "Suc j < n \<longrightarrow> ?w (Suc j) = 0 \<and> pad = 0" "4 * (j - Suc k) + pad = 4 * (6 - ?w (Suc k))" by blast
      have "[Suc k..<Suc j] = Suc k # [Suc (Suc k)..<Suc j]" using j(1) by (simp add: upt_conv_Cons)
      then have "week_loop (Suc fuel) lib c m (month_day lib y m k) (?w k) =
          Some (Suc j < n, month_day lib y m (Suc j), month_cells lib c y m [Suc k..<Suc j] @ replicate pad CHR '' '')"
        using nxt in_month wd j(3) True \<open>?w k \<noteq> 6\<close> law(1) [OF True]
        by (simp add: Let_def del: upt_Suc)
      moreover have "4 * (j - k) + pad = 4 * (6 - ?w k)" using r(2) w j(1) by (simp add: Suc_diff_le)
      ultimately show ?thesis using j r(1) by (intro exI [of _ j] exI [of _ pad]) (simp del: upt_Suc)
    qed
  qed
qed simp

text \<open>A line of a month begins on the first or on a Sunday and has 28 columns.\<close>

lemma printWeek_line:
  assumes "month_law lib y m n" "k < n" "k = 0 \<or> month_weekday lib y m k = 0"
  shows "\<exists>j pad. k \<le> j \<and> j < n \<and>
    printWeek lib c m (month_day lib y m k) = Some (Suc j < n, month_day lib y m (Suc j),
      replicate (4 * month_weekday lib y m k) CHR '' '' @ month_cells lib c y m [k..<Suc j] @ replicate pad CHR '' '') \<and>
    (Suc j < n \<longrightarrow> month_weekday lib y m (Suc j) = 0 \<and> pad = 0) \<and>
    4 * month_weekday lib y m k + 4 * (Suc j - k) + pad = 28"
proof -
  note law = month_lawD [OF assms(1)]
  let ?w = "month_weekday lib y m k"
  have "6 - ?w < 7" by simp
  from week_loop_days [OF assms(1,2) this, where c = c] obtain j pad where
    j: "k \<le> j" "j < n" "week_loop 7 lib c m (month_day lib y m k) ?w =
      Some (Suc j < n, month_day lib y m (Suc j), month_cells lib c y m [Suc k..<Suc j] @ replicate pad CHR '' '')"
    and r: "Suc j < n \<longrightarrow> month_weekday lib y m (Suc j) = 0 \<and> pad = 0" "4 * (j - k) + pad = 4 * (6 - ?w)" by blast
  have start: "(if Suc k = 1 then printStartOffset ?w else []) = replicate (4 * ?w) CHR '' ''"
    using assms(3) by (auto simp: printStartOffset_def blanks_def mult.commute)
  have k: "[k..<Suc j] = k # [Suc k..<Suc j]" using j(1) by (simp add: upt_conv_Cons)
  have "weekday_of lib (month_day lib y m k) = ?w" using law(2) assms(2) by simp
  then have "printWeek lib c m (month_day lib y m k) = Some (Suc j < n, month_day lib y m (Suc j),
      replicate (4 * ?w) CHR '' '' @ month_cells lib c y m [k..<Suc j] @ replicate pad CHR '' '')"
    unfolding k using j(3) start law(1,4,5) [OF assms(2)] by (simp add: printWeek_def Let_def date_of_def del: upt_Suc)
  moreover have "4 * ?w + 4 * (Suc j - k) + pad = 28"
  proof -
    have "?w \<le> 6" using month_weekday_less [of lib y m k] by linarith
    then show ?thesis using r(2) j(1) by arith
  qed
  ultimately show ?thesis using j(1,2) r(1) by blast
qed

definition month_lines :: "string list \<Rightarrow> string" where
  "month_lines rows = concat (map (\<lambda>row. row @ newline) rows)"

lemma month_loop_rows:
  assumes "month_law lib y m n"
  shows "k < n \<Longrightarrow> k = 0 \<or> month_weekday lib y m k = 0 \<Longrightarrow> n - k \<le> fuel \<Longrightarrow>
    \<exists>t rows pad. month_loop fuel lib c m (month_day lib y m k) = Some t \<and> t @ newline = month_lines rows \<and>
      concat rows = replicate (4 * month_weekday lib y m k) CHR '' '' @ month_cells lib c y m [k..<n] @
        replicate pad CHR '' '' \<and>
      (\<forall>row\<in>set rows. length row = 28)"
proof (induction fuel arbitrary: k)
  case (Suc fuel)
  note law = month_lawD [OF assms]
  from printWeek_line [OF assms Suc.prems(1,2), where c = c] obtain j pad where
    j: "k \<le> j" "j < n" "printWeek lib c m (month_day lib y m k) = Some (Suc j < n, month_day lib y m (Suc j),
      replicate (4 * month_weekday lib y m k) CHR '' '' @ month_cells lib c y m [k..<Suc j] @ replicate pad CHR '' '')"
    "Suc j < n \<longrightarrow> month_weekday lib y m (Suc j) = 0 \<and> pad = 0"
    "4 * month_weekday lib y m k + 4 * (Suc j - k) + pad = 28" by blast
  obtain row where row: "row = replicate (4 * month_weekday lib y m k) CHR '' '' @ month_cells lib c y m [k..<Suc j] @
      replicate pad CHR '' ''" by simp
  have len: "length row = 28"
    using j month_cells_length [OF assms, of "[k..<Suc j]" c] by (simp add: row del: upt_Suc)
  show ?case
  proof (cases "Suc j < n")
    case False
    then have "Suc j = n" using j(2) by simp
    then show ?thesis using j(3) len row
      by (intro exI [of _ row] exI [of _ "[row]"] exI [of _ pad]) (simp add: month_lines_def)
  next
    case True
    have "n - Suc j \<le> fuel" using Suc.prems(3) j(1) by simp
    from Suc.IH [OF True _ this] j(4) True obtain t rows pad' where
      t: "month_loop fuel lib c m (month_day lib y m (Suc j)) = Some t" "t @ newline = month_lines rows"
        "concat rows = month_cells lib c y m [Suc j..<n] @ replicate pad' CHR '' ''" "\<forall>row\<in>set rows. length row = 28"
      by auto
    have split: "[k..<n] = [k..<Suc j] @ [Suc j..<n]" using j(1) True
      using upt_add_eq_append [of k "Suc j" "n - Suc j"] by (simp del: upt_Suc)
    have "month_loop (Suc fuel) lib c m (month_day lib y m k) = Some (row @ newline @ t)"
      using j(3) t(1) True row by simp
    moreover have "(row @ newline @ t) @ newline = month_lines (row # rows)"
      using t(2) by (simp add: month_lines_def)
    moreover have "concat (row # rows) = replicate (4 * month_weekday lib y m k) CHR '' '' @ month_cells lib c y m [k..<n] @
        replicate pad' CHR '' ''"
      using t(3) j(4) True unfolding split by (simp add: row del: upt_Suc)
    ultimately show ?thesis using t(4) len by (metis (no_types, lifting) set_ConsD)
  qed
qed simp

lemma single_month_rows:
  assumes "month_law lib y m n"
  shows "\<exists>t rows pad. month_loop 31 lib c m (date_of y m 1) = Some t \<and> t @ newline = month_lines rows \<and>
      concat rows = replicate (4 * month_weekday lib y m 0) CHR '' '' @ month_cells lib c y m [0..<n] @
        replicate pad CHR '' '' \<and>
      (\<forall>row\<in>set rows. length row = 28)"
proof -
  note law = month_lawD [OF assms]
  have "month_day lib y m 0 = date_of y m 1" using law(1) [of 0] law(7) by simp
  with month_loop_rows [OF assms law(7), of 31 c] law(8) show ?thesis by simp
qed

end
