(* ===== verification/Calendar_Theorems.thy ===== *)
theory Calendar_Theorems
  imports Calendar Cpp_Std
begin

text \<open>
  The properties of the calendar program and of the date of Easter, with a date library that satisfies what they
  assume.
\<close>

section \<open>A date library\<close>

text \<open>The Gregorian calendar by the usual count of days in years that begin with March.\<close>

definition civil_days :: "ymd \<Rightarrow> int" where
  "civil_days date =
     (let m = int (ymd_month date);
          y = (if m \<le> 2 then ymd_year date - 1 else ymd_year date);
          era = y div 400; yoe = y - era * 400;
          doy = (153 * (if m > 2 then m - 3 else m + 9) + 2) div 5 + int (ymd_day date) - 1
      in era * 146097 + (yoe * 365 + yoe div 4 - yoe div 100 + doy) - 719468)"

definition civil_date :: "int \<Rightarrow> ymd" where
  "civil_date n =
     (let z = n + 719468; era = z div 146097; doe = z - era * 146097;
          yoe = (doe - doe div 1460 + doe div 36524 - doe div 146096) div 365;
          doy = doe - (365 * yoe + yoe div 4 - yoe div 100); mp = (5 * doy + 2) div 153;
          d = doy - (153 * mp + 2) div 5 + 1; m = (if mp < 10 then mp + 3 else mp - 9)
      in date_of (yoe + era * 400 + (if m \<le> 2 then 1 else 0)) (nat m) (nat d))"

definition two_digits :: "nat \<Rightarrow> string" where
  "two_digits n = [char_of (48 + n div 10), char_of (48 + n mod 10)]"

definition civil_last_day :: "int \<Rightarrow> nat \<Rightarrow> nat" where
  "civil_last_day y m = nat (civil_days (if m = 12 then date_of (y + 1) 1 1 else date_of y (m + 1) 1) - civil_days (date_of y m 1))"

definition civil_library :: date_library where
  "civil_library =
     \<lparr>dl_sys_days = civil_days, dl_ymd = civil_date, dl_weekday = (\<lambda>n. nat ((n + 4) mod 7)),
      dl_ok = (\<lambda>d. 1 \<le> ymd_month d \<and> ymd_month d \<le> 12 \<and> 1 \<le> ymd_day d \<and>
        ymd_day d \<le> civil_last_day (ymd_year d) (ymd_month d)),
      dl_last_day = civil_last_day,
      dl_add_months = (\<lambda>d k. let n = ymd_year d * 12 + int (ymd_month d) - 1 + k
        in date_of (n div 12) (nat (n mod 12) + 1) (ymd_day d)),
      dl_last_sunday = (\<lambda>y m. let n = civil_days (date_of y m (civil_last_day y m)) in civil_date (n - (n + 4) mod 7)),
      dl_year_text = (\<lambda>y. ''year''), dl_month_text = (\<lambda>m. ''month''), dl_day_text = two_digits,
      dl_format = (\<lambda>fmt d. two_digits (ymd_day d) @ ''.'' @ two_digits (ymd_month d) @ ''.'')\<rparr>"

definition february_first :: int where
  "february_first = civil_days (date_of 2024 2 1)"

lemma february_days:
  "list_all (\<lambda>k. civil_days (date_of 2024 2 (Suc k)) = february_first + int k) [0..<29]"
  "list_all (\<lambda>k. civil_date (february_first + int k) = date_of 2024 2 (Suc k)) [0..<29]"
  "list_all (\<lambda>k. nat ((february_first + int k + 4) mod 7) = (nat ((february_first + 4) mod 7) + k) mod 7) [0..<30]"
  "civil_days (civil_date (february_first + 29)) = february_first + 29"
  "ymd_month (civil_date (february_first + 29)) \<noteq> 2"
  by code_simp+

lemma february_law: "month_law civil_library 2024 2 29"
proof -
  have "civil_days (date_of 2024 2 (Suc k)) = february_first + int k" "civil_date (february_first + int k) = date_of 2024 2 (Suc k)"
    if "k < 29" for k
    using february_days(1,2) [unfolded list_all_iff] that by auto
  moreover have "nat ((february_first + int k + 4) mod 7) = (nat ((february_first + 4) mod 7) + k) mod 7" if "k \<le> 29" for k
    using february_days(3) [unfolded list_all_iff] that by auto
  ultimately show ?thesis using february_days(4,5)
    by (simp add: month_law_def civil_library_def Let_def two_digits_def february_first_def [symmetric])
qed


section \<open>The properties\<close>

text \<open>
  C39. Printing a month ends, and prints its days once each and in their order: the lines of the month have 28 columns
  each, and put together they are four blanks for every weekday before the first, four columns for every
  day, and blanks.
\<close>

theorem month_printed:
  assumes "month_law lib (ymd_year (cal_currentDate c)) (ymd_month (cal_currentDate c)) n"
  shows "\<exists>rows pad.
    printSingleMonth lib c = Some (blanks 9 @ dl_month_text lib (ymd_month (cal_currentDate c)) @ '' '' @
      dl_year_text lib (ymd_year (cal_currentDate c)) @ newline @ newline @ week_header @ newline @ month_lines rows @
      (if cal_showHolidays c then newline @ printHolidaysForMonth lib c (ymd_month (cal_currentDate c)) else [])) \<and>
    concat rows =
      replicate (4 * month_weekday lib (ymd_year (cal_currentDate c)) (ymd_month (cal_currentDate c)) 0) CHR '' '' @
      month_cells lib c (ymd_year (cal_currentDate c)) (ymd_month (cal_currentDate c)) [0..<n] @ replicate pad CHR '' '' \<and>
    (\<forall>row. row \<in> set rows \<longrightarrow> length row = 28)"
proof -
  let ?y = "ymd_year (cal_currentDate c)" and ?m = "ymd_month (cal_currentDate c)"
  obtain t rows pad where t: "month_loop 31 lib c ?m (date_of ?y ?m 1) = Some t" "t @ newline = month_lines rows"
    "concat rows = replicate (4 * month_weekday lib ?y ?m 0) CHR '' '' @ month_cells lib c ?y ?m [0..<n] @
        replicate pad CHR '' ''" "\<forall>row\<in>set rows. length row = 28"
    using single_month_rows [OF assms, of c] by blast
  have "t @ newline @ e = month_lines rows @ e" for e using t(2) by (metis append_assoc)
  then have "printSingleMonth lib c = Some (blanks 9 @ dl_month_text lib ?m @ '' '' @ dl_year_text lib ?y @ newline @
      newline @ week_header @ newline @ month_lines rows @
      (if cal_showHolidays c then newline @ printHolidaysForMonth lib c ?m else []))"
    using t(1) by (simp add: printSingleMonth_def Let_def)
  with t(3,4) show ?thesis by blast
qed

theorem month_printed_witness:
  "\<exists>rows pad. printSingleMonth civil_library (Calendar_new (\<lambda>less hs. insertion_sort less hs) civil_library (february_first + 3) False) =
      Some (blanks 9 @ ''month'' @ '' '' @ ''year'' @ newline @ newline @ week_header @ newline @ month_lines rows) \<and>
    concat rows = replicate 16 CHR '' '' @ month_cells civil_library (Calendar_new (\<lambda>less hs. insertion_sort less hs) civil_library (february_first + 3) False)
      2024 2 [0..<29] @ replicate pad CHR '' ''"
proof -
  let ?c = "Calendar_new (\<lambda>less hs. insertion_sort less hs) civil_library (february_first + 3) False"
  have d: "cal_currentDate ?c = date_of 2024 2 4" "\<not> cal_showHolidays ?c"
  proof -
    have "civil_date (february_first + 3) = date_of 2024 2 4" by code_simp
    then show "cal_currentDate ?c = date_of 2024 2 4" "\<not> cal_showHolidays ?c"
      by (simp_all add: Calendar_new_def civil_library_def)
  qed
  have w: "4 * month_weekday civil_library 2024 2 0 = 16" by code_simp
  have ym: "ymd_year (date_of 2024 2 4) = 2024" "ymd_month (date_of 2024 2 4) = 2" by (simp_all add: date_of_def)
  have t: "dl_month_text civil_library = (\<lambda>m. ''month'')" "dl_year_text civil_library = (\<lambda>y. ''year'')"
    by (simp_all add: civil_library_def)
  have "month_law civil_library (ymd_year (cal_currentDate ?c)) (ymd_month (cal_currentDate ?c)) 29"
    unfolding d(1) ym by (rule february_law)
  from month_printed [OF this, unfolded d(1) ym w t] d(2) show ?thesis by auto
qed

text \<open>
  C40. The date of Easter is that of the Gregorian calendar from 1900 to 2099; in the whole century after that it is
  another day, every year.
\<close>

theorem easter_gregorian:
  assumes "1900 \<le> y" "y \<le> 2199"
  shows "map_prod uint uint (easter_month_day y) = gregorian_easter y \<longleftrightarrow> y \<le> 2099"
proof -
  have "map_prod uint uint (easter_month_day y) = gregorian_easter y \<longleftrightarrow> same_easter y"
    by (simp add: same_easter_def map_prod_def case_prod_beta)
  then show ?thesis using easter_right [of y] easter_wrong [of y] assms by linarith
qed

theorem easter_gregorian_witness:
  "map_prod uint uint (easter_month_day 2024) = (3, 31) \<and>
   map_prod uint uint (easter_month_day 2100) \<noteq> gregorian_easter 2100"
proof -
  have "gregorian_easter 2024 = (3, 31)" by code_simp
  then show ?thesis using easter_gregorian [of 2024] easter_gregorian [of 2100] by simp
qed

end
