(* ===== verification/Logging.thy ===== *)
theory Logging
  imports Strings
begin

text \<open>
  src/acatl/logging.h and logging.cpp: the log levels of classes, their configuration, the text
  of an event and the macros that write events; src/acatl/types.cpp: the names of types that the macros use.
  The JSON library, the demangler of the compiler's runtime and the printing of times and
  threads are parameters. The static variables are the fields of one record, with what was written
  to syslog and to the standard error stream as the last of them.
\<close>

section \<open>Names of types\<close>

text \<open>
  \<open>abi::__cxa_demangle\<close>: a status, and a text if the status is 0. What is thrown is \<open>bad_alloc\<close> or
  \<open>runtime_error\<close>; the last character of an empty text is read out of bounds (None).
\<close>

datatype demangle_error = Bad_alloc | Runtime_error string

text \<open>\<open>while((pos = result.find(", ", pos)) != npos) result.erase(pos + 1, 1);\<close>\<close>

lemma str_find_at_bound: "str_find_at pat pos s = Some k \<Longrightarrow> pos \<le> k \<and> k + length pat \<le> pos + length s"
proof (induction s arbitrary: pos)
  case (Cons c s)
  show ?case
  proof (cases "take (length pat) (c # s) = pat")
    case True
    with Cons.prems have "k = pos" by simp
    moreover have "length (take (length pat) (c # s)) \<le> length (c # s)" by (simp add: min_def)
    with True have "length pat \<le> length (c # s)" by (simp only: True)
    ultimately show ?thesis by simp
  next
    case False
    with Cons.prems have "str_find_at pat (Suc pos) s = Some k" by simp
    from Cons.IH [OF this] show ?thesis by simp
  qed
qed (simp split: if_splits)

lemma str_find_bound: "str_find s pat pos = Some k \<Longrightarrow> pos \<le> k \<and> k + length pat \<le> length s"
  by (auto simp: str_find_def split: if_splits dest!: str_find_at_bound)

function strip_blanks :: "string \<Rightarrow> nat \<Rightarrow> string" where
  "strip_blanks result pos =
     (case str_find result '', '' pos of
        None \<Rightarrow> result
      | Some pos \<Rightarrow> strip_blanks (take (Suc pos) result @ drop (Suc (Suc pos)) result) pos)"
  by pat_completeness auto
termination
  by (relation "measure (\<lambda>(result, pos). length result)") (auto dest!: str_find_bound)

declare strip_blanks.simps [simp del]

definition demangle :: "(string \<Rightarrow> int \<times> string) \<Rightarrow> string \<Rightarrow> (demangle_error + string) option" where
  "demangle cxa_demangle s =
     (case cxa_demangle s of (status, ss) \<Rightarrow>
        if status = - 1 then Some (Inl Bad_alloc)
        else if status = - 3 then Some (Inl (Runtime_error ''__cxa_demangle returned -3''))
        else
          (let result = (if status = - 2 then s else ss) in
           if result = [] then None
           else
             (let result = (if last result = CHR ''*'' then butlast result else result)
              in Some (Inr (strip_blanks result 0)))))"


section \<open>State\<close>

datatype json_error = Json_error string

record 'j json_library =
  js_find :: "'j \<Rightarrow> string \<Rightarrow> 'j option"
  js_at :: "'j \<Rightarrow> string \<Rightarrow> json_error + 'j"
  js_elements :: "'j \<Rightarrow> 'j list"
  js_items :: "'j \<Rightarrow> ((json_error + string) \<times> 'j) list"
  js_long :: "'j \<Rightarrow> json_error + 64 word"
  js_string :: "'j \<Rightarrow> string \<Rightarrow> string \<Rightarrow> json_error + string"
  js_bool :: "'j \<Rightarrow> string \<Rightarrow> bool \<Rightarrow> json_error + bool"

datatype priority = LOG_NOTICE | LOG_ERR

datatype log_output = Syslog priority string | Stderr string

record logging =
  lg_separator :: char
  lg_classLevel :: "string \<rightharpoonup> 32 word"
  lg_initFlag :: bool
  lg_hasSyslog :: bool
  lg_facility :: "string option"
  lg_output :: "log_output list"

definition logging_start :: logging where
  "logging_start = \<lparr>lg_separator = CHR ''|'', lg_classLevel = Map.empty, lg_initFlag = False, lg_hasSyslog = False,
     lg_facility = None, lg_output = []\<rparr>"


section \<open>Initialisation\<close>

text \<open>\<open>_classLevel.emplace\<close> does not change the level of a class that has one; a \<open>long\<close> is cut to 32 bits.\<close>

definition emplace_level :: "string \<Rightarrow> 64 word \<Rightarrow> (string \<rightharpoonup> 32 word) \<Rightarrow> (string \<rightharpoonup> 32 word)" where
  "emplace_level key n levels = (if levels key = None then levels(key \<mapsto> ucast n) else levels)"

text \<open>The two loops over the level entries. \<open>True\<close>: an exception ended them.\<close>

fun add_items :: "'j json_library \<Rightarrow> ((json_error + string) \<times> 'j) list \<Rightarrow> (string \<rightharpoonup> 32 word) \<Rightarrow>
    bool \<times> (string \<rightharpoonup> 32 word)" where
  "add_items lib [] levels = (False, levels)"
| "add_items lib ((key, v) # items) levels =
     (case (key, js_long lib v) of
        (Inr key, Inr n) \<Rightarrow> add_items lib items (emplace_level key n levels)
      | _ \<Rightarrow> (True, levels))"

fun add_elements :: "'j json_library \<Rightarrow> 'j list \<Rightarrow> (string \<rightharpoonup> 32 word) \<Rightarrow> bool \<times> (string \<rightharpoonup> 32 word)" where
  "add_elements lib [] levels = (False, levels)"
| "add_elements lib (elem # elems) levels =
     (case add_items lib (js_items lib elem) levels of
        (True, levels) \<Rightarrow> (True, levels)
      | (False, levels) \<Rightarrow> add_elements lib elems levels)"

definition doInitLogging :: "'j json_library \<Rightarrow> 'j \<Rightarrow> logging \<Rightarrow> json_error option \<times> logging" where
  "doInitLogging lib config lg =
     (case js_find lib config ''log'' of
        None \<Rightarrow> (None, lg)
      | Some log \<Rightarrow>
          (let lg = (case js_at lib log ''level'' of
                 Inl e \<Rightarrow> lg
               | Inr level \<Rightarrow> lg\<lparr>lg_classLevel := snd (add_elements lib (js_elements lib level) (lg_classLevel lg))\<rparr>)
           in (case js_string lib log ''separator'' ''|'' of
                 Inl e \<Rightarrow> (Some e, lg)
               | Inr s \<Rightarrow>
                   (let lg = lg\<lparr>lg_separator := char_at s 0\<rparr>
                    in (case js_bool lib log ''syslog'' False of
                          Inl e \<Rightarrow> (Some e, lg)
                        | Inr False \<Rightarrow> (None, lg)
                        | Inr True \<Rightarrow>
                            (case js_string lib log ''facility'' ''acatl'' of
                               Inl e \<Rightarrow> (Some e, lg)
                             | Inr facility \<Rightarrow> (None, lg\<lparr>lg_hasSyslog := True, lg_facility := Some facility\<rparr>)))))))"

text \<open>\<open>std::call_once\<close> sets its flag if the function returns, and not if it throws.\<close>

definition Logging_init :: "'j json_library \<Rightarrow> 'j \<Rightarrow> bool \<Rightarrow> logging \<Rightarrow> json_error option \<times> logging" where
  "Logging_init lib json force lg =
     (if force \<or> \<not> lg_initFlag lg
      then (case doInitLogging lib json lg of
          (Some e, lg) \<Rightarrow> (Some e, lg)
        | (None, lg) \<Rightarrow> (None, lg\<lparr>lg_initFlag := True\<rparr>))
      else (None, lg))"

definition Logging_level :: "string \<Rightarrow> logging \<Rightarrow> 32 word" where
  "Logging_level classname lg = (case lg_classLevel lg classname of Some n \<Rightarrow> n | None \<Rightarrow> 0)"


section \<open>Events\<close>

record LogEvent =
  le_time :: int
  le_classname :: string
  le_category :: string
  le_line :: int
  le_file :: string
  le_message :: string
  le_tid :: nat

record log_environment =
  show_time :: "int \<Rightarrow> string"
  show_tid :: "nat \<Rightarrow> string"

definition log_text :: "log_environment \<Rightarrow> char \<Rightarrow> LogEvent \<Rightarrow> string" where
  "log_text env sep e =
     show_time env (le_time e) @ [sep] @ le_category e @ [sep] @ show_tid env (le_tid e) @ [sep] @
     (if le_classname e \<noteq> [] then le_classname e @ [sep] else []) @
     le_message e @
     (if le_file e \<noteq> [] then [sep] @ le_file e @ '':'' @ print_int (le_line e) else []) @
     [CHR 0x0A]"

definition priority_of :: "string \<Rightarrow> priority" where
  "priority_of category = (if category = ''ERROR'' then LOG_ERR else LOG_NOTICE)"

text \<open>\<open>syslog\<close> gets \<open>c_str()\<close>, so its text ends in front of a NUL character.\<close>

definition Logging_log :: "log_environment \<Rightarrow> LogEvent \<Rightarrow> logging \<Rightarrow> logging" where
  "Logging_log env event lg =
     (let text = log_text env (lg_separator lg) event
      in lg\<lparr>lg_output := lg_output lg @
           [if lg_hasSyslog lg then Syslog (priority_of (le_category event)) (takeWhile (\<lambda>c. c \<noteq> CHR 0x00) text)
            else Stderr text]\<rparr>)"

text \<open>The events of the macros, with the time and the thread of the caller.\<close>

definition info_event :: "int \<Rightarrow> nat \<Rightarrow> int \<Rightarrow> string \<Rightarrow> LogEvent" where
  "info_event now tid junk message =
     \<lparr>le_time = now, le_classname = [], le_category = ''INFO'', le_line = junk, le_file = [], le_message = message,
      le_tid = tid\<rparr>"

definition debug_event :: "int \<Rightarrow> nat \<Rightarrow> string \<Rightarrow> string \<Rightarrow> int \<Rightarrow> string \<Rightarrow> LogEvent" where
  "debug_event now tid classname file line message =
     \<lparr>le_time = now, le_classname = classname, le_category = ''DEBUG'', le_line = line, le_file = file,
      le_message = message, le_tid = tid\<rparr>"

definition error_event :: "int \<Rightarrow> nat \<Rightarrow> string \<Rightarrow> int \<Rightarrow> string \<Rightarrow> LogEvent" where
  "error_event now tid file line message =
     \<lparr>le_time = now, le_classname = [], le_category = ''ERROR'', le_line = line, le_file = file,
      le_message = message, le_tid = tid\<rparr>"

text \<open>
  A place of the program with \<open>ACATL_CLASSLOG\<close> or \<open>ACATL_DEBUGLOG\<close>: it asks for the level of its
  unit once, when it is reached for the first time. The name of the unit is that of its type with
  \<open>ACATL_CLASSLOG\<close>, and the name as it is written with \<open>ACATL_DEBUGLOG\<close>.
\<close>

record log_site =
  ls_flag :: bool
  ls_test :: bool

definition log_site_start :: log_site where
  "log_site_start = \<lparr>ls_flag = False, ls_test = False\<rparr>"

definition debug_log ::
    "log_environment \<Rightarrow> string \<Rightarrow> int \<Rightarrow> LogEvent \<Rightarrow> log_site \<times> logging \<Rightarrow> log_site \<times> logging" where
  "debug_log env unitname lvl event = (\<lambda>(site, lg).
     (let site = (if ls_flag site then site
                  else \<lparr>ls_flag = True, ls_test = (sint (Logging_level unitname lg) \<ge> lvl)\<rparr>)
      in (site, if ls_test site then Logging_log env event lg else lg)))"


section \<open>Facts\<close>

text \<open>The level entries that are read: those in front of the first that throws.\<close>

fun readable :: "'j json_library \<Rightarrow> ((json_error + string) \<times> 'j) list \<Rightarrow> (string \<times> 64 word) list" where
  "readable lib [] = []"
| "readable lib ((key, v) # items) =
     (case (key, js_long lib v) of (Inr key, Inr n) \<Rightarrow> (key, n) # readable lib items | _ \<Rightarrow> [])"

definition level_entries :: "'j json_library \<Rightarrow> 'j \<Rightarrow> (string \<times> 64 word) list" where
  "level_entries lib level = readable lib (concat (map (js_items lib) (js_elements lib level)))"

lemma add_items_levels:
  "add_items lib items levels =
     (length (readable lib items) < length items, fold (\<lambda>(key, n). emplace_level key n) (readable lib items) levels)"
proof (induction items arbitrary: levels)
  case (Cons i items)
  obtain k v where "i = (k, v)" by (cases i)
  with Cons.IH show ?case by (cases k; cases "js_long lib v") auto
qed simp

lemma readable_append:
  "readable lib (xs @ ys) = readable lib xs @ (if length (readable lib xs) < length xs then [] else readable lib ys)"
proof (induction xs)
  case (Cons x xs)
  obtain k v where "x = (k, v)" by (cases x)
  with Cons.IH show ?case by (cases k; cases "js_long lib v") auto
qed simp

lemma readable_length: "length (readable lib xs) \<le> length xs"
proof (induction xs)
  case (Cons x xs)
  obtain k v where "x = (k, v)" by (cases x)
  with Cons.IH show ?case by (cases k; cases "js_long lib v") auto
qed simp

lemma add_elements_levels:
  "snd (add_elements lib elems levels) =
     fold (\<lambda>(key, n). emplace_level key n) (readable lib (concat (map (js_items lib) elems))) levels"
proof (induction elems arbitrary: levels)
  case (Cons e es)
  then show ?case
    by (cases "length (readable lib (js_items lib e)) < length (js_items lib e)")
      (simp_all add: add_items_levels readable_append)
qed simp

lemma emplace_level_at:
  "emplace_level k n levels c = (if c = k \<and> levels k = None then Some (ucast n) else levels c)"
  by (simp add: emplace_level_def)

lemma fold_emplace:
  "fold (\<lambda>(key, n). emplace_level key n) entries levels c =
     (case levels c of Some n \<Rightarrow> Some n | None \<Rightarrow> map_option ucast (map_of entries c))"
proof (induction entries arbitrary: levels)
  case (Cons e entries)
  obtain k n where e: "e = (k, n)" by (cases e)
  have step: "fold (\<lambda>(key, n). emplace_level key n) (e # entries) levels =
      fold (\<lambda>(key, n). emplace_level key n) entries (emplace_level k n levels)" by (simp add: e)
  show ?case unfolding step Cons.IH
    by (cases "levels k"; cases "c = k"; cases "levels c") (simp_all add: e emplace_level_at)
qed (simp split: option.split)

lemma init_levels:
  assumes "doInitLogging lib config lg = (err, lg')"
  shows "lg_classLevel lg' c =
    (case lg_classLevel lg c of
       Some n \<Rightarrow> Some n
     | None \<Rightarrow>
         (case Option.bind (js_find lib config ''log'') (\<lambda>log. case js_at lib log ''level'' of Inl e \<Rightarrow> None | Inr l \<Rightarrow> Some l) of
            None \<Rightarrow> None
          | Some level \<Rightarrow> map_option ucast (map_of (level_entries lib level) c)))"
  using assms
  by (auto simp: doInitLogging_def Let_def add_elements_levels fold_emplace level_entries_def
      split: option.splits sum.splits bool.splits)

lemma doInit_keeps: "doInitLogging lib config lg = (err, lg') \<Longrightarrow> lg_output lg' = lg_output lg \<and> lg_initFlag lg' = lg_initFlag lg"
  by (auto simp: doInitLogging_def Let_def split: option.splits sum.splits bool.splits)

text \<open>Events that differ in their output only keep the configuration.\<close>

lemma log_keeps [simp]:
  "lg_separator (Logging_log env e lg) = lg_separator lg" "lg_classLevel (Logging_log env e lg) = lg_classLevel lg"
  "lg_initFlag (Logging_log env e lg) = lg_initFlag lg" "lg_hasSyslog (Logging_log env e lg) = lg_hasSyslog lg"
  "Logging_level c (Logging_log env e lg) = Logging_level c lg"
  by (simp_all add: Logging_log_def Let_def Logging_level_def)

text \<open>The fields of an event, and its line as their sequence.\<close>

definition event_fields :: "log_environment \<Rightarrow> LogEvent \<Rightarrow> string list" where
  "event_fields env e =
     [show_time env (le_time e), le_category e, show_tid env (le_tid e)] @
     (if le_classname e \<noteq> [] then [le_classname e] else []) @ [le_message e] @
     (if le_file e \<noteq> [] then [le_file e @ '':'' @ print_int (le_line e)] else [])"

lemma log_text_join: "log_text env sep e = join (event_fields env e) [sep] @ [CHR 0x0A]"
  by (simp add: log_text_def event_fields_def)

lemma log_text_split:
  assumes "\<And>f. f \<in> set (event_fields env e) \<Longrightarrow> sep \<notin> set f" "le_message e \<noteq> [] \<or> le_file e \<noteq> []"
  shows "split_string (butlast (log_text env sep e)) sep True = event_fields env e"
proof -
  have "split_string (join (event_fields env e) [sep]) sep True = event_fields env e"
    by (rule split_join) (use assms in \<open>auto simp: event_fields_def\<close>)
  then show ?thesis by (simp add: log_text_join)
qed

text \<open>The name of a type has no blank behind a comma; nothing but blanks is taken away.\<close>

definition comma_blank :: "string \<Rightarrow> nat \<Rightarrow> bool" where
  "comma_blank s i \<longleftrightarrow> Suc i < length s \<and> s ! i = CHR '','' \<and> s ! Suc i = CHR '' ''"

lemma find_comma_blank:
  "(case str_find_at '', '' pos s of
      None \<Rightarrow> \<forall>i. \<not> comma_blank s i
    | Some k \<Rightarrow> pos \<le> k \<and> comma_blank s (k - pos) \<and> (\<forall>i < k - pos. \<not> comma_blank s i))"
proof (induction s arbitrary: pos)
  case (Cons c s)
  have shift: "comma_blank (c # s) (Suc i) = comma_blank s i" for i by (simp add: comma_blank_def)
  have "take (length '', '') (c # s) = '', '' \<longleftrightarrow> comma_blank (c # s) 0"
    by (cases s) (auto simp: comma_blank_def)
  then have f: "str_find_at '', '' pos (c # s) =
      (if comma_blank (c # s) 0 then Some pos else str_find_at '', '' (Suc pos) s)"
    by (simp only: str_find_at.simps)
  show ?case
  proof (cases "comma_blank (c # s) 0")
    case True
    then show ?thesis unfolding f by simp
  next
    case n: False
    then have f: "str_find_at '', '' pos (c # s) = str_find_at '', '' (Suc pos) s" unfolding f by simp
    show ?thesis
    proof (cases "str_find_at '', '' (Suc pos) s")
      case None
      with Cons.IH [of "Suc pos"] have "\<forall>i. \<not> comma_blank s i" by simp
      with n shift have "\<not> comma_blank (c # s) i" for i by (cases i) auto
      with None show ?thesis unfolding f by simp
    next
      case (Some k)
      with Cons.IH [of "Suc pos"] have k: "Suc pos \<le> k" "comma_blank s (k - Suc pos)" "\<forall>i < k - Suc pos. \<not> comma_blank s i"
        by simp_all
      then have "comma_blank (c # s) (k - pos)" using shift [of "k - Suc pos"] by (simp add: Suc_diff_le [symmetric])
      moreover have "\<not> comma_blank (c # s) i" if "i < k - pos" for i
        using that n k(1,3) shift by (cases i) auto
      ultimately show ?thesis unfolding f Some using k(1) by simp
    qed
  qed
qed (simp add: comma_blank_def)
definition blankless :: "string \<Rightarrow> string" where
  "blankless s = filter (\<lambda>c. c \<noteq> CHR '' '') s"

lemma strip_blanks_result:
  fixes s :: string and pos :: nat
  assumes "\<And>i. i < pos \<Longrightarrow> \<not> comma_blank s i"
  shows "\<not> comma_blank (strip_blanks s pos) i"
    "blankless (strip_blanks s pos) = blankless s"
proof -
  have "\<not> comma_blank (strip_blanks s pos) i \<and>
      blankless (strip_blanks s pos) = blankless s"
    using assms
  proof (induction s pos rule: strip_blanks.induct)
    case (1 s pos)
    have drop: "comma_blank (drop pos s) j = comma_blank s (pos + j)" if "pos \<le> length s" for j
      using that by (auto simp: comma_blank_def)
    show ?case
    proof (cases "str_find s '', '' pos")
      case None
      have "\<not> comma_blank s i"
      proof (cases "i < pos")
        case False
        show ?thesis
        proof (cases "pos \<le> length s")
          case True
          with None have "str_find_at '', '' pos (drop pos s) = None" by (simp add: str_find_def)
          with find_comma_blank [where pos = pos and s = "drop pos s"] have "\<not> comma_blank (drop pos s) (i - pos)" by simp
          with drop [OF True] False show ?thesis by simp
        qed (use False in \<open>auto simp: comma_blank_def\<close>)
      qed (use "1.prems" in simp)
      with None show ?thesis by (simp add: strip_blanks.simps [of s])
    next
      case (Some k)
      let ?t = "take (Suc k) s @ drop (Suc (Suc k)) s"
      from Some have pos: "pos \<le> length s" and "str_find_at '', '' pos (drop pos s) = Some k"
        by (simp_all add: str_find_def split: if_splits)
      with find_comma_blank [where pos = pos and s = "drop pos s"]
      have k: "pos \<le> k" "comma_blank s k" "\<And>j. j < k - pos \<Longrightarrow> \<not> comma_blank s (pos + j)"
        using drop [OF pos] by auto
      have before: "\<not> comma_blank s j" if "j < k" for j
        using that "1.prems" [of j] k(3) [of "j - pos"] by (cases "j < pos") auto
      have len: "Suc k < length s" "s ! Suc k = CHR '' ''" using k(2) by (simp_all add: comma_blank_def)
      have "\<not> comma_blank ?t j" if "j < k" for j
        using before [OF that] that len by (auto simp: comma_blank_def nth_append min_def)
      note IH = "1.IH" [OF Some this]
      have "s = take (Suc k) s @ s ! Suc k # drop (Suc (Suc k)) s" using len(1) by (simp add: id_take_nth_drop)
      then have "blankless s = blankless ?t"
        using len(2) by (metis (mono_tags, lifting) blankless_def filter.simps(2) filter_append)
      with IH Some show ?thesis by (simp add: strip_blanks.simps [of s])
    qed
  qed
  then show "\<not> comma_blank (strip_blanks s pos) i"
    "blankless (strip_blanks s pos) = blankless s" by auto
qed

end
