(* ===== verification/Application.thy ===== *)
theory Application
  imports Logging Filesystem "HOL-Library.Sublist"
begin

text \<open>
  src/acatl/exception.h and exception.cpp, src/acatl_application/application.cpp and console.cpp:
  exceptions and what is logged of them, the life of an application, and the console with its
  commands. What a subclass or a command does is a parameter, and so is the library linenoise.
\<close>

section \<open>Exceptions\<close>

text \<open>
  What \<open>evaluateException\<close> tells apart. An \<open>acatl::Exception\<close> is a \<open>system_error\<close> with a place; how
  \<open>system_error\<close> builds \<open>what()\<close> of a code and a message is the standard library's part.
\<close>

datatype thrown =
    Acatl_exception (th_code: int) (th_what: string) (th_file: string) (th_line: int)
  | System_error int string
  | Std_exception string
  | Unknown_exception

definition Exception_code :: "(int \<Rightarrow> string \<Rightarrow> string) \<Rightarrow> int \<Rightarrow> string \<Rightarrow> string \<Rightarrow> int \<Rightarrow> thrown" where
  "Exception_code system_what ev message file line = Acatl_exception ev (system_what ev message) file line"

definition Exception_message :: "(int \<Rightarrow> string \<Rightarrow> string) \<Rightarrow> string \<Rightarrow> string \<Rightarrow> int \<Rightarrow> thrown" where
  "Exception_message system_what message file line = Acatl_exception 0 (system_what 0 message) file line"

definition throwSysError :: "(int \<Rightarrow> string \<Rightarrow> string) \<Rightarrow> int \<Rightarrow> string \<Rightarrow> string \<Rightarrow> int \<Rightarrow> thrown" where
  "throwSysError system_what errno error_domain file line = Exception_code system_what errno error_domain file line"

text \<open>Where and when something is logged: the time, the thread and the name of the source file.\<close>

record log_place =
  lp_environment :: log_environment
  lp_now :: int
  lp_tid :: nat
  lp_file :: string

definition exception_event :: "log_place \<Rightarrow> thrown \<Rightarrow> LogEvent" where
  "exception_event lp ex =
     (case ex of
        Acatl_exception code what file line \<Rightarrow>
          error_event (lp_now lp) (lp_tid lp) file line
            (''exception caught: '' @ ''['' @ print_int code @ ''] '' @ what)
      | System_error code what \<Rightarrow>
          error_event (lp_now lp) (lp_tid lp) (lp_file lp) 103
            (''std::system error caught: ['' @ print_int code @ ''] '' @ what)
      | Std_exception what \<Rightarrow>
          error_event (lp_now lp) (lp_tid lp) (lp_file lp) 105 (''std::exception caught: '' @ what)
      | Unknown_exception \<Rightarrow>
          error_event (lp_now lp) (lp_tid lp) (lp_file lp) 107 ''unknown exception caught'')"

definition evaluateException :: "log_place \<Rightarrow> thrown \<Rightarrow> logging \<Rightarrow> logging" where
  "evaluateException lp ex lg = Logging_log (lp_environment lp) (exception_event lp ex) lg"

definition evaluateExceptionAndThrow :: "log_place \<Rightarrow> thrown \<Rightarrow> logging \<Rightarrow> (thrown + 'a) \<times> logging" where
  "evaluateExceptionAndThrow lp ex lg = (Inl ex, evaluateException lp ex lg)"


section \<open>Effects\<close>

text \<open>
  A function that may throw and that changes a state; \<open>None\<close> is undefined behaviour, the end of the program by
  \<open>std::terminate\<close>, or a call that does not return.
\<close>

type_synonym ('s, 'a) effect = "'s \<Rightarrow> ((thrown + 'a) \<times> 's) option"

definition gives :: "'a \<Rightarrow> ('s, 'a) effect" where
  "gives x = (\<lambda>s. Some (Inr x, s))"

definition throws :: "thrown \<Rightarrow> ('s, 'a) effect" where
  "throws ex = (\<lambda>s. Some (Inl ex, s))"

definition never :: "('s, 'a) effect" where
  "never = (\<lambda>s. None)"

definition reads :: "('s \<Rightarrow> 'a) \<Rightarrow> ('s, 'a) effect" where
  "reads f = (\<lambda>s. Some (Inr (f s), s))"

definition changes :: "('s \<Rightarrow> 's) \<Rightarrow> ('s, unit) effect" where
  "changes f = (\<lambda>s. Some (Inr (), f s))"

definition then_do :: "('s, 'a) effect \<Rightarrow> ('a \<Rightarrow> ('s, 'b) effect) \<Rightarrow> ('s, 'b) effect" where
  "then_do m f = (\<lambda>s. case m s of
     None \<Rightarrow> None
   | Some (Inl ex, s) \<Rightarrow> Some (Inl ex, s)
   | Some (Inr x, s) \<Rightarrow> f x s)"

text \<open>\<open>try { m } catch(...) { handler }\<close>\<close>

definition catches :: "('s, 'a) effect \<Rightarrow> (thrown \<Rightarrow> ('s, 'a) effect) \<Rightarrow> ('s, 'a) effect" where
  "catches m handler = (\<lambda>s. case m s of
     Some (Inl ex, s) \<Rightarrow> handler ex s
   | r \<Rightarrow> r)"

lemmas effect_defs = gives_def throws_def never_def reads_def changes_def then_do_def catches_def

lemma then_do_Some:
  "then_do m f s = Some (Inr y, s'') \<longleftrightarrow> (\<exists>x s'. m s = Some (Inr x, s') \<and> f x s' = Some (Inr y, s''))"
  by (auto simp: then_do_def split: option.splits sum.splits)


section \<open>The life of an application\<close>

text \<open>
  The state of an application: that of its subclass, the logging of the process, and for reference the calls of the
  virtual functions and the exceptions that were caught. The place of the log entries is a function of the state,
  because time goes by.
\<close>

datatype virtual_call = SetUp "string list" | DoRun | TearDown int

record 's process =
  ap_state :: 's
  ap_logging :: logging
  ap_calls :: "virtual_call list"
  ap_caught :: "thrown list"

record 's virtuals =
  v_setUp :: "string list \<Rightarrow> ('s process, bool) effect"
  v_doRun :: "('s process, int) effect"
  v_tearDown :: "int \<Rightarrow> ('s process, unit) effect"

definition evaluate :: "('s process \<Rightarrow> log_place) \<Rightarrow> thrown \<Rightarrow> 's process \<Rightarrow> 's process" where
  "evaluate place ex p =
     p\<lparr>ap_logging := evaluateException (place p) ex (ap_logging p), ap_caught := ap_caught p @ [ex]\<rparr>"

definition called :: "virtual_call \<Rightarrow> ('s process, 'a) effect \<Rightarrow> ('s process, 'a) effect" where
  "called c m = (\<lambda>p. m (p\<lparr>ap_calls := ap_calls p @ [c]\<rparr>))"

text \<open>
  The body of \<open>run\<close>; \<open>ret\<close> is a variable outside of both \<open>try\<close> blocks, so the outer handler gives what
  \<open>doRun\<close> had set it to.
\<close>

definition Application_run :: "('s process \<Rightarrow> log_place) \<Rightarrow> 's virtuals \<Rightarrow> string list \<Rightarrow> ('s process, int) effect" where
  "Application_run place v argv =
     catches
       (then_do (called (SetUp argv) (v_setUp v argv)) (\<lambda>go_on.
          if \<not> go_on then gives (- 1)
          else
            then_do (catches (called DoRun (v_doRun v)) (\<lambda>ex. then_do (changes (evaluate place ex)) (\<lambda>_. gives (- 1))))
              (\<lambda>ret.
                 catches (then_do (called (TearDown ret) (v_tearDown v ret)) (\<lambda>_. gives ret))
                   (\<lambda>ex. then_do (changes (evaluate place ex)) (\<lambda>_. gives ret)))))
       (\<lambda>ex. then_do (changes (evaluate place ex)) (\<lambda>_. gives (- 1)))"


section \<open>The console\<close>

record 'w linenoise =
  ln_read :: "string \<Rightarrow> 'w \<Rightarrow> string option \<times> 'w"
  ln_history_add :: "string \<Rightarrow> 'w \<Rightarrow> 'w"
  ln_history_load :: "path \<Rightarrow> 'w \<Rightarrow> 'w"
  ln_history_save :: "path \<Rightarrow> 'w \<Rightarrow> 'w"
  ln_history_free :: "'w \<Rightarrow> 'w"

text \<open>Commands are functions; the console holds references to them, of type \<open>'c\<close>.\<close>

record ('c, 'w) Console =
  cn_historyPath :: path
  cn_commands :: "string \<rightharpoonup> 'c"
  cn_defaultCommand :: "'c option"
  cn_prompt :: string
  cn_stop :: bool
  cn_world :: 'w

record ('c, 'w) commands =
  cm_command :: "'c \<Rightarrow> string list \<Rightarrow> (('c, 'w) Console, bool) effect"
  cm_default :: "'c \<Rightarrow> string \<Rightarrow> (('c, 'w) Console, bool) effect"

definition Console_new :: "'w linenoise \<Rightarrow> string \<Rightarrow> path \<Rightarrow> 'w \<Rightarrow> ('c, 'w) Console" where
  "Console_new ln prompt historyPath w =
     \<lparr>cn_historyPath = historyPath, cn_commands = Map.empty, cn_defaultCommand = None, cn_prompt = prompt,
      cn_stop = False, cn_world = ln_history_load ln historyPath w\<rparr>"

definition Console_destroy :: "'w linenoise \<Rightarrow> ('c, 'w) Console \<Rightarrow> 'w" where
  "Console_destroy ln cn = ln_history_save ln (cn_historyPath cn) (cn_world cn)"

definition Console_stop :: "('c, 'w) Console \<Rightarrow> ('c, 'w) Console" where
  "Console_stop cn = cn\<lparr>cn_stop := True\<rparr>"

text \<open>\<open>insert\<close> does not replace the command that a name has.\<close>

definition addCommand :: "string \<Rightarrow> 'c \<Rightarrow> ('c, 'w) Console \<Rightarrow> ('c, 'w) Console" where
  "addCommand command function cn =
     (if cn_commands cn (tolower_copy command) = None
      then cn\<lparr>cn_commands := (cn_commands cn)(tolower_copy command \<mapsto> function)\<rparr> else cn)"

definition addDefault :: "'c \<Rightarrow> ('c, 'w) Console \<Rightarrow> ('c, 'w) Console" where
  "addDefault function cn = cn\<lparr>cn_defaultCommand := Some function\<rparr>"

definition clearHistory :: "'w linenoise \<Rightarrow> ('c, 'w) Console \<Rightarrow> ('c, 'w) Console" where
  "clearHistory ln cn = cn\<lparr>cn_world := ln_history_free ln (cn_world cn)\<rparr>"

text \<open>\<open>if(function(...)) { linenoiseHistoryAdd(line.c_str()); }\<close>\<close>

definition add_if_done :: "'w linenoise \<Rightarrow> string \<Rightarrow> (('c, 'w) Console, bool) effect \<Rightarrow> (('c, 'w) Console, unit) effect" where
  "add_if_done ln line m =
     then_do m (\<lambda>b. changes (\<lambda>cn. if b then cn\<lparr>cn_world := ln_history_add ln line (cn_world cn)\<rparr> else cn))"

definition console_line :: "'w linenoise \<Rightarrow> ('c, 'w) commands \<Rightarrow> string \<Rightarrow> (('c, 'w) Console, unit) effect" where
  "console_line ln cm line cn =
     (case split_string line (CHR '' '') False of
        [] \<Rightarrow> gives () cn
      | command # params \<Rightarrow>
          (case cn_commands cn (tolower_copy command) of
             Some c \<Rightarrow> add_if_done ln line (cm_command cm c params) cn
           | None \<Rightarrow>
               (case cn_defaultCommand cn of
                  Some c \<Rightarrow> add_if_done ln line (cm_default cm c line) cn
                | None \<Rightarrow> gives () cn)))"

partial_function (option) Console_run ::
    "'w linenoise \<Rightarrow> ('c, 'w) commands \<Rightarrow> ('c, 'w) Console \<Rightarrow> ((thrown + unit) \<times> ('c, 'w) Console) option" where
  "Console_run ln cm cn =
     (if cn_stop cn then Some (Inr (), cn)
      else
        (case ln_read ln (cn_prompt cn) (cn_world cn) of
           (None, w) \<Rightarrow> Some (Inr (), cn\<lparr>cn_world := w\<rparr>)
         | (Some line, w) \<Rightarrow>
             (case console_line ln cm line (cn\<lparr>cn_world := w\<rparr>) of
                None \<Rightarrow> None
              | Some (Inl ex, cn) \<Rightarrow> Some (Inl ex, cn)
              | Some (Inr _, cn) \<Rightarrow> Console_run ln cm cn)))"


section \<open>Facts\<close>

text \<open>
  What the virtual functions may do: the records of calls and of caught exceptions are not theirs, and they only add
  to the output of the log.
\<close>

definition own_calls :: "('s process, 'a) effect \<Rightarrow> bool" where
  "own_calls m \<longleftrightarrow> (\<forall>p r p'. m p = Some (r, p') \<longrightarrow>
     ap_calls p' = ap_calls p \<and> ap_caught p' = ap_caught p \<and>
     prefix (lg_output (ap_logging p)) (lg_output (ap_logging p')))"

definition own_virtuals :: "'s virtuals \<Rightarrow> bool" where
  "own_virtuals v \<longleftrightarrow> (\<forall>args. own_calls (v_setUp v args)) \<and> own_calls (v_doRun v) \<and> (\<forall>n. own_calls (v_tearDown v n))"

definition reports :: "thrown \<Rightarrow> log_output \<Rightarrow> bool" where
  "reports ex out \<longleftrightarrow> (\<exists>lp lg. lg_output (evaluateException lp ex lg) = lg_output lg @ [out])"

definition all_reported :: "'s process \<Rightarrow> bool" where
  "all_reported p \<longleftrightarrow> (\<exists>outs. list_all2 reports (ap_caught p) outs \<and> subseq outs (lg_output (ap_logging p)))"

lemma evaluate_reported: "all_reported p \<Longrightarrow> all_reported (evaluate place ex p)"
proof -
  assume "all_reported p"
  then obtain outs where o: "list_all2 reports (ap_caught p) outs" "subseq outs (lg_output (ap_logging p))"
    by (auto simp: all_reported_def)
  obtain out where out: "lg_output (evaluateException (place p) ex (ap_logging p)) = lg_output (ap_logging p) @ [out]"
    by (simp add: evaluateException_def Logging_log_def Let_def)
  then have "reports ex out" by (auto simp: reports_def)
  with o out show ?thesis
    by (auto simp: all_reported_def evaluate_def intro!: exI [of _ "outs @ [out]"] list_all2_appendI list_emb_append_mono)
qed

lemma called_own:
  assumes "own_calls m" "called c m p = Some (r, p')" "all_reported p"
  shows "ap_calls p' = ap_calls p @ [c]" "ap_caught p' = ap_caught p" "all_reported p'"
proof -
  from assms(1,2) have o: "ap_calls p' = ap_calls p @ [c]" "ap_caught p' = ap_caught p"
    "prefix (lg_output (ap_logging p)) (lg_output (ap_logging p'))" by (fastforce simp: own_calls_def called_def)+
  then show "ap_calls p' = ap_calls p @ [c]" "ap_caught p' = ap_caught p" by simp_all
  from o(3) obtain more where "lg_output (ap_logging p') = lg_output (ap_logging p) @ more" by (auto simp: prefix_def)
  with o(2) assms(3) show "all_reported p'"
    by (fastforce simp: all_reported_def intro: list_emb_prefix)
qed

lemma evaluate_keeps [simp]: "ap_calls (evaluate place ex p) = ap_calls p" "ap_caught (evaluate place ex p) = ap_caught p @ [ex]"
  by (simp_all add: evaluate_def)

lemma life:
  assumes "own_virtuals v" "Application_run place v argv p = Some (r, p')" "ap_calls p = []" "all_reported p"
  shows "all_reported p' \<and> (\<exists>ret. r = Inr ret \<and>
    (ret = - 1 \<and> ap_calls p' = [SetUp argv] \<or> ap_calls p' = [SetUp argv, DoRun, TearDown ret]))"
proof -
  have own: "own_calls (v_setUp v argv)" "own_calls (v_doRun v)" "\<And>n. own_calls (v_tearDown v n)"
    using assms(1) by (simp_all add: own_virtuals_def)
  obtain r1 p1 where s: "called (SetUp argv) (v_setUp v argv) p = Some (r1, p1)"
    using assms(2) by (auto simp: Application_run_def effect_defs split: option.splits)
  note c1 = called_own [OF own(1) s assms(4)]
  show ?thesis
  proof (cases "r1 = Inr True")
    case False
    with assms(2,3) s c1 show ?thesis
      by (cases r1) (auto simp: Application_run_def effect_defs evaluate_reported)
  next
    case True
    obtain r2 p2 where d: "called DoRun (v_doRun v) p1 = Some (r2, p2)"
      using assms(2) s True by (auto simp: Application_run_def effect_defs split: option.splits)
    note c2 = called_own [OF own(2) d c1(3)]
    obtain ret p3 where p3: "(case r2 of Inl ex \<Rightarrow> (- 1, evaluate place ex p2) | Inr ret \<Rightarrow> (ret, p2)) = (ret, p3)" by fastforce
    then have c3: "ap_calls p3 = [SetUp argv, DoRun]" "all_reported p3"
      using c1(1) c2(1,3) assms(3) by (auto split: sum.splits simp: evaluate_reported)
    have run: "Application_run place v argv p = catches (then_do (called (TearDown ret) (v_tearDown v ret)) (\<lambda>_. gives ret))
                   (\<lambda>ex. then_do (changes (evaluate place ex)) (\<lambda>_. gives ret)) p3"
      using s True d p3 by (cases r2) (auto simp: Application_run_def effect_defs split: option.splits sum.splits)
    obtain r4 p4 where t: "called (TearDown ret) (v_tearDown v ret) p3 = Some (r4, p4)"
      using assms(2) unfolding run by (auto simp: effect_defs split: option.splits)
    note c4 = called_own [OF own(3) t c3(2)]
    show ?thesis
      using assms(2) t c4 c3(1) unfolding run by (cases r4) (auto simp: effect_defs evaluate_reported)
  qed
qed


section \<open>Sessions with the console\<close>

text \<open>
  A view of the world: the lines that the user is going to type, the calls of commands, and the lines that were added to
  the history. Commands that are watched by it neither throw nor change the console, and what they answer depends
  on the call only.
\<close>

datatype 'c invocation = Command 'c "string list" | Default 'c string

record ('c, 'w) view =
  vw_input :: "'w \<Rightarrow> string list"
  vw_calls :: "'w \<Rightarrow> 'c invocation list"
  vw_added :: "'w \<Rightarrow> string list"
  vw_answers :: "'c invocation \<Rightarrow> bool"

definition reads_lines :: "'w linenoise \<Rightarrow> ('c, 'w) view \<Rightarrow> bool" where
  "reads_lines ln vw \<longleftrightarrow> (\<forall>prompt w.
     fst (ln_read ln prompt w) = (case vw_input vw w of [] \<Rightarrow> None | l # ls \<Rightarrow> Some l) \<and>
     vw_input vw (snd (ln_read ln prompt w)) = tl (vw_input vw w) \<and>
     vw_calls vw (snd (ln_read ln prompt w)) = vw_calls vw w \<and> vw_added vw (snd (ln_read ln prompt w)) = vw_added vw w)"

definition adds_history :: "'w linenoise \<Rightarrow> ('c, 'w) view \<Rightarrow> bool" where
  "adds_history ln vw \<longleftrightarrow> (\<forall>l w. vw_input vw (ln_history_add ln l w) = vw_input vw w \<and>
     vw_calls vw (ln_history_add ln l w) = vw_calls vw w \<and> vw_added vw (ln_history_add ln l w) = vw_added vw w @ [l])"

definition watched_call :: "('c, 'w) view \<Rightarrow> 'c invocation \<Rightarrow> (('c, 'w) Console, bool) effect \<Rightarrow> bool" where
  "watched_call vw i m \<longleftrightarrow> (\<forall>cn. \<exists>w. m cn = Some (Inr (vw_answers vw i), cn\<lparr>cn_world := w\<rparr>) \<and>
     vw_input vw w = vw_input vw (cn_world cn) \<and> vw_calls vw w = vw_calls vw (cn_world cn) @ [i] \<and>
     vw_added vw w = vw_added vw (cn_world cn))"

definition watched :: "'w linenoise \<Rightarrow> ('c, 'w) commands \<Rightarrow> ('c, 'w) view \<Rightarrow> bool" where
  "watched ln cm vw \<longleftrightarrow> reads_lines ln vw \<and> adds_history ln vw \<and>
     (\<forall>c params. watched_call vw (Command c params) (cm_command cm c params)) \<and>
     (\<forall>c line. watched_call vw (Default c line) (cm_default cm c line))"

text \<open>What a line makes the console call, with the commands by name.\<close>

definition invocations :: "(string \<rightharpoonup> 'c) \<Rightarrow> 'c option \<Rightarrow> string \<Rightarrow> 'c invocation list" where
  "invocations commands dflt line =
     (case split_string line (CHR '' '') False of
        [] \<Rightarrow> []
      | w # ws \<Rightarrow>
          (case commands (tolower_copy w) of
             Some c \<Rightarrow> [Command c ws]
           | None \<Rightarrow> (case dflt of Some c \<Rightarrow> [Default c line] | None \<Rightarrow> [])))"

lemma add_if_done_watched:
  assumes "adds_history ln vw" "watched_call vw i m"
  shows "\<exists>w. add_if_done ln line m cn = Some (Inr (), cn\<lparr>cn_world := w\<rparr>) \<and>
    vw_input vw w = vw_input vw (cn_world cn) \<and> vw_calls vw w = vw_calls vw (cn_world cn) @ [i] \<and>
    vw_added vw w = vw_added vw (cn_world cn) @ (if vw_answers vw i then [line] else [])"
proof -
  from assms(2) obtain w where w: "m cn = Some (Inr (vw_answers vw i), cn\<lparr>cn_world := w\<rparr>)"
    "vw_input vw w = vw_input vw (cn_world cn)" "vw_calls vw w = vw_calls vw (cn_world cn) @ [i]"
    "vw_added vw w = vw_added vw (cn_world cn)" unfolding watched_call_def by blast
  let ?w = "if vw_answers vw i then ln_history_add ln line w else w"
  have "add_if_done ln line m cn = Some (Inr (), cn\<lparr>cn_world := ?w\<rparr>)"
    using w(1) by (simp add: add_if_done_def effect_defs)
  with w(2-4) assms(1) show ?thesis by (intro exI [of _ ?w]) (simp add: adds_history_def)
qed

lemma console_line_watched:
  assumes "watched ln cm vw"
  shows "\<exists>w. console_line ln cm line cn = Some (Inr (), cn\<lparr>cn_world := w\<rparr>) \<and> vw_input vw w = vw_input vw (cn_world cn) \<and>
    vw_calls vw w = vw_calls vw (cn_world cn) @ invocations (cn_commands cn) (cn_defaultCommand cn) line \<and>
    vw_added vw w = vw_added vw (cn_world cn) @
      (if list_ex (vw_answers vw) (invocations (cn_commands cn) (cn_defaultCommand cn) line) then [line] else [])"
proof -
  have h: "adds_history ln vw" "\<And>c params. watched_call vw (Command c params) (cm_command cm c params)"
    "\<And>c line. watched_call vw (Default c line) (cm_default cm c line)" using assms by (simp_all add: watched_def)
  have idle: "cn = cn\<lparr>cn_world := cn_world cn\<rparr>" by simp
  show ?thesis
  proof (cases "split_string line (CHR '' '') False")
    case Nil
    then show ?thesis by (intro exI [of _ "cn_world cn"]) (simp add: console_line_def invocations_def effect_defs)
  next
    case (Cons word ws)
    show ?thesis
    proof (cases "cn_commands cn (tolower_copy word)")
      case (Some c)
      with Cons add_if_done_watched [OF h(1) h(2) [of c ws], of line cn] show ?thesis
        by (simp add: console_line_def invocations_def)
    next
      case None
      show ?thesis
      proof (cases "cn_defaultCommand cn")
        case None
        with Cons \<open>cn_commands cn (tolower_copy word) = None\<close> show ?thesis
          by (intro exI [of _ "cn_world cn"]) (simp add: console_line_def invocations_def effect_defs)
      next
        case (Some c)
        with Cons None add_if_done_watched [OF h(1) h(3) [of c line], of line cn] show ?thesis
          by (simp add: console_line_def invocations_def)
      qed
    qed
  qed
qed

lemma session:
  assumes "watched ln cm vw" "\<not> cn_stop cn"
  shows "\<exists>cn'. Console_run ln cm cn = Some (Inr (), cn') \<and>
    vw_calls vw (cn_world cn') = vw_calls vw (cn_world cn) @
      concat (map (invocations (cn_commands cn) (cn_defaultCommand cn)) (vw_input vw (cn_world cn))) \<and>
    vw_added vw (cn_world cn') = vw_added vw (cn_world cn) @
      [line \<leftarrow> vw_input vw (cn_world cn).
        list_ex (vw_answers vw) (invocations (cn_commands cn) (cn_defaultCommand cn) line)]"
  using assms(2)
proof (induction "vw_input vw (cn_world cn)" arbitrary: cn)
  case Nil
  have "reads_lines ln vw" using assms(1) by (simp add: watched_def)
  then have r: "fst (ln_read ln (cn_prompt cn) (cn_world cn)) = None"
    "vw_calls vw (snd (ln_read ln (cn_prompt cn) (cn_world cn))) = vw_calls vw (cn_world cn)"
    "vw_added vw (snd (ln_read ln (cn_prompt cn) (cn_world cn))) = vw_added vw (cn_world cn)"
    using Nil(1) by (simp_all add: reads_lines_def split: list.splits)
  then obtain w where "ln_read ln (cn_prompt cn) (cn_world cn) = (None, w)" by (metis prod.collapse)
  with r Nil show ?case by (subst Console_run.simps) simp
next
  case (Cons l ls)
  have "reads_lines ln vw" using assms(1) by (simp add: watched_def)
  then obtain w where r: "ln_read ln (cn_prompt cn) (cn_world cn) = (Some l, w)" "vw_input vw w = ls"
    "vw_calls vw w = vw_calls vw (cn_world cn)" "vw_added vw w = vw_added vw (cn_world cn)"
    using Cons(2) [symmetric] unfolding reads_lines_def
    by (metis list.sel(3) list.simps(5) prod.collapse)
  from console_line_watched [OF assms(1), of l "cn\<lparr>cn_world := w\<rparr>"]
  obtain w' where w': "console_line ln cm l (cn\<lparr>cn_world := w\<rparr>) = Some (Inr (), cn\<lparr>cn_world := w'\<rparr>)"
    "vw_input vw w' = ls"
    "vw_calls vw w' = vw_calls vw (cn_world cn) @ invocations (cn_commands cn) (cn_defaultCommand cn) l"
    "vw_added vw w' = vw_added vw (cn_world cn) @
      (if list_ex (vw_answers vw) (invocations (cn_commands cn) (cn_defaultCommand cn) l) then [l] else [])"
    using r by auto
  have "Console_run ln cm cn = Console_run ln cm (cn\<lparr>cn_world := w'\<rparr>)"
    using r(1) w'(1) Cons(3) by (subst Console_run.simps) simp
  with Cons(1) [of "cn\<lparr>cn_world := w'\<rparr>"] w'(2-4) Cons(2) [symmetric] Cons(3) show ?case
    by (cases "list_ex (vw_answers vw) (invocations (cn_commands cn) (cn_defaultCommand cn) l)") simp_all
qed

text \<open>The first command that is registered under a name, in whatever case, has it.\<close>

definition register_all :: "(string \<times> 'c) list \<Rightarrow> ('c, 'w) Console \<Rightarrow> ('c, 'w) Console" where
  "register_all regs cn = fold (\<lambda>(name, c). addCommand name c) regs cn"

lemma register_all_commands:
  "register_all regs cn = cn\<lparr>cn_commands := map_of (map (\<lambda>(name, c). (tolower_copy name, c)) regs) ++ cn_commands cn\<rparr>"
proof (induction regs arbitrary: cn)
  case (Cons r regs)
  obtain name c where r: "r = (name, c)" by (cases r)
  let ?k = "tolower_copy name" and ?m = "map_of (map (\<lambda>(name, c). (tolower_copy name, c)) regs)"
  have "register_all (r # regs) cn = register_all regs (addCommand name c cn)" by (simp add: register_all_def r)
  also have "\<dots> = (addCommand name c cn)\<lparr>cn_commands := ?m ++ cn_commands (addCommand name c cn)\<rparr>" by (rule Cons.IH)
  also have "\<dots> = cn\<lparr>cn_commands := ?m(?k \<mapsto> c) ++ cn_commands cn\<rparr>"
  proof (cases "cn_commands cn ?k")
    case None
    then have "?m ++ (cn_commands cn)(?k \<mapsto> c) = ?m(?k \<mapsto> c) ++ cn_commands cn"
      by (auto simp: fun_eq_iff map_add_def split: option.split)
    with None show ?thesis by (simp add: addCommand_def)
  next
    case (Some d)
    then have "?m ++ cn_commands cn = ?m(?k \<mapsto> c) ++ cn_commands cn"
      by (auto simp: fun_eq_iff map_add_def split: option.split)
    with Some show ?thesis by (simp add: addCommand_def)
  qed
  finally show ?case by (simp only: r list.map prod.case map_of.simps fst_conv snd_conv)
qed (simp add: register_all_def)

end
