(* ===== verification/Server_Application.thy ===== *)
theory Server_Application
  imports Application Command_Line Http_Server
begin

text \<open>
  The programs src/examples/http_server/main.cpp and src/examples/mqtt_broker/main.cpp: their options, their
  configuration files, and what they listen on. They are subclasses of \<open>Application\<close>. The
  platform is a parameter: the command line library, the operating system, files, JSON, TLS
  certificates, sockets and the event loop. The texts of \<open>usage\<close> and of the errors of the command
  line, which go to the standard error stream, are left out.
\<close>

section \<open>The platform\<close>

record ('j, 'w) platform =
  pf_argtable :: argtable
  pf_grows :: "nat \<Rightarrow> bool"
  pf_option_place :: "bad_option \<Rightarrow> string \<times> int"
  pf_number_what :: "number_error \<Rightarrow> string"
  pf_system_what :: "int \<Rightarrow> string \<Rightarrow> string"
  pf_filesystem_thrown :: "filesystem_error \<Rightarrow> thrown"
  pf_os :: "'w os"
  pf_reader :: "'w file_reader"
  pf_parse :: "string \<Rightarrow> json_error + 'j"
  pf_empty :: "'j"
  pf_json :: "'j json_library"
  pf_u16 :: "'j \<Rightarrow> string \<Rightarrow> u16 \<Rightarrow> json_error + u16"
  pf_hostname :: string
  pf_concurrency :: u32
  pf_certificate :: "path \<Rightarrow> path \<Rightarrow> 'w \<Rightarrow> thrown option"
  pf_listen :: "string \<Rightarrow> u16 \<Rightarrow> 'w \<Rightarrow> thrown option"
  pf_run :: "nat \<Rightarrow> 'w \<Rightarrow> 'w option"
  pf_place :: "int \<Rightarrow> string \<times> int"

text \<open>
  What both programs keep: the world, and for reference what they listen on: whether with TLS, the host and
  the port.
\<close>

record 'w served =
  wo_listening :: "(bool \<times> string \<times> u16) list"
  wo_world :: 'w

text \<open>What the functions of other parts return, as effects.\<close>

definition option_effect :: "('j, 'w) platform \<Rightarrow> (bad_option + 'a) option \<Rightarrow> ('s, 'a) effect" where
  "option_effect pf r =
     (case r of
        None \<Rightarrow> never
      | Some (Inl (BadOption message)) \<Rightarrow>
          (case pf_option_place pf (BadOption message) of
             (file, line) \<Rightarrow> throws (Exception_message (pf_system_what pf) message file line))
      | Some (Inr x) \<Rightarrow> gives x)"

definition number_effect :: "('j, 'w) platform \<Rightarrow> number_error + 'a \<Rightarrow> ('s, 'a) effect" where
  "number_effect pf r = (case r of Inl e \<Rightarrow> throws (Std_exception (pf_number_what pf e)) | Inr n \<Rightarrow> gives n)"

definition json_effect :: "json_error + 'a \<Rightarrow> ('s, 'a) effect" where
  "json_effect r = (case r of Inl (Json_error what) \<Rightarrow> throws (Std_exception what) | Inr x \<Rightarrow> gives x)"

text \<open>A file system action with an error code of its own.\<close>

definition file_effect :: "('j, 'w) platform \<Rightarrow> ('w, 'a) action \<Rightarrow> (('w, 'm) served_scheme process, 'a \<times> error_code) effect" where
  "file_effect pf m = (\<lambda>p.
     (case m (Cleared, wo_world (ap_state p)) of
        (Value x, ec, w) \<Rightarrow> Some (Inr (x, ec), p\<lparr>ap_state := (ap_state p)\<lparr>wo_world := w\<rparr>\<rparr>)
      | (Abrupt (Throw e), ec, w) \<Rightarrow> Some (Inl (pf_filesystem_thrown pf e), p\<lparr>ap_state := (ap_state p)\<lparr>wo_world := w\<rparr>\<rparr>)
      | (Abrupt _, _) \<Rightarrow> None))"

definition listen_on :: "('j, 'w) platform \<Rightarrow> bool \<Rightarrow> string \<Rightarrow> u16 \<Rightarrow> (('w, 'm) served_scheme process, unit) effect" where
  "listen_on pf tls host port = (\<lambda>p.
     (case pf_listen pf host port (wo_world (ap_state p)) of
        Some ex \<Rightarrow> Some (Inl ex, p)
      | None \<Rightarrow> Some (Inr (), p\<lparr>ap_state := (ap_state p)\<lparr>wo_listening := wo_listening (ap_state p) @ [(tls, host, port)]\<rparr>\<rparr>)))"

text \<open>The event loop runs until a signal stops it; it has as many threads as the pool has contexts.\<close>

definition run_pool :: "('j, 'w) platform \<Rightarrow> u32 \<Rightarrow> (('w, 'm) served_scheme process, int) effect" where
  "run_pool pf n = (\<lambda>p.
     (case pf_run pf (unat n) (wo_world (ap_state p)) of
        None \<Rightarrow> None
      | Some w \<Rightarrow> Some (Inr 0, p\<lparr>ap_state := (ap_state p)\<lparr>wo_world := w\<rparr>\<rparr>)))"

text \<open>\<open>ACATL_THROW(ConfigurationException, ...)\<close> in main.cpp, at the line that is given.\<close>

definition configuration_error :: "('j, 'w) platform \<Rightarrow> string \<Rightarrow> int \<Rightarrow> ('s, 'a) effect" where
  "configuration_error pf message n =
     (case pf_place pf n of (file, line) \<Rightarrow> throws (Exception_message (pf_system_what pf) message file line))"


section \<open>Options\<close>

text \<open>\<open>count(name) > 0\<close> and \<open>option(name).value<T>()\<close>.\<close>

definition given :: "('j, 'w) platform \<Rightarrow> CommandLineOptions \<times> cl_store \<Rightarrow> string \<Rightarrow> ('s, bool) effect" where
  "given pf cl name = then_do (option_effect pf (CommandLineOptions_count (fst cl) name (snd cl))) (\<lambda>n. gives (n > 0))"

definition option_value :: "('j, 'w) platform \<Rightarrow> CommandLineOptions \<times> cl_store \<Rightarrow> string \<Rightarrow> ('s, string) effect" where
  "option_value pf cl name =
     then_do (option_effect pf (CommandLineOptions_option (fst cl) name (snd cl))) (\<lambda>i.
       option_effect pf (OptionWrapper_value i 0 (snd cl)))"

definition override ::
    "('j, 'w) platform \<Rightarrow> CommandLineOptions \<times> cl_store \<Rightarrow> string \<Rightarrow> (string \<Rightarrow> ('s, unit) effect) \<Rightarrow> ('s, unit) effect" where
  "override pf cl name use =
     then_do (given pf cl name) (\<lambda>g. if g then then_do (option_value pf cl name) use else gives ())"

fun declare_options :: "(cl_store \<Rightarrow> nat \<times> cl_store) list \<Rightarrow> cl_store \<Rightarrow> nat list \<times> cl_store" where
  "declare_options [] st = ([], st)"
| "declare_options (new # news) st =
     (case new st of (i, st) \<Rightarrow> (case declare_options news st of (is, st) \<Rightarrow> (i # is, st)))"

definition help_options :: "(cl_store \<Rightarrow> nat \<times> cl_store) list" where
  "help_options = [Option_literal_bounds '''' ''help'' 1 1 ''display this help and exit'']"

definition server_options :: "(cl_store \<Rightarrow> nat \<times> cl_store) list" where
  "server_options =
     [Option_typed_bounds ''p'' ''port'' ''<PORT>'' 0 1 ''http port to connect to'',
      Option_typed_bounds ''s'' ''secure-port'' ''<PORT>'' 0 1 ''https port to connect to'',
      Option_typed_bounds ''h'' ''host'' ''<HOST>'' 0 1 ''host'',
      Option_typed_bounds ''d'' ''doc-root-path'' ''<PATH>'' 0 1 ''document root path'',
      Option_typed_bounds '''' ''ca-path'' ''<PATH>'' 0 1 ''path to ca store'',
      Option_typed_bounds '''' ''cert-path'' ''<PATH>'' 0 1 ''path to cert file'',
      Option_typed_bounds ''c'' ''config-path'' ''<PATH>'' 0 1 ''path to config file'',
      Option_typed_bounds ''n'' ''threads'' ''<NUMBER>'' 0 1 ''number of threads to spawn'']"

text \<open>The temporary groups are destroyed at the end of the declaration.\<close>

definition http_options :: "argtable \<Rightarrow> (nat \<Rightarrow> bool) \<Rightarrow> CommandLineOptions \<times> cl_store" where
  "http_options at grows =
     (case declare_options help_options \<lparr>cs_options = [], cs_args = []\<rparr> of (is, st) \<Rightarrow>
      case OptionGroup_new at ''Help'' is st of (help, st) \<Rightarrow>
      case declare_options server_options st of (is, st) \<Rightarrow>
      case OptionGroup_new at ''Options'' is st of (options, st) \<Rightarrow>
      case CommandLineOptions_new at grows ''http_server'' [help, options] st of (c, st) \<Rightarrow>
        (c, fold OptionGroup_destroy [help, options] st))"


section \<open>The HTTP server\<close>

record ServerConfig =
  sc_enable :: bool
  sc_host :: string
  sc_port :: u16

record SecureServerConfig = ServerConfig +
  sc_caFilePath :: path
  sc_keyFilePath :: path
  sc_caCertFilePath :: path
  sc_noVerify :: bool

record 'w http_application = "'w served" +
  ha_secureConfig :: SecureServerConfig
  ha_config :: ServerConfig
  ha_numThreads :: u32
  ha_httpConfig :: HttpConfig

text \<open>The constructor, as on other systems than macOS.\<close>

definition HttpServer_new :: "'w \<Rightarrow> 'w http_application" where
  "HttpServer_new w =
     \<lparr>wo_listening = [], wo_world = w, ha_secureConfig = \<lparr>sc_enable = True, sc_host = ''127.0.0.1'', sc_port = 8443, sc_caFilePath = [],
        sc_keyFilePath = ''./certs/key.pem'', sc_caCertFilePath = ''./certs/server.pem'', sc_noVerify = False\<rparr>,
      ha_config = \<lparr>sc_enable = True, sc_host = ''127.0.0.1'', sc_port = 8080\<rparr>,
      ha_numThreads = 1, ha_httpConfig = \<lparr>cf_rootPath = [], cf_domain = []\<rparr>\<rparr>"

definition http_change :: "('w http_application \<Rightarrow> 'w http_application) \<Rightarrow> ('w http_application process, unit) effect" where
  "http_change f = changes (\<lambda>p. p\<lparr>ap_state := f (ap_state p)\<rparr>)"

abbreviation set_root :: "path \<Rightarrow> 'w http_application \<Rightarrow> 'w http_application" where
  "set_root r a \<equiv> a\<lparr>ha_httpConfig := (ha_httpConfig a)\<lparr>cf_rootPath := r\<rparr>\<rparr>"

abbreviation set_plain :: "(ServerConfig \<Rightarrow> ServerConfig) \<Rightarrow> 'w http_application \<Rightarrow> 'w http_application" where
  "set_plain f a \<equiv> a\<lparr>ha_config := f (ha_config a)\<rparr>"

abbreviation set_secure :: "(SecureServerConfig \<Rightarrow> SecureServerConfig) \<Rightarrow> 'w http_application \<Rightarrow> 'w http_application" where
  "set_secure f a \<equiv> a\<lparr>ha_secureConfig := f (ha_secureConfig a)\<rparr>"

definition config_path ::
    "('j, 'w) platform \<Rightarrow> CommandLineOptions \<times> cl_store \<Rightarrow> string list \<Rightarrow> ('w http_application process, path) effect" where
  "config_path pf cl args =
     then_do (file_effect pf (and_then (current_path (pf_os pf)) (absolute_action (pf_os pf) (args ! 0)))) (\<lambda>(p, _).
     then_do (given pf cl ''config-path'') (\<lambda>g.
       if g then then_do (option_value pf cl ''config-path'') (\<lambda>s. gives (c_str s))
       else gives (path_append (parent_path p) ''http_server.json'')))"

text \<open>The parts of the configuration file.\<close>

definition read_plain :: "('j, 'w) platform \<Rightarrow> 'j \<Rightarrow> ('w http_application process, unit) effect" where
  "read_plain pf j =
     (case js_find (pf_json pf) j ''http'' of
        None \<Rightarrow> gives ()
      | Some server \<Rightarrow>
          then_do (json_effect (js_bool (pf_json pf) server ''enable'' True)) (\<lambda>b.
          then_do (http_change (set_plain (\<lambda>c. c\<lparr>sc_enable := b\<rparr>))) (\<lambda>_.
          then_do (json_effect (js_string (pf_json pf) server ''host'' ''127.0.0.1'')) (\<lambda>h.
          then_do (http_change (set_plain (\<lambda>c. c\<lparr>sc_host := h\<rparr>))) (\<lambda>_.
          then_do (json_effect (pf_u16 pf server ''port'' 8080)) (\<lambda>n.
            http_change (set_plain (\<lambda>c. c\<lparr>sc_port := n\<rparr>))))))))"

definition read_secure :: "('j, 'w) platform \<Rightarrow> 'j \<Rightarrow> ('w http_application process, unit) effect" where
  "read_secure pf j =
     (case js_find (pf_json pf) j ''https'' of
        None \<Rightarrow> gives ()
      | Some server \<Rightarrow>
          then_do (json_effect (js_bool (pf_json pf) server ''enable'' True)) (\<lambda>b.
          then_do (http_change (set_secure (\<lambda>c. c\<lparr>sc_enable := b\<rparr>))) (\<lambda>_.
          then_do (json_effect (js_string (pf_json pf) server ''host'' ''127.0.0.1'')) (\<lambda>h.
          then_do (http_change (set_secure (\<lambda>c. c\<lparr>sc_host := h\<rparr>))) (\<lambda>_.
          then_do (json_effect (pf_u16 pf server ''port'' 8443)) (\<lambda>n.
          then_do (http_change (set_secure (\<lambda>c. c\<lparr>sc_port := n\<rparr>))) (\<lambda>_.
          then_do (json_effect (js_string (pf_json pf) server ''ca-file-path'' ''/usr/local/etc/openssl/cert.pem'')) (\<lambda>f.
          then_do (http_change (set_secure (\<lambda>c. c\<lparr>sc_caFilePath := f\<rparr>))) (\<lambda>_.
          then_do (json_effect (js_string (pf_json pf) server ''key-file-path'' ''./certs/key.pem'')) (\<lambda>f.
          then_do (http_change (set_secure (\<lambda>c. c\<lparr>sc_keyFilePath := f\<rparr>))) (\<lambda>_.
          then_do (json_effect (js_string (pf_json pf) server ''ca-cert-file-path'' ''./certs/server.pem'')) (\<lambda>f.
          then_do (http_change (set_secure (\<lambda>c. c\<lparr>sc_caCertFilePath := f\<rparr>))) (\<lambda>_.
          then_do (json_effect (js_bool (pf_json pf) server ''no-verify'' False)) (\<lambda>b.
            http_change (set_secure (\<lambda>c. c\<lparr>sc_noVerify := b\<rparr>))))))))))))))))"

definition init_logging :: "('j, 'w) platform \<Rightarrow> 'j \<Rightarrow> ('s process, unit) effect" where
  "init_logging pf j = (\<lambda>p.
     (case Logging_init (pf_json pf) j False (ap_logging p) of
        (Some (Json_error what), lg) \<Rightarrow> Some (Inl (Std_exception what), p\<lparr>ap_logging := lg\<rparr>)
      | (None, lg) \<Rightarrow> Some (Inr (), p\<lparr>ap_logging := lg\<rparr>)))"

definition read_configuration :: "('j, 'w) platform \<Rightarrow> path \<Rightarrow> ('w http_application process, unit) effect" where
  "read_configuration pf path =
     then_do (file_effect pf (exists_ec (pf_os pf) path)) (\<lambda>(there, ec).
       if there \<and> ec = Cleared
       then
         then_do (reads (\<lambda>p. pf_reader pf path (wo_world (ap_state p)))) (\<lambda>content.
           case content of
             None \<Rightarrow> configuration_error pf ''Configuration file cannot be opened'' 151
           | Some text \<Rightarrow>
               then_do (json_effect (pf_parse pf text)) (\<lambda>j.
               then_do (init_logging pf j) (\<lambda>_.
               then_do (json_effect (js_string (pf_json pf) j ''docroot-path'' ''./docroot'')) (\<lambda>r.
               then_do (http_change (set_root r)) (\<lambda>_.
               then_do (json_effect (js_string (pf_json pf) j ''domain'' (pf_hostname pf))) (\<lambda>d.
               then_do (http_change (\<lambda>a. a\<lparr>ha_httpConfig := (ha_httpConfig a)\<lparr>cf_domain := d\<rparr>\<rparr>)) (\<lambda>_.
               then_do (read_plain pf j) (\<lambda>_. read_secure pf j))))))))
       else configuration_error pf ''Configuration cannot be loaded'' 174)"

text \<open>The options that stand above the configuration file, in the order of the code.\<close>

definition apply_options :: "('j, 'w) platform \<Rightarrow> CommandLineOptions \<times> cl_store \<Rightarrow> ('w http_application process, unit) effect" where
  "apply_options pf cl =
     then_do (override pf cl ''port'' (\<lambda>s. then_do (number_effect pf (convert_uint16 s)) (\<lambda>n.
       http_change (set_plain (\<lambda>c. c\<lparr>sc_port := n\<rparr>))))) (\<lambda>_.
     then_do (override pf cl ''host'' (\<lambda>s.
       then_do (http_change (set_plain (\<lambda>c. c\<lparr>sc_host := s\<rparr>))) (\<lambda>_.
       then_do (option_value pf cl ''host'') (\<lambda>s. http_change (set_secure (\<lambda>c. c\<lparr>sc_host := s\<rparr>)))))) (\<lambda>_.
     then_do (override pf cl ''docroot-path'' (\<lambda>s. http_change (set_root (c_str s)))) (\<lambda>_.
     then_do (override pf cl ''secure-port'' (\<lambda>s. then_do (number_effect pf (convert_uint16 s)) (\<lambda>n.
       http_change (set_secure (\<lambda>c. c\<lparr>sc_port := n\<rparr>))))) (\<lambda>_.
     then_do (override pf cl ''ca-path'' (\<lambda>s. http_change (set_secure (\<lambda>c. c\<lparr>sc_caFilePath := c_str s\<rparr>)))) (\<lambda>_.
     then_do (override pf cl ''key-path'' (\<lambda>s. http_change (set_secure (\<lambda>c. c\<lparr>sc_keyFilePath := c_str s\<rparr>)))) (\<lambda>_.
     then_do (override pf cl ''cert-path'' (\<lambda>s. http_change (set_secure (\<lambda>c. c\<lparr>sc_caCertFilePath := c_str s\<rparr>)))) (\<lambda>_.
     then_do (given pf cl ''threads'') (\<lambda>g.
     then_do (if g then then_do (option_value pf cl ''threads'') (\<lambda>s. number_effect pf (convert_uint32 s))
              else gives (pf_concurrency pf)) (\<lambda>n.
       http_change (\<lambda>a. a\<lparr>ha_numThreads := if n = 0 then 1 else n\<rparr>))))))))))"

definition HttpServer_setUp :: "('j, 'w) platform \<Rightarrow> string list \<Rightarrow> ('w http_application process, bool) effect" where
  "HttpServer_setUp pf args =
     (case http_options (pf_argtable pf) (pf_grows pf) of (c, st) \<Rightarrow>
      (case CommandLineOptions_parse (pf_argtable pf) args c st of
         None \<Rightarrow> never
       | Some (ok, cl) \<Rightarrow>
           (if \<not> ok then gives False
            else
              then_do (given pf cl ''help'') (\<lambda>g.
                if g then gives False
                else
                  then_do (config_path pf cl args) (\<lambda>path.
                  then_do (read_configuration pf path) (\<lambda>_.
                  then_do (apply_options pf cl) (\<lambda>_. gives True)))))))"

text \<open>The plain server gets the host of the secure one.\<close>

definition HttpServer_doRun :: "('j, 'w) platform \<Rightarrow> ('w http_application process, int) effect" where
  "HttpServer_doRun pf =
     then_do (reads ap_state) (\<lambda>a.
     then_do (if sc_enable (ha_secureConfig a)
              then (case pf_certificate pf (sc_caCertFilePath (ha_secureConfig a)) (sc_keyFilePath (ha_secureConfig a)) (wo_world a) of
                  Some ex \<Rightarrow> throws ex
                | None \<Rightarrow> listen_on pf True (sc_host (ha_secureConfig a)) (sc_port (ha_secureConfig a)))
              else gives ()) (\<lambda>_.
     then_do (if sc_enable (ha_config a)
              then listen_on pf False (sc_host (ha_secureConfig a)) (sc_port (ha_config a)) else gives ()) (\<lambda>_.
       run_pool pf (ha_numThreads a))))"

text \<open>The place with the log entry is reached once, so its level is asked for then.\<close>

definition last_words ::
    "('s process \<Rightarrow> log_place) \<Rightarrow> string \<Rightarrow> string \<Rightarrow> int \<Rightarrow> ('s process, unit) effect" where
  "last_words place unitname message n = (\<lambda>p.
     Some (Inr (), p\<lparr>ap_logging :=
       snd (debug_log (lp_environment (place p)) unitname 1
         (debug_event (lp_now (place p)) (lp_tid (place p)) unitname (lp_file (place p)) n message)
         (log_site_start, ap_logging p))\<rparr>))"

definition HttpServer :: "('w http_application process \<Rightarrow> log_place) \<Rightarrow> ('j, 'w) platform \<Rightarrow> 'w http_application virtuals" where
  "HttpServer place pf =
     \<lparr>v_setUp = HttpServer_setUp pf, v_doRun = HttpServer_doRun pf,
      v_tearDown = (\<lambda>exitCode. last_words place ''HttpServer'' ''Terminating application'' 244)\<rparr>"

definition process_start :: "logging \<Rightarrow> 's \<Rightarrow> 's process" where
  "process_start lg s = \<lparr>ap_state = s, ap_logging = lg, ap_calls = [], ap_caught = []\<rparr>"

text \<open>\<open>main\<close>\<close>

definition http_server_main ::
    "('w http_application process \<Rightarrow> log_place) \<Rightarrow> ('j, 'w) platform \<Rightarrow> string list \<Rightarrow> 'w \<Rightarrow>
     ((thrown + int) \<times> 'w http_application process) option" where
  "http_server_main place pf argv w =
     Application_run place (HttpServer place pf) argv (process_start logging_start (HttpServer_new w))"


section \<open>The MQTT broker\<close>

text \<open>The members that the constructor leaves uninitialised are arguments of it.\<close>

record Configuration =
  mc_host :: string
  mc_port :: u16
  mc_secureHost :: string
  mc_securePort :: u16
  mc_caFilePath :: path
  mc_keyFilePath :: path
  mc_caCertFilePath :: path
  mc_noVerify :: bool

definition Configuration_new :: "bool \<Rightarrow> Configuration" where
  "Configuration_new junk =
     \<lparr>mc_host = [], mc_port = 0, mc_secureHost = [], mc_securePort = 0, mc_caFilePath = [], mc_keyFilePath = [],
      mc_caCertFilePath = [], mc_noVerify = junk\<rparr>"

definition setDefaults :: "Configuration \<Rightarrow> Configuration" where
  "setDefaults c =
     c\<lparr>mc_secureHost := ''127.0.0.1'', mc_securePort := 8883, mc_caFilePath := ''/usr/local/etc/libressl/cert.pem'',
       mc_keyFilePath := ''.cakey.pem'', mc_caCertFilePath := ''.cacert.pem'', mc_noVerify := False,
       mc_host := ''127.0.0.1'', mc_port := 1883\<rparr>"

record 'w broker_application = "'w served" +
  ba_configuration :: Configuration

definition MQTTBroker_new :: "bool \<Rightarrow> 'w \<Rightarrow> 'w broker_application" where
  "MQTTBroker_new junk w = \<lparr>wo_listening = [], wo_world = w, ba_configuration = Configuration_new junk\<rparr>"

definition broker_change :: "(Configuration \<Rightarrow> Configuration) \<Rightarrow> ('w broker_application process, unit) effect" where
  "broker_change f = changes (\<lambda>p. p\<lparr>ap_state := (ap_state p)\<lparr>ba_configuration := f (ba_configuration (ap_state p))\<rparr>\<rparr>)"

text \<open>\<open>Configuration::init\<close>\<close>

definition init_secure :: "('j, 'w) platform \<Rightarrow> 'j \<Rightarrow> ('w broker_application process, unit) effect" where
  "init_secure pf j =
     (case js_find (pf_json pf) j ''secure-mqtt'' of
        None \<Rightarrow> gives ()
      | Some s \<Rightarrow>
          then_do (json_effect (js_string (pf_json pf) s ''host'' ''127.0.0.1'')) (\<lambda>h.
          then_do (broker_change (\<lambda>c. c\<lparr>mc_secureHost := h\<rparr>)) (\<lambda>_.
          then_do (json_effect (pf_u16 pf s ''port'' 8883)) (\<lambda>n.
          then_do (broker_change (\<lambda>c. c\<lparr>mc_securePort := n\<rparr>)) (\<lambda>_.
          then_do (json_effect (js_string (pf_json pf) s ''ca-file-path'' ''/usr/local/etc/openssl/cert.pem'')) (\<lambda>f.
          then_do (broker_change (\<lambda>c. c\<lparr>mc_caFilePath := f\<rparr>)) (\<lambda>_.
          then_do (json_effect (js_string (pf_json pf) s ''key-file-path'' ''./certs/key.pem'')) (\<lambda>f.
          then_do (broker_change (\<lambda>c. c\<lparr>mc_keyFilePath := f\<rparr>)) (\<lambda>_.
          then_do (json_effect (js_string (pf_json pf) s ''ca-cert-file-path'' ''./certs/server.pem'')) (\<lambda>f.
          then_do (broker_change (\<lambda>c. c\<lparr>mc_caCertFilePath := f\<rparr>)) (\<lambda>_.
          then_do (json_effect (js_bool (pf_json pf) s ''no-verify'' False)) (\<lambda>b.
            broker_change (\<lambda>c. c\<lparr>mc_noVerify := b\<rparr>)))))))))))))"

definition init_plain :: "('j, 'w) platform \<Rightarrow> 'j \<Rightarrow> ('w broker_application process, unit) effect" where
  "init_plain pf j =
     (case js_find (pf_json pf) j ''mqtt'' of
        None \<Rightarrow> gives ()
      | Some s \<Rightarrow>
          then_do (json_effect (js_string (pf_json pf) s ''host'' ''127.0.0.1'')) (\<lambda>h.
          then_do (broker_change (\<lambda>c. c\<lparr>mc_host := h\<rparr>)) (\<lambda>_.
          then_do (json_effect (pf_u16 pf s ''port'' 1883)) (\<lambda>n.
            broker_change (\<lambda>c. c\<lparr>mc_port := n\<rparr>)))))"

definition MQTTBroker_setUp :: "('j, 'w) platform \<Rightarrow> string list \<Rightarrow> ('w broker_application process, bool) effect" where
  "MQTTBroker_setUp pf args =
     (if args = [] then never
      else
        then_do (file_effect pf (and_then (current_path (pf_os pf)) (absolute_action (pf_os pf) (args ! 0)))) (\<lambda>(p, _).
          let path = path_append (parent_path p) ''mqtt_broker.json'' in
        then_do (file_effect pf (exists_ec (pf_os pf) path)) (\<lambda>(there, ec).
          if there \<and> ec = Cleared
          then
            then_do (reads (\<lambda>p. pf_reader pf path (wo_world (ap_state p)))) (\<lambda>content.
              case content of
                None \<Rightarrow> configuration_error pf ''Configuration file cannot be opened'' 123
              | Some text \<Rightarrow>
                  then_do (json_effect (pf_parse pf text)) (\<lambda>j.
                  then_do (init_logging pf j) (\<lambda>_.
                  then_do (init_secure pf j) (\<lambda>_.
                  then_do (init_plain pf j) (\<lambda>_. gives True)))))
          else
            then_do (init_logging pf (pf_empty pf)) (\<lambda>_.
            then_do (broker_change setDefaults) (\<lambda>_. gives True)))))"

definition hasSecureMQTT :: "Configuration \<Rightarrow> bool" where
  "hasSecureMQTT c \<longleftrightarrow> mc_securePort c \<noteq> 0"

definition hasMQTT :: "Configuration \<Rightarrow> bool" where
  "hasMQTT c \<longleftrightarrow> mc_port c \<noteq> 0"

text \<open>A pool without contexts, on a machine of which the number of cores is unknown, divides by zero.\<close>

definition MQTTBroker_doRun :: "('j, 'w) platform \<Rightarrow> ('w broker_application process, int) effect" where
  "MQTTBroker_doRun pf =
     (if pf_concurrency pf = 0 then never
      else
        then_do (reads ap_state) (\<lambda>a. let c = ba_configuration a in
        then_do (if hasSecureMQTT c
                 then (case pf_certificate pf (mc_caCertFilePath c) (mc_keyFilePath c) (wo_world a) of
                     Some ex \<Rightarrow> throws ex
                   | None \<Rightarrow> listen_on pf True (mc_secureHost c) (mc_securePort c))
                 else gives ()) (\<lambda>_.
        then_do (if hasMQTT c then listen_on pf False (mc_host c) (mc_port c) else gives ()) (\<lambda>_.
        then_do (if \<not> hasMQTT c \<and> \<not> hasSecureMQTT c
                 then configuration_error pf ''You have to configure at least one server type'' 105
                 else gives ()) (\<lambda>_. run_pool pf (pf_concurrency pf))))))"

definition MQTTBroker :: "('w broker_application process \<Rightarrow> log_place) \<Rightarrow> ('j, 'w) platform \<Rightarrow> 'w broker_application virtuals" where
  "MQTTBroker place pf =
     \<lparr>v_setUp = MQTTBroker_setUp pf, v_doRun = MQTTBroker_doRun pf,
      v_tearDown = (\<lambda>exitCode. last_words place ''MQTTBroker'' (''exit code: '' @ print_int exitCode) 139)\<rparr>"

text \<open>\<open>main\<close> returns 0, whatever \<open>run\<close> returned.\<close>

definition mqtt_broker_main ::
    "('w broker_application process \<Rightarrow> log_place) \<Rightarrow> ('j, 'w) platform \<Rightarrow> string list \<Rightarrow> bool \<Rightarrow> 'w \<Rightarrow>
     ((thrown + int) \<times> 'w broker_application process) option" where
  "mqtt_broker_main place pf argv junk w =
     then_do (Application_run place (MQTTBroker place pf) argv) (\<lambda>_. gives 0)
       (process_start logging_start (MQTTBroker_new junk w))"

end
