(* ===== verification/Server_Settings.thy ===== *)
theory Server_Settings
  imports Server_Application
begin

text \<open>
  What the two programs make of their command line and their configuration: the settings as functions of both, and the
  fact that a name without a declared option never counts. The first part is about the command line in general.
\<close>

section \<open>Names without an option\<close>

text \<open>What is used of the library argtable3: entries have the names they were made with, also after parsing.\<close>

definition names_law :: "argtable \<Rightarrow> bool" where
  "names_law at \<longleftrightarrow>
     (\<forall>s l mn mx d. a_shortopts (arg_litn at s l mn mx d) = s \<and> a_longopts (arg_litn at s l mn mx d) = l) \<and>
     (\<forall>s l t mn mx d. a_shortopts (arg_strn at s l t mn mx d) = s \<and> a_longopts (arg_strn at s l t mn mx d) = l) \<and>
     (\<forall>args table. map (\<lambda>a. (a_shortopts a, a_longopts a)) (snd (arg_parse at args table)) =
        map (\<lambda>a. (a_shortopts a, a_longopts a)) table)"

definition other_names :: "string \<Rightarrow> OptionBase \<Rightarrow> bool" where
  "other_names name opt \<longleftrightarrow> ob_shortOpt opt \<noteq> name \<and> ob_longOpt opt \<noteq> name"

definition unnamed :: "string \<Rightarrow> cl_store \<Rightarrow> bool" where
  "unnamed name st \<longleftrightarrow> (\<forall>opt \<in> set (cs_options st). other_names name opt) \<and>
     (\<forall>arg. Some arg \<in> set (cs_args st) \<longrightarrow> \<not> has_name name arg)"

definition has_options :: "cl_store \<Rightarrow> nat list \<Rightarrow> bool" where
  "has_options st is \<longleftrightarrow> (\<forall>i \<in> set is. i < length (cs_options st))"

lemma option_add_unnamed:
  assumes "names_law at" "unnamed name st" "i < length (cs_options st)" "option_add at i st = (a, st')"
  shows "unnamed name st' \<and> length (cs_options st') = length (cs_options st)"
proof -
  let ?opt = "cs_options st ! i"
  have "other_names name ?opt" using assms(2,3) by (simp add: unnamed_def)
  then have e: "\<not> has_name name (LiteralOption_entry at ?opt)" "\<not> has_name name (TypedOption_entry at t ?opt)" for t
    using assms(1)
    by (auto simp: has_name_def LiteralOption_entry_def TypedOption_entry_def names_law_def name_or_null_def
        other_names_def split: if_splits)
  have "other_names name (?opt\<lparr>ob_arg := x\<rparr>)" for x using \<open>other_names name ?opt\<close> by (simp add: other_names_def)
  moreover have "cs_options st' = (cs_options st)[i := ?opt\<lparr>ob_arg := Some a\<rparr>]"
    "\<exists>arg. cs_args st' = cs_args st @ [Some arg] \<and> \<not> has_name name arg"
    using assms(4) e by (auto simp: option_add_def Let_def split: option_kind.splits)
  ultimately show ?thesis using assms(2) unfolding unnamed_def by (auto dest!: set_update_subset_insert [THEN subsetD])
qed

lemma add_options_unnamed:
  "names_law at \<Longrightarrow> unnamed name st \<Longrightarrow> has_options st is \<Longrightarrow> add_options at is st = (as, st') \<Longrightarrow>
   unnamed name st' \<and> length (cs_options st') = length (cs_options st)"
proof (induction "is" arbitrary: st as)
  case (Cons i "is")
  obtain a st1 where a: "option_add at i st = (a, st1)" by fastforce
  with option_add_unnamed [OF Cons.prems(1,2) _ a] Cons.prems(3)
  have s: "unnamed name st1" "length (cs_options st1) = length (cs_options st)" by (auto simp: has_options_def)
  with Cons.prems(3) have "has_options st1 is" by (simp add: has_options_def)
  from Cons.IH [OF Cons.prems(1) s(1) this] Cons.prems(4) a s(2) show ?case by (auto split: prod.splits)
qed simp

lemma group_new_unnamed:
  assumes "names_law at" "unnamed name st" "has_options st is" "OptionGroup_new at gname is st = (g, st')"
  shows "unnamed name st' \<and> length (cs_options st') = length (cs_options st) \<and> og_options g = is"
  using add_options_unnamed [OF assms(1-3)] assms(4) by (auto simp: OptionGroup_new_def split: prod.splits)

lemma group_copy_unnamed:
  assumes "names_law at" "unnamed name st" "has_options st (og_options g)" "OptionGroup_copy at g st = (g', st')"
  shows "unnamed name st' \<and> length (cs_options st') = length (cs_options st) \<and> og_options g' = og_options g"
  using add_options_unnamed [OF assms(1-3)] assms(4) by (auto simp: OptionGroup_copy_def split: prod.splits)

lemma copy_groups_unnamed:
  "names_law at \<Longrightarrow> unnamed name st \<Longrightarrow> (\<forall>g \<in> set gs. has_options st (og_options g)) \<Longrightarrow> copy_groups at gs st = (gs', st') \<Longrightarrow>
   unnamed name st' \<and> length (cs_options st') = length (cs_options st) \<and> map og_options gs' = map og_options gs"
proof (induction gs arbitrary: st gs')
  case (Cons g gs)
  obtain g1 st1 where c: "OptionGroup_copy at g st = (g1, st1)" by fastforce
  with group_copy_unnamed [OF Cons.prems(1,2) _ c] Cons.prems(3)
  have s: "unnamed name st1" "length (cs_options st1) = length (cs_options st)" "og_options g1 = og_options g" by auto
  with Cons.prems(3) have "\<forall>g \<in> set gs. has_options st1 (og_options g)" by (simp add: has_options_def)
  from Cons.IH [OF Cons.prems(1) s(1) this] Cons.prems(4) c s(2,3) show ?case by (auto split: prod.splits)
qed simp

lemma destroy_unnamed:
  "unnamed name st \<Longrightarrow> unnamed name (OptionGroup_destroy g st)"
  "cs_options (OptionGroup_destroy g st) = cs_options st"
proof -
  have keep: "Some arg \<in> set (fold (\<lambda>a args. args[a := None]) as args) \<Longrightarrow> Some arg \<in> set args"
    for arg as and args :: "arg option list"
  proof (induction as arbitrary: args)
    case (Cons a as)
    then have "Some arg \<in> set (args[a := None])" by simp
    then show ?case using set_update_subset_insert by fastforce
  qed simp
  show "unnamed name st \<Longrightarrow> unnamed name (OptionGroup_destroy g st)"
    by (auto simp: unnamed_def OptionGroup_destroy_def dest: keep)
  show "cs_options (OptionGroup_destroy g st) = cs_options st" by (simp add: OptionGroup_destroy_def)
qed

lemma destroy_all_unnamed:
  "unnamed name st \<Longrightarrow> unnamed name (fold OptionGroup_destroy gs st)"
  "cs_options (fold OptionGroup_destroy gs st) = cs_options st"
  by (induction gs arbitrary: st) (simp_all add: destroy_unnamed)

lemma push_groups_unnamed:
  "names_law at \<Longrightarrow> unnamed name st \<Longrightarrow> (\<forall>g \<in> set (acc @ gs). has_options st (og_options g)) \<Longrightarrow>
   fold (push_group at grows) gs (acc, st) = (gs', st') \<Longrightarrow>
   unnamed name st' \<and> length (cs_options st') = length (cs_options st)"
proof (induction gs arbitrary: acc st)
  case (Cons g gs)
  obtain g1 st1 where c: "OptionGroup_copy at g st = (g1, st1)" by fastforce
  have hg: "has_options st (og_options g)" using Cons.prems(3) by simp
  have s: "unnamed name st1" "length (cs_options st1) = length (cs_options st)" "og_options g1 = og_options g"
    using group_copy_unnamed [OF Cons.prems(1,2) hg c] by simp_all
  have h: "has_options st1 is = has_options st is" for "is" using s(2) by (simp add: has_options_def)
  have ha: "\<forall>x \<in> set acc. has_options st1 (og_options x)" using Cons.prems(3) h by simp
  obtain acc2 st2 where c2: "copy_groups at acc st1 = (acc2, st2)" by fastforce
  have s2: "unnamed name st2" "length (cs_options st2) = length (cs_options st)" "map og_options acc2 = map og_options acc"
    using copy_groups_unnamed [OF Cons.prems(1) s(1) ha c2] s(2) by simp_all
  have h2: "has_options st2 is = has_options st is" "has_options (fold OptionGroup_destroy acc st2) is = has_options st is" for "is"
    using s2(2) by (simp_all add: has_options_def destroy_all_unnamed)
  show ?case
  proof (cases "grows (length acc)")
    case True
    have p: "push_group at grows g (acc, st) = (acc2 @ [g1], fold OptionGroup_destroy acc st2)"
      using True c c2 by (simp add: push_group_def)
    from arg_cong [OF s2(3), of set] have im: "og_options ` set acc2 = og_options ` set acc" by (simp only: set_map)
    have "has_options st (og_options x)" if "x \<in> set acc2" for x
    proof -
      from that have "og_options x \<in> og_options ` set acc" unfolding im [symmetric] by (rule imageI)
      then obtain y where "y \<in> set acc" "og_options x = og_options y" by blast
      with Cons.prems(3) show ?thesis by simp
    qed
    then have "\<forall>x \<in> set ((acc2 @ [g1]) @ gs). has_options (fold OptionGroup_destroy acc st2) (og_options x)"
      using Cons.prems(3) s(3) h2(2) by auto
    from Cons.IH [OF Cons.prems(1) destroy_all_unnamed(1) [OF s2(1)] this] Cons.prems(4) p s2(2)
    show ?thesis by (simp add: destroy_all_unnamed(2))
  next
    case False
    then have p: "push_group at grows g (acc, st) = (acc @ [g1], st1)" using c by (simp add: push_group_def)
    have "\<forall>x \<in> set ((acc @ [g1]) @ gs). has_options st1 (og_options x)" using Cons.prems(3) s(3) h by auto
    from Cons.IH [OF Cons.prems(1) s(1) this] Cons.prems(4) p s(2) show ?thesis by simp
  qed
qed simp

lemma write_table_unnamed:
  "unnamed name st \<Longrightarrow> (\<And>a. a \<in> set args \<Longrightarrow> \<not> has_name name a) \<Longrightarrow> unnamed name (write_table as args st)"
proof (induction as args st rule: write_table.induct)
  case (1 a as arg args st)
  have "unnamed name (st\<lparr>cs_args := (cs_args st)[a := Some arg]\<rparr>)"
    using 1(2,3) unfolding unnamed_def by (auto dest!: set_update_subset_insert [THEN subsetD])
  with 1 show ?case by simp
qed simp_all

lemma read_table_unnamed:
  "read_table as st = Some table \<Longrightarrow> unnamed name st \<Longrightarrow> a \<in> set table \<Longrightarrow> \<not> has_name name a"
proof (induction as arbitrary: table)
  case (Cons x as)
  then obtain y ys where y: "arg_at x st = Some y" "read_table as st = Some ys" "table = y # ys"
    by (auto split: bind_splits)
  from y(1) have "Some y \<in> set (cs_args st)" unfolding arg_at_def by (metis nth_mem option.distinct(1))
  with Cons y(2,3) show ?case by (auto simp: unnamed_def)
qed simp

lemma parse_unnamed:
  assumes "names_law at" "unnamed name st" "OptionGroup_parse at args g st = Some (ok, st')"
  shows "unnamed name st'"
proof (cases "args = []")
  case False
  with assms(3) obtain table where t: "read_table (og_argtable g) st = Some table"
    by (auto simp: OptionGroup_parse_def split: bind_splits)
  obtain n table' where p: "arg_parse at args table = (n, table')" by fastforce
  have "map (\<lambda>a. (a_shortopts a, a_longopts a)) table' = map (\<lambda>a. (a_shortopts a, a_longopts a)) table"
    using assms(1) p unfolding names_law_def by (metis snd_conv)
  from arg_cong [OF this, of set]
  have im: "(\<lambda>a. (a_shortopts a, a_longopts a)) ` set table' = (\<lambda>a. (a_shortopts a, a_longopts a)) ` set table"
    by (simp only: set_map)
  have "\<not> has_name name a" if a: "a \<in> set table'" for a
  proof -
    have "(a_shortopts a, a_longopts a) \<in> (\<lambda>a. (a_shortopts a, a_longopts a)) ` set table"
      unfolding im [symmetric] using a by (rule imageI)
    then obtain b where "b \<in> set table" "a_shortopts a = a_shortopts b" "a_longopts a = a_longopts b" by blast
    with read_table_unnamed [OF t assms(2)] show ?thesis by (simp add: has_name_def)
  qed
  then have "unnamed name (write_table (og_argtable g) table' st)" by (rule write_table_unnamed [OF assms(2)])
  with assms(2,3) False t p show ?thesis by (auto simp: OptionGroup_parse_def Let_def split: if_splits)
qed (use assms in \<open>simp add: OptionGroup_parse_def\<close>)

lemma parse_groups_unnamed:
  "names_law at \<Longrightarrow> unnamed name st \<Longrightarrow> parse_groups at args i gs st = Some (active, st') \<Longrightarrow> unnamed name st'"
proof (induction gs arbitrary: i st)
  case (Cons g gs)
  then obtain ok st1 where "OptionGroup_parse at args g st = Some (ok, st1)"
    "if ok then st' = st1 else parse_groups at args (Suc i) gs st1 = Some (active, st')"
    by (auto split: bind_splits if_splits)
  moreover from this(1) have "unnamed name st1" by (rule parse_unnamed [OF Cons.prems(1,2)])
  ultimately show ?case using Cons.IH [OF Cons.prems(1), of st1 "Suc i"] by (cases ok) auto
qed simp

lemma find_named_unnamed:
  "unnamed name st \<Longrightarrow> find_named name is st = Some r \<Longrightarrow> r = None"
proof (induction "is")
  case (Cons i "is")
  then obtain a where a: "option_arg i st = Some a" by (auto split: bind_splits)
  then obtain k where "arg_at k st = Some a" by (auto simp: option_arg_def split: bind_splits)
  then have "Some a \<in> set (cs_args st)" unfolding arg_at_def by (metis nth_mem option.distinct(1))
  with Cons.prems(1) have "\<not> has_name name a" by (auto simp: unnamed_def)
  with Cons a show ?case by simp
qed simp

text \<open>Parsing, too, leaves a name without an option: it is never counted.\<close>

lemma undeclared_count:
  assumes "names_law at" "unnamed name st" "CommandLineOptions_parse at args c st = Some (ok, c', st')"
    "CommandLineOptions_count c' name st' = Some (Inr n)"
  shows "n = 0"
proof -
  have "unnamed name st'"
    using assms(1-3) parse_groups_unnamed
    by (fastforce simp: CommandLineOptions_parse_def Let_def split: if_splits bind_splits)
  from find_named_unnamed [OF this] assms(4) show ?thesis
    by (auto simp: CommandLineOptions_count_def in_active_group_def OptionGroup_count_def split: option.splits bind_splits)
qed

definition declares_other :: "string \<Rightarrow> (cl_store \<Rightarrow> nat \<times> cl_store) \<Rightarrow> bool" where
  "declares_other name new \<longleftrightarrow> (\<exists>opt. new = new_option opt \<and> other_names name opt)"

lemma declares_named:
  "name \<noteq> s \<Longrightarrow> name \<noteq> l \<Longrightarrow> declares_other name (Option_literal_bounds s l mn mx d)"
  "name \<noteq> s \<Longrightarrow> name \<noteq> l \<Longrightarrow> declares_other name (Option_typed_bounds s l t mn mx d)"
  by (auto simp: declares_other_def Option_literal_bounds_def Option_typed_bounds_def other_names_def OptionBase_new_def)

lemma declare_all_unnamed:
  "\<forall>new \<in> set news. declares_other name new \<Longrightarrow> unnamed name st \<Longrightarrow> declare_options news st = (is, st') \<Longrightarrow>
   unnamed name st' \<and> length (cs_options st') = length (cs_options st) + length news \<and> has_options st' is"
proof (induction news arbitrary: st "is")
  case (Cons new news)
  obtain opt where opt: "new = new_option opt" "other_names name opt" using Cons.prems(1) by (auto simp: declares_other_def)
  let ?st = "st\<lparr>cs_options := cs_options st @ [opt]\<rparr>"
  obtain is1 where i1: "declare_options news ?st = (is1, st')" "is = length (cs_options st) # is1"
    using Cons.prems(3) opt(1) by (auto simp: new_option_def split: prod.splits)
  have "unnamed name ?st" using Cons.prems(2) opt(2) by (auto simp: unnamed_def)
  from Cons.IH [OF _ this i1(1)] i1(2) Cons.prems(1) show ?case by (auto simp: has_options_def)
qed (simp add: has_options_def)

lemma http_options_unnamed:
  assumes "names_law at" "name \<notin> set ['''', ''help'', ''p'', ''port'', ''s'', ''secure-port'', ''h'', ''host'', ''d'',
      ''doc-root-path'', ''ca-path'', ''cert-path'', ''c'', ''config-path'', ''n'', ''threads'']"
    and "http_options at grows = (c, st)"
  shows "unnamed name st"
proof -
  obtain is1 st1 where 1: "declare_options help_options \<lparr>cs_options = [], cs_args = []\<rparr> = (is1, st1)" by fastforce
  obtain hg st2 where 2: "OptionGroup_new at ''Help'' is1 st1 = (hg, st2)" by fastforce
  obtain is3 st3 where 3: "declare_options server_options st2 = (is3, st3)" by fastforce
  obtain opts st4 where 4: "OptionGroup_new at ''Options'' is3 st3 = (opts, st4)" by fastforce
  obtain c st5 where 5: "CommandLineOptions_new at grows ''http_server'' [hg, opts] st4 = (c, st5)" by fastforce
  have st: "st = fold OptionGroup_destroy [hg, opts] st5" using assms(3) 1 2 3 4 5 by (simp add: http_options_def)
  have "unnamed name \<lparr>cs_options = [], cs_args = []\<rparr>" by (simp add: unnamed_def)
  moreover have "\<forall>new \<in> set help_options. declares_other name new"
    using assms(2) by (simp add: help_options_def declares_named)
  ultimately have s1: "unnamed name st1" "has_options st1 is1" using declare_all_unnamed [OF _ _ 1] by blast+
  have s2: "unnamed name st2" "length (cs_options st2) = length (cs_options st1)" "og_options hg = is1"
    using group_new_unnamed [OF assms(1) s1 2] by simp_all
  have "\<forall>new \<in> set server_options. declares_other name new"
    using assms(2) by (simp add: server_options_def declares_named)
  from declare_all_unnamed [OF this s2(1) 3]
  have s3: "unnamed name st3" "length (cs_options st2) \<le> length (cs_options st3)" "has_options st3 is3" by simp_all
  have s4: "unnamed name st4" "length (cs_options st4) = length (cs_options st3)" "og_options opts = is3"
    using group_new_unnamed [OF assms(1) s3(1,3) 4] by simp_all
  have "\<forall>g \<in> set ([] @ [hg, opts]). has_options st4 (og_options g)"
    using s1(2) s2(2,3) s3(2,3) s4(2,3) by (auto simp: has_options_def)
  moreover obtain gs where "fold (push_group at grows) [hg, opts] ([], st4) = (gs, st5)"
    using 5 by (auto simp: CommandLineOptions_new_def split: prod.splits)
  ultimately have "unnamed name st5" using push_groups_unnamed [OF assms(1) s4(1)] by blast
  then show ?thesis unfolding st by (rule destroy_all_unnamed(1))
qed


section \<open>Effects that succeed\<close>

lemma effect_Some [simp]:
  "gives x p = Some (Inr y, p') \<longleftrightarrow> y = x \<and> p' = p"
  "throws ex p \<noteq> Some (Inr y, p')"
  "never p = None"
  "reads f p = Some (Inr y, p') \<longleftrightarrow> y = f p \<and> p' = p"
  "changes g p = Some (Inr u, p') \<longleftrightarrow> p' = g p"
  by (auto simp: effect_defs)

lemma then_do_SomeE:
  assumes "then_do m f p = Some (Inr y, p'')"
  obtains x p' where "m p = Some (Inr x, p')" "f x p' = Some (Inr y, p'')"
  using assms by (auto simp: then_do_Some)

lemma json_effect_Some [simp]: "json_effect r p = Some (Inr x, p') \<longleftrightarrow> r = Inr x \<and> p' = p"
  by (auto simp: json_effect_def split: sum.split json_error.split)

lemma number_effect_Some [simp]: "number_effect pf r p = Some (Inr x, p') \<longleftrightarrow> r = Inr x \<and> p' = p"
  by (auto simp: number_effect_def split: sum.split)

lemma option_effect_Some [simp]: "option_effect pf r p = Some (Inr x, p') \<longleftrightarrow> r = Some (Inr x) \<and> p' = p"
  by (auto simp: option_effect_def split: option.split sum.split bad_option.split prod.split)

lemma configuration_error_Some [simp]: "configuration_error pf m n p \<noteq> Some (Inr x, p')"
  by (simp add: configuration_error_def split: prod.split)

lemma change_Some [simp]:
  "http_change f p = Some (Inr u, p') \<longleftrightarrow> p' = p\<lparr>ap_state := f (ap_state p)\<rparr>"
  by (simp add: http_change_def)

text \<open>The first argument of an option, if it was given.\<close>

definition first_value :: "CommandLineOptions \<times> cl_store \<Rightarrow> string \<Rightarrow> string option" where
  "first_value cl name =
     (case CommandLineOptions_count (fst cl) name (snd cl) of
        Some (Inr n) \<Rightarrow>
          (if n > 0
           then (case CommandLineOptions_option (fst cl) name (snd cl) of
               Some (Inr i) \<Rightarrow> (case OptionWrapper_value i 0 (snd cl) of Some (Inr s) \<Rightarrow> Some s | _ \<Rightarrow> None)
             | _ \<Rightarrow> None)
           else None)
      | _ \<Rightarrow> None)"

lemma given_Some: "given pf cl name p = Some (Inr g, p') \<longleftrightarrow>
    p' = p \<and> (\<exists>n. CommandLineOptions_count (fst cl) name (snd cl) = Some (Inr n) \<and> g = (n > 0))"
  by (auto simp: given_def then_do_Some)

lemma option_value_Some: "option_value pf cl name p = Some (Inr s, p') \<longleftrightarrow>
    p' = p \<and> (\<exists>i. CommandLineOptions_option (fst cl) name (snd cl) = Some (Inr i) \<and> OptionWrapper_value i 0 (snd cl) = Some (Inr s))"
  by (auto simp: option_value_def then_do_Some)

lemma override_Some:
  assumes "override pf cl name use p = Some (Inr u, p')"
  shows "case first_value cl name of None \<Rightarrow> p' = p | Some s \<Rightarrow> use s p = Some (Inr u, p')"
  using assms by (auto simp: override_def then_do_Some given_Some option_value_Some first_value_def split: if_splits)

lemma first_value_given: "first_value cl name = Some s \<Longrightarrow> option_value pf cl name p = Some (Inr s, p)"
  by (auto simp: first_value_def option_value_Some split: option.splits sum.splits if_splits)

section \<open>Settings\<close>

definition port_option :: "CommandLineOptions \<times> cl_store \<Rightarrow> string \<Rightarrow> u16 \<Rightarrow> u16" where
  "port_option cl name n = (case first_value cl name of None \<Rightarrow> n | Some s \<Rightarrow> (case convert_uint16 s of Inr m \<Rightarrow> m | Inl _ \<Rightarrow> n))"

definition text_option :: "CommandLineOptions \<times> cl_store \<Rightarrow> string \<Rightarrow> string \<Rightarrow> string" where
  "text_option cl name t = (case first_value cl name of None \<Rightarrow> t | Some s \<Rightarrow> s)"

definition path_option :: "CommandLineOptions \<times> cl_store \<Rightarrow> string \<Rightarrow> path \<Rightarrow> path" where
  "path_option cl name t = (case first_value cl name of None \<Rightarrow> t | Some s \<Rightarrow> c_str s)"

definition value_or :: "json_error + 'a \<Rightarrow> 'a \<Rightarrow> 'a" where
  "value_or r d = (case r of Inl e \<Rightarrow> d | Inr x \<Rightarrow> x)"

lemma value_or_Inr [simp]: "value_or (Inr x) d = x"
  by (simp add: value_or_def)

definition file_plain :: "('j, 'w) platform \<Rightarrow> 'j \<Rightarrow> ServerConfig \<Rightarrow> ServerConfig" where
  "file_plain pf j c =
     (case js_find (pf_json pf) j ''http'' of
        None \<Rightarrow> c
      | Some s \<Rightarrow>
          c\<lparr>sc_enable := value_or (js_bool (pf_json pf) s ''enable'' True) True,
            sc_host := value_or (js_string (pf_json pf) s ''host'' ''127.0.0.1'') ''127.0.0.1'',
            sc_port := value_or (pf_u16 pf s ''port'' 8080) 8080\<rparr>)"

definition file_secure :: "('j, 'w) platform \<Rightarrow> 'j \<Rightarrow> SecureServerConfig \<Rightarrow> SecureServerConfig" where
  "file_secure pf j c =
     (case js_find (pf_json pf) j ''https'' of
        None \<Rightarrow> c
      | Some s \<Rightarrow>
          c\<lparr>sc_enable := value_or (js_bool (pf_json pf) s ''enable'' True) True,
            sc_host := value_or (js_string (pf_json pf) s ''host'' ''127.0.0.1'') ''127.0.0.1'',
            sc_port := value_or (pf_u16 pf s ''port'' 8443) 8443,
            sc_caFilePath := value_or (js_string (pf_json pf) s ''ca-file-path'' ''/usr/local/etc/openssl/cert.pem'') [],
            sc_keyFilePath := value_or (js_string (pf_json pf) s ''key-file-path'' ''./certs/key.pem'') [],
            sc_caCertFilePath := value_or (js_string (pf_json pf) s ''ca-cert-file-path'' ''./certs/server.pem'') [],
            sc_noVerify := value_or (js_bool (pf_json pf) s ''no-verify'' False) False\<rparr>)"

text \<open>The host of the plain server is that of the secure one.\<close>

definition listens :: "ServerConfig \<Rightarrow> SecureServerConfig \<Rightarrow> (bool \<times> string \<times> u16) list" where
  "listens plain secure =
     (if sc_enable secure then [(True, sc_host secure, sc_port secure)] else []) @
     (if sc_enable plain then [(False, sc_host secure, sc_port plain)] else [])"

lemma read_plain_Some:
  "read_plain pf j p = Some (Inr u, p') \<Longrightarrow> p' = p\<lparr>ap_state := set_plain (file_plain pf j) (ap_state p)\<rparr>"
  by (auto simp: read_plain_def file_plain_def then_do_Some split: option.splits)

lemma read_secure_Some:
  "read_secure pf j p = Some (Inr u, p') \<Longrightarrow> p' = p\<lparr>ap_state := set_secure (file_secure pf j) (ap_state p)\<rparr>"
  by (auto simp: read_secure_def file_secure_def then_do_Some split: option.splits)

lemma file_effect_Some:
  "file_effect pf m p = Some (Inr (x, ec), p') \<Longrightarrow>
   \<exists>w. m (Cleared, wo_world (ap_state p)) = (Value x, ec, w) \<and> p' = p\<lparr>ap_state := (ap_state p)\<lparr>wo_world := w\<rparr>\<rparr>"
  by (auto simp: file_effect_def split: prod.splits outcome.splits abrupt.splits)

lemma init_logging_Some: "init_logging pf j p = Some (Inr u, p') \<Longrightarrow> \<exists>lg. p' = p\<lparr>ap_logging := lg\<rparr>"
  by (auto simp: init_logging_def split: prod.splits option.splits json_error.splits)

definition file_settings :: "('j, 'w) platform \<Rightarrow> 'j \<Rightarrow> 'w http_application \<Rightarrow> 'w http_application" where
  "file_settings pf j a =
     a\<lparr>ha_secureConfig := file_secure pf j (ha_secureConfig a), ha_config := file_plain pf j (ha_config a),
       ha_httpConfig := (ha_httpConfig a)\<lparr>cf_rootPath := value_or (js_string (pf_json pf) j ''docroot-path'' ''./docroot'') [],
         cf_domain := value_or (js_string (pf_json pf) j ''domain'' (pf_hostname pf)) []\<rparr>\<rparr>"

lemma read_configuration_Some:
  assumes "read_configuration pf path p = Some (Inr u, p')"
  shows "\<exists>w text j. exists_ec (pf_os pf) path (Cleared, wo_world (ap_state p)) = (Value True, Cleared, w) \<and>
    pf_reader pf path w = Some text \<and> pf_parse pf text = Inr j \<and>
    ap_state p' = file_settings pf j ((ap_state p)\<lparr>wo_world := w\<rparr>)"
proof -
  obtain p1 there ec where 1: "file_effect pf (exists_ec (pf_os pf) path) p = Some (Inr (there, ec), p1)" "there" "ec = Cleared"
    using assms by (auto simp: read_configuration_def then_do_Some split: if_splits)
  obtain content j p2 p3 p4 where
    2: "pf_reader pf path (wo_world (ap_state p1)) = Some content" "pf_parse pf content = Inr j"
    "init_logging pf j p1 = Some (Inr (), p2)" "read_plain pf j p3 = Some (Inr (), p4)"
    "read_secure pf j p4 = Some (Inr u, p')"
    "p3 = p2\<lparr>ap_state := (ap_state p2)\<lparr>ha_httpConfig := (ha_httpConfig (ap_state p2))
      \<lparr>cf_rootPath := value_or (js_string (pf_json pf) j ''docroot-path'' ''./docroot'') [],
         cf_domain := value_or (js_string (pf_json pf) j ''domain'' (pf_hostname pf)) []\<rparr>\<rparr>\<rparr>"
    using assms 1 by (auto simp: read_configuration_def then_do_Some split: option.splits)
  from file_effect_Some [OF 1(1)] 1(2,3) obtain w where w: "ap_state p1 = (ap_state p)\<lparr>wo_world := w\<rparr>"
    "exists_ec (pf_os pf) path (Cleared, wo_world (ap_state p)) = (Value True, Cleared, w)" by auto
  from init_logging_Some [OF 2(3)] have "ap_state p2 = ap_state p1" by auto
  with 2(1,2,6) read_plain_Some [OF 2(4)] read_secure_Some [OF 2(5)] w show ?thesis
    by (intro exI [of _ w] exI [of _ content] exI [of _ j]) (simp add: file_settings_def)
qed


definition option_plain :: "CommandLineOptions \<times> cl_store \<Rightarrow> ServerConfig \<Rightarrow> ServerConfig" where
  "option_plain cl c = c\<lparr>sc_port := port_option cl ''port'' (sc_port c), sc_host := text_option cl ''host'' (sc_host c)\<rparr>"

definition option_secure :: "CommandLineOptions \<times> cl_store \<Rightarrow> SecureServerConfig \<Rightarrow> SecureServerConfig" where
  "option_secure cl c =
     c\<lparr>sc_host := text_option cl ''host'' (sc_host c), sc_port := port_option cl ''secure-port'' (sc_port c),
       sc_caFilePath := path_option cl ''ca-path'' (sc_caFilePath c),
       sc_keyFilePath := path_option cl ''key-path'' (sc_keyFilePath c),
       sc_caCertFilePath := path_option cl ''cert-path'' (sc_caCertFilePath c)\<rparr>"

definition option_threads :: "('j, 'w) platform \<Rightarrow> CommandLineOptions \<times> cl_store \<Rightarrow> u32" where
  "option_threads pf cl =
     (let n = (case first_value cl ''threads'' of
          None \<Rightarrow> pf_concurrency pf
        | Some s \<Rightarrow> (case convert_uint32 s of Inr n \<Rightarrow> n | Inl _ \<Rightarrow> 0))
      in if n = 0 then 1 else n)"

text \<open>Overriding one setting, for each kind of setting, as a change of the application.\<close>

definition steps_to :: "'s process \<Rightarrow> ('s \<Rightarrow> 's) \<Rightarrow> 's process \<Rightarrow> bool" where
  "steps_to p f p' \<longleftrightarrow> p' = p\<lparr>ap_state := f (ap_state p)\<rparr>"

lemma steps_to_trans: "steps_to p f p' \<Longrightarrow> steps_to p' g p'' \<Longrightarrow> steps_to p (\<lambda>a. g (f a)) p''"
  by (simp add: steps_to_def)

lemma override_plain_port:
  assumes "override pf cl name (\<lambda>s. then_do (number_effect pf (convert_uint16 s)) (\<lambda>n.
    http_change (set_plain (\<lambda>c. c\<lparr>sc_port := n\<rparr>)))) p = Some (Inr u, p')"
  shows "steps_to p (set_plain (\<lambda>c. c\<lparr>sc_port := port_option cl name (sc_port c)\<rparr>)) p'"
  using override_Some [OF assms] by (auto simp: steps_to_def port_option_def then_do_Some split: option.splits)

lemma override_secure_port:
  assumes "override pf cl name (\<lambda>s. then_do (number_effect pf (convert_uint16 s)) (\<lambda>n.
    http_change (set_secure (\<lambda>c. c\<lparr>sc_port := n\<rparr>)))) p = Some (Inr u, p')"
  shows "steps_to p (set_secure (\<lambda>c. c\<lparr>sc_port := port_option cl name (sc_port c)\<rparr>)) p'"
  using override_Some [OF assms] by (auto simp: steps_to_def port_option_def then_do_Some split: option.splits)

lemma override_host:
  assumes "override pf cl ''host'' (\<lambda>s.
       then_do (http_change (set_plain (\<lambda>c. c\<lparr>sc_host := s\<rparr>))) (\<lambda>_.
       then_do (option_value pf cl ''host'') (\<lambda>s. http_change (set_secure (\<lambda>c. c\<lparr>sc_host := s\<rparr>))))) p = Some (Inr u, p')"
  shows "steps_to p (\<lambda>a. set_secure (\<lambda>c. c\<lparr>sc_host := text_option cl ''host'' (sc_host c)\<rparr>)
      (set_plain (\<lambda>c. c\<lparr>sc_host := text_option cl ''host'' (sc_host c)\<rparr>) a)) p'"
proof (cases "first_value cl ''host''")
  case None
  with override_Some [OF assms] show ?thesis by (simp add: steps_to_def text_option_def)
next
  case (Some s)
  from override_Some [OF assms] Some show ?thesis
    by (simp add: steps_to_def text_option_def then_do_Some) (simp add: first_value_given [OF Some])
qed

lemma override_path:
  assumes "override pf cl name (\<lambda>s. http_change (f (c_str s))) p = Some (Inr u, p')" "\<And>a. f (get a) a = a"
  shows "steps_to p (\<lambda>a. f (path_option cl name (get a)) a) p'"
  using override_Some [OF assms(1)] assms(2) by (auto simp: steps_to_def path_option_def split: option.splits)

lemmas override_paths =
  override_path [where f = set_root and get = "\<lambda>a. cf_rootPath (ha_httpConfig a)"]
  override_path [where f = "\<lambda>s. set_secure (\<lambda>c. c\<lparr>sc_caFilePath := s\<rparr>)" and get = "\<lambda>a. sc_caFilePath (ha_secureConfig a)"]
  override_path [where f = "\<lambda>s. set_secure (\<lambda>c. c\<lparr>sc_keyFilePath := s\<rparr>)" and get = "\<lambda>a. sc_keyFilePath (ha_secureConfig a)"]
  override_path [where f = "\<lambda>s. set_secure (\<lambda>c. c\<lparr>sc_caCertFilePath := s\<rparr>)" and get = "\<lambda>a. sc_caCertFilePath (ha_secureConfig a)"]

lemma threads_Some:
  assumes "given pf cl ''threads'' p = Some (Inr g, q)"
    "(if g then then_do (option_value pf cl ''threads'') (\<lambda>s. number_effect pf (convert_uint32 s))
      else gives (pf_concurrency pf)) q = Some (Inr n, p')"
  shows "p' = p \<and> n = (case first_value cl ''threads'' of None \<Rightarrow> pf_concurrency pf
      | Some s \<Rightarrow> (case convert_uint32 s of Inr n \<Rightarrow> n | Inl _ \<Rightarrow> 0))"
  using assms by (auto simp: given_Some then_do_Some option_value_Some first_value_def split: if_splits)

lemma option_chain:
  assumes "steps_to p (set_plain (\<lambda>c. c\<lparr>sc_port := port_option cl ''port'' (sc_port c)\<rparr>)) p1"
    "steps_to p1 (\<lambda>a. set_secure (\<lambda>c. c\<lparr>sc_host := text_option cl ''host'' (sc_host c)\<rparr>)
      (set_plain (\<lambda>c. c\<lparr>sc_host := text_option cl ''host'' (sc_host c)\<rparr>) a)) p2"
    "steps_to p2 (\<lambda>a. set_root (path_option cl ''docroot-path'' (cf_rootPath (ha_httpConfig a))) a) p3"
    "steps_to p3 (set_secure (\<lambda>c. c\<lparr>sc_port := port_option cl ''secure-port'' (sc_port c)\<rparr>)) p4"
    "steps_to p4 (\<lambda>a. set_secure (\<lambda>c. c\<lparr>sc_caFilePath := path_option cl ''ca-path'' (sc_caFilePath (ha_secureConfig a))\<rparr>) a) p5"
    "steps_to p5 (\<lambda>a. set_secure (\<lambda>c. c\<lparr>sc_keyFilePath := path_option cl ''key-path'' (sc_keyFilePath (ha_secureConfig a))\<rparr>) a) p6"
    "steps_to p6 (\<lambda>a. set_secure (\<lambda>c. c\<lparr>sc_caCertFilePath := path_option cl ''cert-path'' (sc_caCertFilePath (ha_secureConfig a))\<rparr>) a) p7"
  shows "ha_config (ap_state p7) = option_plain cl (ha_config (ap_state p)) \<and>
    ha_secureConfig (ap_state p7) = option_secure cl (ha_secureConfig (ap_state p)) \<and>
    ha_httpConfig (ap_state p7) = (ha_httpConfig (ap_state p))
      \<lparr>cf_rootPath := path_option cl ''docroot-path'' (cf_rootPath (ha_httpConfig (ap_state p)))\<rparr> \<and>
    wo_listening (ap_state p7) = wo_listening (ap_state p) \<and> wo_world (ap_state p7) = wo_world (ap_state p)"
  using steps_to_trans [OF steps_to_trans [OF steps_to_trans [OF steps_to_trans [OF steps_to_trans [OF
    steps_to_trans [OF assms(1,2)] assms(3)] assms(4)] assms(5)] assms(6)] assms(7)]
  by (simp add: steps_to_def option_plain_def option_secure_def)

lemma apply_options_Some:
  assumes "apply_options pf cl p = Some (Inr u, p')"
  shows "ha_config (ap_state p') = option_plain cl (ha_config (ap_state p)) \<and>
    ha_secureConfig (ap_state p') = option_secure cl (ha_secureConfig (ap_state p)) \<and>
    ha_httpConfig (ap_state p') = (ha_httpConfig (ap_state p))
      \<lparr>cf_rootPath := path_option cl ''docroot-path'' (cf_rootPath (ha_httpConfig (ap_state p)))\<rparr> \<and>
    wo_listening (ap_state p') = wo_listening (ap_state p) \<and> wo_world (ap_state p') = wo_world (ap_state p) \<and>
    ha_numThreads (ap_state p') = option_threads pf cl"
  using assms unfolding apply_options_def
  apply (elim then_do_SomeE)
  apply (drule override_plain_port)
  apply (drule override_host)
  apply (drule override_paths(1), simp)
  apply (drule override_secure_port)
  apply (drule override_paths(2), simp)
  apply (drule override_paths(3), simp)
  apply (drule override_paths(4), simp)
  apply (drule (1) threads_Some)
  apply (drule (6) option_chain)
  apply (simp add: option_threads_def Let_def)
  done

section \<open>From the arguments to the sockets\<close>

text \<open>The file of the configuration: that of the option, or else the one beside the program.\<close>

definition configured_path :: "CommandLineOptions \<times> cl_store \<Rightarrow> path \<Rightarrow> path" where
  "configured_path cl q =
     (case first_value cl ''config-path'' of None \<Rightarrow> path_append (parent_path q) ''http_server.json'' | Some s \<Rightarrow> c_str s)"

lemma config_path_Some:
  assumes "config_path pf cl args p = Some (Inr path, p')"
  shows "\<exists>q ec w. and_then (current_path (pf_os pf)) (absolute_action (pf_os pf) (args ! 0)) (Cleared, wo_world (ap_state p)) =
      (Value q, ec, w) \<and> path = configured_path cl q \<and> p' = p\<lparr>ap_state := (ap_state p)\<lparr>wo_world := w\<rparr>\<rparr>"
proof -
  obtain q ec where q: "file_effect pf (and_then (current_path (pf_os pf)) (absolute_action (pf_os pf) (args ! 0))) p =
      Some (Inr (q, ec), p')" "path = configured_path cl q"
    using assms
    by (auto simp: config_path_def configured_path_def first_value_def then_do_Some given_Some option_value_Some
        split: if_splits prod.splits)
  with file_effect_Some [OF q(1)] show ?thesis by blast
qed

lemma setUp_Some:
  assumes "HttpServer_setUp pf args p = Some (Inr True, p')"
  shows "\<exists>c st cl q ec w1 w2 content j. http_options (pf_argtable pf) (pf_grows pf) = (c, st) \<and>
    CommandLineOptions_parse (pf_argtable pf) args c st = Some (True, cl) \<and>
    (\<exists>n. CommandLineOptions_count (fst cl) ''help'' (snd cl) = Some (Inr n) \<and> n \<le> 0) \<and>
    and_then (current_path (pf_os pf)) (absolute_action (pf_os pf) (args ! 0)) (Cleared, wo_world (ap_state p)) =
      (Value q, ec, w1) \<and>
    exists_ec (pf_os pf) (configured_path cl q) (Cleared, w1) = (Value True, Cleared, w2) \<and>
    pf_reader pf (configured_path cl q) w2 = Some content \<and> pf_parse pf content = Inr j \<and>
    (\<exists>n. CommandLineOptions_count (fst cl) ''docroot-path'' (snd cl) = Some (Inr n)) \<and>
    ha_config (ap_state p') = option_plain cl (file_plain pf j (ha_config (ap_state p))) \<and>
    ha_secureConfig (ap_state p') = option_secure cl (file_secure pf j (ha_secureConfig (ap_state p))) \<and>
    ha_httpConfig (ap_state p') = (ha_httpConfig (ap_state p))
      \<lparr>cf_rootPath := path_option cl ''docroot-path'' (value_or (js_string (pf_json pf) j ''docroot-path'' ''./docroot'') []),
       cf_domain := value_or (js_string (pf_json pf) j ''domain'' (pf_hostname pf)) []\<rparr> \<and>
    ha_numThreads (ap_state p') = option_threads pf cl \<and>
    wo_listening (ap_state p') = wo_listening (ap_state p) \<and> wo_world (ap_state p') = w2"
proof -
  obtain c st where o: "http_options (pf_argtable pf) (pf_grows pf) = (c, st)" by fastforce
  obtain cl path p1 p2 where 1: "CommandLineOptions_parse (pf_argtable pf) args c st = Some (True, cl)"
    "\<exists>n. CommandLineOptions_count (fst cl) ''help'' (snd cl) = Some (Inr n) \<and> n \<le> 0"
    "config_path pf cl args p = Some (Inr path, p1)" "read_configuration pf path p1 = Some (Inr (), p2)"
    "apply_options pf cl p2 = Some (Inr (), p')"
    using assms o
    by (fastforce simp: HttpServer_setUp_def then_do_Some given_Some not_less split: option.splits prod.splits if_splits)
  from config_path_Some [OF 1(3)] obtain q ec w1 where q: "path = configured_path cl q"
    "and_then (current_path (pf_os pf)) (absolute_action (pf_os pf) (args ! 0)) (Cleared, wo_world (ap_state p)) =
      (Value q, ec, w1)" "ap_state p1 = (ap_state p)\<lparr>wo_world := w1\<rparr>" by auto
  from read_configuration_Some [OF 1(4)] q(1,3) obtain w2 content j where r: "pf_parse pf content = Inr j"
    "exists_ec (pf_os pf) (configured_path cl q) (Cleared, w1) = (Value True, Cleared, w2)"
    "pf_reader pf (configured_path cl q) w2 = Some content"
    "ap_state p2 = file_settings pf j ((ap_state p)\<lparr>wo_world := w2\<rparr>)" by auto
  note a = apply_options_Some [OF 1(5)]
  have "\<exists>n. CommandLineOptions_count (fst cl) ''docroot-path'' (snd cl) = Some (Inr n)"
    using 1(5) by (auto simp: apply_options_def then_do_Some override_def given_Some)
  with o 1(1,2) q(2) r a show ?thesis
    by (intro exI [of _ c] exI [of _ st] exI [of _ cl] exI [of _ q] exI [of _ ec] exI [of _ w1] exI [of _ w2]
        exI [of _ content] exI [of _ j]) (simp add: file_settings_def)
qed

lemma listen_on_Some:
  "listen_on pf tls host port p = Some (Inr u, p') \<Longrightarrow>
   pf_listen pf host port (wo_world (ap_state p)) = None \<and>
   p' = p\<lparr>ap_state := (ap_state p)\<lparr>wo_listening := wo_listening (ap_state p) @ [(tls, host, port)]\<rparr>\<rparr>"
  by (auto simp: listen_on_def split: option.splits)

lemma run_pool_Some:
  "run_pool pf n p = Some (Inr r, p') \<Longrightarrow> r = 0 \<and>
   (\<exists>w. pf_run pf (unat n) (wo_world (ap_state p)) = Some w \<and> p' = p\<lparr>ap_state := (ap_state p)\<lparr>wo_world := w\<rparr>\<rparr>)"
  by (auto simp: run_pool_def split: option.splits)

lemma doRun_Some:
  assumes "HttpServer_doRun pf p = Some (Inr n, p')"
  shows "n = 0 \<and> (\<exists>w. pf_run pf (unat (ha_numThreads (ap_state p))) (wo_world (ap_state p)) = Some w \<and>
      ap_state p' = (ap_state p)\<lparr>wo_world := w, wo_listening := wo_listening (ap_state p) @
        listens (ha_config (ap_state p)) (ha_secureConfig (ap_state p))\<rparr>) \<and>
    (sc_enable (ha_secureConfig (ap_state p)) \<longrightarrow>
       pf_certificate pf (sc_caCertFilePath (ha_secureConfig (ap_state p))) (sc_keyFilePath (ha_secureConfig (ap_state p)))
         (wo_world (ap_state p)) = None)"
  using assms
  by (auto simp: HttpServer_doRun_def then_do_Some listens_def split: if_splits option.splits
      dest!: listen_on_Some run_pool_Some)

lemma run_Some:
  assumes "Application_run place v argv p = Some (Inr code, p')" "code \<noteq> - 1"
  shows "\<exists>p1 p2 r p3. called (SetUp argv) (v_setUp v argv) p = Some (Inr True, p1) \<and>
    called DoRun (v_doRun v) p1 = Some (Inr code, p2) \<and> called (TearDown code) (v_tearDown v code) p2 = Some (r, p3) \<and>
    ap_state p' = ap_state p3"
  using assms
  by (auto simp: Application_run_def catches_def then_do_def effect_defs evaluate_def split: option.splits sum.splits if_splits)

lemma last_words_Some: "last_words place u m n p = Some (r, p') \<Longrightarrow> ap_state p' = ap_state p"
  by (auto simp: last_words_def)

lemma http_server_runs:
  assumes "http_server_main place pf argv w = Some (Inr 0, p)" "names_law (pf_argtable pf)"
  shows "\<exists>c st cl q ec w1 w2 w3 content j plain secure. http_options (pf_argtable pf) (pf_grows pf) = (c, st) \<and>
    CommandLineOptions_parse (pf_argtable pf) argv c st = Some (True, cl) \<and>
    (\<exists>n. CommandLineOptions_count (fst cl) ''help'' (snd cl) = Some (Inr n) \<and> n \<le> 0) \<and>
    and_then (current_path (pf_os pf)) (absolute_action (pf_os pf) (argv ! 0)) (Cleared, w) = (Value q, ec, w1) \<and>
    exists_ec (pf_os pf) (configured_path cl q) (Cleared, w1) = (Value True, Cleared, w2) \<and>
    pf_reader pf (configured_path cl q) w2 = Some content \<and> pf_parse pf content = Inr j \<and>
    plain = option_plain cl (file_plain pf j (ha_config (HttpServer_new w))) \<and>
    secure = option_secure cl (file_secure pf j (ha_secureConfig (HttpServer_new w))) \<and>
    (sc_enable secure \<longrightarrow> pf_certificate pf (sc_caCertFilePath secure) (sc_keyFilePath secure) w2 = None) \<and>
    pf_run pf (unat (option_threads pf cl)) w2 = Some w3 \<and>
    ap_state p = \<lparr>wo_listening = listens plain secure, wo_world = w3, ha_secureConfig = secure, ha_config = plain,
      ha_numThreads = option_threads pf cl,
      ha_httpConfig = \<lparr>cf_rootPath = value_or (js_string (pf_json pf) j ''docroot-path'' ''./docroot'') [],
        cf_domain = value_or (js_string (pf_json pf) j ''domain'' (pf_hostname pf)) []\<rparr>\<rparr>"
proof -
  let ?s = "process_start logging_start (HttpServer_new w)"
  from assms(1) obtain p1 p2 r p3 where
    r: "called (SetUp argv) (HttpServer_setUp pf argv) ?s = Some (Inr True, p1)"
      "called DoRun (HttpServer_doRun pf) p1 = Some (Inr 0, p2)"
      "called (TearDown 0) (last_words place ''HttpServer'' ''Terminating application'' 244) p2 = Some (r, p3)"
      "ap_state p = ap_state p3"
    using run_Some [of place "HttpServer place pf" argv ?s 0 p] by (auto simp: http_server_main_def HttpServer_def)
  let ?plain = "\<lambda>cl j. option_plain cl (file_plain pf j (ha_config (HttpServer_new w)))"
  let ?secure = "\<lambda>cl j. option_secure cl (file_secure pf j (ha_secureConfig (HttpServer_new w)))"
  obtain c st cl q ec w1 w2 content j where u: "http_options (pf_argtable pf) (pf_grows pf) = (c, st)"
    "CommandLineOptions_parse (pf_argtable pf) argv c st = Some (True, cl)"
    "\<exists>n. CommandLineOptions_count (fst cl) ''help'' (snd cl) = Some (Inr n) \<and> n \<le> 0"
    "and_then (current_path (pf_os pf)) (absolute_action (pf_os pf) (argv ! 0)) (Cleared, w) = (Value q, ec, w1)"
    "exists_ec (pf_os pf) (configured_path cl q) (Cleared, w1) = (Value True, Cleared, w2)"
    "pf_reader pf (configured_path cl q) w2 = Some content" "pf_parse pf content = Inr j"
    "\<exists>n. CommandLineOptions_count (fst cl) ''docroot-path'' (snd cl) = Some (Inr n)"
    and v: "ha_config (ap_state p1) = ?plain cl j" "ha_secureConfig (ap_state p1) = ?secure cl j"
    "ha_httpConfig (ap_state p1) =
      \<lparr>cf_rootPath = path_option cl ''docroot-path'' (value_or (js_string (pf_json pf) j ''docroot-path'' ''./docroot'') []),
       cf_domain = value_or (js_string (pf_json pf) j ''domain'' (pf_hostname pf)) []\<rparr>"
    "ha_numThreads (ap_state p1) = option_threads pf cl"
    "wo_listening (ap_state p1) = []" "wo_world (ap_state p1) = w2"
    using setUp_Some [OF r(1) [unfolded called_def]] by (auto simp: process_start_def HttpServer_new_def)
  have "unnamed ''docroot-path'' st" by (rule http_options_unnamed [OF assms(2) _ u(1)]) simp
  from undeclared_count [OF assms(2) this, of argv c True "fst cl" "snd cl"] u(2,8)
  have "first_value cl ''docroot-path'' = None" by (auto simp: first_value_def)
  then have root: "path_option cl ''docroot-path'' t = t" for t by (simp add: path_option_def)
  from doRun_Some [OF r(2) [unfolded called_def]] obtain w3 where
    d: "pf_run pf (unat (option_threads pf cl)) w2 = Some w3"
      "ap_state p2 = (ap_state p1)\<lparr>wo_world := w3, wo_listening := listens (?plain cl j) (?secure cl j)\<rparr>"
      "sc_enable (?secure cl j) \<longrightarrow>
        pf_certificate pf (sc_caCertFilePath (?secure cl j)) (sc_keyFilePath (?secure cl j)) w2 = None"
    using v by auto
  have "ap_state p = ap_state p2" using last_words_Some [OF r(3) [unfolded called_def]] r(4) by simp
  then have "ap_state p = \<lparr>wo_listening = listens (?plain cl j) (?secure cl j), wo_world = w3,
      ha_secureConfig = ?secure cl j, ha_config = ?plain cl j, ha_numThreads = option_threads pf cl,
      ha_httpConfig = \<lparr>cf_rootPath = value_or (js_string (pf_json pf) j ''docroot-path'' ''./docroot'') [],
        cf_domain = value_or (js_string (pf_json pf) j ''domain'' (pf_hostname pf)) []\<rparr>\<rparr>"
    using d(2) v root by simp
  with u(1-7) d(1,3) show ?thesis by blast
qed


section \<open>The broker\<close>

definition broker_listens :: "Configuration \<Rightarrow> (bool \<times> string \<times> u16) list" where
  "broker_listens c =
     (if hasSecureMQTT c then [(True, mc_secureHost c, mc_securePort c)] else []) @
     (if hasMQTT c then [(False, mc_host c, mc_port c)] else [])"

lemma broker_doRun_Some:
  assumes "MQTTBroker_doRun pf p = Some (Inr n, p')"
  shows "n = 0 \<and> broker_listens (ba_configuration (ap_state p)) \<noteq> [] \<and>
    wo_listening (ap_state p') = wo_listening (ap_state p) @ broker_listens (ba_configuration (ap_state p))"
  using assms
  by (auto simp: MQTTBroker_doRun_def then_do_Some broker_listens_def Let_def split: if_splits option.splits
      dest!: listen_on_Some run_pool_Some)

text \<open>Without a configuration file the broker listens on both of its ports.\<close>

lemma broker_defaults:
  "broker_listens (setDefaults c) = [(True, ''127.0.0.1'', 8883), (False, ''127.0.0.1'', 1883)]"
  by (simp add: broker_listens_def setDefaults_def hasSecureMQTT_def hasMQTT_def)

lemma broker_main_code: "mqtt_broker_main place pf argv junk w = Some (r, p) \<Longrightarrow> r = Inr 0 \<or> (\<exists>ex. r = Inl ex)"
  by (cases r) (auto simp: mqtt_broker_main_def then_do_Some)

end
