(* ===== verification/Sample_Server.thy ===== *)
theory Sample_Server
  imports Server_Settings Sample_Systems Command_Line_Facts
begin

text \<open>
  A platform on which the HTTP server of src/examples/http_server runs, for the witnesses: a JSON library whose documents are
  objects, arrays, numbers and texts, a command line library for long options that are followed by their argument, and a
  system on which every file exists. The server is run on it step by step.
\<close>

section \<open>Libraries\<close>

text \<open>A JSON library for the witnesses: documents are objects, arrays, numbers and texts.\<close>

datatype doc = Obj "(string \<times> doc) list" | Arr "doc list" | Num int | Txt string | Flag bool

fun doc_find :: "doc \<Rightarrow> string \<Rightarrow> doc option" where
  "doc_find (Obj ms) k = map_of ms k"
| "doc_find d k = None"

definition doc_library :: "doc json_library" where
  "doc_library =
     \<lparr>js_find = doc_find,
      js_at = (\<lambda>d k. case doc_find d k of None \<Rightarrow> Inl (Json_error ''out_of_range'') | Some x \<Rightarrow> Inr x),
      js_elements = (\<lambda>d. case d of Arr ds \<Rightarrow> ds | _ \<Rightarrow> [d]),
      js_items = (\<lambda>d. case d of Obj ms \<Rightarrow> map (\<lambda>(k, x). (Inr k, x)) ms | _ \<Rightarrow> [(Inl (Json_error ''invalid_iterator''), d)]),
      js_long = (\<lambda>d. case d of Num n \<Rightarrow> Inr (of_int n) | _ \<Rightarrow> Inl (Json_error ''type_error'')),
      js_string = (\<lambda>d k t. case doc_find d k of None \<Rightarrow> Inr t | Some (Txt s) \<Rightarrow> Inr s | _ \<Rightarrow> Inl (Json_error ''type_error'')),
      js_bool = (\<lambda>d k b. case doc_find d k of None \<Rightarrow> Inr b | Some (Flag c) \<Rightarrow> Inr c | _ \<Rightarrow> Inl (Json_error ''type_error''))\<rparr>"

definition plain_environment :: log_environment where
  "plain_environment = \<lparr>show_time = print_int, show_tid = to_string\<rparr>"

definition nowhere :: "'s process \<Rightarrow> log_place" where
  "nowhere p = \<lparr>lp_environment = plain_environment, lp_now = 0, lp_tid = 0, lp_file = ''exception.cpp''\<rparr>"

text \<open>A library for options that are followed by their argument; the option help has to be there.\<close>

fun value_after :: "string \<Rightarrow> string list \<Rightarrow> string option" where
  "value_after k (a # b # args) = (if a = k then Some b else value_after k (b # args))"
| "value_after k args = None"

definition fill_entry :: "string list \<Rightarrow> arg \<Rightarrow> arg" where
  "fill_entry args a =
     (case Option.bind (a_longopts a) (\<lambda>l. value_after (''--'' @ l) args) of
        None \<Rightarrow> a
      | Some v \<Rightarrow> a\<lparr>a_count := 1, a_sval := [v]\<rparr>)"

definition long_lit :: "string option \<Rightarrow> string option \<Rightarrow> int \<Rightarrow> int \<Rightarrow> string \<Rightarrow> arg" where
  "long_lit s l mn mx d = \<lparr>a_shortopts = s, a_longopts = l, a_count = 0, a_sval = []\<rparr>"

definition long_str :: "string option \<Rightarrow> string option \<Rightarrow> string \<Rightarrow> int \<Rightarrow> int \<Rightarrow> string \<Rightarrow> arg" where
  "long_str s l t mn mx d = \<lparr>a_shortopts = s, a_longopts = l, a_count = 0, a_sval = [[]]\<rparr>"

definition long_parse :: "string list \<Rightarrow> arg list \<Rightarrow> int \<times> arg list" where
  "long_parse args t =
     (if list_ex (has_name ''help'') t \<and> ''--help'' \<notin> set args then 1 else 0, map (fill_entry args) t)"

definition long_table :: argtable where
  "long_table = \<lparr>arg_litn = long_lit, arg_strn = long_str, arg_nullcheck = (\<lambda>t. 0), arg_parse = long_parse\<rparr>"

lemma long_table_law: "names_law long_table"
proof -
  have "a_shortopts (fill_entry args a) = a_shortopts a" "a_longopts (fill_entry args a) = a_longopts a" for args a
    by (simp_all add: fill_entry_def split: option.split)
  then show ?thesis by (simp add: names_law_def long_table_def long_lit_def long_str_def long_parse_def comp_def)
qed

definition sample_document :: doc where
  "sample_document = Obj [(''docroot-path'', Txt ''/www''), (''http'', Obj [(''port'', Num 80)]),
     (''https'', Obj [(''host'', Txt ''10.0.0.2'')])]"

definition sample_platform :: "(doc, unit) platform" where
  "sample_platform =
     \<lparr>pf_argtable = long_table, pf_grows = (\<lambda>n. False), pf_option_place = (\<lambda>b. ('''', 0)), pf_number_what = (\<lambda>e. ''stoul''),
      pf_system_what = (\<lambda>n s. s), pf_filesystem_thrown = (\<lambda>e. System_error 0 (fe_what e)),
      pf_os = inert_os\<lparr>sc_getcwd := (\<lambda>w. Inr ''/srv''), sc_stat := (\<lambda>p w. Inr (stat_of_mode 0x8000))\<rparr>,
      pf_reader = (\<lambda>p w. Some ''{}''), pf_parse = (\<lambda>s. Inr sample_document), pf_empty = Obj [], pf_json = doc_library,
      pf_u16 = (\<lambda>d k n. case doc_find d k of Some (Num m) \<Rightarrow> Inr (of_int m) | _ \<Rightarrow> Inr n),
      pf_hostname = ''host'', pf_concurrency = 4, pf_certificate = (\<lambda>p q w. None), pf_listen = (\<lambda>h n w. None),
      pf_run = (\<lambda>n w. Some w), pf_place = (\<lambda>n. (''main.cpp'', n))\<rparr>"

definition sample_arguments :: "string list" where
  "sample_arguments = [''/srv/http_server'', ''--host'', ''10.0.0.1'', ''--doc-root-path'', ''/home'']"


section \<open>The command line of the sample\<close>

lemma options_declared:
  assumes "help_options = [new_option a]" "server_options = map new_option [b, c, d, e, f, g, h, i]"
  shows "http_options at (\<lambda>n. False) =
    (\<lparr>cl_program = ''http_server'',
       cl_options = [\<lparr>og_name = ''Help'', og_options = [0], og_argtable = [9]\<rparr>,
         \<lparr>og_name = ''Options'', og_options = [1, 2, 3, 4, 5, 6, 7, 8], og_argtable = [10, 11, 12, 13, 14, 15, 16, 17]\<rparr>],
       cl_activeGroup = None\<rparr>,
     \<lparr>cs_options = [a\<lparr>ob_arg := Some 9\<rparr>, b\<lparr>ob_arg := Some 10\<rparr>, c\<lparr>ob_arg := Some 11\<rparr>, d\<lparr>ob_arg := Some 12\<rparr>,
         e\<lparr>ob_arg := Some 13\<rparr>, f\<lparr>ob_arg := Some 14\<rparr>, g\<lparr>ob_arg := Some 15\<rparr>, h\<lparr>ob_arg := Some 16\<rparr>, i\<lparr>ob_arg := Some 17\<rparr>],
       cs_args = replicate 9 None @ map (\<lambda>opt. Some (entry_of at opt)) [a, b, c, d, e, f, g, h, i]\<rparr>)"
  by (simp add: http_options_def assms new_option_def OptionGroup_new_def CommandLineOptions_new_def push_group_def
      OptionGroup_copy_def OptionGroup_destroy_def option_add_entry numeral_eq_Suc cong: prod.case_cong_weak)

definition sample_help :: OptionBase where
  "sample_help = OptionBase_new LiteralOption '''' ''help'' 1 1 ''display this help and exit''"

definition sample_options :: "OptionBase list" where
  "sample_options =
     [OptionBase_new (TypedOption ''<PORT>'') ''p'' ''port'' 0 1 ''http port to connect to'',
      OptionBase_new (TypedOption ''<PORT>'') ''s'' ''secure-port'' 0 1 ''https port to connect to'',
      OptionBase_new (TypedOption ''<HOST>'') ''h'' ''host'' 0 1 ''host'',
      OptionBase_new (TypedOption ''<PATH>'') ''d'' ''doc-root-path'' 0 1 ''document root path'',
      OptionBase_new (TypedOption ''<PATH>'') '''' ''ca-path'' 0 1 ''path to ca store'',
      OptionBase_new (TypedOption ''<PATH>'') '''' ''cert-path'' 0 1 ''path to cert file'',
      OptionBase_new (TypedOption ''<PATH>'') ''c'' ''config-path'' 0 1 ''path to config file'',
      OptionBase_new (TypedOption ''<NUMBER>'') ''n'' ''threads'' 0 1 ''number of threads to spawn'']"


text \<open>The entries after parsing, with the number of arguments and their first.\<close>

definition entry_after :: "string option \<Rightarrow> string \<Rightarrow> string option \<Rightarrow> arg" where
  "entry_after s l v = \<lparr>a_shortopts = s, a_longopts = Some l, a_count = (if v = None then 0 else 1),
     a_sval = [case v of None \<Rightarrow> [] | Some x \<Rightarrow> x]\<rparr>"

definition sample_entries :: "arg list" where
  "sample_entries =
     [entry_after (Some ''p'') ''port'' None, entry_after (Some ''s'') ''secure-port'' None,
      entry_after (Some ''h'') ''host'' (Some ''10.0.0.1''), entry_after (Some ''d'') ''doc-root-path'' (Some ''/home''),
      entry_after None ''ca-path'' None, entry_after None ''cert-path'' None,
      entry_after (Some ''c'') ''config-path'' None, entry_after (Some ''n'') ''threads'' None]"

definition sample_line :: "CommandLineOptions \<times> cl_store" where
  "sample_line =
     (\<lparr>cl_program = ''http_server'',
         cl_options = [\<lparr>og_name = ''Help'', og_options = [0], og_argtable = [9]\<rparr>,
           \<lparr>og_name = ''Options'', og_options = [1, 2, 3, 4, 5, 6, 7, 8], og_argtable = [10, 11, 12, 13, 14, 15, 16, 17]\<rparr>],
         cl_activeGroup = Some 1\<rparr>,
      \<lparr>cs_options = map (\<lambda>n. ((sample_help # sample_options) ! n)\<lparr>ob_arg := Some (n + 9)\<rparr>) [0..<9],
        cs_args = replicate 9 None @ Some (entry_of long_table sample_help) # map Some sample_entries\<rparr>)"

lemma sample_declared:
  "help_options = [new_option sample_help]" "server_options = map new_option sample_options"
  by (simp_all add: help_options_def server_options_def sample_help_def sample_options_def Option_literal_bounds_def
      Option_typed_bounds_def)


lemma options_parsed:
  assumes "http_options at (\<lambda>n. False) =
    (\<lparr>cl_program = ''http_server'',
       cl_options = [\<lparr>og_name = ''Help'', og_options = [0], og_argtable = [9]\<rparr>,
         \<lparr>og_name = ''Options'', og_options = [1, 2, 3, 4, 5, 6, 7, 8], og_argtable = [10, 11, 12, 13, 14, 15, 16, 17]\<rparr>],
       cl_activeGroup = None\<rparr>,
     \<lparr>cs_options = os, cs_args = replicate 9 None @ map (\<lambda>opt. Some (entry_of at opt)) [a, b, c, d, e, f, g, h, i]\<rparr>)"
    "args \<noteq> []" "\<And>t. arg_nullcheck at t = 0" "arg_parse at args [entry_of at a] = (1, [a'])"
    "arg_parse at args (map (entry_of at) [b, c, d, e, f, g, h, i]) = (0, [b', c', d', e', f', g', h', i'])"
  shows "\<exists>c st. http_options at (\<lambda>n. False) = (c, st) \<and>
    CommandLineOptions_parse at args c st = Some (True,
      \<lparr>cl_program = ''http_server'',
         cl_options = [\<lparr>og_name = ''Help'', og_options = [0], og_argtable = [9]\<rparr>,
           \<lparr>og_name = ''Options'', og_options = [1, 2, 3, 4, 5, 6, 7, 8], og_argtable = [10, 11, 12, 13, 14, 15, 16, 17]\<rparr>],
         cl_activeGroup = Some 1\<rparr>,
      \<lparr>cs_options = os, cs_args = replicate 9 None @ map Some [a', b', c', d', e', f', g', h', i']\<rparr>)"
  using assms(2-5) unfolding assms(1)
  by (simp add: CommandLineOptions_parse_def OptionGroup_parse_def arg_at_def Let_def numeral_eq_Suc
      cong: prod.case_cong_weak)

lemma sample_parsed:
  "\<exists>c st. http_options long_table (\<lambda>n. False) = (c, st) \<and>
     CommandLineOptions_parse long_table sample_arguments c st = Some (True, sample_line)"
proof -
  have p1: "arg_parse long_table sample_arguments [entry_of long_table sample_help] = (1, [entry_of long_table sample_help])"
    by code_simp
  have p2: "arg_parse long_table sample_arguments (map (entry_of long_table) sample_options) = (0, sample_entries)"
    by code_simp
  have n: "\<And>t. arg_nullcheck long_table t = 0" "sample_arguments \<noteq> []" by (simp_all add: long_table_def sample_arguments_def)
  show ?thesis
    using options_parsed [OF options_declared [OF sample_declared(1) sample_declared(2) [unfolded sample_options_def]]
        n(2,1) p1 p2 [unfolded sample_options_def sample_entries_def]]
    by (simp add: sample_line_def sample_options_def sample_entries_def numeral_eq_Suc upt_rec)
qed

lemma sample_args:
  "option_arg 1 (snd sample_line) = Some (entry_after (Some ''p'') ''port'' None)"
  "option_arg 2 (snd sample_line) = Some (entry_after (Some ''s'') ''secure-port'' None)"
  "option_arg 3 (snd sample_line) = Some (entry_after (Some ''h'') ''host'' (Some ''10.0.0.1''))"
  "option_arg 4 (snd sample_line) = Some (entry_after (Some ''d'') ''doc-root-path'' (Some ''/home''))"
  "option_arg 5 (snd sample_line) = Some (entry_after None ''ca-path'' None)"
  "option_arg 6 (snd sample_line) = Some (entry_after None ''cert-path'' None)"
  "option_arg 7 (snd sample_line) = Some (entry_after (Some ''c'') ''config-path'' None)"
  "option_arg 8 (snd sample_line) = Some (entry_after (Some ''n'') ''threads'' None)"
  by code_simp+

lemma entry_after_simps [simp]:
  "has_name name (entry_after s l v) \<longleftrightarrow> name = l \<or> s = Some name"
  "a_count (entry_after s l v) = (if v = None then 0 else 1)"
  by (auto simp: has_name_def entry_after_def)

lemma sample_counts:
  "CommandLineOptions_count (fst sample_line) name (snd sample_line) =
     Some (Inr (if name \<in> {''h'', ''host'', ''d'', ''doc-root-path''} then 1 else 0))"
proof -
  have g: "fst sample_line = \<lparr>cl_program = ''http_server'',
         cl_options = [\<lparr>og_name = ''Help'', og_options = [0], og_argtable = [9]\<rparr>,
           \<lparr>og_name = ''Options'', og_options = [1, 2, 3, 4, 5, 6, 7, 8], og_argtable = [10, 11, 12, 13, 14, 15, 16, 17]\<rparr>],
         cl_activeGroup = Some 1\<rparr>" by (simp add: sample_line_def)
  show ?thesis
    by (simp add: CommandLineOptions_count_def in_active_group_def OptionGroup_count_def g sample_args sample_args [unfolded One_nat_def]
      option_count_def)
qed

lemma sample_given:
  "given pf sample_line name = gives (name \<in> {''h'', ''host'', ''d'', ''doc-root-path''})"
  by (rule ext) (simp add: given_def sample_counts option_effect_def effect_defs)

lemma sample_host: "option_value pf sample_line ''host'' = gives ''10.0.0.1''"
proof -
  have "CommandLineOptions_option (fst sample_line) ''host'' (snd sample_line) = Some (Inr 3)" by code_simp
  moreover have "OptionWrapper_value 3 0 (snd sample_line) = Some (Inr ''10.0.0.1'')" by code_simp
  ultimately show ?thesis by (intro ext) (simp add: option_value_def option_effect_def effect_defs)
qed

lemma sample_first:
  "first_value sample_line ''host'' = Some ''10.0.0.1''"
  "name \<notin> {''h'', ''host'', ''d'', ''doc-root-path''} \<Longrightarrow> first_value sample_line name = None"
proof -
  have "CommandLineOptions_option (fst sample_line) ''host'' (snd sample_line) = Some (Inr 3)" by code_simp
  moreover have "OptionWrapper_value 3 0 (snd sample_line) = Some (Inr ''10.0.0.1'')" by code_simp
  ultimately show "first_value sample_line ''host'' = Some ''10.0.0.1''" by (simp add: first_value_def sample_counts)
  show "name \<notin> {''h'', ''host'', ''d'', ''doc-root-path''} \<Longrightarrow> first_value sample_line name = None"
    by (simp add: first_value_def sample_counts)
qed


section \<open>The run\<close>

lemma then_gives [simp]: "then_do (gives x) f = f x"
  by (rule ext) (simp add: effect_defs)

lemma sample_apply: "\<exists>p'. apply_options sample_platform sample_line p = Some (Inr (), p')"
proof -
  have "pf_concurrency sample_platform = 4" by (simp add: sample_platform_def)
  then show ?thesis
    by (simp add: apply_options_def override_def sample_given sample_host http_change_def then_do_def effect_defs)
qed

lemma sample_config_path: "\<exists>path p'. config_path sample_platform sample_line sample_arguments p = Some (Inr path, p')"
proof -
  have r: "has_root_directory ''/srv/http_server''" "\<not> has_root_name ''/srv/http_server''" "\<not> has_root_name ''/srv''"
    "c_str ''/srv'' = ''/srv''" "char_at ''/srv'' 0 = CHR ''/''" by code_simp+
  have "and_then (current_path (pf_os sample_platform)) (absolute_action (pf_os sample_platform) (sample_arguments ! 0))
      (Cleared, wo_world (ap_state p)) = (Value ''/srv/http_server'', Cleared, ())"
    by (simp add: current_path_def current_path_ec_def absolute_action_def throwing_def sample_platform_def
        sample_arguments_def r absolute.simps and_then_def local_ec_def looks_def set_ec_def ret_def)
  then show ?thesis by (simp add: config_path_def sample_given then_do_def file_effect_def effect_defs)
qed

lemma sample_read: "\<exists>p'. read_configuration sample_platform path p = Some (Inr (), p')"
proof -
  have "exists_ec (pf_os sample_platform) path (Cleared, wo_world (ap_state p)) = (Value True, Cleared, ())"
    by (simp add: exists_ec_def status_ec_def status_of_call_def sample_platform_def and_then_def looks_def set_ec_def get_ec_def
        ret_def setStatus_def file_status_new_def exists_status_def status_known_def stat_of_mode_def file_type_of_mode_def
        S_IFMT_def)
  moreover obtain lg where "Logging_init doc_library sample_document False (ap_logging p) = (None, lg)"
    by (cases "lg_initFlag (ap_logging p)") (simp_all add: Logging_init_def doInitLogging_def doc_library_def sample_document_def)
  moreover have "pf_json sample_platform = doc_library" "pf_parse sample_platform s = Inr sample_document"
    "pf_reader sample_platform path w = Some ''{}''" "pf_u16 sample_platform d k n = (case doc_find d k of Some (Num m) \<Rightarrow> Inr (of_int m) | _ \<Rightarrow> Inr n)" for s path w d k n
    by (simp_all add: sample_platform_def)
  ultimately show ?thesis
    by (simp add: read_configuration_def then_do_def file_effect_def effect_defs init_logging_def read_plain_def
        read_secure_def http_change_def json_effect_def doc_library_def sample_document_def)
qed

lemma sample_doRun: "\<exists>p'. HttpServer_doRun sample_platform p = Some (Inr 0, p')"
proof -
  have "pf_certificate sample_platform q r w = None" "pf_listen sample_platform h n w = None" "pf_run sample_platform k w = Some w"
    for q r w h n k by (simp_all add: sample_platform_def)
  then show ?thesis by (simp add: HttpServer_doRun_def then_do_def listen_on_def run_pool_def effect_defs)
qed

lemma sample_setUp: "\<exists>p'. HttpServer_setUp sample_platform sample_arguments p = Some (Inr True, p')"
proof -
  obtain c st where c: "http_options long_table (\<lambda>n. False) = (c, st)"
    "CommandLineOptions_parse long_table sample_arguments c st = Some (True, sample_line)"
    using sample_parsed by blast
  have "pf_argtable sample_platform = long_table" "pf_grows sample_platform = (\<lambda>n. False)"
    by (simp_all add: sample_platform_def)
  moreover obtain path p1 p2 p3 where "config_path sample_platform sample_line sample_arguments p = Some (Inr path, p1)"
    "read_configuration sample_platform path p1 = Some (Inr (), p2)" "apply_options sample_platform sample_line p2 = Some (Inr (), p3)"
    using sample_config_path sample_read sample_apply by meson
  ultimately show ?thesis
    using c by (simp add: HttpServer_setUp_def sample_given then_do_def effect_defs)
qed

lemma sample_main: "\<exists>p. http_server_main nowhere sample_platform sample_arguments () = Some (Inr 0, p)"
proof -
  let ?s = "process_start logging_start (HttpServer_new ())\<lparr>ap_calls := [SetUp sample_arguments]\<rparr>"
  obtain p1 where "HttpServer_setUp sample_platform sample_arguments ?s = Some (Inr True, p1)" using sample_setUp by blast
  moreover obtain p2 where "HttpServer_doRun sample_platform (p1\<lparr>ap_calls := ap_calls p1 @ [DoRun]\<rparr>) = Some (Inr 0, p2)"
    using sample_doRun by blast
  ultimately show ?thesis
    by (simp add: http_server_main_def Application_run_def HttpServer_def called_def evaluate_def catches_def then_do_def effect_defs
       process_start_def last_words_def)
qed

end
