(* ===== verification/Application_Theorems.thy ===== *)
theory Application_Theorems
  imports Sample_Server
begin

text \<open>
  The properties of the log, of the life of an application, of the console, and of the HTTP server from its
  arguments to its sockets.
\<close>

section \<open>The log\<close>







section \<open>Applications\<close>





section \<open>The console\<close>

definition console_with ::
    "'w linenoise \<Rightarrow> string \<Rightarrow> path \<Rightarrow> 'w \<Rightarrow> (string \<times> 'c) list \<Rightarrow> 'c option \<Rightarrow> ('c, 'w) Console" where
  "console_with ln prompt historyPath w regs dflt =
     (let cn = register_all regs (Console_new ln prompt historyPath w)
      in (case dflt of None \<Rightarrow> cn | Some c \<Rightarrow> addDefault c cn))"

text \<open>
  C36. A session with the console ends with the input. Each line calls the command that was first registered under its
  first word, in whatever case, with the other words, or else the default command with the whole line; and the
  history gets exactly the lines whose command returned true, in their order.
\<close>

theorem console_session:
  assumes "watched ln cm vw"
  shows "\<exists>cn'. Console_run ln cm (console_with ln prompt historyPath w regs dflt) = Some (Inr (), cn') \<and>
    (let commands = map_of (map (\<lambda>(name, c). (tolower_copy name, c)) regs);
         w0 = ln_history_load ln historyPath w
     in vw_calls vw (cn_world cn') = vw_calls vw w0 @ concat (map (invocations commands dflt) (vw_input vw w0)) \<and>
        vw_added vw (cn_world cn') =
          vw_added vw w0 @ [line \<leftarrow> vw_input vw w0. list_ex (vw_answers vw) (invocations commands dflt line)])"
proof -
  let ?cn = "console_with ln prompt historyPath w regs dflt"
  have "\<not> cn_stop ?cn" "cn_world ?cn = ln_history_load ln historyPath w"
    "cn_commands ?cn = map_of (map (\<lambda>(name, c). (tolower_copy name, c)) regs)" "cn_defaultCommand ?cn = dflt"
    by (cases dflt; simp add: console_with_def register_all_commands Console_new_def addDefault_def)+
  with session [OF assms, of ?cn] show ?thesis by (simp add: Let_def)
qed

text \<open>A terminal whose user has typed all lines in advance; the commands 0 and 1 and the default command 2.\<close>

record terminal =
  tm_input :: "string list"
  tm_calls :: "nat invocation list"
  tm_added :: "string list"

definition terminal_library :: "terminal linenoise" where
  "terminal_library =
     \<lparr>ln_read = (\<lambda>prompt t. ((case tm_input t of [] \<Rightarrow> None | l # ls \<Rightarrow> Some l), t\<lparr>tm_input := tl (tm_input t)\<rparr>)),
      ln_history_add = (\<lambda>l t. t\<lparr>tm_added := tm_added t @ [l]\<rparr>), ln_history_load = (\<lambda>p t. t),
      ln_history_save = (\<lambda>p t. t), ln_history_free = (\<lambda>t. t)\<rparr>"

definition calling :: "nat invocation \<Rightarrow> ((nat, terminal) Console, bool) effect" where
  "calling i cn =
     Some (Inr (i \<noteq> Default 2 ''junk''), cn\<lparr>cn_world := (cn_world cn)\<lparr>tm_calls := tm_calls (cn_world cn) @ [i]\<rparr>\<rparr>)"

definition terminal_commands :: "(nat, terminal) commands" where
  "terminal_commands = \<lparr>cm_command = (\<lambda>c params. calling (Command c params)), cm_default = (\<lambda>c line. calling (Default c line))\<rparr>"

definition terminal_view :: "(nat, terminal) view" where
  "terminal_view = \<lparr>vw_input = tm_input, vw_calls = tm_calls, vw_added = tm_added, vw_answers = (\<lambda>i. i \<noteq> Default 2 ''junk'')\<rparr>"

lemma terminal_watched: "watched terminal_library terminal_commands terminal_view"
  by (auto simp: watched_def reads_lines_def adds_history_def watched_call_def calling_def terminal_library_def
      terminal_commands_def terminal_view_def split: list.split)

theorem console_session_witness:
  "\<exists>cn. Console_run terminal_library terminal_commands
       (console_with terminal_library ''> '' ''h'' \<lparr>tm_input = [''SET  x 1'', '''', ''junk''], tm_calls = [], tm_added = []\<rparr>
         [(''set'', 0), (''Set'', 1)] (Some 2)) = Some (Inr (), cn) \<and>
     tm_calls (cn_world cn) = [Command 0 [''x'', ''1''], Default 2 ''junk''] \<and> tm_added (cn_world cn) = [''SET  x 1'']"
proof -
  let ?t = "\<lparr>tm_input = [''SET  x 1'', '''', ''junk''], tm_calls = [], tm_added = []\<rparr> :: terminal"
  let ?regs = "[(''set'', 0 :: nat), (''Set'', 1)]"
  let ?commands = "map_of (map (\<lambda>(name, c). (tolower_copy name, c)) ?regs)"
  have w: "ln_history_load terminal_library ''h'' ?t = ?t" by (simp add: terminal_library_def)
  have "map (invocations ?commands (Some 2)) [''SET  x 1'', '''', ''junk''] = [[Command 0 [''x'', ''1'']], [], [Default 2 ''junk'']]"
    by code_simp
  with console_session [OF terminal_watched, of "''> ''" "''h''" ?t ?regs "Some 2"] show ?thesis
    unfolding w by (auto simp: terminal_view_def Let_def)
qed


section \<open>The HTTP server\<close>

text \<open>
  C26. If the HTTP server example exits with 0, and the entries of argtable3 keep their names, then it had parsed its arguments, without the option for the help, and
  found its configuration: in the file of the option for it, or else in the file \<open>http_server.json\<close> in the directory of the
  program, whose path was made absolute. The file was there, what could be read in it was parsed, and the settings are those of the
  options, or else of the file, or else the defaults. It used certificate and key of these settings if TLS was enabled, listened with
  TLS and without as far as they were enabled, both on the host of the secure server, and ran with the threads of the options,
  or else with as many as the machine has cores. Its document root and its domain are those of the file, whatever options were
  given: the option that is declared is \<open>doc-root-path\<close>, and the one that is asked for is \<open>docroot-path\<close>.
\<close>

theorem http_server_listens:
  assumes "http_server_main place pf argv w = Some (Inr 0, p)" "names_law (pf_argtable pf)"
  shows "\<exists>c st cl q ec w1 w2 w3 content j plain secure. http_options (pf_argtable pf) (pf_grows pf) = (c, st) \<and>
    CommandLineOptions_parse (pf_argtable pf) argv c st = Some (True, cl) \<and>
    (\<exists>n. CommandLineOptions_count (fst cl) ''help'' (snd cl) = Some (Inr n) \<and> n \<le> 0) \<and>
    and_then (current_path (pf_os pf)) (absolute_action (pf_os pf) (argv ! 0)) (Cleared, w) = (Value q, ec, w1) \<and>
    exists_ec (pf_os pf) (configured_path cl q) (Cleared, w1) = (Value True, Cleared, w2) \<and>
    pf_reader pf (configured_path cl q) w2 = Some content \<and> pf_parse pf content = Inr j \<and>
    plain = option_plain cl (file_plain pf j (ha_config (HttpServer_new w))) \<and>
    secure = option_secure cl (file_secure pf j (ha_secureConfig (HttpServer_new w))) \<and>
    (sc_enable secure \<longrightarrow> pf_certificate pf (sc_caCertFilePath secure) (sc_keyFilePath secure) w2 = None) \<and>
    pf_run pf (unat (option_threads pf cl)) w2 = Some w3 \<and>
    ap_state p = \<lparr>wo_listening = listens plain secure, wo_world = w3, ha_secureConfig = secure, ha_config = plain,
      ha_numThreads = option_threads pf cl,
      ha_httpConfig = \<lparr>cf_rootPath = value_or (js_string (pf_json pf) j ''docroot-path'' ''./docroot'') [],
        cf_domain = value_or (js_string (pf_json pf) j ''domain'' (pf_hostname pf)) []\<rparr>\<rparr>"
  by (rule http_server_runs [OF assms])

theorem http_server_listens_witness:
  "\<exists>p. http_server_main nowhere sample_platform sample_arguments () = Some (Inr 0, p) \<and>
     wo_listening (ap_state p) = [(True, ''10.0.0.1'', 8443), (False, ''10.0.0.1'', 80)] \<and>
     cf_rootPath (ha_httpConfig (ap_state p)) = ''/www'' \<and> ha_numThreads (ap_state p) = 4"
proof -
  obtain p where p: "http_server_main nowhere sample_platform sample_arguments () = Some (Inr 0, p)" using sample_main by blast
  have law: "names_law (pf_argtable sample_platform)" using long_table_law by (simp add: sample_platform_def)
  have s: "pf_argtable sample_platform = long_table" "pf_grows sample_platform = (\<lambda>n. False)"
    "pf_parse sample_platform content = Inr sample_document" for content by (simp_all add: sample_platform_def)
  from http_server_listens [OF p law] sample_parsed have l:
    "wo_listening (ap_state p) =
      listens (option_plain sample_line (file_plain sample_platform sample_document (ha_config (HttpServer_new ()))))
        (option_secure sample_line (file_secure sample_platform sample_document (ha_secureConfig (HttpServer_new ()))))"
    "cf_rootPath (ha_httpConfig (ap_state p)) =
      value_or (js_string (pf_json sample_platform) sample_document ''docroot-path'' ''./docroot'') []"
    "ha_numThreads (ap_state p) = option_threads sample_platform sample_line"
    unfolding s by auto
  have "option_plain sample_line c = c\<lparr>sc_host := ''10.0.0.1''\<rparr>" for c
    by (simp add: option_plain_def port_option_def text_option_def sample_first)
  moreover have "option_secure sample_line c = c\<lparr>sc_host := ''10.0.0.1''\<rparr>" for c
    by (simp add: option_secure_def port_option_def text_option_def path_option_def sample_first)
  moreover have "sc_port (file_plain sample_platform sample_document c) = 80" "sc_enable (file_plain sample_platform sample_document c)"
    "sc_port (file_secure sample_platform sample_document e) = 8443" "sc_enable (file_secure sample_platform sample_document e)"
    "value_or (js_string (pf_json sample_platform) sample_document ''docroot-path'' ''./docroot'') [] = ''/www''" for c e
    by (simp_all add: file_plain_def file_secure_def sample_platform_def sample_document_def doc_library_def)
  moreover have "option_threads sample_platform sample_line = 4"
    by (simp add: option_threads_def sample_first sample_platform_def)
  ultimately show ?thesis using p l by (simp add: listens_def)
qed

end
