(* ===== verification/Spec2Isabelle.thy ===== *)
theory Spec2Isabelle
  imports Mqtt_Serializer Mqtt_Broker Broker_Theorems Http_Cookie Http_Query Http_Session System_Theorems
    Service_Theorems Network_Theorems Calendar_Theorems Application_Theorems
begin

text \<open>
  acatl is a C++ library: an MQTT broker kit, helpers for HTTP servers, and portable wrappers of
  operating system services, with three example programs. This development models its core and the
  programs and proves what makes them correct; where the code does not do what it means to, the
  theorem says what it does instead.

  The parts and their theories. \<open>Prelude\<close> names the machine integers (\<open>u8\<close>, \<open>u16\<close>, \<open>u32\<close>) and
  holds the lemmas on bytes, lists and two-byte fields that the others share; \<open>Tribool\<close> is
  acatl/tribool.h; \<open>Cpp_Std\<close> holds what the code uses of the standard library: \<open>std::sort\<close>, of which nothing
  is known unless the comparison orders the elements strictly and totally, \<open>std::unique\<close>, and
  \<open>std::set_difference\<close>, which has no result (\<open>None\<close>) unless both ranges are sorted by a strict weak order.

  MQTT (acatl_mqtt). \<open>Mqtt_Types\<close> has the enumerations and packet structs (error.h, types.h,
  control_packets.h), \<open>Mqtt_Topic\<close> the level iterator and the validation and comparison of filters
  (topic.h). \<open>Mqtt_Codec\<close> is the wire format of lengths, strings and identifiers (utils.h,
  string_parser.h, packet_identifier_parser.h, fixed_header_parser.h). The parsers take one byte at
  a time and answer true, false or indeterminate: \<open>Byte_Parser\<close> describes such parsers by two
  locales, \<open>length_bounded\<close> (a parser that counts down its remaining length) and \<open>embedded_parser\<close>
  (a parser that hands its bytes to another), \<open>Mqtt_Codec\<close> by a third, \<open>string_field\<close>;
  \<open>Mqtt_Packets\<close>, \<open>Mqtt_Body_Parsers\<close> and \<open>Mqtt_Connect_Parser\<close> model the parsers of the packet
  bodies and \<open>Mqtt_Parser\<close> the class \<open>MQTTParser\<close>, and interpret the locales on them. \<open>Mqtt_Serializer\<close>
  is serializer.h with the buffer of its caller; a write beyond the buffer is \<open>None\<close>.
  \<open>Mqtt_Tree\<close> is subscription_tree.h, a trie whose node classes are one datatype; its locale
  \<open>subscription_index\<close> says that insertion and cloning act on a set of subscriptions.
  \<open>Mqtt_Broker\<close> joins session.h, session_manager.h, subscription_tree_manager.h and processor.h:
  a record with the session objects on a heap, the session table, the current tree, the writer lock,
  the processors and the packets sent. Its events (open, receive, close) are the relation
  \<open>broker_step\<close>, and \<open>table_step\<close> is the abstract session table that it refines.
  \<open>Mqtt_Connection\<close> is the class \<open>Connection\<close> of src/examples/mqtt_broker/connection.h, which puts
  parser, processor and serializer together behind a socket: a step is the completion of a read
  or a write. \<open>Mqtt_Server\<close> proves that these steps are runs of the broker, and that a connection is a
  queue of packets in front of a byte stream, its locale \<open>ordered_sender\<close>.

  HTTP (acatl_network). \<open>Http_Cookie\<close> has cookies with their text and their two parsers,
  \<open>Http_Query\<close> the query parameters, \<open>Http_Session\<close> the sessions and their manager as a step
  relation over the manager's operations. \<open>Http_Types\<close> has methods, versions, status codes and errors
  (http_types, http_errors), \<open>Http_Parser\<close> the class \<open>HttpParser\<close> around the C library http_parser, whose
  runs are trees of calls and answers, \<open>Http_Url\<close> the URL parser. \<open>Http_Server\<close> is a connection of the
  program src/examples/http_server: it is the user of its parser and answers with files, over the
  functions of \<open>File_Operations\<close>.

  Base library (acatl). \<open>Strings\<close> is string_helper, \<open>Numeric_Cast\<close> the integral part of
  numeric_cast.h. \<open>Paths\<close> is the class \<open>path\<close> with its iterator and \<open>Filesystem\<close> the functions on
  paths and file types. \<open>System_Calls\<close> has the system calls as a record of functions over an
  arbitrary world, and the form of the functions over them: an action on the caller's
  \<open>std::error_code\<close> and the world that returns, throws, terminates the program or runs out of fuel.
  \<open>File_Operations\<close>, \<open>Directory_Iterator\<close> and \<open>File_Removal\<close> are the functions of filesystem.cpp
  and detail/posix/filesystem.cpp in these terms; \<open>Sample_Systems\<close> has worlds that satisfy the laws
  assumed of the system. \<open>Lexer\<close> is lexer.cpp; \<open>Command_Line\<close> is
  acatl_application/command_line_options.cpp and \<open>Command_Line_Facts\<close> its lemmas. \<open>Thread_Pool\<close> is
  thread_pool.h, threads that interleave at every use of the mutex and the condition variable,
  and \<open>Any_Value\<close> is any.h, objects and the holders on the heap that they own. \<open>Date_Helper\<close> is
  date_helper.h and \<open>Calendar\<close> the program src/examples/calendar.

  Applications. \<open>Logging\<close> is logging.h, logging.cpp and the type names of types.cpp; \<open>Application\<close> has
  exceptions (exception.cpp), the life of an application (application.cpp) and the console
  (console.cpp). An effect is a function of the state that may throw or not return, and \<open>then_do\<close> and
  \<open>catches\<close> put effects together; what a subclass or a command does is a parameter.
  \<open>Server_Application\<close> has the main programs of the HTTP server and the MQTT broker as such
  applications, over the command line, the file functions and the log; \<open>Server_Settings\<close> gives
  their settings as functions of the command line and the configuration, and \<open>Sample_Server\<close> is
  a platform on which the HTTP server runs.

  The properties are stated in \<open>System_Theorems\<close> (files, lexer, command line), \<open>Broker_Theorems\<close> (the broker as
  a server), \<open>Network_Theorems\<close> (HTTP parser and server), \<open>Service_Theorems\<close> (thread pool and \<open>Any\<close>),
  \<open>Calendar_Theorems\<close>, \<open>Application_Theorems\<close>, and here, the largest part being that of MQTT.

  What the lemmas show. For the tree, \<open>subscribed\<close> reads off the set of subscriptions, \<open>tree_ok\<close> is
  the invariant that every operation keeps, and \<open>match\<close> is compared with \<open>topic_matches\<close>, the
  matching of the MQTT specification. For the parsers, a body of the announced length is consumed
  exactly, input may be cut anywhere, and what the serializer writes is read back. For the broker,
  \<open>table_inv\<close> and the other invariants hold in every reachable state by rule induction, and each
  packet handler has a lemma for each of its branches. For sessions, paths, cookies and queries
  there are round trips and the life of a session; for the file functions, the effect of
  \<open>create_directories\<close> and \<open>remove_all\<close> on a whole tree, and the branches on which they fail; for the
  lexer, progress and the line count; for the command line, which table is offered to the library for each group, and
  what \<open>count\<close> reads after \<open>parse\<close>.
  For the servers, how input is cut into reads does not matter, each write is ordered behind the one before,
  and every event keeps the invariants of what it drives. For the thread pool, invariants over all
  interleavings and a weight that every step of a worker decreases; for \<open>Any\<close>, that it behaves as a
  plain value; for applications, that \<open>run\<close> returns and reports what was thrown, and that the sockets are those
  of the options, the configuration and the defaults, in this order, and the configuration that of the file the options name.

  Bounds and fuel. Lengths on the wire are 32-bit words as in the code; the remaining length is
  below \<open>2 ^ 28\<close>, which the encoder does not check, and theorems say so. \<open>replaceAll\<close>, \<open>absolute\<close>
  and the lexer's \<open>next\<close> need not return: they are partial functions into \<open>option\<close>, and theorems say
  when they return. \<open>readdir\<close>, the directory iterators and \<open>remove_all\<close> depend on what the system
  answers and take fuel; \<open>removal_cost\<close> of a tree is enough to remove it. The calendar's loops take
  fuel as well: 7 for the days of a week and 31 for the weeks of a month are enough for every
  date library that counts days. \<open>Console_run\<close> is a partial function, as a user need not stop typing; it returns
  when the input ends.

  Parameters. Generated identifiers, the clock, the working directory, the search of regular
  expressions, the library argtable3, the growth of a vector, the sorting of holidays of one day and the system calls are arguments;
  so are the libraries http_parser (and its URL parser), date, JSON and linenoise, the demangler, the reading of
  a file, and in \<open>platform\<close> the sockets, certificates and event loop of the two servers.
  The hypotheses on them are documented behaviour: a search finds a match inside the text
  (\<open>search_laws\<close>), argtable3 fills the table it is given and keeps its names (\<open>parse_law\<close>),
  the file system gives the names of a directory once each and removes empty directories
  (\<open>file_system_laws\<close>), \<open>mkdir\<close> makes a directory where none is (\<open>makes_directories\<close>), entries of
  argtable3 keep their names (\<open>names_law\<close>), http_parser calls back with the pieces of the request in
  their order, showing at the beginning of the message a method that may be a guess from its first letter
  (\<open>library_reads\<close>, \<open>request_calls\<close>), the library date counts the days of a month (\<open>month_law\<close>).
  Characters are those of the C locale. Operations that hold a mutex for their whole length are
  single steps; broker events and the handlers of sockets are interleaved in any order, and each
  is one step.

  Not modelled. The acceptors, sockets and event loops of acatl_network (async_server.h,
  io_context_pool.h, network_helper) are glue around asio, and signals, timeouts and the shutting down of
  TLS belong to it; stream_wrapper is a stream buffer around a C library stream. The comparison and hashing of
  paths and the helpers for hashes, floating point, random identifiers, file name patterns and the clock only
  call the standard or the C library. The formatting of times and of usage texts, floating point
  conversions, the options of the calendar program and the forwarding members of \<open>directory_entry\<close> are left
  out. session_store.h declares an interface without operations.
\<close>

section \<open>Helpers for the concrete instances\<close>

definition some_filters :: "(TopicFilter \<times> nat) list" where
  "some_filters = [(TopicFilter_of ''a/+'' AtMostOnce, 1), (TopicFilter_of ''b/#'' AtLeastOnce, 2)]"

lemma some_filters_levels:
  "topic_levels ''a/+'' = [''a'', ''+'']" "topic_levels ''b/#'' = [''b'', ''#'']"
  "topic_levels ''a/x'' = [''a'', ''x'']"
  "topic_levels ''a/b/c'' = [''a'', ''b'', ''c'']" "topic_levels ''+/b/c'' = [''+'', ''b'', ''c'']"
  "topic_levels ''+/c'' = [''+'', ''c'']"
  by code_simp+



text \<open>A broker with two connected clients, one of them subscribed.\<close>

definition busy_broker :: Broker where
  "busy_broker = the (broker_run two_clients Broker_new)"

lemma busy_broker_run: "broker_run two_clients Broker_new = Some busy_broker"
proof -
  have "\<not> Option.is_none (broker_run two_clients Broker_new)" by code_simp
  then show ?thesis by (auto simp: busy_broker_def Option.is_none_def)
qed

lemma busy_broker_reachable: "reachable busy_broker"
  by (rule broker_run_reachable [OF busy_broker_run reachable_new])


section \<open>Subscriptions and publications\<close>



text \<open>
  C2. \<open>addFilter\<close> is insertion: a filter whose multi-level wildcard, if any, is its last
  level is accepted, the error code is left alone, and afterwards the tree holds that
  subscription and those it held before, and no other.
\<close>

theorem addFilter_inserts:
  assumes "tree_ok t" "hash_last (filter_levels f)"
  shows "\<exists>t'. SubscriptionTree_addFilter t f s err = (True, err, t') \<and> tree_ok t' \<and>
    (\<forall>ls s'. subscribed ls t' s' = (subscribed ls t s' \<or> ls = filter_levels f \<and> s' = s))"
  by (rule addFilter_insert [OF assms, of s err]) auto

theorem addFilter_inserts_witness:
  "subscribed [''a'', ''+''] (snd (snd (SubscriptionTree_addFilter SubscriptionTree_new
     (TopicFilter_of ''a/+'' AtMostOnce) (1 :: nat) None))) 1"
proof -
  have "hash_last (filter_levels (TopicFilter_of ''a/+'' AtMostOnce))"
    by (simp add: TopicFilter_of_def some_filters_levels)
  from addFilter_inserts [OF tree_ok_new this, of "1 :: nat" None] obtain t' where
    "SubscriptionTree_addFilter SubscriptionTree_new (TopicFilter_of ''a/+'' AtMostOnce) (1 :: nat) None =
      (True, None, t')"
    "subscribed (filter_levels (TopicFilter_of ''a/+'' AtMostOnce)) t' 1"
    by blast
  then show ?thesis by (simp only: snd_conv TopicFilter_of_def some_filters_levels TopicFilter.simps)
qed

text \<open>
  A filter with levels behind a multi-level wildcard is refused with
  \<open>invalid_topic_filter\<close>, and no subscription is added or lost.
\<close>

theorem addFilter_refuses:
  assumes "tree_ok t" "\<not> hash_last (filter_levels f)"
  shows "\<exists>t'. SubscriptionTree_addFilter t f s err = (False, Some invalid_topic_filter, t') \<and> tree_ok t' \<and>
    (\<forall>ls s'. subscribed ls t' s' = subscribed ls t s')"
  by (rule addFilter_refuse [OF assms, of s err]) auto

theorem addFilter_refuses_witness:
  "fst (SubscriptionTree_addFilter SubscriptionTree_new (TopicFilter_of ''#/a'' AtMostOnce) (1 :: nat) None) = False"
proof -
  have "\<not> hash_last (filter_levels (TopicFilter_of ''#/a'' AtMostOnce))" by code_simp
  from addFilter_refuses [OF tree_ok_new this, of "1 :: nat" None] obtain t' where
    "SubscriptionTree_addFilter SubscriptionTree_new (TopicFilter_of ''#/a'' AtMostOnce) (1 :: nat) None =
      (False, Some invalid_topic_filter, t')"
    by blast
  then show ?thesis by (simp only: fst_conv)
qed

text \<open>
  The copy that a writer works on holds the same subscriptions as the tree it was taken
  from.
\<close>

theorem clone_keeps_subscriptions:
  assumes "tree_ok t"
  shows "tree_ok (SubscriptionTree_clone t) \<and>
    subscribed ls (SubscriptionTree_clone t) s = subscribed ls t s"
  using clone_subscribed [OF assms] assms by simp

theorem clone_keeps_subscriptions_witness:
  "subscribed [''a'', ''+''] (SubscriptionTree_clone (tree_of some_filters)) 1 =
   subscribed [''a'', ''+''] (tree_of some_filters) 1"
  by (rule conjunct2 [OF clone_keeps_subscriptions [OF tree_of_ok]])

text \<open>
  A single-level wildcard beside a literal level makes \<open>match\<close> err in both directions: it
  misses the filter \<open>+/b/c\<close> beside \<open>a/b/c\<close>, and collects the filter \<open>+/c\<close> beside \<open>a/b/x\<close>,
  which does not match, for a publication on \<open>a/b/c\<close>.
\<close>

theorem match_errs_beside_wildcard:
  "SubscriptionTree_match (tree_of [(TopicFilter_of ''a/b/c'' AtMostOnce, 1 :: nat),
     (TopicFilter_of ''+/b/c'' AtMostOnce, 2)]) ''a/b/c'' {} = (True, {1})
   \<and> topic_matches (topic_levels ''+/b/c'') (topic_levels ''a/b/c'')
   \<and> SubscriptionTree_match (tree_of [(TopicFilter_of ''a/b/x'' AtMostOnce, 1 :: nat),
     (TopicFilter_of ''+/c'' AtMostOnce, 2)]) ''a/b/c'' {} = (True, {2})
   \<and> topic_matches (topic_levels ''+/c'') (topic_levels ''a/b/c'') = False"
proof (intro conjI)
  show "topic_matches (topic_levels ''+/b/c'') (topic_levels ''a/b/c'')"
    "topic_matches (topic_levels ''+/c'') (topic_levels ''a/b/c'') = False"
    by (simp_all add: some_filters_levels)
qed (rule match_misses match_false_hit)+

text \<open>
  The iterator over the levels of a topic, from \<open>begin()\<close> until it equals \<open>end()\<close>,
  yields the parts between the separators, except for an empty last one.
\<close>

theorem iterator_yields_levels:
  "iter_all True (iter_impl_new s) =
     (if s \<noteq> [] \<and> last s = CHR ''/'' then butlast (split_slash s) else split_slash s)"
  using iter_all_levels [OF iter_new_levels(2)] iter_new_levels(1) topic_levels_split by metis

text \<open>
  C13. \<open>TopicFilter::validate\<close> accepts a filter without NUL characters exactly if every
  wildcard fills its level and the multi-level wildcard is in the last level.
\<close>

theorem filter_validation:
  assumes "CHR 0x00 \<notin> set (tf_filter f)"
  shows "fst (TopicFilter_validate f err) = valid_levels (split_slash (tf_filter f))"
  by (rule TopicFilter_validate_levels [OF assms])

theorem filter_validation_witness:
  "fst (TopicFilter_validate (TopicFilter_of ''a/+/#'' AtMostOnce) None) =
   valid_levels (split_slash ''a/+/#'')"
  using filter_validation [of "TopicFilter_of ''a/+/#'' AtMostOnce" None] by (simp add: TopicFilter_of_def)

text \<open>
  \<open>TopicFilter::operator<\<close> is a strict weak ordering, which \<open>std::sort\<close> and
  \<open>std::set_difference\<close> require, exactly on those sets of filters on which the QoS level
  never decreases when the filter grows.
\<close>

theorem filter_order_weak:
  "swo_on topic_filter_less S = (\<forall>f\<in>S. \<forall>g\<in>S. tf_filter f < tf_filter g \<longrightarrow> tf_qos f \<le> tf_qos g)"
  using topic_filter_swo_iff [of S] by (simp add: comonotone_def)

theorem filter_order_weak_witness:
  "swo_on topic_filter_less {TopicFilter_of ''a'' AtMostOnce, TopicFilter_of ''b'' AtLeastOnce}"
  by (subst filter_order_weak) (auto simp: TopicFilter_of_def less_eq_QoSLevel_def)

text \<open>
  Where that holds, the finished filter list of a SUBSCRIBE packet is sorted, has no
  duplicates and has the filters of the packet. Elsewhere \<open>std::sort\<close> has no result that could be
  relied on, and the model has none.
\<close>

theorem subscribe_filters_normal:
  assumes "comonotone (set fs)"
  shows "set (sort_unique_filters fs) = set fs \<and> distinct (sort_unique_filters fs) \<and>
    asc topic_filter_less (sort_unique_filters fs)"
  using sort_unique_filters_correct [OF assms] by simp

theorem subscribe_filters_normal_witness:
  "distinct (sort_unique_filters
     [TopicFilter_of ''b'' AtMostOnce, TopicFilter_of ''a'' AtMostOnce, TopicFilter_of ''b'' AtMostOnce])"
  using subscribe_filters_normal
    [of "[TopicFilter_of ''b'' AtMostOnce, TopicFilter_of ''a'' AtMostOnce, TopicFilter_of ''b'' AtMostOnce]"]
  by (simp add: comonotone_def TopicFilter_of_def)

text \<open>
  \<open>findDifference\<close> finds the filters that a session does not have yet, given two lists
  in the order the comparison defines; given lists that are not, it has no result.
\<close>

theorem difference_of_filters:
  assumes "comonotone (set add \<union> set cur)" "distinct add"
  shows "findDifference add cur =
    (if asc topic_filter_less add \<and> asc topic_filter_less cur then Some (filter (\<lambda>f. f \<notin> set cur) add) else None)"
proof (cases "asc topic_filter_less add \<and> asc topic_filter_less cur")
  case False
  then show ?thesis by (auto simp: findDifference_def std_set_difference_def)
qed (use findDifference_new [OF assms(1) _ _ assms(2)] in simp)

theorem difference_of_filters_witness:
  "findDifference [TopicFilter_of ''a'' AtMostOnce, TopicFilter_of ''b'' AtMostOnce]
     [TopicFilter_of ''a'' AtMostOnce] = Some [TopicFilter_of ''b'' AtMostOnce] \<and>
   findDifference [TopicFilter_of ''a'' AtMostOnce]
     [TopicFilter_of ''b'' AtMostOnce, TopicFilter_of ''a'' AtMostOnce] = None"
  using difference_of_filters [of "[TopicFilter_of ''a'' AtMostOnce, TopicFilter_of ''b'' AtMostOnce]"
      "[TopicFilter_of ''a'' AtMostOnce]"]
    difference_of_filters [of "[TopicFilter_of ''a'' AtMostOnce]"
      "[TopicFilter_of ''b'' AtMostOnce, TopicFilter_of ''a'' AtMostOnce]"]
  by (auto simp: comonotone_def asc_def TopicFilter_of_def topic_filter_less_def)


section \<open>Sessions and connections\<close>

text \<open>The session of a first connection, given back, and a second connection of that client.\<close>

definition waiting_broker :: Broker where
  "waiting_broker = the (broker_run
     [Open 1, Receive 1 (connect_packet ''sensor''), Receive 1 DisconnectControlPacket_new, Destroy 1,
      Open 2] Broker_new)"

text \<open>
  C4. Session take-over is exclusive: in every reachable state of the broker, whatever the
  order of connections, packets, closed connections and removals, a session of the table is
  marked as in use exactly while there is a connection that holds it, and that connection is
  the only one.
\<close>

theorem session_exclusive:
  assumes "reachable b" "map_of (br_sessions b) k = Some w"
  shows "sw_inUse w = (\<exists>!c. holder b c = Some (sw_session w))"
proof -
  have inv: "table_inv (map se_clientId (br_heap b), map_of (br_sessions b), holder b)"
    using reachable_inv [OF assms(1)] by (simp add: broker_inv_def table_of_def)
  show ?thesis
  proof
    assume "sw_inUse w"
    then obtain c where "holder b c = Some (sw_session w)" using table_invD(4) [OF inv assms(2)] by blast
    then show "\<exists>!c. holder b c = Some (sw_session w)" using table_invD(3) [OF inv] by blast
  next
    assume "\<exists>!c. holder b c = Some (sw_session w)"
    then show "sw_inUse w" using table_free [OF inv assms(2)] by blast
  qed
qed

theorem session_exclusive_witness:
  "\<exists>!c. holder busy_broker c = Some 0"
proof -
  have "map_of (br_sessions busy_broker) ''sub'' = Some \<lparr>sw_session = 0, sw_inUse = True\<rparr>" by code_simp
  from session_exclusive [OF busy_broker_reachable this] show ?thesis by simp
qed

text \<open>
  C11. Refinement: every event of the broker is, on the session table, one of the steps of
  the abstract table (acquire a free session, create one, release the one held, forget a free
  one) or leaves the table as it is.
\<close>

theorem broker_implements_table:
  assumes "reachable b" "broker_step b e b'"
  shows "table_step (table_of b) (table_of b')"
  using broker_step_refines [OF assms(2) reachable_inv [OF assms(1)]] by blast

theorem broker_implements_table_witness:
  "table_step (table_of Broker_new) (table_of (the (broker_next (Open 1) Broker_new)))"
proof -
  have "broker_next (Open 1) Broker_new = Some (open_connection 1 Broker_new)"
    by (simp add: broker_next_def Broker_new_def)
  then show ?thesis
    using broker_implements_table [OF reachable_new broker_next_step, of "Open 1"] by simp
qed

text \<open>
  In every reachable state the subscription tree is well formed, its writer lock is
  free between two events, and a processor that is not connected holds no session.
\<close>

theorem broker_invariant:
  assumes "reachable b"
  shows "tree_ok (br_tree b) \<and> \<not> br_writeLocked b \<and> processors_ok b"
  using reachable_inv [OF assms] by (simp add: broker_inv_def)

theorem broker_invariant_witness: "tree_ok (br_tree busy_broker) \<and> \<not> br_writeLocked busy_broker"
  using broker_invariant [OF busy_broker_reachable] by blast

text \<open>
  CONNECT with a client identifier that has no session: the reply is an accepting
  CONNACK, and the connection holds a new session of that client, marked as in use, which
  sends to this connection.
\<close>

theorem connect_creates_session:
  assumes "map_of (br_processors b) c = Some p" "\<not> expired (pr_packetSender p) b" "pr_status p = PS_None"
    "fh_controlPacketType (cn_header q) = Connect" "map_of (br_sessions b) (cn_clientId q) = None"
  shows "\<exists>b'. Processor_processPacket c junk (PConnect q) err b = Some ((Keep, Some (PConnAck accepted)), None, b') \<and>
    holder b' c = Some (length (br_heap b)) \<and>
    br_heap b' = br_heap b @ [(Session_new (cn_clientId q) c)\<lparr>se_sender := pr_packetSender p\<rparr>] \<and>
    map_of (br_sessions b') (cn_clientId q) = Some \<lparr>sw_session = length (br_heap b), sw_inUse = True\<rparr>"
  by (rule connect_new_client [OF assms])

theorem connect_creates_session_witness:
  "\<exists>b'. Processor_processPacket 1 0 (connect_packet ''sensor'') None (open_connection 1 Broker_new) =
     Some ((Keep, Some (PConnAck accepted)), None, b') \<and> holder b' 1 = Some 0"
proof -
  let ?q = "(ConnectControlPacket_new 0)\<lparr>cn_clientId := ''sensor''\<rparr>"
  have "map_of (br_processors (open_connection 1 Broker_new)) 1 =
      Some (Processor_setPacketSender (Some 1) Processor_new)"
    by (simp add: open_connection_def Broker_new_def)
  from connect_creates_session [OF this, of ?q 0 None] show ?thesis
    by (simp add: connect_packet_def ConnectControlPacket_new_def FixedHeader_of_def expired_def
      open_connection_def Broker_new_def Processor_setPacketSender_def Processor_new_def) blast
qed

text \<open>
  CONNECT with a client identifier whose session is free: the connection takes over
  that session, which now sends to this connection; nothing else of any session changes.
\<close>

theorem connect_resumes_session:
  assumes "map_of (br_processors b) c = Some p" "\<not> expired (pr_packetSender p) b" "pr_status p = PS_None"
    "fh_controlPacketType (cn_header q) = Connect" "map_of (br_sessions b) (cn_clientId q) = Some w"
    "\<not> sw_inUse w"
  shows "\<exists>b'. Processor_processPacket c junk (PConnect q) err b = Some ((Keep, Some (PConnAck accepted)), None, b') \<and>
    holder b' c = Some (sw_session w) \<and>
    br_heap b' = (br_heap b)[sw_session w := (br_heap b ! sw_session w)\<lparr>se_sender := pr_packetSender p\<rparr>]"
  by (rule connect_resume [OF assms])

theorem connect_resumes_session_witness:
  "\<exists>b'. Processor_processPacket 2 0 (connect_packet ''sensor'') None waiting_broker =
     Some ((Keep, Some (PConnAck accepted)), None, b') \<and> holder b' 2 = Some 0"
proof -
  let ?q = "(ConnectControlPacket_new 0)\<lparr>cn_clientId := ''sensor''\<rparr>"
  let ?p = "\<lparr>pr_status = PS_None, pr_currentSession = None, pr_packetSender = Some 2\<rparr>"
  have b: "map_of (br_processors waiting_broker) 2 = Some ?p" "\<not> expired (Some 2) waiting_broker"
    "map_of (br_sessions waiting_broker) ''sensor'' = Some \<lparr>sw_session = 0, sw_inUse = False\<rparr>"
    by code_simp+
  from connect_resumes_session [OF b(1), of ?q _ 0 None] b(2,3) show ?thesis
    by (simp add: connect_packet_def ConnectControlPacket_new_def FixedHeader_of_def) blast
qed

text \<open>
  CONNECT with a client identifier whose session another connection uses: the code says
  so, yet the reply is an accepting CONNACK and the processor counts as connected, without a
  session.
\<close>

theorem connect_accepts_used_session:
  assumes "map_of (br_processors b) c = Some p" "\<not> expired (pr_packetSender p) b" "pr_status p = PS_None"
    "fh_controlPacketType (cn_header q) = Connect" "map_of (br_sessions b) (cn_clientId q) = Some w"
    "sw_inUse w"
  shows "\<exists>b'. Processor_processPacket c junk (PConnect q) err b =
      Some ((Keep, Some (PConnAck accepted)), Some session_in_use, b') \<and>
    map_of (br_processors b') c = Some (p\<lparr>pr_status := PS_Connected, pr_currentSession := None\<rparr>)"
  by (rule connect_in_use [OF assms])

theorem connect_accepts_used_session_witness:
  "\<exists>b'. Processor_processPacket 3 0 (connect_packet ''sub'') None (open_connection 3 busy_broker) =
     Some ((Keep, Some (PConnAck accepted)), Some session_in_use, b')"
proof -
  let ?q = "(ConnectControlPacket_new 0)\<lparr>cn_clientId := ''sub''\<rparr>"
  let ?p = "\<lparr>pr_status = PS_None, pr_currentSession = None, pr_packetSender = Some 3\<rparr>"
  have b: "map_of (br_processors (open_connection 3 busy_broker)) 3 = Some ?p"
    "\<not> expired (Some 3) (open_connection 3 busy_broker)"
    "map_of (br_sessions (open_connection 3 busy_broker)) ''sub'' = Some \<lparr>sw_session = 0, sw_inUse = True\<rparr>"
    by code_simp+
  from connect_accepts_used_session [OF b(1), of ?q _ 0 None] b(2,3) show ?thesis
    by (simp add: connect_packet_def ConnectControlPacket_new_def FixedHeader_of_def) blast
qed

text \<open>
  A processor is first unconnected, then connected, then disconnected: whatever event
  the broker handles in a reachable state, no processor ever goes back, and none is
  disconnected without having been connected.
\<close>

theorem processor_protocol:
  assumes "reachable b" "broker_step b e b'" "map_of (br_processors b) c = Some p"
    "map_of (br_processors b') c = Some p'"
  shows "(pr_status p = PS_None \<longrightarrow> pr_status p' \<noteq> PS_Disconnected) \<and>
    (pr_status p = PS_Connected \<longrightarrow> pr_status p' \<noteq> PS_None) \<and>
    (pr_status p = PS_Disconnected \<longrightarrow> pr_status p' = PS_Disconnected)"
  using step_status [OF assms(2) reachable_inv [OF assms(1)] assms(3,4)] by (cases "pr_status p") simp_all

theorem processor_protocol_witness:
  "pr_status (the (map_of (br_processors (the (broker_next (Receive 1 DisconnectControlPacket_new)
     busy_broker))) 1)) \<noteq> PS_None"
proof -
  let ?b' = "the (broker_next (Receive 1 DisconnectControlPacket_new) busy_broker)"
  have b: "pr_status (the (map_of (br_processors busy_broker) 1)) = PS_Connected"
    "map_of (br_processors busy_broker) 1 \<noteq> None" "map_of (br_processors ?b') 1 \<noteq> None"
    "\<not> Option.is_none (broker_next (Receive 1 DisconnectControlPacket_new) busy_broker)"
    by code_simp+
  then have n: "broker_next (Receive 1 DisconnectControlPacket_new) busy_broker = Some ?b'"
    by (auto simp: Option.is_none_def)
  from b obtain p p' where p: "map_of (br_processors busy_broker) 1 = Some p"
    "map_of (br_processors ?b') 1 = Some p'" "pr_status p = PS_Connected" by auto
  from processor_protocol [OF busy_broker_reachable broker_next_step [OF n] p(1,2)] p(2,3)
  show ?thesis by simp
qed

text \<open>
  C12. SUBSCRIBE, on the connection that created its session, with valid filters that are sorted without
  duplicates, as the parser delivers them, for a session whose subscriptions are sorted as well, the order
  being a strict weak order on all of them: the SUBACK repeats the packet identifier and grants the requested QoS levels
  in order, the session gets exactly the filters that it did not have, and the tree afterwards holds the
  subscriptions it held before and those filters, for this session. Without the sorting, the
  call of \<open>std::set_difference\<close> has no guaranteed result.
\<close>

theorem subscribe_enters_filters:
  assumes "map_of (br_processors b) c = Some p" "\<not> expired (pr_packetSender p) b" "pr_status p = PS_Connected"
    "fh_controlPacketType (sb_header q) = Subscribe" "pr_currentSession p = Some s"
    "se_subscriptionHandler (br_heap b ! s) = c" "reachable b"
    "\<And>f. f \<in> set (sb_topicFilters q) \<Longrightarrow> hash_last (filter_levels f)"
    "comonotone (set (sb_topicFilters q) \<union> set (se_subscriptions (br_heap b ! s)))"
    "asc topic_filter_less (sb_topicFilters q)" "distinct (sb_topicFilters q)"
    "asc topic_filter_less (se_subscriptions (br_heap b ! s))"
  shows "\<exists>b' a. Processor_processPacket c junk (PSubscribe q) err b = Some ((Keep, Some (PSubAck a)), err, b') \<and>
    sa_packetIdentifier a = sb_packetIdentifier q \<and> sa_qosLevels a = map tf_qos (sb_topicFilters q) \<and>
    se_subscriptions (br_heap b' ! s) = se_subscriptions (br_heap b ! s) @
      filter (\<lambda>f. f \<notin> set (se_subscriptions (br_heap b ! s))) (sb_topicFilters q) \<and>
    (\<forall>ls x. subscribed ls (br_tree b') x \<longleftrightarrow> subscribed ls (br_tree b) x \<or>
       (x = Some s \<and> (\<exists>f\<in>set (sb_topicFilters q) - set (se_subscriptions (br_heap b ! s)). filter_levels f = ls)))"
  by (rule subscribe_tree [OF assms(1-6) reachable_inv [OF assms(7)] assms(8-12)])

theorem subscribe_enters_filters_witness:
  "\<exists>b' a. Processor_processPacket 2 0 (subscribe_packet [TopicFilter_of ''a/+'' AtMostOnce]) None busy_broker =
     Some ((Keep, Some (PSubAck a)), None, b') \<and> subscribed [''a'', ''+''] (br_tree b') (Some 1) \<and>
     se_subscriptions (br_heap b' ! 1) = [TopicFilter_of ''a/+'' AtMostOnce]"
proof -
  let ?f = "TopicFilter_of ''a/+'' AtMostOnce"
  let ?q = "(SubscribeControlPacket_new 0)\<lparr>sb_topicFilters := [?f]\<rparr>"
  let ?p = "\<lparr>pr_status = PS_Connected, pr_currentSession = Some 1, pr_packetSender = Some 2\<rparr>"
  have b: "map_of (br_processors busy_broker) 2 = Some ?p" "\<not> expired (Some 2) busy_broker"
    "se_subscriptionHandler (br_heap busy_broker ! 1) = 2" "se_subscriptions (br_heap busy_broker ! 1) = []"
    by code_simp+
  have f: "filter_levels ?f = [''a'', ''+'']" by (simp add: TopicFilter_of_def some_filters_levels)
  have h: "hash_last (filter_levels g)" if "g \<in> set (sb_topicFilters ?q)" for g using that f by simp
  have t: "fh_controlPacketType (sb_header ?q) = Subscribe"
    by (simp add: SubscribeControlPacket_new_def FixedHeader_of_def)
  have sorted: "comonotone (set (sb_topicFilters ?q) \<union> set (se_subscriptions (br_heap busy_broker ! 1)))"
    "asc topic_filter_less (sb_topicFilters ?q)" "distinct (sb_topicFilters ?q)"
    "asc topic_filter_less (se_subscriptions (br_heap busy_broker ! 1))"
    using b(4) by (simp_all add: comonotone_def asc_def)
  from subscribe_enters_filters [OF b(1) _ _ t _ b(3) busy_broker_reachable h sorted, of 0 None] b(2,4) obtain b' a where
    "Processor_processPacket 2 0 (PSubscribe ?q) None busy_broker = Some ((Keep, Some (PSubAck a)), None, b')"
    "subscribed (filter_levels ?f) (br_tree b') (Some 1)" "se_subscriptions (br_heap b' ! 1) = [?f]" by auto
  then show ?thesis unfolding subscribe_packet_def f by blast
qed




text \<open>
  A client that disconnects, comes back for its session on a new connection and
  subscribes: the session still refers to the processor of the first connection, which is
  gone, and the call through that reference has no defined result.
\<close>

theorem resumed_subscribe_dangles:
  "case broker_run returning_client Broker_new of None \<Rightarrow> False
   | Some b \<Rightarrow> Processor_processPacket 2 0 (subscribe_packet [TopicFilter_of ''a/b'' AtMostOnce]) None b = None"
  using returning_client_stale by (simp add: Option.is_none_def split: option.splits)


section \<open>The wire format\<close>

text \<open>
  C6. A CONNECT packet that was serialized is read back by an idle parser, whatever follows
  it, if it has a user name exactly if it has a password, if its client identifier is not empty or its session is clean,
  and if its strings have less than 65536 bytes: every field is the one that was sent, except that a will QoS level other than 1
  becomes 0, an empty client identifier is replaced by a generated one, the protocol level is 4, and texts of a will or of a login
  whose flags are not set, which are not sent, are those that the parser had from the packet before. (The parser goes from the user name to
  the password whatever the flags say, so a user name alone is not read back.)
\<close>

theorem connect_roundtrip:
  assumes "wire_connect c" "serialize_connect c buffer = Some (buf', k)" "idle p"
  shows "\<exists>p'. feed (MQTTParser_parse uuid) p (take k buf' @ rest) None = (Tribool_of True, None, p', rest) \<and>
    mp_packet p' = Some (PConnect ((connect_result uuid c (cnp_packet (mp_connectParser p)))
      \<lparr>cn_header := header_of Connect 0 (length (connect_body c))\<rparr>))"
  by (rule connect_wire [OF assms])

definition sensor_connect :: ConnectControlPacket where
  "sensor_connect = (ConnectControlPacket_new 60)\<lparr>cn_clientId := ''sensor'', cn_willFlag := True,
     cn_willTopic := ''a/gone'', cn_willMessage := ''x'', cn_willQoSLevel := AtLeastOnce,
     cn_passwordFlag := False, cn_userNameFlag := False\<rparr>"

theorem connect_roundtrip_witness:
  "\<exists>buf k p'. serialize_connect sensor_connect [] = Some (buf, k) \<and>
     feed (MQTTParser_parse ''id'') (MQTTParser_new 0 0) (take k buf @ [0xC0, 0]) None =
       (Tribool_of True, None, p', [0xC0, 0])"
proof -
  have "\<not> Option.is_none (serialize_connect sensor_connect [])" by code_simp
  then obtain buf k where s: "serialize_connect sensor_connect [] = Some (buf, k)"
    by (auto simp: Option.is_none_def)
  have "wire_connect sensor_connect"
    by (simp add: wire_connect_def sensor_connect_def ConnectControlPacket_new_def)
  from connect_roundtrip [OF this s idle_new] s show ?thesis by blast
qed




text \<open>
  C15. A SUBSCRIBE packet of valid filters, at least one, that was serialized, with a body of less than \<open>2 ^ 28\<close> bytes, is read back with its packet identifier, and with its
  filters together with those the parser kept from the packet before, sorted and without duplicates, if
  \<open>operator<\<close> is a strict weak order on all these filters, which \<open>std::sort\<close> requires: the QoS level must not decrease
  where the filter grows.
\<close>

theorem subscribe_roundtrip:
  assumes "length (subscribe_body (sb_packetIdentifier m) (sb_topicFilters m)) < 2 ^ 28"
    "sb_topicFilters m \<noteq> []" "\<And>f. f \<in> set (sb_topicFilters m) \<Longrightarrow> wire_filter f"
    "serialize_subscribe m buffer = Some (buf', k)" "idle p"
    "swo_on topic_filter_less (set (sb_topicFilters (sbp_packet (mp_subscribeParser p))) \<union> set (sb_topicFilters m))"
  shows "\<exists>p'. feed (MQTTParser_parse uuid) p (take k buf' @ rest) None = (Tribool_of True, None, p', rest) \<and>
    (\<exists>m'. mp_packet p' = Some (PSubscribe m') \<and> sb_packetIdentifier m' = sb_packetIdentifier m \<and>
      set (sb_topicFilters m') =
        set (sb_topicFilters (sbp_packet (mp_subscribeParser p))) \<union> set (sb_topicFilters m) \<and>
      distinct (sb_topicFilters m') \<and> asc topic_filter_less (sb_topicFilters m'))"
proof -
  have "comonotone (set (sb_topicFilters (sbp_packet (mp_subscribeParser p)) @ sb_topicFilters m))"
    using assms(6) by (simp add: topic_filter_swo_iff)
  from sort_unique_filters_correct [OF this] subscribe_wire [OF refl assms(1-5), of uuid rest] show ?thesis by fastforce
qed

definition request :: SubscribeControlPacket where
  "request = (SubscribeControlPacket_new 0)
     \<lparr>sb_packetIdentifier := 7, sb_topicFilters := [TopicFilter_of ''b/#'' AtLeastOnce, TopicFilter_of ''a/+'' AtMostOnce]\<rparr>"

lemma new_parser_filters: "sb_topicFilters (sbp_packet (mp_subscribeParser (MQTTParser_new a b))) = []"
  by (simp add: MQTTParser_new_def SubscribeParser_new_def SubscribeControlPacket_new_def)

theorem subscribe_roundtrip_witness:
  "\<exists>buf k p' m'. serialize_subscribe request [] = Some (buf, k) \<and>
     feed (MQTTParser_parse ''id'') (MQTTParser_new 0 0) (take k buf) None = (Tribool_of True, None, p', []) \<and>
     mp_packet p' = Some (PSubscribe m') \<and> set (sb_topicFilters m') = set (sb_topicFilters request)"
proof -
  have "\<not> Option.is_none (serialize_subscribe request [])" by code_simp
  then obtain buf k where s: "serialize_subscribe request [] = Some (buf, k)"
    by (auto simp: Option.is_none_def)
  have v: "TopicFilter_validate (TopicFilter_of ''b/#'' AtLeastOnce) None = (True, None)"
    "TopicFilter_validate (TopicFilter_of ''a/+'' AtMostOnce) None = (True, None)" by code_simp+
  have f: "wire_filter f" if "f \<in> set (sb_topicFilters request)" for f
    using that v by (auto simp: request_def wire_filter_def TopicFilter_of_def)
  have n: "length (subscribe_body (sb_packetIdentifier request) (sb_topicFilters request)) < 2 ^ 28"
    by (simp add: request_def subscribe_body_def filter_bytes_def TopicFilter_of_def)
  have "sb_topicFilters request \<noteq> []" by (simp add: request_def)
  moreover have "swo_on topic_filter_less
      (set (sb_topicFilters (sbp_packet (mp_subscribeParser (MQTTParser_new 0 0)))) \<union> set (sb_topicFilters request))"
    by (subst topic_filter_swo_iff)
      (auto simp: comonotone_def request_def TopicFilter_of_def less_eq_QoSLevel_def new_parser_filters)
  ultimately obtain p' m' where
    "feed (MQTTParser_parse ''id'') (MQTTParser_new 0 0) (take k buf) None = (Tribool_of True, None, p', [])"
    "mp_packet p' = Some (PSubscribe m')" "sb_packetIdentifier m' = 7" "distinct (sb_topicFilters m')"
    "set (sb_topicFilters m') = set (sb_topicFilters request)"
    using subscribe_roundtrip [OF n _ f s idle_new, of 0 0 "''id''" "[]"] by (auto simp: request_def new_parser_filters)
  with s show ?thesis by blast
qed

text \<open>
  A SUBACK packet with at most 125 levels that was serialized is read back with its
  packet identifier; its levels are added to those the parser kept from the packet before.
\<close>

theorem suback_roundtrip:
  assumes "length (sa_qosLevels m) < 126" "sa_qosLevels m \<noteq> []" "QoSError \<notin> set (sa_qosLevels m)"
    "serialize_suback m buffer = Some (buf', k)" "idle p"
  shows "\<exists>p'. feed (MQTTParser_parse uuid) p (take k buf' @ rest) None = (Tribool_of True, None, p', rest) \<and>
    (\<exists>m'. mp_packet p' = Some (PSubAck m') \<and> sa_packetIdentifier m' = sa_packetIdentifier m \<and>
      sa_qosLevels m' = sa_qosLevels (sap_packet (mp_subAckParser p)) @ sa_qosLevels m)"
  by (rule suback_wire [OF assms])

definition grant :: SubAckControlPacket where
  "grant = (SubAckControlPacket_new 0)\<lparr>sa_packetIdentifier := 7, sa_qosLevels := [AtMostOnce, AtLeastOnce]\<rparr>"

theorem suback_roundtrip_witness:
  "\<exists>buf k p'. serialize_suback grant [0, 0, 0, 0, 0, 0] = Some (buf, k) \<and>
     feed (MQTTParser_parse ''id'') (MQTTParser_new 0 0) (take k buf) None = (Tribool_of True, None, p', [])"
proof -
  have "\<not> Option.is_none (serialize_suback grant [0, 0, 0, 0, 0, 0])" by code_simp
  then obtain buf k where s: "serialize_suback grant [0, 0, 0, 0, 0, 0] = Some (buf, k)"
    by (auto simp: Option.is_none_def)
  have "length (sa_qosLevels grant) < 126" "sa_qosLevels grant \<noteq> []" "QoSError \<notin> set (sa_qosLevels grant)"
    by (simp_all add: grant_def)
  from suback_roundtrip [OF this s idle_new, of "''id''" 0 0 "[]"] s show ?thesis by auto
qed



text \<open>
  It does not matter how the bytes of the stream are cut into read buffers: feeding two
  buffers one after the other is feeding their concatenation, with the same answer, error
  code, parser and bytes left over.
\<close>

theorem segmentation_independent:
  "feed (MQTTParser_parse uuid) p (xs @ ys) err =
     (case feed (MQTTParser_parse uuid) p xs err of
        (r, err', p', rest) \<Rightarrow>
          if isIndeterminate r then feed (MQTTParser_parse uuid) p' ys err' else (r, err', p', rest @ ys))"
  using feed_append_indet [of "MQTTParser_parse uuid" p xs err] feed_append_stop [of "MQTTParser_parse uuid" p xs err]
  by (auto split: prod.split)

text \<open>
  C17. Remaining lengths round trip: every length below \<open>2 ^ 28\<close> is encoded in at most four
  bytes, and the fixed header parser reads the encoded length back and stops behind it.
\<close>

theorem remaining_length_roundtrip:
  assumes "n < 2 ^ 28"
  shows "\<exists>buf k p. RunlengthEncoder_encode (of_nat n) (replicate 4 0, 0) = Some (buf, k) \<and> k \<le> 4 \<and>
    feed FixedHeaderParser_parse FixedHeaderParser_new (ControlPacketType_byte Publish # take k buf @ rest) None =
      (Tribool_of True, None, p, rest) \<and> unat (fh_length (fhp_header p)) = n"
proof -
  have u: "unat (of_nat n :: u32) = n" using assms by (intro u32_of_nat_unat) simp
  have len: "length (varint n) \<le> 4"
    using assms varint_length_bounds [of n] varint_length_4 [of n] by linarith
  then have "length (varint n) \<le> length (replicate 4 0 :: u8 list)" by simp
  from put_all_front [OF this] obtain buf where
    "put_all (varint n) (replicate 4 0, 0) = Some (buf, length (varint n))" "take (length (varint n)) buf = varint n"
    by metis
  moreover have "\<exists>p. feed FixedHeaderParser_parse FixedHeaderParser_new (header_bytes Publish 0 n @ rest) None =
      (Tribool_of True, None, p, rest) \<and> fhp_header p = \<lparr>fh_controlPacketType = Publish, fh_flags = 0, fh_length = of_nat n\<rparr>"
    by (rule FixedHeaderParser_roundtrip [OF _ _ assms]) (simp_all add: flags_allowed_def)
  ultimately show ?thesis using len u by (auto simp: RunlengthEncoder_encode_eq header_bytes_def)
qed

theorem remaining_length_roundtrip_witness:
  "\<exists>buf k. RunlengthEncoder_encode (of_nat 321) (replicate 4 0, 0) = Some (buf, k) \<and> k \<le> 4"
  using remaining_length_roundtrip [of 321 "[]"] by auto

text \<open>
  C18. \<open>serialize\<close> for PUBLISH enlarges the buffer to two bytes more than the remaining
  length. It writes beyond the end of the buffer exactly when the remaining length takes more
  than one byte and the buffer was not large enough from an earlier packet.
\<close>

theorem publish_overrun:
  assumes "n = length (pb_topicName m) + length (pb_payload m) + 2" "n < 2 ^ 32 - 2"
  shows "serialize_publish m buffer = None \<longleftrightarrow> 128 \<le> n \<and> length buffer < 1 + length (varint n) + n"
proof -
  define body where "body = publish_body AtMostOnce (pb_topicName m) 0 (pb_payload m)"
  then have n: "length body = n" using assms(1) by (simp add: publish_body_def)
  then have "length body < 2 ^ 32 - 2" using assms(2) by simp
  from serialize_publish_eq [OF body_def this, of buffer]
  show ?thesis unfolding put_all_packet by (simp add: packet_bytes_length n not_le not_less)
qed

definition long_reading :: PublishControlPacket where
  "long_reading = (PublishControlPacket_new 0)\<lparr>pb_topicName := ''a/x'', pb_payload := replicate 200 1\<rparr>"

theorem publish_overrun_witness: "serialize_publish long_reading [] = None"
proof -
  have "205 = length (pb_topicName long_reading) + length (pb_payload long_reading) + 2"
    by (simp add: long_reading_def)
  from publish_overrun [OF this, of "[]"] show ?thesis by simp
qed

text \<open>
  \<open>serialize\<close> for SUBACK writes two bytes more than it reserves: it writes beyond the
  end of the buffer exactly when the buffer was not large enough from an earlier packet.
\<close>

theorem suback_overrun:
  assumes "length (sa_qosLevels m) < 126"
  shows "serialize_suback m buffer = None \<longleftrightarrow> length buffer < length (sa_qosLevels m) + 4"
  using serialize_suback_overrun [OF refl, of m buffer] assms
  by (simp add: suback_body_def numeral_eq_Suc)

theorem suback_overrun_witness: "serialize_suback grant [] = None"
proof -
  have "length (sa_qosLevels grant) < 126" by (simp add: grant_def)
  from suback_overrun [OF this, of "[]"] show ?thesis by simp
qed

text \<open>
  A publication of QoS 0 without payload is not recognised: with its last byte the
  parser is still waiting, and it answers the first byte of the next packet with an error.
\<close>

theorem empty_payload_stuck:
  assumes "length topic < 2 ^ 16" "TopicName_validate topic None = (True, None)"
  shows "(\<exists>p'. feed PublishParser_parse (PublishParser_reset AtMostOnce (of_nat (length topic + 2)) p)
      (string_bytes topic) None = (Tribool_new, None, p', [])) \<and>
    (\<exists>p'. feed PublishParser_parse (PublishParser_reset AtMostOnce (of_nat (length topic + 2)) p)
      (string_bytes topic @ [b]) None = (Tribool_of False, Some control_packet_length, p', []))"
  using PublishParser_empty_payload [OF assms] by blast

theorem empty_payload_stuck_witness:
  "fst (feed PublishParser_parse (PublishParser_reset AtMostOnce (of_nat (length ''a/x'' + 2)) (PublishParser_new 0 0 AtMostOnce 0))
     (string_bytes ''a/x'' @ [0xC0]) None) = Tribool_of False"
proof -
  have "TopicName_validate ''a/x'' None = (True, None)" by code_simp
  moreover have "length ''a/x'' < 2 ^ 16" by simp
  ultimately show ?thesis using empty_payload_stuck [of "''a/x''" "PublishParser_new 0 0 AtMostOnce 0" "0xC0"] by auto
qed


section \<open>HTTP: cookies, query parameters, sessions\<close>




text \<open>
  The parameters of a query string whose names and values were URL-encoded are read
  back, the last one where a name occurs several times, provided that no name contains \<open>=\<close>
  or \<open>&\<close> and no value contains \<open>&\<close>.
\<close>

theorem query_string_roundtrip:
  assumes "\<And>k v. (k, v) \<in> set ps \<Longrightarrow> CHR ''='' \<notin> set k \<and> CHR ''&'' \<notin> set k \<and> CHR ''&'' \<notin> set v"
  shows "\<exists>qs. HttpQueryParameter_new (query_of ps) = Inr qs \<and>
    (\<forall>k. parameter qs k = (case map_of (rev ps) k of
       None \<Rightarrow> Inl (InvalidParameter (''Parameter '' @ quoted k @ '' not found'')) | Some v \<Rightarrow> Inr v))"
proof -
  obtain qs where "HttpQueryParameter_new (query_of ps) = Inr qs" "map_of qs = map_of (rev ps)"
    using query_roundtrip [of ps] assms by blast
  then show ?thesis by (simp add: parameter_def)
qed

theorem query_string_roundtrip_witness:
  "\<exists>qs. HttpQueryParameter_new (query_of [(''q'', ''50% off''), (''p'', ''a=b'')]) = Inr qs \<and>
     parameter qs ''q'' = Inr ''50% off''"
proof -
  have plain: "CHR ''='' \<notin> set k \<and> CHR ''&'' \<notin> set k \<and> CHR ''&'' \<notin> set v"
    if "(k, v) \<in> set [(''q'', ''50% off''), (''p'', ''a=b'')]" for k v using that by auto
  obtain qs where q: "HttpQueryParameter_new (query_of [(''q'', ''50% off''), (''p'', ''a=b'')]) = Inr qs"
    "\<forall>k. parameter qs k = (case map_of (rev [(''q'', ''50% off''), (''p'', ''a=b'')]) k of
       None \<Rightarrow> Inl (InvalidParameter (''Parameter '' @ quoted k @ '' not found'')) | Some v \<Rightarrow> Inr v)"
    using query_string_roundtrip [OF plain] by blast
  from spec [OF q(2), of "''q''"] have "parameter qs ''q'' = Inr ''50% off''" by simp
  with q(1) show ?thesis by blast
qed

text \<open>
  \<open>decode\<close> inverts URL encoding: every text that was encoded as RFC 3986 prescribes is
  decoded to what it was.
\<close>

theorem url_decode_inverts: "decode (url_encode s) = (True, s)"
  by (rule decode_url_encode)

text \<open>
  C29. A session that was invalidated is never found again: whatever happens afterwards,
  \<open>sessionForId\<close> answers with the invalid session, as long as no new session is created
  under the same identifier.
\<close>

theorem ended_session_stays_ended:
  assumes "session_steps (HttpSessionManager_new timeout other start) es m"
    "Manager_invalidate (Stored sid) m = Some m'" "session_steps m' es' m''" "\<not> list_ex (creates sid) es'"
  shows "fst (sessionForId sid now now' m'') = InvalidSession"
proof -
  have "sessions_ok (HttpSessionManager_new timeout other start)"
    by (simp add: sessions_ok_def HttpSessionManager_new_def createInvalidSession_def)
  from invalidate_dead [OF sessions_ok_steps [OF assms(1) this] assms(2)] have "dead sid m'" .
  from dead_not_found [OF dead_steps [OF assms(3) this assms(4)]] show ?thesis .
qed

theorem ended_session_stays_ended_witness:
  "\<exists>m m'. session_steps (HttpSessionManager_new 60 ''x'' 0) [Create ''s'' True 1] m \<and>
     Manager_invalidate (Stored ''s'') m = Some m' \<and> fst (sessionForId ''s'' 2 2 m') = InvalidSession"
proof -
  let ?initial = "HttpSessionManager_new 60 ''x'' 0"
  let ?m = "snd (createSession ''s'' True 1 ?initial)"
  have "createSession ''s'' True 1 ?initial = (Stored ''s'', ?m)"
    by (simp add: createSession_def HttpSessionManager_new_def)
  then have s: "session_steps ?initial [Create ''s'' True 1] ?m"
    by (rule more_steps [OF create no_steps])
  obtain m' where i: "Manager_invalidate (Stored ''s'') ?m = Some m'"
    by (simp add: Manager_invalidate_def createSession_def HttpSessionManager_new_def deref_def HttpSession_new_def)
  from ended_session_stays_ended [OF s i no_steps] s i show ?thesis by auto
qed


section \<open>Paths, strings, numbers\<close>



text \<open>
  A name that was appended to a path is its filename, and what it was appended to is its
  parent path, unless that has a single character: then the parent path is empty.
\<close>

theorem parent_and_filename:
  assumes "plain_name n" "p \<noteq> []" "last p \<noteq> CHR ''/''"
  shows "filename (path_append p n) = n \<and>
    parent_path (path_append p n) = (if length p = 1 then [] else p)"
  using filename_of_append [OF assms] parent_of_append [OF assms] by simp

theorem parent_and_filename_witness: "parent_path ''a/b'' = [] \<and> parent_path ''ab/c'' = ''ab''"
proof -
  have "plain_name ''b''" "plain_name ''c''" by (simp_all add: plain_name_def)
  then show ?thesis
    using parent_and_filename [of "''b''" "''a''"] parent_and_filename [of "''c''" "''ab''"]
    by (simp add: path_append_def)
qed

text \<open>
  \<open>stem\<close> and \<open>extension\<close> cut a filename with a dot at its last dot, except for the names
  \<open>.\<close> and \<open>..\<close>.
\<close>

theorem stem_and_extension:
  assumes "filename p = a @ CHR ''.'' # b" "CHR ''.'' \<notin> set b" "CHR 0x00 \<notin> set b"
    "filename p \<noteq> ''.''" "filename p \<noteq> ''..''"
  shows "stem p = a \<and> extension p = CHR ''.'' # b"
  by (rule stem_extension [OF assms])

theorem stem_and_extension_witness: "stem ''/tmp/a.tar.gz'' = ''a.tar'' \<and> extension ''/tmp/a.tar.gz'' = ''.gz''"
proof -
  have f: "filename ''/tmp/a.tar.gz'' = ''a.tar.gz''" by code_simp
  then have "filename ''/tmp/a.tar.gz'' = ''a.tar'' @ CHR ''.'' # ''gz''" by simp
  from stem_and_extension [OF this] f show ?thesis by simp
qed

text \<open>
  \<open>absolute\<close> returns, and its result is an absolute path, whenever the working directory
  is one.
\<close>

theorem absolute_returns:
  assumes "has_root_directory cwd" "CHR 0x00 \<notin> set cwd" "CHR 0x00 \<notin> set base" "CHR 0x00 \<notin> set p"
  shows "\<exists>q. absolute cwd p base = Some q \<and> is_absolute q"
  by (rule absolute_terminates [OF assms])

theorem absolute_returns_witness: "\<exists>q. absolute ''/home'' ''a/b'' ''c'' = Some q \<and> is_absolute q"
proof -
  have "has_root_directory ''/home''" by code_simp
  from absolute_returns [OF this, of "''c''" "''a/b''"] show ?thesis by simp
qed

text \<open>
  \<open>replaceAll\<close> returns exactly if the string to replace is not empty, and then it has
  replaced every occurrence that is found from left to right.
\<close>

theorem replaceAll_returns:
  "replaceAll source pat to = (if pat = [] then None else Some (replaced pat to source))"
  by (simp add: replaceAll_empty replaceAll_result)

text \<open>
  \<open>numeric_cast\<close> between integral types of any widths and signedness gives the same
  number, or throws exactly if that is not a value of the target type.
\<close>

theorem numeric_cast_checks:
  assumes "src \<in> {uint_kind w, sint_kind w}" "tgt \<in> {uint_kind w', sint_kind w'}" "in_kind src v"
  shows "numeric_cast src tgt v = (if in_kind tgt v then Some v else None)"
  by (rule numeric_cast_exact [OF assms])

theorem numeric_cast_checks_witness:
  "numeric_cast (sint_kind 32) (uint_kind 8) (- 1) = None \<and> numeric_cast (uint_kind 64) (sint_kind 16) 42 = Some 42"
proof
  show "numeric_cast (sint_kind 32) (uint_kind 8) (- 1) = None"
    using numeric_cast_checks [of "sint_kind 32" 32 "uint_kind 8" 8 "- 1"]
    by (simp add: in_kind_def sint_kind_def uint_kind_def)
  show "numeric_cast (uint_kind 64) (sint_kind 16) 42 = Some 42"
    using numeric_cast_checks [of "uint_kind 64" 64 "sint_kind 16" 16 42]
    by (simp add: in_kind_def sint_kind_def uint_kind_def)
qed

end
